(* ===== verification/Prelude.thy ===== *)
theory Prelude
  imports Main "HOL-Library.Word"
begin

unbundle bit_operations_syntax

text \<open>
  What every component of the model shares: the integer types of the source, the outcome
  type of a Rust call (\<open>Ok\<close>, \<open>Err\<close>, a panic, or a loop that did not finish within the
  fuel it was given), checked indexing and slicing, little-endian byte readers and in-place
  copies into a buffer. The collections \<open>outcome_simps\<close> and \<open>bytes_simps\<close> carry the
  rewriting that the component proofs share.
\<close>

named_theorems outcome_simps \<open>rewriting of Rust outcomes\<close>
named_theorems bytes_simps \<open>rewriting of byte readers\<close>

type_synonym u8 = "8 word"
type_synonym u16 = "16 word"
type_synonym u32 = "32 word"
type_synonym u64 = "64 word"

section \<open>Outcomes\<close>

text \<open>
  \<open>Panic\<close> is a Rust panic (an index out of range, a failed \<open>unwrap\<close>, an arithmetic
  failure, an \<open>unimplemented!\<close>); \<open>Diverge\<close> is a loop that has used up its fuel.
\<close>

datatype ('e, 'a) res = Ok 'a | Err 'e | Panic | Diverge

text \<open>The \<open>?\<close> operator: go on with the value of an \<open>Ok\<close>, return anything else at once.\<close>

fun andThen :: "('e, 'a) res \<Rightarrow> ('a \<Rightarrow> ('e, 'b) res) \<Rightarrow> ('e, 'b) res" where
  "andThen (Ok a) f = f a"
| "andThen (Err e) f = Err e"
| "andThen Panic f = Panic"
| "andThen Diverge f = Diverge"

text \<open>The \<open>?\<close> operator in a function that also owns a state \<open>s\<close>, kept as it is on return.\<close>

fun andThenS :: "('e, 'a) res \<Rightarrow> 's \<Rightarrow> ('a \<Rightarrow> ('e, 'b) res \<times> 's) \<Rightarrow> ('e, 'b) res \<times> 's" where
  "andThenS (Ok a) s f = f a"
| "andThenS (Err e) s f = (Err e, s)"
| "andThenS Panic s f = (Panic, s)"
| "andThenS Diverge s f = (Diverge, s)"

text \<open>The same for a call that returns its result together with the new state.\<close>

fun thenS :: "('e, 'a) res \<times> 's \<Rightarrow> ('a \<Rightarrow> 's \<Rightarrow> ('e, 'b) res \<times> 't) \<Rightarrow> ('s \<Rightarrow> 't) \<Rightarrow> ('e, 'b) res \<times> 't" where
  "thenS (Ok a, s) f g = f a s"
| "thenS (Err e, s) f g = (Err e, g s)"
| "thenS (Panic, s) f g = (Panic, g s)"
| "thenS (Diverge, s) f g = (Diverge, g s)"

abbreviation doS :: "('e, 'a) res \<times> 's \<Rightarrow> ('a \<Rightarrow> 's \<Rightarrow> ('e, 'b) res \<times> 's) \<Rightarrow> ('e, 'b) res \<times> 's" where
  "doS m f \<equiv> thenS m f (\<lambda>s. s)"

text \<open>\<open>if let Ok(v) = m\<close> where the other branch is that of the value \<open>d\<close>.\<close>

fun ok_or :: "'a \<Rightarrow> ('e, 'a) res \<Rightarrow> ('e, 'a) res" where
  "ok_or d (Ok a) = Ok a"
| "ok_or d (Err e) = Ok d"
| "ok_or d Panic = Panic"
| "ok_or d Diverge = Diverge"

text \<open>The outcome of a loop written as a partial function: \<open>None\<close> is a loop that does not end.\<close>

fun run_loop :: "('e, 'a) res option \<Rightarrow> ('e, 'a) res" where
  "run_loop None = Diverge"
| "run_loop (Some r) = r"

text \<open>\<open>map\<close> over a list with a function that may fail, from left to right.\<close>

fun map_res :: "('a \<Rightarrow> ('e, 'b) res) \<Rightarrow> 'a list \<Rightarrow> ('e, 'b list) res" where
  "map_res f [] = Ok []"
| "map_res f (a # as) = andThen (f a) (\<lambda>b. andThen (map_res f as) (\<lambda>bs. Ok (b # bs)))"

fun of_option :: "'a option \<Rightarrow> ('e, 'a) res" where
  "of_option None = Panic"
| "of_option (Some a) = Ok a"

fun is_ok :: "('e, 'a) res \<Rightarrow> bool" where
  "is_ok (Ok a) = True"
| "is_ok (Err e) = False"
| "is_ok Panic = False"
| "is_ok Diverge = False"

lemma andThen_eq_Ok [outcome_simps]: "andThen m f = Ok b \<longleftrightarrow> (\<exists>a. m = Ok a \<and> f a = Ok b)"
  by (cases m) auto

lemma andThen_eq_Err [outcome_simps]:
  "andThen m f = Err e \<longleftrightarrow> m = Err e \<or> (\<exists>a. m = Ok a \<and> f a = Err e)"
  by (cases m) auto

lemma andThen_eq_Panic [outcome_simps]:
  "andThen m f = Panic \<longleftrightarrow> m = Panic \<or> (\<exists>a. m = Ok a \<and> f a = Panic)"
  by (cases m) auto

lemma andThen_cong [fundef_cong]:
  "m = m' \<Longrightarrow> (\<And>a. m' = Ok a \<Longrightarrow> f a = g a) \<Longrightarrow> andThen m f = andThen m' g"
  by (cases m') auto

lemma andThen_assoc: "andThen (andThen m f) g = andThen m (\<lambda>a. andThen (f a) g)"
  by (cases m) auto

lemma andThen_ident: "(\<And>a. m = Ok a \<Longrightarrow> f a = Ok a) \<Longrightarrow> andThen m f = m"
  by (cases m) auto

lemma andThenS_cong [fundef_cong]:
  "m = m' \<Longrightarrow> s = s' \<Longrightarrow> (\<And>a. m' = Ok a \<Longrightarrow> f a = g a) \<Longrightarrow>
    andThenS m s f = andThenS m' s' g"
  by (cases m') auto

lemma andThenS_eq_Ok [outcome_simps]:
  "andThenS r s f = (Ok b, t) \<longleftrightarrow> (\<exists>a. r = Ok a \<and> f a = (Ok b, t))"
  by (cases r) auto

lemma thenS_eq_Ok [outcome_simps]:
  "thenS m f g = (Ok b, t) \<longleftrightarrow> (\<exists>a s. m = (Ok a, s) \<and> f a s = (Ok b, t))"
  by (cases m; cases "fst m") auto

lemma map_res_cong [fundef_cong]:
  "xs = ys \<Longrightarrow> (\<And>a. a \<in> set ys \<Longrightarrow> f a = g a) \<Longrightarrow> map_res f xs = map_res g ys"
  by (induction ys arbitrary: xs) auto

lemma map_res_Ok: "(\<And>a. a \<in> set xs \<Longrightarrow> f a = Ok (g a)) \<Longrightarrow> map_res f xs = Ok (map g xs)"
  by (induction xs) auto

lemma of_option_eq_Ok [outcome_simps]: "of_option m = Ok a \<longleftrightarrow> m = Some a"
  by (cases m) auto

lemma is_ok_iff [outcome_simps]: "is_ok m \<longleftrightarrow> (\<exists>a. m = Ok a)"
  by (cases m) auto

section \<open>Checked indexing, slicing and copying\<close>

definition index_at :: "'a list \<Rightarrow> nat \<Rightarrow> ('e, 'a) res" where
  "index_at xs i = (if i < length xs then Ok (xs ! i) else Panic)"

definition slice :: "'a list \<Rightarrow> nat \<Rightarrow> nat \<Rightarrow> ('e, 'a list) res" where
  "slice xs a b = (if a \<le> b \<and> b \<le> length xs then Ok (take (b - a) (drop a xs)) else Panic)"

text \<open>
  \<open>buf[at..at + src.len()].copy_from_slice(src)\<close>, where the range is within the buffer.
\<close>

definition copy_into :: "'a list \<Rightarrow> nat \<Rightarrow> 'a list \<Rightarrow> 'a list" where
  "copy_into buf at src = take at buf @ src @ drop (at + length src) buf"

lemma slice_Ok [outcome_simps]:
  "a \<le> b \<Longrightarrow> b \<le> length xs \<Longrightarrow> slice xs a b = Ok (take (b - a) (drop a xs))"
  by (simp add: slice_def)

lemma index_at_Ok [outcome_simps]: "i < length xs \<Longrightarrow> index_at xs i = Ok (xs ! i)"
  by (simp add: index_at_def)

lemma length_copy_into [simp]:
  "at + length src \<le> length buf \<Longrightarrow> length (copy_into buf at src) = length buf"
  by (simp add: copy_into_def)

lemma take_copy_into:
  "at + length src \<le> length buf \<Longrightarrow> take (at + length src) (copy_into buf at src) = take at buf @ src"
  by (simp add: copy_into_def)

lemma drop_copy_into:
  "at + length src \<le> n \<Longrightarrow> at + length src \<le> length buf \<Longrightarrow> drop n (copy_into buf at src) = drop n buf"
  by (simp add: copy_into_def)

text \<open>Appending to the part of the buffer already written.\<close>

lemma copy_into_append:
  assumes "length done' = at" "at + length src \<le> length buf"
  shows "copy_into (done' @ drop at buf) at src = (done' @ src) @ drop (at + length src) buf"
  using assms by (simp add: copy_into_def add.commute)

text \<open>A piece of a concatenation of blocks of one size that stays within a block.\<close>

lemma length_concat_blocks:
  "\<forall>b\<in>set bs. length b = k \<Longrightarrow> length (concat bs) = length bs * k"
  by (induction bs) auto

lemma drop_concat_blocks:
  "\<forall>b\<in>set bs. length b = k \<Longrightarrow> drop (q * k) (concat bs) = concat (drop q bs)"
proof (induction bs arbitrary: q)
  case (Cons b bs)
  then show ?case by (cases q) auto
qed simp

lemma take_drop_concat_blocks:
  assumes "\<forall>b\<in>set bs. length b = k" "q < length bs" "r + n \<le> k"
  shows "take n (drop (q * k + r) (concat bs)) = take n (drop r (bs ! q))"
proof -
  have "drop (q * k) (concat bs) = bs ! q @ concat (drop (Suc q) bs)"
    using assms(1, 2) by (simp add: drop_concat_blocks Cons_nth_drop_Suc [symmetric])
  moreover have "length (bs ! q) = k" using assms(1, 2) by simp
  moreover have "drop (q * k + r) (concat bs) = drop r (drop (q * k) (concat bs))"
    by (simp add: add.commute)
  ultimately show ?thesis
    using assms(3) by simp
qed

section \<open>Little-endian integers\<close>

definition u16_le :: "u8 \<Rightarrow> u8 \<Rightarrow> u16" where
  "u16_le b0 b1 = ucast b0 OR push_bit 8 (ucast b1)"

definition u32_le :: "u8 \<Rightarrow> u8 \<Rightarrow> u8 \<Rightarrow> u8 \<Rightarrow> u32" where
  "u32_le b0 b1 b2 b3 =
     ucast b0 OR push_bit 8 (ucast b1) OR push_bit 16 (ucast b2) OR push_bit 24 (ucast b3)"

definition u16_to_le :: "u16 \<Rightarrow> u8 list" where
  "u16_to_le w = [ucast w, ucast (drop_bit 8 w)]"

definition u32_to_le :: "u32 \<Rightarrow> u8 list" where
  "u32_to_le w = [ucast w, ucast (drop_bit 8 w), ucast (drop_bit 16 w), ucast (drop_bit 24 w)]"

lemma unat_u8_less: "unat (b :: u8) < 256"
  using unsigned_less [where ?'a = nat, of b] by simp

lemma unat_u16_less: "unat (w :: u16) < 65536"
  using unsigned_less [where ?'a = nat, of w] by simp

lemma unat_u32_less: "unat (w :: u32) < 4294967296"
  using unsigned_less [where ?'a = nat, of w] by simp

lemma unat_u16_le [bytes_simps]: "unat (u16_le a b) = unat a + 256 * unat b"
proof -
  have "u16_le a b = ucast a + push_bit 8 (ucast b)"
    unfolding u16_le_def
    by (rule disjunctive_add [symmetric]) (auto simp: bit_simps dest: bit_imp_le_length)
  also have "unat \<dots> = unat a + 256 * unat b"
    using unat_u8_less [of a] unat_u8_less [of b]
    by (simp add: push_bit_eq_mult unat_word_ariths unsigned_ucast_eq take_bit_eq_mod)
  finally show ?thesis .
qed

lemma unat_u32_le [bytes_simps]:
  "unat (u32_le a b c d) = unat a + 256 * unat b + 65536 * unat c + 16777216 * unat d"
proof -
  have "u32_le a b c d =
      ucast a + push_bit 8 (ucast b) + push_bit 16 (ucast c) + push_bit 24 (ucast d)"
    unfolding u32_le_def
    apply (subst disjunctive_add, (auto simp: bit_simps dest: bit_imp_le_length)[1])+
    apply (simp add: or.assoc)
    done
  also have "unat \<dots> = unat a + 256 * unat b + 65536 * unat c + 16777216 * unat d"
    using unat_u8_less [of a] unat_u8_less [of b] unat_u8_less [of c] unat_u8_less [of d]
    by (simp add: push_bit_eq_mult unat_word_ariths unsigned_ucast_eq take_bit_eq_mod)
  finally show ?thesis .
qed

lemma u16_le_ucast [bytes_simps]: "u16_le (ucast w) (ucast (drop_bit 8 w)) = w"
  unfolding u16_le_def by (rule bit_word_eqI) (auto simp: bit_simps)

lemma u32_le_ucast [bytes_simps]:
  "u32_le (ucast w) (ucast (drop_bit 8 w)) (ucast (drop_bit 16 w)) (ucast (drop_bit 24 w)) = w"
  unfolding u32_le_def
  apply (rule bit_word_eqI)
  subgoal for n by (cases "n < 8"; cases "n < 16"; cases "n < 24") (auto simp: bit_simps)
  done

lemma u32_to_le_u32_le [bytes_simps]: "u32_to_le (u32_le a b c d) = [a, b, c, d]"
  unfolding u32_to_le_def u32_le_def
  apply (simp, intro conjI)
     apply (rule bit_word_eqI; auto simp: bit_simps dest: bit_imp_le_length)+
  done

lemma length_u32_to_le [simp]: "length (u32_to_le w) = 4"
  by (simp add: u32_to_le_def)

declare unat_u8_less [simp] unat_u16_less [simp] unat_u32_less [simp]

section \<open>Strings\<close>

text \<open>
  A Rust \<open>str\<close> is its UTF-8 bytes. \<open>str ''abc''\<close> is the byte string of an ASCII literal.
\<close>

definition str :: "string \<Rightarrow> u8 list" where
  "str s = map of_char s"

end
