(* ===== verification/Storage.thy ===== *)
theory Storage
  imports Prelude
begin

text \<open>
  The data of \<open>pkg/storage/src/common\<close>: the error enums, file metadata, the block-device
  trait object and a partition as a window onto an inner device
  (\<open>pkg/storage/src/partition/mod.rs\<close>).
\<close>

section \<open>Errors\<close>

datatype device_error =
    Busy | UnknownDevice | DevUnknown | DevInvalidOperation | ReadError | WriteError
  | WithStatus nat

datatype filename_error =
    InvalidCharacter | FilenameEmpty | NameTooLong | MisplacedPeriod | Utf8Error | UnableToParse

datatype fs_error =
    FileNotFound | NotInSector | EndOfFile | WriteZero | NotADirectory | NotAFile | ReadOnly
  | InvalidOperation | NotSupported | BadCluster | InvalidOffset
  | FileNameError filename_error | DeviceError device_error | InvalidPath "u8 list"

type_synonym 'a fs_result = "(fs_error, 'a) res"

section \<open>Blocks and block devices\<close>

text \<open>\<open>Block512\<close>: the sector size of the trait's only instance in the repository.\<close>

definition BLOCK_SIZE :: nat where
  "BLOCK_SIZE = 512"

definition block_default :: "u8 list" where
  "block_default = replicate BLOCK_SIZE 0"

text \<open>
  A \<open>dyn BlockDevice<Block512>\<close>: its three methods over the state \<open>'d\<close> behind \<open>&self\<close>.
  Reading leaves the device's data as it is; a write returns the new state.
\<close>

record 'd block_device =
  bd_count :: "'d \<Rightarrow> nat fs_result"
  bd_read :: "'d \<Rightarrow> nat \<Rightarrow> u8 list fs_result"
  bd_write :: "'d \<Rightarrow> nat \<Rightarrow> u8 list \<Rightarrow> 'd fs_result"

section \<open>Partitions\<close>

record 'd partition =
  p_inner :: "'d block_device"
  p_offset :: nat
  p_size :: nat

definition partition_new :: "'d block_device \<Rightarrow> nat \<Rightarrow> nat \<Rightarrow> 'd partition" where
  "partition_new inner off sz = \<lparr>p_inner = inner, p_offset = off, p_size = sz\<rparr>"

definition partition_block_count :: "'d partition \<Rightarrow> 'd \<Rightarrow> nat fs_result" where
  "partition_block_count p d = bd_count (p_inner p) d"

definition partition_read_block :: "'d partition \<Rightarrow> 'd \<Rightarrow> nat \<Rightarrow> u8 list fs_result" where
  "partition_read_block p d off =
     (if p_size p \<le> off then Err InvalidOffset
      else bd_read (p_inner p) d (p_offset p + off))"

definition partition_write_block :: "'d partition \<Rightarrow> 'd \<Rightarrow> nat \<Rightarrow> u8 list \<Rightarrow> 'd fs_result" where
  "partition_write_block p d off b =
     (if p_size p \<le> off then Err InvalidOffset
      else bd_write (p_inner p) d (p_offset p + off) b)"

text \<open>\<open>impl BlockDevice for Partition\<close>: the partition as a device of its own.\<close>

definition partition_device :: "'d partition \<Rightarrow> 'd block_device" where
  "partition_device p =
     \<lparr>bd_count = partition_block_count p, bd_read = partition_read_block p,
      bd_write = partition_write_block p\<rparr>"

section \<open>File metadata\<close>

datatype file_type = FileT | DirectoryT

record 't metadata =
  md_name :: "u8 list"
  md_entry_type :: file_type
  md_len :: nat
  md_created :: "'t option"
  md_modified :: "'t option"
  md_accessed :: "'t option"

definition metadata_new ::
  "u8 list \<Rightarrow> file_type \<Rightarrow> nat \<Rightarrow> 't option \<Rightarrow> 't option \<Rightarrow> 't option \<Rightarrow> 't metadata" where
  "metadata_new name entry_type len created modified accessed =
     \<lparr>md_name = name, md_entry_type = entry_type, md_len = len, md_created = created,
      md_modified = modified, md_accessed = accessed\<rparr>"

definition metadata_is_file :: "'t metadata \<Rightarrow> bool" where
  "metadata_is_file m \<longleftrightarrow> md_entry_type m = FileT"

definition metadata_is_dir :: "'t metadata \<Rightarrow> bool" where
  "metadata_is_dir m \<longleftrightarrow> md_entry_type m = DirectoryT"

section \<open>A partition is a window\<close>

text \<open>Which block of the inner device a request of the partition reaches, if any.\<close>

definition partition_target :: "'d partition \<Rightarrow> nat \<Rightarrow> nat option" where
  "partition_target p off = (if off < p_size p then Some (p_offset p + off) else None)"

lemma partition_read_target:
  "partition_read_block p d off =
     (case partition_target p off of None \<Rightarrow> Err InvalidOffset | Some i \<Rightarrow> bd_read (p_inner p) d i)"
  by (simp add: partition_read_block_def partition_target_def)

lemma partition_write_target:
  "partition_write_block p d off b =
     (case partition_target p off of None \<Rightarrow> Err InvalidOffset
      | Some i \<Rightarrow> bd_write (p_inner p) d i b)"
  by (simp add: partition_write_block_def partition_target_def)

lemma partition_target_range:
  "partition_target p off = Some i \<Longrightarrow> p_offset p \<le> i \<and> i < p_offset p + p_size p"
  by (auto simp: partition_target_def split: if_splits)

end
