(* ===== verification/Mbr.thy ===== *)
theory Mbr
  imports Storage
begin

text \<open>
  The master boot record: \<open>pkg/storage/src/partition/mbr/entry.rs\<close> (one 16-byte entry) and
  \<open>pkg/storage/src/partition/mbr/mod.rs\<close> (the table and the partition objects made from
  it). The \<open>define_field!\<close> accessors of \<open>common/macros.rs\<close> are the \<open>field_*\<close>
  functions, shared with the boot sector. Trace output is left out.
\<close>

section \<open>The field accessors of define_field!\<close>

text \<open>
  \<open>self.data.get(off).unwrap_or(&0)\<close>, and \<open>from_le_bytes\<close> of a slice with the default 0.
  The arrays have a fixed length that holds every offset the source uses.
\<close>

definition field_u8 :: "u8 list \<Rightarrow> nat \<Rightarrow> u8" where
  "field_u8 d off = (if off < length d then d ! off else 0)"

definition field_u16 :: "u8 list \<Rightarrow> nat \<Rightarrow> u16" where
  "field_u16 d off =
     (if off + 2 \<le> length d then u16_le (d ! off) (d ! (off + 1)) else 0)"

definition field_u32 :: "u8 list \<Rightarrow> nat \<Rightarrow> u32" where
  "field_u32 d off =
     (if off + 4 \<le> length d
      then u32_le (d ! off) (d ! (off + 1)) (d ! (off + 2)) (d ! (off + 3)) else 0)"

definition field_bytes :: "u8 list \<Rightarrow> nat \<Rightarrow> nat \<Rightarrow> u8 list" where
  "field_bytes d off len =
     (if off + len \<le> length d then take len (drop off d) else replicate len 0)"

section \<open>A partition entry\<close>

record mbr_partition =
  mp_data :: "u8 list"

definition mbr_partition_default :: mbr_partition where
  "mbr_partition_default = \<lparr>mp_data = replicate 16 0\<rparr>"

definition mbr_partition_parse :: "u8 list \<Rightarrow> mbr_partition" where
  "mbr_partition_parse data = \<lparr>mp_data = data\<rparr>"

definition status :: "mbr_partition \<Rightarrow> u8" where
  "status p = field_u8 (mp_data p) 0x00"

definition begin_head :: "mbr_partition \<Rightarrow> u8" where
  "begin_head p = field_u8 (mp_data p) 0x01"

definition partition_type :: "mbr_partition \<Rightarrow> u8" where
  "partition_type p = field_u8 (mp_data p) 0x04"

definition end_head :: "mbr_partition \<Rightarrow> u8" where
  "end_head p = field_u8 (mp_data p) 0x05"

definition begin_lba :: "mbr_partition \<Rightarrow> u32" where
  "begin_lba p = field_u32 (mp_data p) 0x08"

definition total_lba :: "mbr_partition \<Rightarrow> u32" where
  "total_lba p = field_u32 (mp_data p) 0x0C"

definition begin_sector :: "mbr_partition \<Rightarrow> u16" where
  "begin_sector p = ucast (mp_data p ! 0x02 AND 0x3f)"

definition begin_cylinder :: "mbr_partition \<Rightarrow> u16" where
  "begin_cylinder p =
     push_bit 2 (ucast (mp_data p ! 0x02) AND 0xc0) OR ucast (mp_data p ! 0x03)"

definition end_sector :: "mbr_partition \<Rightarrow> u16" where
  "end_sector p = ucast (mp_data p ! 0x06 AND 0x3f)"

definition end_cylinder :: "mbr_partition \<Rightarrow> u16" where
  "end_cylinder p =
     push_bit 2 (ucast (mp_data p ! 0x06 AND 0xc0)) OR ucast (mp_data p ! 0x07)"

definition is_active :: "mbr_partition \<Rightarrow> bool" where
  "is_active p \<longleftrightarrow> status p = 0x80"

section \<open>The table\<close>

record 'd mbr_table =
  mt_inner :: "'d block_device"
  mt_partitions :: "mbr_partition list"

text \<open>
  The loop of \<open>MbrTable::parse\<close>: entry \<open>i\<close> is the 16 bytes at \<open>0x1BE + i * 16\<close>; a
  slice out of range would panic.
\<close>

fun parse_entries :: "u8 list \<Rightarrow> nat \<Rightarrow> nat \<Rightarrow> mbr_partition list \<Rightarrow> mbr_partition list fs_result"
where
  "parse_entries buffer i 0 parts = Ok parts"
| "parse_entries buffer i (Suc n) parts =
     andThen (slice buffer (0x1BE + i * 16) (0x1BE + i * 16 + 16))
       (\<lambda>part_data. parse_entries buffer (i + 1) n (parts[i := mbr_partition_parse part_data]))"

definition mbr_table_parse :: "'d block_device \<Rightarrow> 'd \<Rightarrow> 'd mbr_table fs_result" where
  "mbr_table_parse inner d =
     andThen (bd_read inner d 0) (\<lambda>buffer.
     andThen (parse_entries buffer 0 4 (replicate 4 mbr_partition_default)) (\<lambda>parts.
       Ok \<lparr>mt_inner = inner, mt_partitions = parts\<rparr>))"

definition mbr_partitions :: "'d mbr_table \<Rightarrow> 'd partition list fs_result" where
  "mbr_partitions t =
     Ok (map (\<lambda>part. partition_new (mt_inner t) (unat (begin_lba part)) (unat (total_lba part)))
           (filter is_active (mt_partitions t)))"

definition get_partition_type_name :: "u8 \<Rightarrow> string" where
  "get_partition_type_name t =
     (if t = 0x00 then ''Empty'' else if t = 0x01 then ''FAT12'' else if t = 0x04 then ''FAT16 <32M''
      else if t = 0x05 then ''Extended'' else if t = 0x06 then ''FAT16''
      else if t = 0x07 then ''NTFS/HPFS'' else if t = 0x0B then ''Win95 FAT32''
      else if t = 0x0C then ''Win95 FAT32 (LBA)'' else if t = 0x0E then ''Win95 FAT16 (LBA)''
      else if t = 0x0F then ''Win95 Extended (LBA)'' else if t = 0x82 then ''Linux swap''
      else if t = 0x83 then ''Linux'' else if t = 0x8E then ''Linux LVM''
      else if t = 0xFD then ''Linux RAID'' else ''Unknown'')"

section \<open>What parsing computes\<close>

text \<open>Entry \<open>i\<close> of a 512-byte sector.\<close>

definition mbr_entry :: "u8 list \<Rightarrow> nat \<Rightarrow> mbr_partition" where
  "mbr_entry sector i = \<lparr>mp_data = take 16 (drop (0x1BE + i * 16) sector)\<rparr>"

lemma parse_entries_eq:
  assumes "length sector = BLOCK_SIZE"
  shows "parse_entries sector 0 4 (replicate 4 mbr_partition_default) =
    Ok (map (mbr_entry sector) [0, 1, 2, 3])"
  using assms
  by (simp add: eval_nat_numeral slice_def BLOCK_SIZE_def mbr_partition_parse_def mbr_entry_def)

lemma mbr_table_parse_ok:
  assumes "bd_read inner d 0 = Ok sector" "length sector = BLOCK_SIZE"
  shows "mbr_table_parse inner d =
    Ok \<lparr>mt_inner = inner, mt_partitions = map (mbr_entry sector) [0, 1, 2, 3]\<rparr>"
  using assms by (simp add: mbr_table_parse_def parse_entries_eq)

text \<open>The fields of entry \<open>i\<close>, read from the sector itself.\<close>

lemma field_u32_window:
  assumes "k + 4 \<le> n" "a + n \<le> length d"
  shows "field_u32 (take n (drop a d)) k = field_u32 d (a + k)"
  using assms by (simp add: field_u32_def add.assoc)

lemma mbr_entry_lba:
  assumes "i < 4" "length sector = BLOCK_SIZE"
  shows "begin_lba (mbr_entry sector i) = field_u32 sector (0x1BE + i * 16 + 0x08)"
    and "total_lba (mbr_entry sector i) = field_u32 sector (0x1BE + i * 16 + 0x0C)"
  using assms field_u32_window [of 8 16 "0x1BE + i * 16" sector]
    field_u32_window [of 12 16 "0x1BE + i * 16" sector]
  by (simp_all add: begin_lba_def total_lba_def mbr_entry_def BLOCK_SIZE_def)

lemma mbr_entry_active:
  assumes "i < 4" "length sector = BLOCK_SIZE"
  shows "is_active (mbr_entry sector i) \<longleftrightarrow> sector ! (0x1BE + i * 16) = 0x80"
  using assms by (simp add: is_active_def status_def field_u8_def mbr_entry_def BLOCK_SIZE_def)

end
