(* ===== verification/Text.thy ===== *)
theory Text
  imports Prelude "HOL-Library.Sublist"
begin

text \<open>
  The parts of \<open>core::str\<close> that the source uses, on byte strings: UTF-8 validation
  (\<open>from_utf8\<close>), trimming of Unicode white space, \<open>find\<close>, \<open>split\<close> and
  \<open>trim_start_matches\<close>.
\<close>

section \<open>UTF-8 validation\<close>

definition between :: "u8 \<Rightarrow> u8 \<Rightarrow> u8 \<Rightarrow> bool" where
  "between lo hi b \<longleftrightarrow> lo \<le> b \<and> b \<le> hi"

definition utf8_second3 :: "u8 \<Rightarrow> u8 \<Rightarrow> bool" where
  "utf8_second3 a b \<longleftrightarrow>
     a = 0xE0 \<and> between 0xA0 0xBF b \<or> between 0xE1 0xEC a \<and> between 0x80 0xBF b
     \<or> a = 0xED \<and> between 0x80 0x9F b \<or> between 0xEE 0xEF a \<and> between 0x80 0xBF b"

definition utf8_second4 :: "u8 \<Rightarrow> u8 \<Rightarrow> bool" where
  "utf8_second4 a b \<longleftrightarrow>
     a = 0xF0 \<and> between 0x90 0xBF b \<or> between 0xF1 0xF3 a \<and> between 0x80 0xBF b
     \<or> a = 0xF4 \<and> between 0x80 0x8F b"

fun utf8_valid :: "u8 list \<Rightarrow> bool" where
  "utf8_valid [] = True"
| "utf8_valid [a] = (a < 0x80)"
| "utf8_valid [a, b] =
     (if a < 0x80 then utf8_valid [b] else between 0xC2 0xDF a \<and> between 0x80 0xBF b)"
| "utf8_valid [a, b, c] =
     (if a < 0x80 then utf8_valid [b, c]
      else if between 0xC2 0xDF a then between 0x80 0xBF b \<and> utf8_valid [c]
      else utf8_second3 a b \<and> between 0x80 0xBF c)"
| "utf8_valid (a # b # c # d # bs) =
     (if a < 0x80 then utf8_valid (b # c # d # bs)
      else if between 0xC2 0xDF a then between 0x80 0xBF b \<and> utf8_valid (c # d # bs)
      else if between 0xE0 0xEF a
        then utf8_second3 a b \<and> between 0x80 0xBF c \<and> utf8_valid (d # bs)
      else utf8_second4 a b \<and> between 0x80 0xBF c \<and> between 0x80 0xBF d \<and> utf8_valid bs)"

definition ascii :: "u8 list \<Rightarrow> bool" where
  "ascii s \<longleftrightarrow> list_all (\<lambda>b. b < 0x80) s"

lemma ascii_utf8_valid: "ascii s \<Longrightarrow> utf8_valid s"
  unfolding ascii_def by (induction s rule: utf8_valid.induct) auto

section \<open>Replacing invalid UTF-8\<close>

text \<open>
  \<open>String::from_utf8_lossy\<close>: U+FFFD for each maximal part that starts like a character and is
  none; beyond the end a byte counts as 0.
\<close>

definition byte_or_0 :: "u8 list \<Rightarrow> nat \<Rightarrow> u8" where
  "byte_or_0 bs i = (if i < length bs then bs ! i else 0)"

definition replacement_char :: "u8 list" where "replacement_char = [0xEF, 0xBF, 0xBD]"

function utf8_lossy :: "u8 list \<Rightarrow> u8 list" where
  "utf8_lossy [] = []"
| "utf8_lossy (a # bs) =
     (let b = byte_or_0 bs 0; c = byte_or_0 bs 1; d = byte_or_0 bs 2 in
      if a < 0x80 then a # utf8_lossy bs
      else if between 0xC2 0xDF a then
        (if between 0x80 0xBF b then a # b # utf8_lossy (drop 1 bs) else replacement_char @ utf8_lossy bs)
      else if between 0xE0 0xEF a then
        (if \<not> utf8_second3 a b then replacement_char @ utf8_lossy bs
         else if \<not> between 0x80 0xBF c then replacement_char @ utf8_lossy (drop 1 bs)
         else a # b # c # utf8_lossy (drop 2 bs))
      else if between 0xF0 0xF4 a then
        (if \<not> utf8_second4 a b then replacement_char @ utf8_lossy bs
         else if \<not> between 0x80 0xBF c then replacement_char @ utf8_lossy (drop 1 bs)
         else if \<not> between 0x80 0xBF d then replacement_char @ utf8_lossy (drop 2 bs)
         else a # b # c # d # utf8_lossy (drop 3 bs))
      else replacement_char @ utf8_lossy bs)"
  by pat_completeness auto
termination by (relation "measure length") auto

declare utf8_lossy.simps(2) [simp del]

text \<open>A valid string is not changed.\<close>

lemma utf8_lossy_valid: "utf8_valid s \<Longrightarrow> utf8_lossy s = s"
proof (induction s rule: utf8_valid.induct)
  case 1
  then show ?case by simp
next
  case (2 a)
  then show ?case by (simp add: utf8_lossy.simps(2) [of a "[]"])
next
  case (3 a b)
  then show ?case
    by (auto simp: utf8_lossy.simps(2) [of a "[b]"] byte_or_0_def split: if_splits)
next
  case (4 a b c)
  then show ?case
    by (auto simp: utf8_lossy.simps(2) [of a "[b, c]"] byte_or_0_def utf8_second3_def between_def word_le_nat_alt
        word_less_nat_alt split: if_splits)
next
  case (5 a b c d bs)
  then show ?case
    by (auto simp: utf8_lossy.simps(2) [of a "b # c # d # bs"] byte_or_0_def utf8_second4_def between_def
        word_le_nat_alt word_less_nat_alt split: if_splits)
qed

section \<open>Trimming\<close>

text \<open>The UTF-8 encodings of the characters with the Unicode property White\_Space.\<close>

definition white_space :: "u8 list list" where
  "white_space =
     [[0x09], [0x0A], [0x0B], [0x0C], [0x0D], [0x20], [0xC2, 0x85], [0xC2, 0xA0],
      [0xE1, 0x9A, 0x80], [0xE2, 0x80, 0x80], [0xE2, 0x80, 0x81], [0xE2, 0x80, 0x82],
      [0xE2, 0x80, 0x83], [0xE2, 0x80, 0x84], [0xE2, 0x80, 0x85], [0xE2, 0x80, 0x86],
      [0xE2, 0x80, 0x87], [0xE2, 0x80, 0x88], [0xE2, 0x80, 0x89], [0xE2, 0x80, 0x8A],
      [0xE2, 0x80, 0xA8], [0xE2, 0x80, 0xA9], [0xE2, 0x80, 0xAF], [0xE2, 0x81, 0x9F],
      [0xE3, 0x80, 0x80]]"

function trim_end :: "u8 list \<Rightarrow> u8 list" where
  "trim_end s =
     (case find (\<lambda>w. suffix w s) white_space of
        None \<Rightarrow> s
      | Some w \<Rightarrow> trim_end (take (length s - length w) s))"
  by pat_completeness auto
termination
proof (relation "measure length")
  fix s w assume "find (\<lambda>w. suffix w s) white_space = Some w"
  then have "suffix w s" and "w \<in> set white_space"
    by (auto simp: find_Some_iff)
  then have "suffix w s" and "w \<noteq> []"
    by (auto simp: white_space_def)
  then show "(take (length s - length w) s, s) \<in> measure length"
    by (auto simp: suffix_def)
qed simp

declare trim_end.simps [simp del]

function trim_start :: "u8 list \<Rightarrow> u8 list" where
  "trim_start s =
     (case find (\<lambda>w. prefix w s) white_space of
        None \<Rightarrow> s
      | Some w \<Rightarrow> trim_start (drop (length w) s))"
  by pat_completeness auto
termination
proof (relation "measure length")
  fix s w assume "find (\<lambda>w. prefix w s) white_space = Some w"
  then have "prefix w s" and "w \<in> set white_space" by (auto simp: find_Some_iff)
  then show "(drop (length w) s, s) \<in> measure length" by (auto simp: white_space_def prefix_def)
qed simp

declare trim_start.simps [simp del]

text \<open>\<open>str::trim\<close>\<close>

definition trim :: "u8 list \<Rightarrow> u8 list" where "trim s = trim_end (trim_start s)"

text \<open>An ASCII byte that is not white space ends no white-space encoding.\<close>

definition graphic :: "u8 \<Rightarrow> bool" where
  "graphic b \<longleftrightarrow> b < 0x80 \<and> \<not> between 0x09 0x0D b \<and> b \<noteq> 0x20"

lemma white_space_last: "w \<in> set white_space \<Longrightarrow> \<not> graphic (last w)"
  by (auto simp: white_space_def graphic_def between_def)

lemma white_space_nonempty: "w \<in> set white_space \<Longrightarrow> w \<noteq> []"
  by (auto simp: white_space_def)

lemma trim_end_graphic:
  assumes "s = [] \<or> graphic (last s)"
  shows "trim_end s = s"
proof -
  have "find (\<lambda>w. suffix w s) white_space = None"
  proof (rule ccontr)
    assume "find (\<lambda>w. suffix w s) white_space \<noteq> None"
    then obtain w where w: "w \<in> set white_space" "suffix w s"
      by (auto simp: find_None_iff)
    then have "last w = last s" and "s \<noteq> []"
      using white_space_nonempty by (auto simp: suffix_def)
    with w(1) assms white_space_last show False by metis
  qed
  then show ?thesis by (subst trim_end.simps) simp
qed

lemma trim_end_space: "trim_end (s @ [0x20]) = trim_end s"
  by (subst trim_end.simps) (simp add: white_space_def suffix_def)

lemma trim_end_spaces: "trim_end (s @ replicate n 0x20) = trim_end s"
proof (induction n)
  case (Suc n)
  have "s @ replicate (Suc n) 0x20 = (s @ replicate n 0x20) @ [0x20]"
    by (simp add: replicate_append_same)
  with Suc.IH show ?case by (metis trim_end_space)
qed simp

section \<open>Searching and splitting\<close>

definition find_byte :: "u8 \<Rightarrow> u8 list \<Rightarrow> nat option" where
  "find_byte c s =
     (if c \<in> set s then Some (length (takeWhile (\<lambda>b. b \<noteq> c) s)) else None)"

text \<open>\<open>split(c)\<close>: the parts between separators, empty parts included.\<close>

fun split_on :: "'a \<Rightarrow> 'a list \<Rightarrow> 'a list list" where
  "split_on c [] = [[]]"
| "split_on c (b # bs) =
     (if b = c then [] # split_on c bs
      else case split_on c bs of [] \<Rightarrow> [[b]] | p # ps \<Rightarrow> (b # p) # ps)"

text \<open>\<open>trim_start_matches(pat)\<close>: the empty pattern removes nothing.\<close>

function trim_start_matches :: "u8 list \<Rightarrow> u8 list \<Rightarrow> u8 list" where
  "trim_start_matches pat s =
     (if pat \<noteq> [] \<and> prefix pat s then trim_start_matches pat (drop (length pat) s) else s)"
  by pat_completeness auto
termination
  by (relation "measure (\<lambda>(pat, s). length s)") (auto simp: prefix_def)

declare trim_start_matches.simps [simp del]

lemma split_on_nonempty [simp]: "split_on c s \<noteq> []"
  by (induction s) (auto split: list.splits)

lemma split_on_no_sep: "c \<notin> set s \<Longrightarrow> split_on c s = [s]"
  by (induction s) auto

lemma split_on_append_sep: "c \<notin> set s \<Longrightarrow> split_on c (s @ c # t) = s # split_on c t"
  by (induction s) (auto split: list.splits)

lemma find_byte_append:
  "c \<notin> set s \<Longrightarrow> find_byte c (s @ c # t) = Some (length s)"
  unfolding find_byte_def by (induction s) auto

lemma find_byte_None: "c \<notin> set s \<Longrightarrow> find_byte c s = None"
  by (simp add: find_byte_def)

lemma trim_start_matches_single:
  "trim_start_matches [c] s = dropWhile (\<lambda>b. b = c) s"
proof (induction s)
  case Nil
  then show ?case by (simp add: trim_start_matches.simps)
next
  case (Cons b s)
  then show ?case by (subst trim_start_matches.simps) auto
qed

end
