(* ===== verification/Bpb.thy ===== *)
theory Bpb
  imports Mbr Text
begin

text \<open>
  The FAT16 boot sector, \<open>pkg/storage/src/fs/fat16/bpb.rs\<close>: parsing with its signature
  check, and the fields at their offsets.
\<close>

record fat16_bpb =
  bpb_data :: "u8 list"

definition trail :: "fat16_bpb \<Rightarrow> u16" where
  "trail b = field_u16 (bpb_data b) 0x1FE"

text \<open>\<open>data.try_into().unwrap()\<close> panics unless there are 512 bytes.\<close>

definition fat16_bpb_new :: "u8 list \<Rightarrow> fat16_bpb fs_result" where
  "fat16_bpb_new data =
     (if length data \<noteq> 512 then Panic
      else let bpb = \<lparr>bpb_data = data\<rparr> in
        if length (bpb_data bpb) \<noteq> 512 \<or> trail bpb \<noteq> 0xAA55 then Err InvalidOperation
        else Ok bpb)"

definition oem_name :: "fat16_bpb \<Rightarrow> u8 list" where
  "oem_name b = field_bytes (bpb_data b) 0x03 8"

definition bytes_per_sector :: "fat16_bpb \<Rightarrow> u16" where
  "bytes_per_sector b = field_u16 (bpb_data b) 0x0B"

definition sectors_per_cluster :: "fat16_bpb \<Rightarrow> u8" where
  "sectors_per_cluster b = field_u8 (bpb_data b) 0x0D"

definition reserved_sector_count :: "fat16_bpb \<Rightarrow> u16" where
  "reserved_sector_count b = field_u16 (bpb_data b) 0x0E"

definition fat_count :: "fat16_bpb \<Rightarrow> u8" where
  "fat_count b = field_u8 (bpb_data b) 0x10"

definition root_entries_count :: "fat16_bpb \<Rightarrow> u16" where
  "root_entries_count b = field_u16 (bpb_data b) 0x11"

definition total_sectors_16 :: "fat16_bpb \<Rightarrow> u16" where
  "total_sectors_16 b = field_u16 (bpb_data b) 0x13"

definition media_descriptor :: "fat16_bpb \<Rightarrow> u8" where
  "media_descriptor b = field_u8 (bpb_data b) 0x15"

definition sectors_per_fat :: "fat16_bpb \<Rightarrow> u16" where
  "sectors_per_fat b = field_u16 (bpb_data b) 0x16"

definition sectors_per_track :: "fat16_bpb \<Rightarrow> u16" where
  "sectors_per_track b = field_u16 (bpb_data b) 0x18"

definition track_count :: "fat16_bpb \<Rightarrow> u16" where
  "track_count b = field_u16 (bpb_data b) 0x1A"

definition hidden_sectors :: "fat16_bpb \<Rightarrow> u32" where
  "hidden_sectors b = field_u32 (bpb_data b) 0x1C"

definition total_sectors_32 :: "fat16_bpb \<Rightarrow> u32" where
  "total_sectors_32 b = field_u32 (bpb_data b) 0x20"

definition drive_number :: "fat16_bpb \<Rightarrow> u8" where
  "drive_number b = field_u8 (bpb_data b) 0x24"

definition reserved_flags :: "fat16_bpb \<Rightarrow> u8" where
  "reserved_flags b = field_u8 (bpb_data b) 0x25"

definition boot_signature :: "fat16_bpb \<Rightarrow> u8" where
  "boot_signature b = field_u8 (bpb_data b) 0x26"

definition volume_id :: "fat16_bpb \<Rightarrow> u32" where
  "volume_id b = field_u32 (bpb_data b) 0x27"

definition volume_label :: "fat16_bpb \<Rightarrow> u8 list" where
  "volume_label b = field_bytes (bpb_data b) 0x2B 11"

definition system_identifier :: "fat16_bpb \<Rightarrow> u8 list" where
  "system_identifier b = field_bytes (bpb_data b) 0x36 8"

text \<open>The \<open>_str\<close> accessors: \<open>from_utf8\<close> of the bytes, the empty string if invalid.\<close>

definition str_or_empty :: "u8 list \<Rightarrow> u8 list" where
  "str_or_empty s = (if utf8_valid s then s else [])"

definition total_sectors :: "fat16_bpb \<Rightarrow> u32" where
  "total_sectors b =
     (if total_sectors_16 b = 0 then total_sectors_32 b else ucast (total_sectors_16 b))"

text \<open>The values the driver computes with, as \<open>usize\<close>.\<close>

definition bps :: "fat16_bpb \<Rightarrow> nat" where
  "bps b = unat (bytes_per_sector b)"

definition spc :: "fat16_bpb \<Rightarrow> nat" where
  "spc b = unat (sectors_per_cluster b)"

lemma fat16_bpb_new_Ok:
  "fat16_bpb_new data = Ok b \<longleftrightarrow> length data = 512 \<and> b = \<lparr>bpb_data = data\<rparr> \<and> trail b = 0xAA55"
  by (auto simp: fat16_bpb_new_def Let_def)

lemma total_sectors_value:
  "unat (total_sectors b) =
     (if unat (total_sectors_16 b) = 0 then unat (total_sectors_32 b) else unat (total_sectors_16 b))"
proof (cases "total_sectors_16 b = 0")
  case False
  then show ?thesis
    by (simp add: total_sectors_def unat_eq_zero unsigned_ucast_eq take_bit_eq_mod
        less_trans [OF unat_u16_less])
qed (simp add: total_sectors_def)

end
