(* ===== verification/DirEntry.thy ===== *)
theory DirEntry
  imports Storage Text
begin

text \<open>
  FAT16 directory entries, \<open>pkg/storage/src/fs/fat16/direntry.rs\<close>: short file names (parsing,
  printing), attributes, cluster numbers, timestamps and the 32-byte entry.

  What the code takes from outside the repository is in the record \<open>externs\<close>:
  \<open>str::to_uppercase\<close> (its Unicode tables), chrono's \<open>Utc.with_ymd_and_hms\<close> as an
  option (\<open>Some\<close> for \<open>LocalResult::Single\<close>) and the epoch timestamp.
\<close>

record 't externs =
  ext_to_uppercase :: "u8 list \<Rightarrow> u8 list"
  ext_ymd_hms :: "nat \<Rightarrow> nat \<Rightarrow> nat \<Rightarrow> nat \<Rightarrow> nat \<Rightarrow> nat \<Rightarrow> 't option"
  ext_epoch :: "'t"

section \<open>Short file names\<close>

record short_file_name =
  sfn_name :: "u8 list"
  sfn_ext :: "u8 list"

definition sfn_new :: "u8 list \<Rightarrow> short_file_name" where
  "sfn_new buf = \<lparr>sfn_name = take 8 buf, sfn_ext = take 3 (drop 8 buf)\<rparr>"

definition sfn_is_eod :: "short_file_name \<Rightarrow> bool" where
  "sfn_is_eod s \<longleftrightarrow> sfn_name s ! 0 = 0x00 \<and> sfn_ext s ! 0 = 0x00"

definition sfn_is_unused :: "short_file_name \<Rightarrow> bool" where
  "sfn_is_unused s \<longleftrightarrow> sfn_name s ! 0 = 0xE5"

definition sfn_matches :: "short_file_name \<Rightarrow> short_file_name \<Rightarrow> bool" where
  "sfn_matches s t \<longleftrightarrow> sfn_name s = sfn_name t \<and> sfn_ext s = sfn_ext t"

definition sfn_basename :: "short_file_name \<Rightarrow> u8 list fs_result" where
  "sfn_basename s = (if utf8_valid (sfn_name s) then Ok (sfn_name s) else Panic)"

definition sfn_extension :: "short_file_name \<Rightarrow> u8 list fs_result" where
  "sfn_extension s = (if utf8_valid (sfn_ext s) then Ok (sfn_ext s) else Panic)"

text \<open>\<open>impl Display for ShortFileName\<close>, which is also \<open>to_string\<close>.\<close>

definition sfn_display :: "short_file_name \<Rightarrow> u8 list fs_result" where
  "sfn_display s =
     (if sfn_ext s ! 0 = 0x20
      then andThen (sfn_basename s) (\<lambda>b. Ok (trim_end b))
      else andThen (sfn_basename s) (\<lambda>b.
           andThen (sfn_extension s) (\<lambda>e. Ok (trim_end b @ [0x2E] @ trim_end e))))"

definition INVALID_CHARS :: "u8 list" where
  "INVALID_CHARS =
     [0x00, 0x01, 0x02, 0x03, 0x04, 0x05, 0x06, 0x07, 0x08, 0x09, 0x0A, 0x0B, 0x0C, 0x0D, 0x0E, 0x0F,
      0x10, 0x11, 0x12, 0x13, 0x14, 0x15, 0x16, 0x17, 0x18, 0x19, 0x1A, 0x1B, 0x1C, 0x1D, 0x1E, 0x1F,
      0x20, 0x22, 0x2A, 0x2B, 0x2C, 0x2F, 0x3A, 0x3B, 0x3C, 0x3D, 0x3E, 0x3F, 0x5B, 0x5C, 0x5D, 0x7C]"

text \<open>The copy loops \<open>for (i, byte) in ... { array[i] = byte }\<close>.\<close>

fun copy_bytes :: "u8 list \<Rightarrow> nat \<Rightarrow> u8 list \<Rightarrow> u8 list fs_result" where
  "copy_bytes arr i [] = Ok arr"
| "copy_bytes arr i (b # bs) =
     (if i < length arr then copy_bytes (arr[i := b]) (Suc i) bs else Panic)"

definition sfn_parse :: "'t externs \<Rightarrow> u8 list \<Rightarrow> short_file_name fs_result" where
  "sfn_parse x name =
     (if name = [] then Err (FileNameError FilenameEmpty)
      else if list_ex (\<lambda>b. List.member INVALID_CHARS b) name
        then Err (FileNameError InvalidCharacter)
      else let name_upper = ext_to_uppercase x name in
        case find_byte 0x2E name_upper of
          Some dot_pos \<Rightarrow>
            (let basename = take dot_pos name_upper;
                 extension = drop (dot_pos + 1) name_upper
             in if 8 < length basename then Err (FileNameError NameTooLong)
                else if 8 < dot_pos then Err (FileNameError MisplacedPeriod)
                else andThen (copy_bytes (replicate 8 0x20) 0 basename) (\<lambda>name_array.
                     andThen (copy_bytes (replicate 3 0x20) 0 extension) (\<lambda>ext_array.
                       Ok \<lparr>sfn_name = name_array, sfn_ext = ext_array\<rparr>)))
        | None \<Rightarrow>
            (if 8 < length name_upper then Err (FileNameError NameTooLong)
             else andThen (copy_bytes (replicate 8 0x20) 0 name_upper) (\<lambda>name_array.
                    Ok \<lparr>sfn_name = name_array, sfn_ext = replicate 3 0x20\<rparr>)))"

section \<open>Clusters and attributes\<close>

type_synonym cluster = u32

definition CLUSTER_INVALID :: cluster where "CLUSTER_INVALID = 0xFFFFFFF6"

definition CLUSTER_BAD :: cluster where "CLUSTER_BAD = 0xFFFFFFF7"

definition CLUSTER_EMPTY :: cluster where "CLUSTER_EMPTY = 0"

definition ROOT_DIR :: cluster where "ROOT_DIR = 0xFFFFFFFC"

definition CLUSTER_END_OF_FILE :: cluster where "CLUSTER_END_OF_FILE = 0xFFFFFFFF"

type_synonym attributes = u8

definition ATTR_VOLUME_ID :: attributes where "ATTR_VOLUME_ID = 0x08"

definition ATTR_DIRECTORY :: attributes where "ATTR_DIRECTORY = 0x10"

definition ATTR_LFN :: attributes where "ATTR_LFN = 0x0f"

text \<open>The union of the declared flags, which \<open>from_bits_truncate\<close> keeps.\<close>

definition ATTR_ALL :: attributes where "ATTR_ALL = 0x3f"

definition attr_from_bits_truncate :: "u8 \<Rightarrow> attributes" where
  "attr_from_bits_truncate b = b AND ATTR_ALL"

definition attr_contains :: "attributes \<Rightarrow> attributes \<Rightarrow> bool" where
  "attr_contains a f \<longleftrightarrow> a AND f = f"

section \<open>Timestamps\<close>

definition parse_datetime :: "'t externs \<Rightarrow> u16 \<Rightarrow> u16 \<Rightarrow> 't" where
  "parse_datetime x date time =
     (let year = unat (drop_bit 9 date AND 0x7F) + 1980;
          month = unat (drop_bit 5 date AND 0x0F);
          day = unat (date AND 0x1F);
          hour = unat (drop_bit 11 time AND 0x1F);
          minute = unat (drop_bit 5 time AND 0x3F);
          sec = unat ((time AND 0x1F) * 2)
      in if month = 0 \<or> 12 < month \<or> day = 0 \<or> 31 < day \<or> 23 < hour \<or> 59 < minute \<or> 59 < sec
         then ext_epoch x
         else case ext_ymd_hms x year month day hour minute sec of
                Some datetime \<Rightarrow> datetime
              | None \<Rightarrow> ext_epoch x)"

section \<open>Directory entries\<close>

record 't dir_entry =
  filename :: short_file_name
  modified_time :: "'t"
  created_time :: "'t"
  accessed_time :: "'t"
  de_cluster :: cluster
  de_attributes :: attributes
  de_size :: u32

definition DIR_ENTRY_LEN :: nat where "DIR_ENTRY_LEN = 0x20"

definition de_is_valid :: "'t dir_entry \<Rightarrow> bool" where
  "de_is_valid e \<longleftrightarrow> \<not> sfn_is_unused (filename e) \<and> \<not> sfn_is_eod (filename e)"

definition de_is_directory :: "'t dir_entry \<Rightarrow> bool" where
  "de_is_directory e \<longleftrightarrow> attr_contains (de_attributes e) ATTR_DIRECTORY"

definition de_is_file :: "'t dir_entry \<Rightarrow> bool" where
  "de_is_file e \<longleftrightarrow> \<not> de_is_directory e \<and> \<not> attr_contains (de_attributes e) ATTR_VOLUME_ID"

definition de_is_long_name :: "'t dir_entry \<Rightarrow> bool" where
  "de_is_long_name e \<longleftrightarrow> attr_contains (de_attributes e) ATTR_LFN"

definition de_filename :: "'t dir_entry \<Rightarrow> u8 list fs_result" where
  "de_filename e =
     (if de_is_valid e \<and> \<not> de_is_long_name e then sfn_display (filename e)
      else Ok (str ''unknown''))"

text \<open>
  \<open>DirEntry::parse\<close> indexes bytes 0 to 31 whatever they hold, so a shorter slice panics.
\<close>

definition dir_entry_parse :: "'t externs \<Rightarrow> u8 list \<Rightarrow> 't dir_entry fs_result" where
  "dir_entry_parse x d =
     (if length d < 32 then Panic
      else let cluster_hi = ucast (u16_le (d ! 20) (d ! 21)) :: u32;
               cluster_lo = ucast (u16_le (d ! 26) (d ! 27)) :: u32
        in Ok \<lparr>filename = sfn_new (take 11 d),
               modified_time = parse_datetime x (u16_le (d ! 24) (d ! 25)) (u16_le (d ! 22) (d ! 23)),
               created_time = parse_datetime x (u16_le (d ! 16) (d ! 17)) (u16_le (d ! 14) (d ! 15)),
               accessed_time = parse_datetime x (u16_le (d ! 18) (d ! 19)) 0,
               de_cluster = push_bit 16 cluster_hi OR cluster_lo,
               de_attributes = attr_from_bits_truncate (d ! 11),
               de_size = u32_le (d ! 28) (d ! 29) (d ! 30) (d ! 31)\<rparr>)"

text \<open>\<open>impl From<&DirEntry> for Metadata\<close>, and \<open>as_meta\<close>.\<close>

definition de_as_meta :: "'t dir_entry \<Rightarrow> 't metadata fs_result" where
  "de_as_meta e =
     andThen (de_filename e) (\<lambda>name.
       Ok \<lparr>md_name = name, md_entry_type = (if de_is_directory e then DirectoryT else FileT),
           md_len = unat (de_size e), md_created = Some (created_time e),
           md_modified = Some (modified_time e), md_accessed = Some (accessed_time e)\<rparr>)"

section \<open>Names: what parsing and printing do\<close>

text \<open>
  \<open>str::to_uppercase\<close> on ASCII strings, the documented part of the Unicode table that the
  driver's names rest on; and the characters an 8.3 name may have.
\<close>

definition ascii_upper :: "u8 \<Rightarrow> u8" where
  "ascii_upper b = (if between 0x61 0x7A b then b - 0x20 else b)"

definition uppercase_ascii :: "'t externs \<Rightarrow> bool" where
  "uppercase_ascii x \<longleftrightarrow> (\<forall>s. ascii s \<longrightarrow> ext_to_uppercase x s = map ascii_upper s)"

definition sfn_char :: "u8 \<Rightarrow> bool" where
  "sfn_char b \<longleftrightarrow> b < 0x80 \<and> \<not> List.member INVALID_CHARS b \<and> b \<noteq> 0x2E"

lemma lower_range:
  "between 0x61 0x7A b \<Longrightarrow> between 0x41 0x5A (b - 0x20)"
  unfolding between_def by unat_arith

lemma between_less: "between 0x41 0x5A b \<Longrightarrow> b < 0x80 \<and> \<not> between 0x61 0x7A b \<and> \<not> between 0x09 0x0D b \<and> b \<noteq> 0x20 \<and> b \<noteq> 0x2E"
  unfolding between_def by (intro conjI notI) (unat_arith | auto)+

lemma sfn_char_upper:
  assumes "sfn_char b"
  shows "graphic (ascii_upper b)" "ascii_upper b \<noteq> 0x2E"
    "ascii_upper (ascii_upper b) = ascii_upper b"
proof -
  have b: "b < 0x80" "b \<noteq> 0x2E" "b \<notin> set INVALID_CHARS"
    using assms by (auto simp: sfn_char_def)
  have ws: "\<not> between 0x09 0x0D b" "b \<noteq> 0x20"
  proof -
    show "b \<noteq> 0x20" using b(3) by (auto simp: INVALID_CHARS_def)
    have "b \<noteq> 0x09" "b \<noteq> 0x0A" "b \<noteq> 0x0B" "b \<noteq> 0x0C" "b \<noteq> 0x0D"
      using b(3) by (auto simp: INVALID_CHARS_def)
    then show "\<not> between 0x09 0x0D b" unfolding between_def by unat_arith
  qed
  show "graphic (ascii_upper b)" "ascii_upper b \<noteq> 0x2E" "ascii_upper (ascii_upper b) = ascii_upper b"
    using b ws between_less [OF lower_range, of b] by (auto simp: ascii_upper_def graphic_def)
qed

text \<open>\<open>copy_bytes\<close> writes the bytes in place, and panics if they do not fit.\<close>

lemma copy_bytes_eq:
  "copy_bytes arr i bs =
     (if bs = [] \<or> i + length bs \<le> length arr then Ok (take i arr @ bs @ drop (i + length bs) arr) else Panic)"
proof (induction bs arbitrary: arr i)
  case (Cons b bs)
  show ?case
  proof (cases "i < length arr")
    case True
    then have "take (Suc i) (arr[i := b]) = take i arr @ [b]" by (simp add: take_Suc_conv_app_nth)
    with True Cons.IH [of "arr[i := b]" "Suc i"] show ?thesis by (cases bs) auto
  qed simp
qed simp

definition sfn_text :: "u8 list \<Rightarrow> u8 list \<Rightarrow> u8 list" where
  "sfn_text base ext = (if ext = [] then base else base @ [0x2E] @ ext)"

definition pad :: "nat \<Rightarrow> u8 list \<Rightarrow> u8 list" where
  "pad n s = s @ replicate (n - length s) 0x20"

lemma copy_into_blanks:
  "copy_bytes (replicate n 0x20) 0 s = (if length s \<le> n then Ok (pad n s) else Panic)"
  by (auto simp: copy_bytes_eq pad_def)

lemma sfn_chars_ascii: "list_all sfn_char s \<Longrightarrow> ascii s"
  by (auto simp: ascii_def sfn_char_def list_all_iff)

lemma sfn_text_ok:
  assumes "list_all sfn_char base" "list_all sfn_char ext"
  shows "ascii (sfn_text base ext)" "\<not> list_ex (\<lambda>b. List.member INVALID_CHARS b) (sfn_text base ext)"
proof -
  have dot: "\<not> List.member INVALID_CHARS 0x2E" by (simp add: INVALID_CHARS_def)
  show "ascii (sfn_text base ext)" "\<not> list_ex (\<lambda>b. List.member INVALID_CHARS b) (sfn_text base ext)"
    using assms dot by (auto simp: sfn_text_def ascii_def sfn_char_def list_all_iff list_ex_iff)
qed

lemma upper_no_dot: "list_all sfn_char s \<Longrightarrow> 0x2E \<notin> set (map ascii_upper s)"
  using sfn_char_upper(2) by (fastforce simp: list_all_iff)

lemma sfn_parse_text:
  assumes "uppercase_ascii x" "sfn_text base ext \<noteq> []" "list_all sfn_char base" "list_all sfn_char ext"
  shows "sfn_parse x (sfn_text base ext) =
    (if 8 < length base then Err (FileNameError NameTooLong)
     else if 3 < length ext then Panic
     else Ok \<lparr>sfn_name = pad 8 (map ascii_upper base), sfn_ext = pad 3 (map ascii_upper ext)\<rparr>)"
proof -
  have dot: "ascii_upper 0x2E = 0x2E" by (simp add: ascii_upper_def between_def)
  have up: "ext_to_uppercase x (sfn_text base ext) = sfn_text (map ascii_upper base) (map ascii_upper ext)"
    using assms(1) sfn_text_ok(1) [OF assms(3, 4)] dot
    by (simp add: uppercase_ascii_def) (simp add: sfn_text_def)
  have find: "find_byte 0x2E (sfn_text (map ascii_upper base) (map ascii_upper ext)) =
      (if ext = [] then None else Some (length base))"
    using find_byte_append [OF upper_no_dot [OF assms(3)]] find_byte_None [OF upper_no_dot [OF assms(3)]]
    by (simp add: sfn_text_def)
  show ?thesis
    using assms(2) sfn_text_ok(2) [OF assms(3, 4)]
    by (simp add: sfn_parse_def Let_def up find copy_into_blanks)
      (auto simp: sfn_text_def pad_def list_ex_iff eval_nat_numeral)
qed

lemma trim_end_pad:
  assumes "list_all sfn_char s"
  shows "trim_end (pad n (map ascii_upper s)) = map ascii_upper s"
proof -
  have "map ascii_upper s = [] \<or> graphic (last (map ascii_upper s))"
    using assms by (cases s rule: rev_cases) (auto intro: sfn_char_upper)
  then show ?thesis by (simp add: pad_def trim_end_spaces trim_end_graphic)
qed

lemma pad_utf8:
  assumes "list_all sfn_char s"
  shows "utf8_valid (pad n (map ascii_upper s))"
proof (rule ascii_utf8_valid)
  have "ascii_upper b < 0x80" if "sfn_char b" for b
    using sfn_char_upper(1) [OF that] by (simp add: graphic_def)
  then show "ascii (pad n (map ascii_upper s))"
    using assms by (auto simp: ascii_def pad_def list_all_iff)
qed

lemma sfn_display_text:
  assumes "list_all sfn_char base" "list_all sfn_char ext" "length ext \<le> 3"
  shows "sfn_display \<lparr>sfn_name = pad 8 (map ascii_upper base), sfn_ext = pad 3 (map ascii_upper ext)\<rparr> =
    Ok (map ascii_upper (sfn_text base ext))"
proof -
  have dot: "ascii_upper 0x2E = 0x2E" by (simp add: ascii_upper_def between_def)
  have "pad 3 (map ascii_upper ext) ! 0 = 0x20 \<longleftrightarrow> ext = []"
    using assms(2) sfn_char_upper(1) by (cases ext) (auto simp: pad_def graphic_def)
  then show ?thesis
    using assms by (auto simp: sfn_display_def sfn_basename_def sfn_extension_def pad_utf8
        trim_end_pad sfn_text_def dot)
qed

text \<open>Printing gives upper case, which parses to the same name again.\<close>

lemma invalid_not_letter: "list_all (\<lambda>b. \<not> between 0x41 0x5A b) INVALID_CHARS"
  by (simp add: INVALID_CHARS_def between_def word_le_nat_alt)

lemma sfn_upper_text:
  assumes "list_all sfn_char s"
  shows "list_all sfn_char (map ascii_upper s)" "map ascii_upper (map ascii_upper s) = map ascii_upper s"
proof -
  have letter: "sfn_char c" if "between 0x41 0x5A c" for c
    using that between_less [OF that] invalid_not_letter by (auto simp: sfn_char_def list_all_iff)
  have "sfn_char (ascii_upper b)" if "sfn_char b" for b
    using that letter [OF lower_range] by (simp add: ascii_upper_def)
  then show "list_all sfn_char (map ascii_upper s)" using assms by (auto simp: list_all_iff)
  show "map ascii_upper (map ascii_upper s) = map ascii_upper s"
    using assms sfn_char_upper(3) by (auto simp: list_all_iff)
qed

lemma sfn_roundtrip_text:
  assumes "uppercase_ascii x" "sfn_text base ext \<noteq> []" "list_all sfn_char base" "list_all sfn_char ext"
    and "length base \<le> 8" "length ext \<le> 3"
  shows "\<exists>s. sfn_parse x (sfn_text base ext) = Ok s \<and>
    sfn_display s = Ok (map ascii_upper (sfn_text base ext)) \<and>
    sfn_parse x (map ascii_upper (sfn_text base ext)) = Ok s"
proof -
  have txt_upper: "map ascii_upper (sfn_text base ext) = sfn_text (map ascii_upper base) (map ascii_upper ext)"
    by (simp add: sfn_text_def ascii_upper_def between_def)
  have "sfn_text (map ascii_upper base) (map ascii_upper ext) \<noteq> []"
    using assms(2) by (auto simp: sfn_text_def)
  then show ?thesis
    using sfn_parse_text [OF assms(1-4)] sfn_display_text [OF assms(3, 4, 6)] assms(5, 6)
      sfn_parse_text [OF assms(1) _ sfn_upper_text(1) [OF assms(3)] sfn_upper_text(1) [OF assms(4)]]
      sfn_upper_text(2) [OF assms(3)] sfn_upper_text(2) [OF assms(4)]
    by (simp add: txt_upper del: map_map)
qed

section \<open>Entries on disk\<close>

text \<open>The 32 bytes of an entry, as the FAT specification lays them out.\<close>

definition entry_bytes ::
  "u8 list \<Rightarrow> u8 list \<Rightarrow> u8 \<Rightarrow> u16 \<Rightarrow> u16 \<Rightarrow> u16 \<Rightarrow> u32 \<Rightarrow> u16 \<Rightarrow> u16 \<Rightarrow> u32 \<Rightarrow> u8 list"
where
  "entry_bytes name ext attr ctime cdate adate cl mtime mdate sz =
     name @ ext @ [attr, 0, 0] @ u16_to_le ctime @ u16_to_le cdate @ u16_to_le adate @
     u16_to_le (ucast (drop_bit 16 cl)) @ u16_to_le mtime @ u16_to_le mdate @ u16_to_le (ucast cl) @
     u32_to_le sz"

lemma cluster_halves: "push_bit 16 (ucast (ucast (drop_bit 16 c) :: u16)) OR ucast (ucast c :: u16) = (c :: u32)"
  by (rule bit_word_eqI) (auto simp: bit_simps)

lemma dir_entry_parse_bytes:
  assumes "length name = 8" "length ext = 3"
  shows "dir_entry_parse x (entry_bytes name ext attr ctime cdate adate cl mtime mdate sz) =
    Ok \<lparr>filename = \<lparr>sfn_name = name, sfn_ext = ext\<rparr>, modified_time = parse_datetime x mdate mtime,
        created_time = parse_datetime x cdate ctime, accessed_time = parse_datetime x adate 0,
        de_cluster = cl, de_attributes = attr AND ATTR_ALL, de_size = sz\<rparr>"
proof -
  define tl where "tl = [attr, 0, 0] @ u16_to_le ctime @ u16_to_le cdate @ u16_to_le adate @
     u16_to_le (ucast (drop_bit 16 cl)) @ u16_to_le mtime @ u16_to_le mdate @ u16_to_le (ucast cl) @
     u32_to_le sz"
  define d where "d = (name @ ext) @ tl"
  have len: "length d = 32" using assms by (simp add: d_def tl_def u16_to_le_def)
  have front: "take 11 d = name @ ext" using assms by (simp add: d_def)
  have bytes: "entry_bytes name ext attr ctime cdate adate cl mtime mdate sz = d"
    by (simp add: entry_bytes_def d_def tl_def)
  have nth: "d ! (11 + k) = tl ! k" for k
    using assms nth_append_length_plus [of "name @ ext" tl k] by (simp only: d_def) simp
  note tl = tl_def [unfolded u16_to_le_def u32_to_le_def append.simps]
  have stamps: "u16_le (d ! 14) (d ! 15) = ctime" "u16_le (d ! 16) (d ! 17) = cdate"
      "u16_le (d ! 18) (d ! 19) = adate" "u16_le (d ! 22) (d ! 23) = mtime"
      "u16_le (d ! 24) (d ! 25) = mdate"
    using nth [of 3] nth [of 4] nth [of 5] nth [of 6] nth [of 7] nth [of 8]
      nth [of 11] nth [of 12] nth [of 13] nth [of 14]
    by (simp_all add: tl u16_le_ucast)
  have rest: "u16_le (d ! 20) (d ! 21) = ucast (drop_bit 16 cl)" "u16_le (d ! 26) (d ! 27) = ucast cl"
      "u32_le (d ! 28) (d ! 29) (d ! 30) (d ! 31) = sz" "d ! 11 = attr"
    using nth [of 9] nth [of 10] nth [of 15] nth [of 16] nth [of 17] nth [of 18] nth [of 19]
      nth [of 20] nth [of 0]
    by (simp_all add: tl u16_le_ucast u32_le_ucast)
  show ?thesis
    unfolding bytes dir_entry_parse_def Let_def front stamps rest
    using assms len by (simp add: sfn_new_def attr_from_bits_truncate_def cluster_halves)
qed

end
