(* ===== verification/Fat16.thy ===== *)
theory Fat16
  imports Bpb DirEntry
begin

text \<open>
  The FAT16 volume, \<open>pkg/storage/src/fs/fat16/impls.rs\<close>: opening it, following the FAT,
  scanning directories and resolving paths. The trait \<open>FileSystem\<close> of the volume is in
  \<open>FatFile\<close>, with the files it opens.
\<close>

section \<open>The volume\<close>

text \<open>
  \<open>Fat16Impl\<close>; \<open>f_dev\<close> is the state of the device behind the box \<open>inner\<close>. The driver
  only reads, so it never changes.
\<close>

record 'd fat16 =
  f_inner :: "'d block_device"
  f_dev :: "'d"
  f_bpb :: fat16_bpb
  fat_start :: nat
  first_data_sector :: nat
  first_root_dir_sector :: nat

definition f_read :: "'d fat16 \<Rightarrow> nat \<Rightarrow> u8 list fs_result" where
  "f_read fs = bd_read (f_inner fs) (f_dev fs)"

definition f_bps :: "'d fat16 \<Rightarrow> nat" where
  "f_bps fs = bps (f_bpb fs)"

definition f_spc :: "'d fat16 \<Rightarrow> nat" where
  "f_spc fs = spc (f_bpb fs)"

text \<open>The size of the root directory in sectors: a division that panics on 0 bytes per sector.\<close>

definition root_dir_size :: "fat16_bpb \<Rightarrow> nat fs_result" where
  "root_dir_size bpb =
     (if bps bpb = 0 then Panic
      else Ok ((unat (root_entries_count bpb) * 32 + (bps bpb - 1)) div bps bpb))"

text \<open>Both calls are \<open>unwrap\<close>ped: an error of either is a panic.\<close>

definition fat16_new :: "'d block_device \<Rightarrow> 'd \<Rightarrow> 'd fat16 fs_result" where
  "fat16_new inner d =
     (case bd_read inner d 0 of
        Ok block \<Rightarrow>
          (case fat16_bpb_new block of
             Ok bpb \<Rightarrow>
               andThen (root_dir_size bpb) (\<lambda>root_size.
                 let start = unat (reserved_sector_count bpb);
                     root = start + unat (fat_count bpb) * unat (sectors_per_fat bpb)
                 in Ok \<lparr>f_inner = inner, f_dev = d, f_bpb = bpb, fat_start = start,
                        first_data_sector = root + root_size, first_root_dir_sector = root\<rparr>)
           | Diverge \<Rightarrow> Diverge
           | _ \<Rightarrow> Panic)
      | Diverge \<Rightarrow> Diverge
      | _ \<Rightarrow> Panic)"

definition cluster_to_sector :: "'d fat16 \<Rightarrow> cluster \<Rightarrow> nat" where
  "cluster_to_sector fs c =
     (if c = ROOT_DIR then first_root_dir_sector fs
      else if c < 2 then first_data_sector fs
      else unat (c - 2) * f_spc fs + first_data_sector fs)"

text \<open>The FAT entry of a cluster: two bytes of one sector of the table.\<close>

definition get_next_cluster :: "'d fat16 \<Rightarrow> u16 \<Rightarrow> u16 option fs_result" where
  "get_next_cluster fs cl =
     (let fat_offset = unat cl * 2 in
      if f_bps fs = 0 then Panic
      else let sector_offset = fat_offset div f_bps fs;
               byte_offset = fat_offset mod f_bps fs
        in andThen (f_read fs (fat_start fs + sector_offset)) (\<lambda>block.
           andThen (index_at block byte_offset) (\<lambda>b0.
           andThen (index_at block (byte_offset + 1)) (\<lambda>b1.
             let fat_entry = u16_le b0 b1 in
             if fat_entry = 0 then Ok None
             else if 0xFFF8 \<le> fat_entry then Ok None
             else Ok (Some fat_entry)))))"

section \<open>Directories\<close>

text \<open>Whether a scan met the end-of-directory mark.\<close>

datatype 't scan = ScanDone "'t dir_entry list" | ScanMore "'t dir_entry list"

text \<open>The inner loop \<open>for j in 0..(bps / LEN)\<close> over the entries of a sector.\<close>

fun scan_entries ::
  "'t externs \<Rightarrow> u8 list \<Rightarrow> nat \<Rightarrow> nat \<Rightarrow> 't dir_entry list \<Rightarrow> 't scan fs_result" where
  "scan_entries x block j 0 es = Ok (ScanMore es)"
| "scan_entries x block j (Suc n) es =
     andThen (slice block (j * DIR_ENTRY_LEN) (j * DIR_ENTRY_LEN + DIR_ENTRY_LEN)) (\<lambda>entry_data.
       if entry_data ! 0 = 0x00 then Ok (ScanDone es)
       else if entry_data ! 0 = 0xE5 then scan_entries x block (Suc j) n es
       else case dir_entry_parse x entry_data of
              Ok entry \<Rightarrow>
                scan_entries x block (Suc j) n
                  (if de_is_valid entry \<and> \<not> de_is_long_name entry then es @ [entry] else es)
            | Err e \<Rightarrow> scan_entries x block (Suc j) n es
            | Panic \<Rightarrow> Panic
            | Diverge \<Rightarrow> Diverge)"

text \<open>The loop \<open>for i in 0..sectors_per_cluster\<close> over the sectors of a cluster.\<close>

fun scan_sectors ::
  "'d fat16 \<Rightarrow> 't externs \<Rightarrow> nat \<Rightarrow> nat \<Rightarrow> nat \<Rightarrow> 't dir_entry list \<Rightarrow> 't scan fs_result" where
  "scan_sectors fs x sector i 0 es = Ok (ScanMore es)"
| "scan_sectors fs x sector i (Suc n) es =
     andThen (f_read fs (sector + i)) (\<lambda>block.
     andThen (scan_entries x block 0 (f_bps fs div DIR_ENTRY_LEN) es) (\<lambda>r.
       case r of ScanDone es' \<Rightarrow> Ok (ScanDone es')
               | ScanMore es' \<Rightarrow> scan_sectors fs x sector (Suc i) n es'))"

definition dir_sectors :: "'d fat16 \<Rightarrow> cluster \<Rightarrow> nat fs_result" where
  "dir_sectors fs c = (if c = ROOT_DIR then root_dir_size (f_bpb fs) else Ok (f_spc fs))"

text \<open>
  One turn of the \<open>loop\<close> of \<open>read_dir_entries\<close>: the entries so far and, if the directory
  goes on, the cluster of the next turn. A failed read of the FAT ends the directory.
\<close>

definition dir_turn ::
  "'d fat16 \<Rightarrow> 't externs \<Rightarrow> cluster \<Rightarrow> 't dir_entry list
    \<Rightarrow> ('t dir_entry list \<times> cluster option) fs_result" where
  "dir_turn fs x c es =
     andThen (dir_sectors fs c) (\<lambda>n.
     andThen (scan_sectors fs x (cluster_to_sector fs c) 0 n es) (\<lambda>r.
       case r of
         ScanDone es' \<Rightarrow> Ok (es', None)
       | ScanMore es' \<Rightarrow>
           if c = ROOT_DIR then Ok (es', None)
           else andThen (ok_or None (get_next_cluster fs (ucast c))) (\<lambda>next.
                  case next of None \<Rightarrow> Ok (es', None)
                             | Some d \<Rightarrow> Ok (es', Some (ucast d)))))"

text \<open>The loop itself: nothing bounds it, so not returning is the value \<open>None\<close>.\<close>

partial_function (option) read_dir_loop ::
  "'d fat16 \<Rightarrow> 't externs \<Rightarrow> cluster \<Rightarrow> 't dir_entry list \<Rightarrow> 't dir_entry list fs_result option"
where
  "read_dir_loop fs x c es =
     (case dir_turn fs x c es of
        Ok (es', None) \<Rightarrow> Some (Ok es')
      | Ok (es', Some c') \<Rightarrow> read_dir_loop fs x c' es'
      | Err e \<Rightarrow> Some (Err e)
      | Panic \<Rightarrow> Some Panic
      | Diverge \<Rightarrow> Some Diverge)"

definition read_dir_entries ::
  "'d fat16 \<Rightarrow> 't externs \<Rightarrow> cluster \<Rightarrow> 't dir_entry list fs_result" where
  "read_dir_entries fs x c = run_loop (read_dir_loop fs x c [])"

section \<open>Names and paths\<close>

definition find_entry ::
  "'d fat16 \<Rightarrow> 't externs \<Rightarrow> cluster \<Rightarrow> u8 list \<Rightarrow> 't dir_entry option fs_result" where
  "find_entry fs x dir_cluster name =
     andThen (read_dir_entries fs x dir_cluster) (\<lambda>entries.
     andThen (sfn_parse x name) (\<lambda>target_name.
       if name = [] then Ok None
       else Ok (find (\<lambda>entry. filename entry = target_name) entries)))"

text \<open>
  The second loop of \<open>find_path\<close>: the parts with their index \<open>i\<close>. \<open>len\<close> counts the parts
  that are not empty; there is at least one, so \<open>len - 1\<close> does not underflow.
\<close>

fun find_parts ::
  "'d fat16 \<Rightarrow> 't externs \<Rightarrow> nat \<Rightarrow> nat \<Rightarrow> cluster \<Rightarrow> u8 list list
    \<Rightarrow> 't dir_entry option fs_result" where
  "find_parts fs x len i c [] = Ok None"
| "find_parts fs x len i c (part # parts) =
     andThen (find_entry fs x c part) (\<lambda>r.
       case r of
         None \<Rightarrow> Ok None
       | Some entry \<Rightarrow>
           if i = len - 1 then Ok (Some entry)
           else if de_is_directory entry
             then find_parts fs x len (Suc i) (de_cluster entry) parts
           else Err NotADirectory)"

definition find_path :: "'d fat16 \<Rightarrow> 't externs \<Rightarrow> u8 list \<Rightarrow> 't dir_entry option fs_result" where
  "find_path fs x p =
     (let path = trim_start_matches [0x2F] p in
      if path = [] then Ok None
      else let parts = split_on 0x2F path;
               len = length (filter (\<lambda>part. part \<noteq> []) parts)
        in find_parts fs x len 0 ROOT_DIR parts)"

section \<open>read\_file\_data\<close>

text \<open>The loop that skips clusters before the offset; \<open>Ok None\<close> is the early \<open>Ok(0)\<close>.\<close>

partial_function (option) rfd_skip ::
  "'d fat16 \<Rightarrow> nat \<Rightarrow> nat \<Rightarrow> u16 \<Rightarrow> nat \<Rightarrow> (u16 \<times> nat) option fs_result option" where
  "rfd_skip fs cluster_size off cl file_offset =
     (if file_offset + cluster_size \<le> off then
        (case ok_or None (get_next_cluster fs cl) of
           Ok (Some next) \<Rightarrow> rfd_skip fs cluster_size off next (file_offset + cluster_size)
         | Ok None \<Rightarrow> Some (Ok None)
         | Err e \<Rightarrow> Some (Err e)
         | Panic \<Rightarrow> Some Panic
         | Diverge \<Rightarrow> Some Diverge)
      else Some (Ok (Some (cl, file_offset))))"

text \<open>
  The \<open>for\<close> loop over the sectors of a cluster. The subtraction
  \<open>bytes_per_sector - start_in_sector\<close> is checked, as in a build with overflow checks.
\<close>

primrec rfd_sectors ::
  "'d fat16 \<Rightarrow> nat \<Rightarrow> nat \<Rightarrow> nat \<Rightarrow> nat \<Rightarrow> nat \<Rightarrow> nat \<Rightarrow> u8 list \<Rightarrow> nat fs_result \<times> u8 list" where
  "rfd_sectors fs sector off file_offset i 0 bytes_read buf = (Ok bytes_read, buf)"
| "rfd_sectors fs sector off file_offset i (Suc n) bytes_read buf =
     (if length buf \<le> bytes_read then (Ok bytes_read, buf)
      else andThenS (f_read fs (sector + i)) buf (\<lambda>sector_data.
        let sector_offset_in_file = file_offset + i * f_bps fs;
            start_in_sector =
              (if sector_offset_in_file < off then off - sector_offset_in_file else 0)
        in if f_bps fs < start_in_sector then (Panic, buf)
           else let bytes_to_read = min (f_bps fs - start_in_sector) (length buf - bytes_read)
             in if 0 < bytes_to_read
                then andThenS (slice sector_data start_in_sector (start_in_sector + bytes_to_read)) buf
                       (\<lambda>src. rfd_sectors fs sector off file_offset (Suc i) n
                                (bytes_read + bytes_to_read) (copy_into buf bytes_read src))
                else rfd_sectors fs sector off file_offset (Suc i) n bytes_read buf))"

partial_function (option) rfd_clusters ::
  "'d fat16 \<Rightarrow> nat \<Rightarrow> nat \<Rightarrow> u16 \<Rightarrow> nat \<Rightarrow> nat \<Rightarrow> u8 list \<Rightarrow> (nat fs_result \<times> u8 list) option" where
  "rfd_clusters fs cluster_size off cl file_offset bytes_read buf =
     (if bytes_read < length buf then
        (case rfd_sectors fs (cluster_to_sector fs (ucast cl)) off file_offset 0 (f_spc fs)
                bytes_read buf of
           (Ok n, buf') \<Rightarrow>
             (case ok_or None (get_next_cluster fs cl) of
                Ok (Some next) \<Rightarrow>
                  rfd_clusters fs cluster_size off next (file_offset + cluster_size) n buf'
              | Ok None \<Rightarrow> Some (Ok n, buf')
              | Err e \<Rightarrow> Some (Err e, buf')
              | Panic \<Rightarrow> Some (Panic, buf')
              | Diverge \<Rightarrow> Some (Diverge, buf'))
         | (r, buf') \<Rightarrow> Some (r, buf'))
      else Some (Ok bytes_read, buf))"

definition read_file_data ::
  "'d fat16 \<Rightarrow> u16 \<Rightarrow> nat \<Rightarrow> u8 list \<Rightarrow> nat fs_result \<times> u8 list" where
  "read_file_data fs start_cluster off buf =
     (let cluster_size = f_spc fs * f_bps fs in
      case run_loop (rfd_skip fs cluster_size off start_cluster 0) of
        Ok None \<Rightarrow> (Ok 0, buf)
      | Ok (Some (cl, file_offset)) \<Rightarrow>
          (case rfd_clusters fs cluster_size off cl file_offset 0 buf of
             None \<Rightarrow> (Diverge, buf)
           | Some r \<Rightarrow> r)
      | Err e \<Rightarrow> (Err e, buf)
      | Panic \<Rightarrow> (Panic, buf)
      | Diverge \<Rightarrow> (Diverge, buf))"

end
