(* ===== verification/Readers.thy ===== *)
theory Readers
  imports Storage
begin

text \<open>
  The trait \<open>Read\<close> of \<open>pkg/storage/src/common/io.rs\<close>: its default method \<open>read_all\<close> over
  any implementation of \<open>read\<close>, and the contract that implementations keep, as the locale
  \<open>byte_reader\<close>. The volume's files interpret it in \<open>FatFile\<close>.
\<close>

text \<open>
  \<open>read\<close> gets \<open>&mut self\<close> and a buffer; it returns its result, the buffer and the new self.
\<close>

type_synonym 's reader = "'s \<Rightarrow> u8 list \<Rightarrow> nat fs_result \<times> u8 list \<times> 's"

text \<open>
  The loop of \<open>read_all\<close>: a 1024-byte zeroed temporary, a slice of the bytes read appended to
  the vector, until a read gives 0 or an error. Reserving capacity has no effect on values.
\<close>

partial_function (option) read_all_loop ::
  "'s reader \<Rightarrow> 's \<Rightarrow> u8 list \<Rightarrow> nat \<Rightarrow> (nat fs_result \<times> u8 list \<times> 's) option" where
  "read_all_loop rd s buf cnt =
     (case rd s (replicate 1024 0) of
        (Ok n, temp_buf, s') \<Rightarrow>
          (if n = 0 then Some (Ok cnt, buf, s')
           else if n \<le> length temp_buf
             then read_all_loop rd s' (buf @ take n temp_buf) (cnt + n)
           else Some (Panic, buf, s'))
      | (Err e, temp_buf, s') \<Rightarrow> Some (Err e, buf, s')
      | (Panic, temp_buf, s') \<Rightarrow> Some (Panic, buf, s')
      | (Diverge, temp_buf, s') \<Rightarrow> Some (Diverge, buf, s'))"

definition read_all :: "'s reader \<Rightarrow> 's \<Rightarrow> u8 list \<Rightarrow> (nat fs_result \<times> u8 list \<times> 's) option" where
  "read_all rd s buf = read_all_loop rd s buf 0"

text \<open>
  The contract. \<open>rest s\<close> is what is left to read in state \<open>s\<close>. A read may be short, but it
  gives 0 only when nothing is left.
\<close>

locale byte_reader =
  fixes rd :: "'s reader"
    and rest :: "'s \<Rightarrow> u8 list"
    and inv :: "'s \<Rightarrow> bool"
  assumes read_gives:
    "inv s \<Longrightarrow> buf \<noteq> [] \<Longrightarrow>
      \<exists>n s'. rd s buf = (Ok n, take n (rest s) @ drop n buf, s') \<and> inv s' \<and>
        n \<le> length buf \<and> n \<le> length (rest s) \<and> rest s' = drop n (rest s) \<and>
        (n = 0 \<longrightarrow> rest s = [])"
begin

lemma read_all_loop_rest:
  "inv s \<Longrightarrow>
    \<exists>s'. read_all_loop rd s buf cnt = Some (Ok (cnt + length (rest s)), buf @ rest s, s') \<and>
      inv s' \<and> rest s' = []"
proof (induction "length (rest s)" arbitrary: s buf cnt rule: less_induct)
  case less
  obtain n s' where r: "rd s (replicate 1024 0) = (Ok n, take n (rest s) @ drop n (replicate 1024 0), s')"
    "inv s'" "n \<le> 1024" "n \<le> length (rest s)" "rest s' = drop n (rest s)" "n = 0 \<longrightarrow> rest s = []"
    using read_gives [OF less.prems, of "replicate 1024 0"] by auto
  show ?case
  proof (cases "n = 0")
    case True
    with r show ?thesis by (subst read_all_loop.simps) simp
  next
    case False
    with r have "length (rest s') < length (rest s)" by simp
    from less.hyps [OF this r(2), of "buf @ take n (rest s)" "cnt + n"] False r
    show ?thesis by (subst read_all_loop.simps) (simp add: add.assoc)
  qed
qed

lemma read_all_rest:
  "inv s \<Longrightarrow>
    \<exists>s'. read_all rd s buf = Some (Ok (length (rest s)), buf @ rest s, s') \<and> inv s' \<and> rest s' = []"
  unfolding read_all_def using read_all_loop_rest [of s buf 0] by simp

text \<open>Any number of reads with any buffers gives consecutive pieces of what was left.\<close>

primrec read_many :: "'s \<Rightarrow> u8 list list \<Rightarrow> u8 list \<times> 's" where
  "read_many s [] = ([], s)"
| "read_many s (b # bs) =
     (case rd s b of
        (Ok n, b', s') \<Rightarrow> (case read_many s' bs of (out, s'') \<Rightarrow> (take n b' @ out, s''))
      | (_, _, s') \<Rightarrow> ([], s'))"

lemma read_many_prefix:
  "inv s \<Longrightarrow> \<forall>b\<in>set bs. b \<noteq> [] \<Longrightarrow>
    \<exists>out s'. read_many s bs = (out, s') \<and> inv s' \<and> rest s = out @ rest s'"
proof (induction bs arbitrary: s)
  case (Cons b bs)
  then obtain n s' where r: "rd s b = (Ok n, take n (rest s) @ drop n b, s')" "inv s'"
    "n \<le> length (rest s)" "rest s' = drop n (rest s)"
    using read_gives [of s b] by auto
  from Cons.IH [OF r(2)] Cons.prems obtain out s'' where
    "read_many s' bs = (out, s'')" "inv s''" "rest s' = out @ rest s''" by auto
  with r show ?case
    by (auto intro: append_take_drop_id [symmetric, THEN trans])
qed simp

end

end
