(* ===== verification/FatFile.thy ===== *)
theory FatFile
  imports Fat16 Readers
begin

text \<open>
  Files of a FAT16 volume, \<open>pkg/storage/src/fs/fat16/file.rs\<close>, and the \<open>FileSystem\<close>
  operations of the volume (\<open>impls.rs\<close>), which open them.
\<close>

section \<open>File\<close>

record ('d, 't) fat_file =
  ff_offset :: nat
  ff_cluster :: cluster
  ff_entry :: "'t dir_entry"
  ff_handle :: "'d fat16"

definition file_new :: "'d fat16 \<Rightarrow> 't dir_entry \<Rightarrow> ('d, 't) fat_file" where
  "file_new handle entry =
     \<lparr>ff_offset = 0, ff_cluster = de_cluster entry, ff_entry = entry, ff_handle = handle\<rparr>"

definition file_length :: "('d, 't) fat_file \<Rightarrow> nat" where
  "file_length f = unat (de_size (ff_entry f))"

definition cluster_size :: "'d fat16 \<Rightarrow> nat" where
  "cluster_size fs = f_spc fs * f_bps fs"

text \<open>The \<open>for\<close> loop of \<open>ensure_correct_cluster\<close>: \<open>n\<close> steps along the chain.\<close>

fun walk_chain :: "'d fat16 \<Rightarrow> nat \<Rightarrow> cluster \<Rightarrow> cluster fs_result" where
  "walk_chain fs 0 c = Ok c"
| "walk_chain fs (Suc n) c =
     (if c = 0 then Err InvalidOperation
      else andThen (get_next_cluster fs (ucast c)) (\<lambda>next.
             case next of
               Some next_cluster \<Rightarrow> walk_chain fs n (ucast next_cluster)
             | None \<Rightarrow> Err InvalidOperation))"

definition ensure_correct_cluster ::
  "('d, 't) fat_file \<Rightarrow> unit fs_result \<times> ('d, 't) fat_file" where
  "ensure_correct_cluster f =
     (let csz = cluster_size (ff_handle f) in
      if csz = 0 then (Panic, f)
      else let target_cluster_index = ff_offset f div csz in
        if target_cluster_index = 0 then (Ok (), f\<lparr>ff_cluster := de_cluster (ff_entry f)\<rparr>)
        else andThenS (walk_chain (ff_handle f) target_cluster_index (de_cluster (ff_entry f))) f
               (\<lambda>c. (Ok (), f\<lparr>ff_cluster := c\<rparr>)))"

definition move_to_next_cluster ::
  "('d, 't) fat_file \<Rightarrow> bool fs_result \<times> ('d, 't) fat_file" where
  "move_to_next_cluster f =
     (let c = ff_cluster f in
      if c = 0 then (Ok False, f)
      else andThenS (get_next_cluster (ff_handle f) (ucast c)) f (\<lambda>next.
             case next of
               Some next_cluster \<Rightarrow> (Ok True, f\<lparr>ff_cluster := ucast next_cluster\<rparr>)
             | None \<Rightarrow> (Ok False, f)))"

text \<open>
  The \<open>while\<close> loop of \<open>read_from_current_cluster\<close>: \<open>s0\<close> and \<open>b0\<close> are the sector and the
  byte in it where the read starts, \<open>i\<close> the sector index of this turn.
\<close>

function read_sectors ::
  "'d fat16 \<Rightarrow> nat \<Rightarrow> nat \<Rightarrow> nat \<Rightarrow> nat \<Rightarrow> nat \<Rightarrow> u8 list \<Rightarrow> nat fs_result \<times> u8 list" where
  "read_sectors fs start_sector s0 b0 i bytes_read buf =
     (if bytes_read < length buf \<and> i < f_spc fs then
        andThenS (f_read fs (start_sector + i)) buf (\<lambda>sector_data.
          let start_in_sector = (if i = s0 then b0 else 0);
              n = min (length buf - bytes_read) (f_bps fs - start_in_sector)
          in andThenS (slice sector_data start_in_sector (start_in_sector + n)) buf (\<lambda>src.
               read_sectors fs start_sector s0 b0 (Suc i) (bytes_read + n)
                 (copy_into buf bytes_read src)))
      else (Ok bytes_read, buf))"
  by pat_completeness auto
termination
  by (relation "measure (\<lambda>(fs, start, s0, b0, i, n, buf). f_spc fs - i)") auto

definition read_from_current_cluster ::
  "('d, 't) fat_file \<Rightarrow> nat \<Rightarrow> u8 list \<Rightarrow> nat fs_result \<times> u8 list" where
  "read_from_current_cluster f offset_in_cluster buf =
     (let fs = ff_handle f; sector_size = f_bps fs in
      if sector_size = 0 then (Panic, buf)
      else read_sectors fs (cluster_to_sector fs (ff_cluster f)) (offset_in_cluster div sector_size)
             (offset_in_cluster mod sector_size) (offset_in_cluster div sector_size) 0 buf)"

text \<open>
  The \<open>while\<close> loop of \<open>read\<close>. The call reads into \<open>&mut buf[bytes_read..bytes_read +
  chunk_size]\<close>, so what it wrote is copied back there.
\<close>

function read_loop ::
  "nat \<Rightarrow> nat \<Rightarrow> u8 list \<Rightarrow> ('d, 't) fat_file \<Rightarrow> nat fs_result \<times> u8 list \<times> ('d, 't) fat_file"
where
  "read_loop to_read bytes_read buf f =
     (let csz = cluster_size (ff_handle f) in
      if bytes_read < to_read then
        if csz = 0 then (Panic, buf, f)
        else
          let offset_in_cluster = ff_offset f mod csz;
              chunk_size = min (to_read - bytes_read) (csz - offset_in_cluster)
          in (case (slice buf bytes_read (bytes_read + chunk_size) :: u8 list fs_result) of
                Ok part \<Rightarrow>
                  (case read_from_current_cluster f offset_in_cluster part of
                     (Ok n, part') \<Rightarrow>
                       let buf' = copy_into buf bytes_read part';
                           f' = f\<lparr>ff_offset := ff_offset f + n\<rparr>;
                           bytes_read' = bytes_read + n
                       in if n < chunk_size then (Ok bytes_read', buf', f')
                          else if bytes_read' < to_read \<and> ff_offset f' mod csz = 0 then
                            (case move_to_next_cluster f' of
                               (Ok moved, f'') \<Rightarrow>
                                 if moved then read_loop to_read bytes_read' buf' f''
                                 else (Ok bytes_read', buf', f'')
                             | (Err e, f'') \<Rightarrow> (Err e, buf', f'')
                             | (Panic, f'') \<Rightarrow> (Panic, buf', f'')
                             | (Diverge, f'') \<Rightarrow> (Diverge, buf', f''))
                          else read_loop to_read bytes_read' buf' f'
                   | (Err e, part') \<Rightarrow> (Err e, copy_into buf bytes_read part', f)
                   | (Panic, part') \<Rightarrow> (Panic, copy_into buf bytes_read part', f)
                   | (Diverge, part') \<Rightarrow> (Diverge, copy_into buf bytes_read part', f))
              | _ \<Rightarrow> (Panic, buf, f))
      else (Ok bytes_read, buf, f))"
  by pat_completeness auto
termination
  apply (relation "measure (\<lambda>(to_read, n, buf, f). to_read - n)")
    apply (auto simp: min_def split: if_splits)
  subgoal for to_read n buf f
    using mod_less_divisor [of "cluster_size (ff_handle f)" "ff_offset f"] by linarith
  subgoal for to_read n buf f
    using mod_less_divisor [of "cluster_size (ff_handle f)" "ff_offset f"] by linarith
  done

declare read_sectors.simps [simp del] read_loop.simps [simp del]

definition file_read ::
  "('d, 't) fat_file \<Rightarrow> u8 list \<Rightarrow> nat fs_result \<times> u8 list \<times> ('d, 't) fat_file" where
  "file_read f buf =
     (if file_length f \<le> ff_offset f then (Ok 0, buf, f)
      else let remaining_in_file = file_length f - ff_offset f;
               bytes_to_read = min (length buf) remaining_in_file
        in if bytes_to_read = 0 then (Ok 0, buf, f)
           else case ensure_correct_cluster f of
                  (Ok _, f') \<Rightarrow> read_loop bytes_to_read 0 buf f'
                | (Err e, f') \<Rightarrow> (Err e, buf, f')
                | (Panic, f') \<Rightarrow> (Panic, buf, f')
                | (Diverge, f') \<Rightarrow> (Diverge, buf, f'))"

text \<open>\<open>seek\<close>, \<open>write\<close> and \<open>flush\<close> are \<open>unimplemented!\<close>.\<close>

definition file_seek :: "('d, 't) fat_file \<Rightarrow> nat fs_result" where
  "file_seek f = Panic"

definition file_write :: "('d, 't) fat_file \<Rightarrow> u8 list \<Rightarrow> nat fs_result" where
  "file_write f buf = Panic"

section \<open>What a file holds\<close>

text \<open>
  The contract of the reader, stated on the volume and not on the code of \<open>read\<close>: the
  clusters of a file are a chain of the FAT, their sectors side by side are its data, and the
  entry's size cuts the data off.
\<close>

definition sector_bytes :: "'d fat16 \<Rightarrow> nat \<Rightarrow> u8 list" where
  "sector_bytes fs s = (case f_read fs s of Ok b \<Rightarrow> b | _ \<Rightarrow> [])"

definition sector_readable :: "'d fat16 \<Rightarrow> nat \<Rightarrow> bool" where
  "sector_readable fs s \<longleftrightarrow> (case f_read fs s of Ok b \<Rightarrow> length b = BLOCK_SIZE | _ \<Rightarrow> False)"

definition cluster_sectors :: "'d fat16 \<Rightarrow> cluster \<Rightarrow> nat list" where
  "cluster_sectors fs c = map (\<lambda>i. cluster_to_sector fs c + i) [0..<f_spc fs]"

definition cluster_data :: "'d fat16 \<Rightarrow> cluster \<Rightarrow> u8 list" where
  "cluster_data fs c = concat (map (sector_bytes fs) (cluster_sectors fs c))"

definition cluster_readable :: "'d fat16 \<Rightarrow> cluster \<Rightarrow> bool" where
  "cluster_readable fs c \<longleftrightarrow> list_all (sector_readable fs) (cluster_sectors fs c)"

text \<open>The first \<open>n\<close> clusters of the chain that starts at \<open>c\<close>, if the FAT links that many.\<close>

fun chain :: "'d fat16 \<Rightarrow> cluster \<Rightarrow> nat \<Rightarrow> cluster list option" where
  "chain fs c 0 = Some []"
| "chain fs c (Suc 0) = Some [c]"
| "chain fs c (Suc (Suc n)) =
     (if c = 0 then None
      else case get_next_cluster fs (ucast c) of
             Ok (Some d) \<Rightarrow> map_option ((#) c) (chain fs (ucast d) (Suc n))
           | _ \<Rightarrow> None)"

definition file_clusters :: "('d, 't) fat_file \<Rightarrow> nat" where
  "file_clusters f =
     (file_length f + cluster_size (ff_handle f) - 1) div cluster_size (ff_handle f)"

definition file_chain :: "('d, 't) fat_file \<Rightarrow> cluster list option" where
  "file_chain f = chain (ff_handle f) (de_cluster (ff_entry f)) (file_clusters f)"

definition volume_wf :: "'d fat16 \<Rightarrow> bool" where
  "volume_wf fs \<longleftrightarrow> f_bps fs = BLOCK_SIZE \<and> 0 < f_spc fs"

definition file_wf :: "('d, 't) fat_file \<Rightarrow> bool" where
  "file_wf f \<longleftrightarrow>
     volume_wf (ff_handle f) \<and>
     (case file_chain f of None \<Rightarrow> False
      | Some cs \<Rightarrow> list_all (cluster_readable (ff_handle f)) cs)"

definition file_content :: "('d, 't) fat_file \<Rightarrow> u8 list" where
  "file_content f =
     (case file_chain f of None \<Rightarrow> []
      | Some cs \<Rightarrow> take (file_length f) (concat (map (cluster_data (ff_handle f)) cs)))"

subsection \<open>Clusters and chains\<close>

lemma sector_readable_read:
  "sector_readable fs s \<Longrightarrow> f_read fs s = Ok (sector_bytes fs s) \<and> length (sector_bytes fs s) = BLOCK_SIZE"
  by (auto simp: sector_readable_def sector_bytes_def split: res.splits)

lemma cluster_readable_sector:
  "cluster_readable fs c \<Longrightarrow> i < f_spc fs \<Longrightarrow> sector_readable fs (cluster_to_sector fs c + i)"
  by (auto simp: cluster_readable_def cluster_sectors_def list_all_iff)

lemma cluster_blocks:
  "cluster_readable fs c \<Longrightarrow> \<forall>b\<in>set (map (sector_bytes fs) (cluster_sectors fs c)). length b = BLOCK_SIZE"
  by (auto simp: cluster_readable_def list_all_iff dest: sector_readable_read)

lemma length_cluster_data:
  "volume_wf fs \<Longrightarrow> cluster_readable fs c \<Longrightarrow> length (cluster_data fs c) = cluster_size fs"
  unfolding cluster_data_def
  by (subst length_concat_blocks [OF cluster_blocks])
    (simp_all add: cluster_sectors_def cluster_size_def volume_wf_def)

lemma length_chain: "chain fs c n = Some cs \<Longrightarrow> length cs = n"
  by (induction fs c n arbitrary: cs rule: chain.induct)
    (auto split: if_splits res.splits option.splits)

lemma chain_walk:
  "chain fs c n = Some cs \<Longrightarrow> i < n \<Longrightarrow> walk_chain fs i c = Ok (cs ! i)"
proof (induction fs c n arbitrary: cs i rule: chain.induct)
  case (3 fs c n)
  then show ?case by (cases i) (auto split: if_splits res.splits option.splits)
qed auto

lemma chain_step:
  "chain fs c n = Some cs \<Longrightarrow> Suc i < n \<Longrightarrow>
    cs ! i \<noteq> 0 \<and> (\<exists>d. get_next_cluster fs (ucast (cs ! i)) = Ok (Some d) \<and> cs ! Suc i = ucast d)"
proof (induction fs c n arbitrary: cs i rule: chain.induct)
  case (3 fs c n)
  from "3.prems" obtain d ds where d: "c \<noteq> 0" "get_next_cluster fs (ucast c) = Ok (Some d)"
    "chain fs (ucast d) (Suc n) = Some ds" "cs = c # ds"
    by (auto split: if_splits res.splits option.splits)
  show ?case
  proof (cases i)
    case 0
    have "ds ! 0 = ucast d" using d(3) by (cases n) (auto split: if_splits res.splits option.splits)
    with 0 d show ?thesis by simp
  next
    case (Suc j)
    with "3.IH" [OF d(1) d(2) refl d(3), of j] "3.prems" d show ?thesis by auto
  qed
qed auto

subsection \<open>Reading within a cluster\<close>

text \<open>
  A turn at sector \<open>i\<close> continues at byte \<open>pos\<close> of the cluster; the part \<open>pre\<close> of the
  buffer is filled, \<open>todo\<close> is still to fill.
\<close>

lemma read_sectors_ok:
  assumes "volume_wf fs" "cluster_readable fs c" "b0 < BLOCK_SIZE" "s0 \<le> i"
    and "pos = i * BLOCK_SIZE + (if i = s0 then b0 else 0)"
    and "pos + length todo \<le> cluster_size fs"
  shows "read_sectors fs (cluster_to_sector fs c) s0 b0 i (length pre) (pre @ todo) =
    (Ok (length pre + length todo), pre @ take (length todo) (drop pos (cluster_data fs c)))"
  using assms
proof (induction "length todo" arbitrary: i pre todo pos rule: less_induct)
  case less
  have fs: "f_bps fs = BLOCK_SIZE" "cluster_size fs = f_spc fs * BLOCK_SIZE"
    using less.prems by (simp_all add: volume_wf_def cluster_size_def)
  let ?st = "if i = s0 then b0 else 0"
  let ?n = "min (length todo) (BLOCK_SIZE - ?st)"
  let ?data = "cluster_data fs c"
  show ?case
  proof (cases "todo = []")
    case True
    then show ?thesis by (simp add: read_sectors.simps)
  next
    case False
    have st: "?st < BLOCK_SIZE" using less.prems(3) by (simp add: BLOCK_SIZE_def)
    have "i * BLOCK_SIZE < f_spc fs * BLOCK_SIZE"
    proof -
      have "0 < length todo" using False by simp
      with less.prems(5, 6) fs(2) show ?thesis by linarith
    qed
    then have i: "i < f_spc fs" by simp
    from sector_readable_read [OF cluster_readable_sector [OF less.prems(2) i]]
    have rd: "f_read fs (cluster_to_sector fs c + i) = Ok (sector_bytes fs (cluster_to_sector fs c + i))"
      "length (sector_bytes fs (cluster_to_sector fs c + i)) = BLOCK_SIZE" by auto
    define src where "src = take ?n (drop ?st (sector_bytes fs (cluster_to_sector fs c + i)))"
    have len: "length src = ?n" using rd(2) by (simp add: src_def)
    have src: "src = take ?n (drop pos ?data)"
      unfolding cluster_data_def less.prems(5) src_def
      using i st by (subst take_drop_concat_blocks [OF cluster_blocks [OF less.prems(2)]])
        (auto simp: cluster_sectors_def)
    have turn: "read_sectors fs (cluster_to_sector fs c) s0 b0 i (length pre) (pre @ todo) =
      read_sectors fs (cluster_to_sector fs c) s0 b0 (Suc i) (length (pre @ src)) ((pre @ src) @ drop ?n todo)"
      using False i rd st fs(1)
      by (subst read_sectors.simps) (auto simp: Let_def slice_def src_def copy_into_def len)
    show ?thesis
    proof (cases "?n = length todo")
      case True
      then have "drop ?n todo = []" by simp
      with turn src len True show ?thesis by (simp add: read_sectors.simps)
    next
      case short: False
      then have n: "?n = BLOCK_SIZE - ?st" by (simp add: min_def split: if_splits)
      have pos': "pos + ?n = Suc i * BLOCK_SIZE" using less.prems(5) st n by simp
      have "read_sectors fs (cluster_to_sector fs c) s0 b0 (Suc i) (length (pre @ src))
          ((pre @ src) @ drop ?n todo) =
        (Ok (length (pre @ src) + length (drop ?n todo)),
         (pre @ src) @ take (length (drop ?n todo)) (drop (pos + ?n) ?data))"
      proof (rule less.hyps)
        show "length (drop ?n todo) < length todo" using False st by simp
        show "pos + ?n = Suc i * BLOCK_SIZE + (if Suc i = s0 then b0 else 0)"
          using pos' less.prems(4) by simp
        show "pos + ?n + length (drop ?n todo) \<le> cluster_size fs"
          using less.prems(6) by simp
      qed (use less.prems in auto)
      moreover have "src @ take (length (drop ?n todo)) (drop (pos + ?n) ?data) =
          take (length todo) (drop pos ?data)"
        unfolding src using take_add [of ?n "length todo - ?n" "drop pos ?data"]
        by (simp add: add.commute)
      ultimately show ?thesis using turn len by simp
    qed
  qed
qed

lemma read_from_current_cluster_ok:
  assumes "volume_wf (ff_handle f)" "cluster_readable (ff_handle f) (ff_cluster f)"
    and "r + length part \<le> cluster_size (ff_handle f)"
  shows "read_from_current_cluster f r part =
    (Ok (length part), take (length part) (drop r (cluster_data (ff_handle f) (ff_cluster f))))"
  using assms read_sectors_ok [OF assms(1, 2), of "r mod BLOCK_SIZE" "r div BLOCK_SIZE" "r div BLOCK_SIZE" r part "[]"]
  by (auto simp: read_from_current_cluster_def Let_def volume_wf_def BLOCK_SIZE_def)

subsection \<open>Reading along the chain\<close>

text \<open>
  A file whose chain of \<open>k\<close> clusters is \<open>cs\<close>: \<open>chain_data\<close> is their data side by side, and
  \<open>turn_size\<close> is the chunk that one turn of the loop of \<open>read\<close> takes.
\<close>

definition linked :: "('d, 't) fat_file \<Rightarrow> nat \<Rightarrow> cluster list \<Rightarrow> bool" where
  "linked f k cs \<longleftrightarrow>
     volume_wf (ff_handle f) \<and> chain (ff_handle f) (de_cluster (ff_entry f)) k = Some cs \<and>
     list_all (cluster_readable (ff_handle f)) cs"

definition chain_data :: "('d, 't) fat_file \<Rightarrow> cluster list \<Rightarrow> u8 list" where
  "chain_data f cs = concat (map (cluster_data (ff_handle f)) cs)"

definition turn_size :: "('d, 't) fat_file \<Rightarrow> nat \<Rightarrow> nat" where
  "turn_size f m =
     min m (cluster_size (ff_handle f) - ff_offset f mod cluster_size (ff_handle f))"

definition at_cluster :: "('d, 't) fat_file \<Rightarrow> cluster list \<Rightarrow> bool" where
  "at_cluster f cs \<longleftrightarrow> ff_cluster f = cs ! (ff_offset f div cluster_size (ff_handle f))"

lemma linked_moved [simp]:
  "linked (f\<lparr>ff_offset := n\<rparr>) k cs = linked f k cs"
  "linked (f\<lparr>ff_cluster := c\<rparr>) k cs = linked f k cs"
  by (simp_all add: linked_def)

lemma linked_csz: "linked f k cs \<Longrightarrow> 0 < cluster_size (ff_handle f)"
  by (simp add: linked_def cluster_size_def volume_wf_def BLOCK_SIZE_def)

lemma linked_blocks:
  "linked f k cs \<Longrightarrow>
    length cs = k \<and> (\<forall>b\<in>set (map (cluster_data (ff_handle f)) cs). length b = cluster_size (ff_handle f))"
  by (auto simp: linked_def list_all_iff length_cluster_data dest: length_chain)

lemma length_chain_data: "linked f k cs \<Longrightarrow> length (chain_data f cs) = k * cluster_size (ff_handle f)"
  using linked_blocks [of f k cs] unfolding chain_data_def
  by (subst length_concat_blocks [where k = "cluster_size (ff_handle f)"]) auto

lemma turn_size_bounds:
  assumes "linked f k cs" "0 < m"
  shows "0 < turn_size f m" "turn_size f m \<le> m"
    "ff_offset f mod cluster_size (ff_handle f) + turn_size f m \<le> cluster_size (ff_handle f)"
  using assms mod_less_divisor [OF linked_csz [OF assms(1)], of "ff_offset f"]
  by (auto simp: turn_size_def)

text \<open>The chunk of one turn.\<close>

lemma chunk_read:
  assumes "linked f k cs" "at_cluster f cs" "todo \<noteq> []"
    and "ff_offset f + length todo \<le> k * cluster_size (ff_handle f)"
  shows "read_from_current_cluster f (ff_offset f mod cluster_size (ff_handle f))
      (take (turn_size f (length todo)) todo) =
    (Ok (turn_size f (length todo)),
     take (turn_size f (length todo)) (drop (ff_offset f) (chain_data f cs)))"
proof -
  let ?csz = "cluster_size (ff_handle f)" and ?o = "ff_offset f"
  let ?n = "turn_size f (length todo)"
  have csz: "0 < ?csz" using linked_csz assms(1) .
  have "0 < length todo" using assms(3) by simp
  then have n: "?n \<le> length todo" "?o mod ?csz + ?n \<le> ?csz" and "?o < k * ?csz"
    using turn_size_bounds(2,3) [OF assms(1), of "length todo"] assms(4) by (simp, simp, linarith)
  then have q: "?o div ?csz < length cs"
    using csz linked_blocks [OF assms(1)] by (simp add: less_mult_imp_div_less)
  then have "cluster_readable (ff_handle f) (ff_cluster f)"
    using assms(1, 2) by (auto simp: linked_def at_cluster_def list_all_length)
  then have "read_from_current_cluster f (?o mod ?csz) (take ?n todo) =
      (Ok ?n, take ?n (drop (?o mod ?csz) (cluster_data (ff_handle f) (ff_cluster f))))"
    using read_from_current_cluster_ok [of f "?o mod ?csz" "take ?n todo"] assms(1) n
    by (simp add: linked_def min_def)
  moreover have "take ?n (drop (?o mod ?csz) (cluster_data (ff_handle f) (ff_cluster f))) =
      take ?n (drop ?o (chain_data f cs))"
    using take_drop_concat_blocks [OF conjunct2 [OF linked_blocks [OF assms(1)]] _ n(2), of "?o div ?csz"]
      q assms(2) by (simp add: at_cluster_def chain_data_def)
  ultimately show ?thesis by simp
qed

text \<open>One turn of the loop, given what the chunk read gives.\<close>

lemma read_turn:
  assumes "linked f k cs" "at_cluster f cs" "todo \<noteq> []"
    and "ff_offset f + length todo \<le> k * cluster_size (ff_handle f)"
  defines "n \<equiv> turn_size f (length todo)"
  defines "got \<equiv> take n (drop (ff_offset f) (chain_data f cs))"
  defines "f' \<equiv> f\<lparr>ff_offset := ff_offset f + n\<rparr>"
  shows "read_loop (length pre + length todo) (length pre) (pre @ todo @ post) f =
    (if n < length todo \<and> (ff_offset f + n) mod cluster_size (ff_handle f) = 0 then
       (case move_to_next_cluster f' of
          (Ok moved, f'') \<Rightarrow>
            if moved then read_loop (length pre + length todo) (length (pre @ got)) (pre @ got @ drop n todo @ post) f''
            else (Ok (length (pre @ got)), pre @ got @ drop n todo @ post, f'')
        | (Err e, f'') \<Rightarrow> (Err e, pre @ got @ drop n todo @ post, f'')
        | (Panic, f'') \<Rightarrow> (Panic, pre @ got @ drop n todo @ post, f'')
        | (Diverge, f'') \<Rightarrow> (Diverge, pre @ got @ drop n todo @ post, f''))
     else read_loop (length pre + length todo) (length (pre @ got)) (pre @ got @ drop n todo @ post) f')"
proof -
  have n: "n \<le> length todo" using assms turn_size_bounds(2) [OF assms(1)] by (simp add: n_def)
  have len: "length got = n"
    using assms(4) n by (simp add: got_def length_chain_data [OF assms(1)])
  have part: "slice (pre @ todo @ post) (length pre) (length pre + n) = (Ok (take n todo) :: u8 list fs_result)"
    using n by (simp add: slice_def)
  have rd: "read_from_current_cluster f (ff_offset f mod cluster_size (ff_handle f)) (take n todo) = (Ok n, got)"
    using chunk_read [OF assms(1-4)] by (simp add: n_def got_def)
  have copy: "copy_into (pre @ todo @ post) (length pre) got = pre @ got @ drop n todo @ post"
    using len n by (simp add: copy_into_def)
  have "turn_size f (length todo) = n" by (simp add: n_def)
  then have chunk: "min (length todo) (cluster_size (ff_handle f) - ff_offset f mod cluster_size (ff_handle f)) = n"
    by (simp add: turn_size_def)
  show ?thesis
    using linked_csz [OF assms(1)] assms(3) part rd copy len
    by (subst read_loop.simps) (auto simp: Let_def chunk f'_def split: prod.splits res.splits)
qed

text \<open>A turn that stops short of the request has reached the end of its cluster.\<close>

lemma boundary:
  assumes "linked f k cs" "at_cluster f cs" "turn_size f m < m"
    and "ff_offset f + m \<le> k * cluster_size (ff_handle f)"
  defines "f' \<equiv> f\<lparr>ff_offset := ff_offset f + turn_size f m\<rparr>"
  shows "(ff_offset f + turn_size f m) mod cluster_size (ff_handle f) = 0 \<and>
    (\<exists>c. move_to_next_cluster f' = (Ok True, f'\<lparr>ff_cluster := c\<rparr>) \<and> at_cluster (f'\<lparr>ff_cluster := c\<rparr>) cs)"
proof -
  let ?csz = "cluster_size (ff_handle f)" and ?q = "ff_offset f div cluster_size (ff_handle f)"
  have csz: "0 < ?csz" using linked_csz assms(1) .
  have "turn_size f m = ?csz - ff_offset f mod ?csz"
    using assms(3) by (simp add: turn_size_def min_def split: if_splits)
  then have o': "ff_offset f + turn_size f m = Suc ?q * ?csz"
    using div_mult_mod_eq [of "ff_offset f" ?csz] mod_less_divisor [OF csz, of "ff_offset f"]
    unfolding mult_Suc by linarith
  then have "Suc ?q * ?csz < k * ?csz" using assms(3, 4) by linarith
  then have "Suc ?q < k" by (simp only: mult_less_cancel2)
  with assms(1) obtain d where d: "cs ! ?q \<noteq> 0"
    "get_next_cluster (ff_handle f) (ucast (cs ! ?q)) = Ok (Some d)" "cs ! Suc ?q = ucast d"
    using chain_step by (fastforce simp: linked_def)
  have "(ff_offset f + turn_size f m) div ?csz = Suc ?q" using csz by (simp only: o') simp
  with d assms(2) have "move_to_next_cluster f' = (Ok True, f'\<lparr>ff_cluster := ucast d\<rparr>)"
    "at_cluster (f'\<lparr>ff_cluster := ucast d\<rparr>) cs"
    by (simp_all add: move_to_next_cluster_def Let_def f'_def at_cluster_def)
  then show ?thesis by (metis o' mod_mult_self2_is_0)
qed

lemma read_loop_ok:
  assumes "linked f k cs" "todo \<noteq> [] \<Longrightarrow> at_cluster f cs"
    and "ff_offset f + length todo \<le> k * cluster_size (ff_handle f)"
  shows "\<exists>c. read_loop (length pre + length todo) (length pre) (pre @ todo @ post) f =
    (Ok (length pre + length todo),
     pre @ take (length todo) (drop (ff_offset f) (chain_data f cs)) @ post,
     f\<lparr>ff_offset := ff_offset f + length todo, ff_cluster := c\<rparr>)"
  using assms
proof (induction "length todo" arbitrary: pre todo f rule: less_induct)
  case less
  let ?n = "turn_size f (length todo)" and ?o = "ff_offset f"
  let ?got = "take ?n (drop ?o (chain_data f cs))" and ?f = "f\<lparr>ff_offset := ?o + ?n\<rparr>"
  show ?case
  proof (cases "todo = []")
    case True
    then show ?thesis by (auto simp: read_loop.simps intro: exI [of _ "ff_cluster f"])
  next
    case False
    have n: "0 < ?n" "?n \<le> length todo"
      using False turn_size_bounds [OF less.prems(1), of "length todo"] by auto
    note turn = read_turn [OF less.prems(1) less.prems(2) [OF False] False less.prems(3), of pre post]
    have len: "min (length (chain_data f cs) - ?o) ?n = ?n"
      using less.prems(3) n by (simp add: length_chain_data [OF less.prems(1)])
    have go_on: "\<exists>c'. read_loop (length pre + length todo) (length (pre @ ?got))
          (pre @ ?got @ drop ?n todo @ post) (?f\<lparr>ff_cluster := c\<rparr>) =
       (Ok (length pre + length todo),
        pre @ take (length todo) (drop ?o (chain_data f cs)) @ post,
        f\<lparr>ff_offset := ?o + length todo, ff_cluster := c'\<rparr>)"
      if "drop ?n todo \<noteq> [] \<Longrightarrow> at_cluster (?f\<lparr>ff_cluster := c\<rparr>) cs" for c
      using less.hyps [of "drop ?n todo" "?f\<lparr>ff_cluster := c\<rparr>" "pre @ ?got"] that less.prems(1, 3) n len
        take_add [of ?n "length todo - ?n" "drop ?o (chain_data f cs)"]
      by (auto simp: chain_data_def add.commute)
    show ?thesis
    proof (cases "?n < length todo")
      case True
      from boundary [OF less.prems(1) less.prems(2) [OF False] True less.prems(3)]
      obtain c where c: "(?o + ?n) mod cluster_size (ff_handle f) = 0"
        "move_to_next_cluster ?f = (Ok True, ?f\<lparr>ff_cluster := c\<rparr>)"
        "at_cluster (?f\<lparr>ff_cluster := c\<rparr>) cs" by (elim conjE exE) (rule that)
      from go_on [of c] c(3) turn c(1, 2) True show ?thesis by auto
    next
      case all: False
      with turn go_on [of "ff_cluster f"] show ?thesis by simp
    qed
  qed
qed

section \<open>The contract of read\<close>

lemma file_wf_linked:
  assumes "file_wf f"
  obtains cs where "linked f (file_clusters f) cs"
    "file_content f = take (file_length f) (chain_data f cs)"
proof -
  from assms obtain cs where "file_chain f = Some cs" "volume_wf (ff_handle f)"
    "list_all (cluster_readable (ff_handle f)) cs"
    by (auto simp: file_wf_def split: option.splits)
  then show thesis
    by (intro that [of cs]) (auto simp: linked_def file_chain_def file_content_def chain_data_def)
qed

lemma file_fits:
  "linked f k cs \<Longrightarrow> file_length f \<le> file_clusters f * cluster_size (ff_handle f)"
proof -
  let ?c = "cluster_size (ff_handle f)"
  assume "linked f k cs"
  then have "0 < ?c" by (rule linked_csz)
  then have "file_length f + ?c - 1 < (file_clusters f + 1) * ?c"
    unfolding file_clusters_def by (metis Suc_eq_plus1 dividend_less_div_times mult_Suc)
  then show ?thesis using \<open>0 < ?c\<close> by (simp add: algebra_simps)
qed

lemma length_file_content: "file_wf f \<Longrightarrow> length (file_content f) = file_length f"
  by (elim file_wf_linked) (simp add: length_chain_data file_fits min_absorb2)

lemma ensure_correct_cluster_ok:
  assumes "linked f (file_clusters f) cs" "ff_offset f < file_length f"
  shows "ensure_correct_cluster f =
    (Ok (), f\<lparr>ff_cluster := cs ! (ff_offset f div cluster_size (ff_handle f))\<rparr>)"
proof -
  let ?c = "cluster_size (ff_handle f)" and ?q = "ff_offset f div cluster_size (ff_handle f)"
  have c: "0 < ?c" using assms(1) by (rule linked_csz)
  have "ff_offset f < file_clusters f * ?c" using assms file_fits by fastforce
  then have "?q < file_clusters f" using c by (simp add: less_mult_imp_div_less)
  then have "walk_chain (ff_handle f) ?q (de_cluster (ff_entry f)) = Ok (cs ! ?q)"
    using assms(1) by (auto simp: linked_def intro: chain_walk)
  then show ?thesis using c by (cases "?q = 0") (simp_all add: ensure_correct_cluster_def Let_def)
qed

lemma file_read_spec:
  assumes "file_wf f"
  shows "\<exists>c. file_read f buf =
    (let n = min (length buf) (file_length f - ff_offset f) in
     (Ok n, take n (drop (ff_offset f) (file_content f)) @ drop n buf,
      f\<lparr>ff_offset := ff_offset f + n, ff_cluster := c\<rparr>))"
proof -
  define n where "n = min (length buf) (file_length f - ff_offset f)"
  from assms obtain cs where cs: "linked f (file_clusters f) cs"
    "file_content f = take (file_length f) (chain_data f cs)" by (rule file_wf_linked)
  show ?thesis
  proof (cases "n = 0")
    case True
    then show ?thesis
      by (auto simp: file_read_def n_def Let_def min_def split: if_splits intro: exI [of _ "ff_cluster f"])
  next
    case False
    then have n: "ff_offset f < file_length f" "n \<le> length buf" "ff_offset f + n \<le> file_length f"
      by (auto simp: n_def)
    define g where "g = f\<lparr>ff_cluster := cs ! (ff_offset f div cluster_size (ff_handle f))\<rparr>"
    have "file_read f buf = read_loop n 0 buf g"
      using n False ensure_correct_cluster_ok [OF cs(1) n(1)]
      by (simp add: file_read_def Let_def n_def [symmetric] g_def)
    moreover have "linked g (file_clusters f) cs" using cs(1) by (simp add: g_def)
    then have "\<exists>c. read_loop n 0 buf g =
      (Ok n, take n (drop (ff_offset g) (chain_data g cs)) @ drop n buf,
       g\<lparr>ff_offset := ff_offset g + n, ff_cluster := c\<rparr>)"
      using n file_fits [OF cs(1)]
        read_loop_ok [of g "file_clusters f" cs "take n buf" "[]" "drop n buf"]
      by (simp add: at_cluster_def g_def min_absorb2)
    ultimately show ?thesis
      using n cs(2) by (auto simp: n_def [symmetric] g_def chain_data_def drop_take min_absorb2 Let_def)
  qed
qed

lemma file_wf_moved:
  "file_wf f \<Longrightarrow> file_wf (f\<lparr>ff_offset := n, ff_cluster := c\<rparr>)"
  "file_content (f\<lparr>ff_offset := n, ff_cluster := c\<rparr>) = file_content f"
  by (auto simp: file_wf_def file_chain_def file_content_def file_clusters_def file_length_def
      split: option.splits)

text \<open>What is left to read of a file.\<close>

definition file_rest :: "('d, 't) fat_file \<Rightarrow> u8 list" where
  "file_rest f = drop (ff_offset f) (file_content f)"

interpretation fat: byte_reader file_read file_rest file_wf
proof unfold_locales
  fix f :: "('d, 't) fat_file" and buf :: "u8 list"
  assume wf: "file_wf f" and buf: "buf \<noteq> []"
  let ?n = "min (length buf) (file_length f - ff_offset f)"
  from file_read_spec [OF wf, of buf] obtain c where
    r: "file_read f buf = (Ok ?n, take ?n (file_rest f) @ drop ?n buf,
        f\<lparr>ff_offset := ff_offset f + ?n, ff_cluster := c\<rparr>)"
    by (auto simp: Let_def file_rest_def)
  have len: "length (file_rest f) = file_length f - ff_offset f"
    using length_file_content [OF wf] by (simp add: file_rest_def)
  show "\<exists>n s'. file_read f buf = (Ok n, take n (file_rest f) @ drop n buf, s') \<and> file_wf s' \<and>
      n \<le> length buf \<and> n \<le> length (file_rest f) \<and> file_rest s' = drop n (file_rest f) \<and>
      (n = 0 \<longrightarrow> file_rest f = [])"
    using r wf buf len
    by (intro exI [of _ ?n] exI [of _ "f\<lparr>ff_offset := ff_offset f + ?n, ff_cluster := c\<rparr>"])
      (auto simp: file_wf_moved file_rest_def add.commute min_def split: if_splits)
qed

end
