(* ===== verification/FatFs.thy ===== *)
theory FatFs
  imports FatFile
begin

text \<open>
  The trait \<open>FileSystem\<close> (\<open>pkg/storage/src/common/filesystem.rs\<close>) as a record of its
  operations, its implementations by the FAT16 volume (\<open>fs/fat16/impls.rs\<close>) and by a mount
  point (\<open>common/mount.rs\<close>), and what listing a directory and resolving a path compute.
\<close>

section \<open>The operations\<close>

record ('f, 't) file_system =
  fsys_read_dir :: "u8 list \<Rightarrow> 't metadata list fs_result"
  fsys_open_file :: "u8 list \<Rightarrow> ('t metadata \<times> 'f) fs_result"
  fsys_metadata :: "u8 list \<Rightarrow> 't metadata fs_result"
  fsys_exists :: "u8 list \<Rightarrow> bool fs_result"

text \<open>The default bodies of \<open>create_file\<close>, \<open>append_file\<close>, \<open>remove_*\<close>, \<open>copy_file\<close> and \<open>move_*\<close>.\<close>

definition unsupported :: "u8 list \<Rightarrow> 'a fs_result" where
  "unsupported path = Err NotSupported"

text \<open>\<open>Metadata::new\<close> from an entry; printing its name may panic.\<close>

definition entry_meta :: "'t dir_entry \<Rightarrow> file_type \<Rightarrow> 't metadata fs_result" where
  "entry_meta e entry_type =
     andThen (sfn_display (filename e)) (\<lambda>name.
       Ok (metadata_new name entry_type (unat (de_size e)) (Some (created_time e))
             (Some (modified_time e)) (Some (accessed_time e))))"

definition entry_file_type :: "'t dir_entry \<Rightarrow> file_type" where
  "entry_file_type e = (if de_is_directory e then DirectoryT else FileT)"

definition is_root_path :: "u8 list \<Rightarrow> bool" where
  "is_root_path path \<longleftrightarrow> path = [0x2F] \<or> path = []"

definition fat16_read_dir ::
  "'d fat16 \<Rightarrow> 't externs \<Rightarrow> u8 list \<Rightarrow> 't metadata list fs_result" where
  "fat16_read_dir fs x path =
     andThen
       (if is_root_path path then Ok ROOT_DIR
        else andThen (find_path fs x path) (\<lambda>r.
               case r of
                 Some entry \<Rightarrow>
                   if de_is_directory entry then Ok (de_cluster entry) else Err NotADirectory
               | None \<Rightarrow> Err NotADirectory))
       (\<lambda>c. andThen (read_dir_entries fs x c)
               (map_res (\<lambda>entry. entry_meta entry (entry_file_type entry))))"

definition fat16_open_file ::
  "'d fat16 \<Rightarrow> 't externs \<Rightarrow> u8 list \<Rightarrow> ('t metadata \<times> ('d, 't) fat_file) fs_result" where
  "fat16_open_file fs x path =
     andThen (find_path fs x path) (\<lambda>r.
       case r of
         Some entry \<Rightarrow>
           if de_is_file entry
           then andThen (entry_meta entry FileT) (\<lambda>m. Ok (m, file_new fs entry))
           else Err NotAFile
       | None \<Rightarrow> Err FileNotFound)"

definition fat16_metadata :: "'d fat16 \<Rightarrow> 't externs \<Rightarrow> u8 list \<Rightarrow> 't metadata fs_result" where
  "fat16_metadata fs x path =
     (if is_root_path path then Ok (metadata_new [0x2F] DirectoryT 0 None None None)
      else andThen (find_path fs x path) (\<lambda>r.
             case r of
               Some entry \<Rightarrow> entry_meta entry (entry_file_type entry)
             | None \<Rightarrow> Err FileNotFound))"

definition fat16_exists :: "'d fat16 \<Rightarrow> 't externs \<Rightarrow> u8 list \<Rightarrow> bool fs_result" where
  "fat16_exists fs x path =
     (if is_root_path path then Ok True
      else andThen (find_path fs x path) (\<lambda>r. Ok (r \<noteq> None)))"

definition fat16_file_system :: "'d fat16 \<Rightarrow> 't externs \<Rightarrow> (('d, 't) fat_file, 't) file_system" where
  "fat16_file_system fs x =
     \<lparr>fsys_read_dir = fat16_read_dir fs x, fsys_open_file = fat16_open_file fs x,
      fsys_metadata = fat16_metadata fs x, fsys_exists = fat16_exists fs x\<rparr>"

subsection \<open>Mount points\<close>

record ('f, 't) mount =
  mnt_fs :: "('f, 't) file_system"
  mount_point :: "u8 list"

definition trim_mount_point :: "('f, 't) mount \<Rightarrow> u8 list \<Rightarrow> u8 list" where
  "trim_mount_point m path = trim_start_matches (mount_point m) path"

definition mount_read_dir :: "('f, 't) mount \<Rightarrow> u8 list \<Rightarrow> 't metadata list fs_result" where
  "mount_read_dir m path = fsys_read_dir (mnt_fs m) (trim_mount_point m path)"

definition mount_open_file :: "('f, 't) mount \<Rightarrow> u8 list \<Rightarrow> ('t metadata \<times> 'f) fs_result" where
  "mount_open_file m path = fsys_open_file (mnt_fs m) (trim_mount_point m path)"

definition mount_metadata :: "('f, 't) mount \<Rightarrow> u8 list \<Rightarrow> 't metadata fs_result" where
  "mount_metadata m path = fsys_metadata (mnt_fs m) (trim_mount_point m path)"

definition mount_exists :: "('f, 't) mount \<Rightarrow> u8 list \<Rightarrow> bool fs_result" where
  "mount_exists m path = fsys_exists (mnt_fs m) (trim_mount_point m path)"

section \<open>Directory listings\<close>

text \<open>
  What a directory holds, independent of sectors and clusters: its bytes are 32-byte records;
  those before the first that starts with 0 and that are live and not parts of long names are
  its entries, in order.
\<close>

definition records :: "u8 list \<Rightarrow> u8 list list" where
  "records bytes = map (\<lambda>j. take 32 (drop (j * 32) bytes)) [0..<length bytes div 32]"

definition in_use :: "u8 list \<Rightarrow> bool" where
  "in_use d \<longleftrightarrow> d ! 0 \<noteq> 0"

definition listed :: "'t externs \<Rightarrow> u8 list \<Rightarrow> 't dir_entry list" where
  "listed x d =
     (case dir_entry_parse x d of
        Ok e \<Rightarrow> if d ! 0 \<noteq> 0xE5 \<and> de_is_valid e \<and> \<not> de_is_long_name e then [e] else []
      | _ \<Rightarrow> [])"

definition listing :: "'t externs \<Rightarrow> u8 list list \<Rightarrow> 't dir_entry list" where
  "listing x ds = concat (map (listed x) (takeWhile in_use ds))"

definition scan_result :: "'t externs \<Rightarrow> 't dir_entry list \<Rightarrow> u8 list list \<Rightarrow> 't scan" where
  "scan_result x es ds =
     (if list_all in_use ds then ScanMore (es @ listing x ds) else ScanDone (es @ listing x ds))"

lemma listing_append:
  "listing x (ds @ ds') = listing x ds @ (if list_all in_use ds then listing x ds' else [])"
  by (induction ds) (auto simp: listing_def)

lemma scan_result_append:
  "scan_result x es (ds @ ds') =
     (case scan_result x es ds of ScanDone es' \<Rightarrow> ScanDone es' | ScanMore es' \<Rightarrow> scan_result x es' ds')"
  by (auto simp: scan_result_def listing_append)

lemma scan_result_Nil: "scan_result x es [] = ScanMore es"
  by (simp add: scan_result_def listing_def)

lemma scan_entries_eq:
  "length block = BLOCK_SIZE \<Longrightarrow> j + n \<le> 16 \<Longrightarrow>
    scan_entries x block j n es =
      Ok (scan_result x es (map (\<lambda>j. take 32 (drop (j * 32) block)) [j..<j + n]))"
proof (induction n arbitrary: j es)
  case 0
  then show ?case by (simp add: scan_result_Nil)
next
  case (Suc n)
  let ?d = "take 32 (drop (j * 32) block)"
  have len: "length ?d = 32" using Suc.prems by (simp add: BLOCK_SIZE_def)
  then obtain e where e: "dir_entry_parse x ?d = Ok e"
    by (simp add: dir_entry_parse_def Let_def)
  have "slice block (j * DIR_ENTRY_LEN) (j * DIR_ENTRY_LEN + DIR_ENTRY_LEN) = (Ok ?d :: u8 list fs_result)"
    using Suc.prems by (simp add: slice_def DIR_ENTRY_LEN_def BLOCK_SIZE_def)
  moreover have "[j..<j + Suc n] = j # [Suc j..<Suc j + n]" by (simp add: upt_conv_Cons)
  ultimately show ?case
    using Suc.IH [of "Suc j"] Suc.prems e
    by (auto simp: scan_result_def listing_def in_use_def listed_def)
qed

lemma scan_sectors_eq:
  assumes "f_bps fs = BLOCK_SIZE" "\<forall>k<n. sector_readable fs (sector + i + k)"
  shows "scan_sectors fs x sector i n es =
    Ok (scan_result x es (concat (map (\<lambda>k. records (sector_bytes fs (sector + i + k))) [0..<n])))"
  using assms(2)
proof (induction n arbitrary: i es)
  case 0
  then show ?case by (simp add: scan_result_Nil)
next
  case (Suc n)
  let ?b = "\<lambda>k. sector_bytes fs (sector + i + k)"
  have rd: "f_read fs (sector + i) = Ok (?b 0)" "length (?b 0) = BLOCK_SIZE"
    using Suc.prems sector_readable_read [of fs "sector + i"] by force+
  have step: "scan_entries x (?b 0) 0 (f_bps fs div DIR_ENTRY_LEN) es = Ok (scan_result x es (records (?b 0)))"
    using scan_entries_eq [OF rd(2), of 0 16 x es] rd(2) assms(1)
    by (simp add: records_def BLOCK_SIZE_def DIR_ENTRY_LEN_def)
  have "map (\<lambda>k. records (?b k)) [0..<Suc n] =
      records (?b 0) # map (\<lambda>k. records (sector_bytes fs (sector + Suc i + k))) [0..<n]"
    by (simp add: map_upt_Suc del: upt_Suc)
  moreover have "\<forall>k<n. sector_readable fs (sector + Suc i + k)"
    using Suc.prems by (metis Suc_less_eq add_Suc_right add_Suc)
  ultimately show ?case
    using rd step Suc.IH [of "Suc i"]
    by (auto simp: scan_result_append split: scan.split simp del: upt_Suc)
qed

subsection \<open>Whole directories\<close>

lemma records_append:
  assumes "length b = BLOCK_SIZE"
  shows "records (b @ bs) = records b @ records bs"
proof -
  have k: "length (b @ bs) div 32 = 16 + length bs div 32"
    using assms by (simp add: BLOCK_SIZE_def)
  have split: "[0..<16 + length bs div 32] = [0..<16] @ map (\<lambda>j. j + 16) [0..<length bs div 32]"
    using upt_add_eq_append [of 0 16 "length bs div 32"] map_add_upt [of 16 "length bs div 32"]
    by (metis add.commute le0)
  have "take 32 (drop (j * 32) (b @ bs)) = take 32 (drop (j * 32) b)" if "j < 16" for j
    using assms that by (simp add: BLOCK_SIZE_def)
  then have A: "map (\<lambda>j. take 32 (drop (j * 32) (b @ bs))) [0..<16] = map (\<lambda>j. take 32 (drop (j * 32) b)) [0..<16]"
    by (intro map_cong refl) (simp only: set_upt atLeastLessThan_iff)
  have "drop ((j + 16) * 32) (b @ bs) = drop (j * 32) bs" for j
    using assms by (simp add: BLOCK_SIZE_def)
  then have B: "map (\<lambda>j. take 32 (drop (j * 32) (b @ bs))) (map (\<lambda>j. j + 16) [0..<length bs div 32]) =
      map (\<lambda>j. take 32 (drop (j * 32) bs)) [0..<length bs div 32]"
    by (simp only: map_map comp_def)
  have len: "length b div 32 = 16" using assms by (simp add: BLOCK_SIZE_def)
  show ?thesis unfolding records_def k split map_append A B len by (rule refl)
qed

lemma records_concat:
  "\<forall>b\<in>set bs. length b = BLOCK_SIZE \<Longrightarrow> records (concat bs) = concat (map records bs)"
  by (induction bs) (auto simp: records_append, simp add: records_def)

definition root_data :: "'d fat16 \<Rightarrow> nat \<Rightarrow> u8 list" where
  "root_data fs n = concat (map (\<lambda>k. sector_bytes fs (first_root_dir_sector fs + k)) [0..<n])"

lemma scan_root:
  assumes "f_bps fs = BLOCK_SIZE" "\<forall>k<n. sector_readable fs (first_root_dir_sector fs + k)"
  shows "scan_sectors fs x (first_root_dir_sector fs) 0 n es =
    Ok (scan_result x es (records (root_data fs n)))"
proof -
  have "\<forall>b\<in>set (map (\<lambda>k. sector_bytes fs (first_root_dir_sector fs + k)) [0..<n]). length b = BLOCK_SIZE"
    using assms(2) by (auto dest: sector_readable_read)
  from records_concat [OF this] show ?thesis
    using scan_sectors_eq [OF assms(1), of n "first_root_dir_sector fs" 0 x es] assms(2)
    by (simp add: root_data_def comp_def)
qed

lemma scan_cluster:
  assumes "volume_wf fs" "cluster_readable fs c"
  shows "scan_sectors fs x (cluster_to_sector fs c) 0 (f_spc fs) es =
    Ok (scan_result x es (records (cluster_data fs c)))"
  using scan_sectors_eq [of fs "f_spc fs" "cluster_to_sector fs c" 0 x es] assms
    cluster_readable_sector [OF assms(2)] records_concat [OF cluster_blocks [OF assms(2)]]
  by (simp add: volume_wf_def cluster_data_def cluster_sectors_def comp_def)

lemma read_dir_root_spec:
  assumes "volume_wf fs" "root_dir_size (f_bpb fs) = Ok n"
    and "\<forall>k<n. sector_readable fs (first_root_dir_sector fs + k)"
  shows "read_dir_entries fs x ROOT_DIR = Ok (listing x (records (root_data fs n)))"
proof -
  have "dir_turn fs x ROOT_DIR [] = Ok (listing x (records (root_data fs n)), None)"
    using scan_root [of fs n x "[]"] assms
    by (auto simp: dir_turn_def dir_sectors_def cluster_to_sector_def scan_result_def volume_wf_def)
  then show ?thesis by (simp add: read_dir_entries_def read_dir_loop.simps [of fs x ROOT_DIR])
qed

text \<open>Clusters that come from the FAT are 16 bits wide: none is the root marker.\<close>

lemma ucast_not_root [simp]: "ucast (d :: u16) \<noteq> ROOT_DIR"
proof
  assume "ucast d = ROOT_DIR"
  then have "unat (ucast d :: u32) = unat ROOT_DIR" by simp
  then have "unat d = unat ROOT_DIR"
    by (simp add: unsigned_ucast_eq take_bit_eq_mod less_trans [OF unat_u16_less])
  then show False using unat_u16_less [of d] by (simp add: ROOT_DIR_def)
qed

lemma dir_turn_cluster:
  assumes "volume_wf fs" "cluster_readable fs c" "c \<noteq> ROOT_DIR"
  shows "dir_turn fs x c es =
    (case scan_result x es (records (cluster_data fs c)) of
       ScanDone es' \<Rightarrow> Ok (es', None)
     | ScanMore es' \<Rightarrow>
         andThen (ok_or None (get_next_cluster fs (ucast c))) (\<lambda>next.
           case next of None \<Rightarrow> Ok (es', None) | Some d \<Rightarrow> Ok (es', Some (ucast d))))"
  using scan_cluster [OF assms(1, 2), of x es] assms(3)
  by (simp add: dir_turn_def dir_sectors_def)

text \<open>A directory ends when its chain ends, or within it at the first unused record.\<close>

definition chain_ends :: "'d fat16 \<Rightarrow> cluster \<Rightarrow> bool" where
  "chain_ends fs c \<longleftrightarrow> (case get_next_cluster fs (ucast c) of
     Ok None \<Rightarrow> True | Err e \<Rightarrow> True | _ \<Rightarrow> False)"

definition chain_records :: "'d fat16 \<Rightarrow> cluster list \<Rightarrow> u8 list list" where
  "chain_records fs cs = concat (map (\<lambda>c. records (cluster_data fs c)) cs)"

lemma read_dir_loop_chain:
  "volume_wf fs \<Longrightarrow> chain fs c (Suc n) = Some cs \<Longrightarrow> c \<noteq> ROOT_DIR \<Longrightarrow>
    list_all (cluster_readable fs) cs \<Longrightarrow>
    \<not> list_all in_use (chain_records fs cs) \<or> chain_ends fs (last cs) \<Longrightarrow>
    read_dir_loop fs x c es = Some (Ok (es @ listing x (chain_records fs cs)))"
proof (induction n arbitrary: c cs es)
  case 0
  then have "cs = [c]" and "cluster_readable fs c" by auto
  with 0 dir_turn_cluster [of fs c x es] show ?case
    by (subst read_dir_loop.simps)
      (auto simp: scan_result_def chain_ends_def chain_records_def split: res.splits option.splits)
next
  case (Suc n)
  from Suc.prems(2) obtain d ds where d: "get_next_cluster fs (ucast c) = Ok (Some d)"
    "chain fs (ucast d) (Suc n) = Some ds" "cs = c # ds"
    by (auto split: if_splits res.splits option.splits)
  have "ds \<noteq> []" using length_chain [OF d(2)] by auto
  show ?case
  proof (cases "list_all in_use (records (cluster_data fs c))")
    case True
    with Suc.prems d \<open>ds \<noteq> []\<close>
    have "read_dir_loop fs x (ucast d) (es @ listing x (records (cluster_data fs c))) =
        Some (Ok ((es @ listing x (records (cluster_data fs c))) @ listing x (chain_records fs ds)))"
      by (intro Suc.IH) (auto simp: chain_records_def)
    with True dir_turn_cluster [of fs c x es] Suc.prems d show ?thesis
      by (subst read_dir_loop.simps) (simp add: scan_result_def chain_records_def listing_append)
  next
    case False
    with dir_turn_cluster [of fs c x es] Suc.prems d show ?thesis
      by (subst read_dir_loop.simps) (simp add: scan_result_def chain_records_def listing_append)
  qed
qed

lemma read_dir_chain_spec:
  assumes "volume_wf fs" "chain fs c (Suc n) = Some cs" "c \<noteq> ROOT_DIR"
    and "list_all (cluster_readable fs) cs"
    and "\<not> list_all in_use (chain_records fs cs) \<or> chain_ends fs (last cs)"
  shows "read_dir_entries fs x c = Ok (listing x (chain_records fs cs))"
  using read_dir_loop_chain [OF assms, of x "[]"] by (simp add: read_dir_entries_def)

text \<open>
  A set of clusters linked among themselves, with no unused record in any: from one of them
  the loop never leaves it.
\<close>

definition endless :: "'d fat16 \<Rightarrow> cluster set \<Rightarrow> bool" where
  "endless fs C \<longleftrightarrow>
     (\<forall>c\<in>C. c \<noteq> ROOT_DIR \<and> cluster_readable fs c \<and> list_all in_use (records (cluster_data fs c)) \<and>
       (\<exists>d. get_next_cluster fs (ucast c) = Ok (Some d) \<and> ucast d \<in> C))"

lemma endless_loop:
  "read_dir_loop fs x c es = Some r \<Longrightarrow> volume_wf fs \<longrightarrow> endless fs C \<longrightarrow> c \<notin> C"
proof (rule read_dir_loop.raw_induct [where xa = "(((fs, x), c), es)" and y = r
      and P = "\<lambda>fs x c es r. volume_wf fs \<longrightarrow> endless fs C \<longrightarrow> c \<notin> C", unfolded prod.case])
  fix loop and fs :: "'d fat16" and x :: "'t externs" and c es r
  assume IH: "\<And>fs x c es r. loop fs x c es = Some r \<Longrightarrow> volume_wf fs \<longrightarrow> endless fs C \<longrightarrow> c \<notin> C"
    and r: "(case dir_turn fs x c es of
        Ok (es', None) \<Rightarrow> Some (Ok es')
      | Ok (es', Some c') \<Rightarrow> loop fs x c' es'
      | Err e \<Rightarrow> Some (Err e) | Panic \<Rightarrow> Some Panic | Diverge \<Rightarrow> Some Diverge) = Some r"
  show "volume_wf fs \<longrightarrow> endless fs C \<longrightarrow> c \<notin> C"
  proof (intro impI notI)
    assume wf: "volume_wf fs" and C: "endless fs C" "c \<in> C"
    then obtain d where d: "get_next_cluster fs (ucast c) = Ok (Some d)" "ucast d \<in> C"
      and c: "cluster_readable fs c" "c \<noteq> ROOT_DIR" "list_all in_use (records (cluster_data fs c))"
      by (auto simp: endless_def)
    have "dir_turn fs x c es = Ok (es @ listing x (records (cluster_data fs c)), Some (ucast d))"
      using dir_turn_cluster [OF wf c(1, 2), of x es] c(3) d(1) by (simp add: scan_result_def)
    with r have "loop fs x (ucast d) (es @ listing x (records (cluster_data fs c))) = Some r" by simp
    with IH wf C(1) d(2) show False by blast
  qed
qed

lemma read_dir_endless:
  "volume_wf fs \<Longrightarrow> endless fs C \<Longrightarrow> c \<in> C \<Longrightarrow> read_dir_entries fs x c = Diverge"
  using endless_loop [of fs x c "[]"] by (cases "read_dir_loop fs x c []") (auto simp: read_dir_entries_def)

section \<open>Paths\<close>

text \<open>
  The reference for \<open>find_path\<close>: a path is a list of names, and each name but the last must
  lead to a directory.
\<close>

fun descend ::
  "'d fat16 \<Rightarrow> 't externs \<Rightarrow> cluster \<Rightarrow> u8 list list \<Rightarrow> 't dir_entry option fs_result" where
  "descend fs x c [] = Ok None"
| "descend fs x c [n] = find_entry fs x c n"
| "descend fs x c (n # m # ns) =
     andThen (find_entry fs x c n) (\<lambda>r.
       case r of
         None \<Rightarrow> Ok None
       | Some e \<Rightarrow>
           if de_is_directory e then descend fs x (de_cluster e) (m # ns) else Err NotADirectory)"

fun join_path :: "u8 list list \<Rightarrow> u8 list" where
  "join_path [] = []"
| "join_path [n] = n"
| "join_path (n # m # ns) = n @ 0x2F # join_path (m # ns)"

definition path_name :: "u8 list \<Rightarrow> bool" where
  "path_name n \<longleftrightarrow> n \<noteq> [] \<and> 0x2F \<notin> set n"

lemma split_slashes: "split_on c (replicate m c) = replicate (Suc m) []"
  by (induction m) auto

lemma split_join:
  "ns \<noteq> [] \<Longrightarrow> list_all path_name ns \<Longrightarrow>
    split_on 0x2F (join_path ns @ 0x2F # s) = ns @ split_on 0x2F s"
  by (induction ns rule: join_path.induct) (auto simp: path_name_def split_on_append_sep)

lemma split_join_trailing:
  "ns \<noteq> [] \<Longrightarrow> list_all path_name ns \<Longrightarrow>
    split_on 0x2F (join_path ns @ replicate m 0x2F) = ns @ replicate m []"
proof (cases m)
  case 0
  assume "ns \<noteq> []" "list_all path_name ns"
  then have "split_on 0x2F (join_path ns) = ns"
    by (induction ns rule: join_path.induct)
      (auto simp: path_name_def split_on_append_sep split_on_no_sep)
  with 0 show ?thesis by simp
next
  case (Suc k)
  assume "ns \<noteq> []" "list_all path_name ns"
  with Suc split_join [of ns "replicate k 0x2F"] show ?thesis by (simp add: split_slashes)
qed

lemma trim_leading:
  assumes "ns \<noteq> []" "list_all path_name ns"
  shows "trim_start_matches [0x2F] (replicate k 0x2F @ join_path ns @ s) = join_path ns @ s"
    and "join_path ns \<noteq> []"
proof -
  obtain b bs where b: "join_path ns = b # bs" "b \<noteq> 0x2F"
    using assms by (cases ns rule: join_path.cases) (auto simp: path_name_def neq_Nil_conv)
  then show "join_path ns \<noteq> []" by simp
  have "dropWhile (\<lambda>b. b = 0x2F) (replicate k 0x2F @ join_path ns @ s) = join_path ns @ s"
    using b by (induction k) auto
  then show "trim_start_matches [0x2F] (replicate k 0x2F @ join_path ns @ s) = join_path ns @ s"
    by (simp add: trim_start_matches_single)
qed

lemma find_parts_descend:
  "ns \<noteq> [] \<Longrightarrow> len = i + length ns \<Longrightarrow> find_parts fs x len i c (ns @ extra) = descend fs x c ns"
proof (induction ns arbitrary: i c rule: join_path.induct)
  case (2 n)
  then show ?case by (auto intro!: andThen_ident split: option.split)
next
  case (3 n m ns)
  then have "find_parts fs x len (Suc i) c ((m # ns) @ extra) = descend fs x c (m # ns)" for c
    using "3.prems"(2) by (intro "3.IH") simp_all
  with "3.prems" show ?case
    by (simp only: append_Cons find_parts.simps(2) [of _ _ _ _ _ n] descend.simps(3))
      (auto intro!: andThen_cong split: option.split)
qed simp

text \<open>The parts before the last: the walk goes on in the directory they lead to.\<close>

lemma find_parts_through:
  "ns \<noteq> [] \<Longrightarrow> i + length ns < len \<Longrightarrow>
    find_parts fs x len i c (ns @ extra) =
      andThen (descend fs x c ns) (\<lambda>r.
        case r of
          None \<Rightarrow> Ok None
        | Some e \<Rightarrow>
            if de_is_directory e then find_parts fs x len (i + length ns) (de_cluster e) extra
            else Err NotADirectory)"
proof (induction ns arbitrary: i c rule: join_path.induct)
  case (3 n m ns)
  then show ?case by (auto simp: andThen_assoc intro!: andThen_cong split: option.split)
qed (auto intro!: andThen_cong split: option.split)

lemma path_lengths:
  "list_all path_name ns \<Longrightarrow> filter (\<lambda>part. part \<noteq> []) (ns @ replicate m []) = ns"
  by (auto simp: list_all_iff path_name_def filter_id_conv)

lemma find_path_spec:
  assumes "ns \<noteq> []" "list_all path_name ns"
  shows "find_path fs x (replicate k 0x2F @ join_path ns @ replicate m 0x2F) =
    descend fs x ROOT_DIR ns"
  using trim_leading(1) [OF assms, of k "replicate m 0x2F"] trim_leading(2) [OF assms] split_join_trailing [OF assms, of m]
    path_lengths [OF assms(2), of m] find_parts_descend [OF assms(1), of "length ns" 0]
  by (simp add: find_path_def Let_def)

lemma find_path_double:
  assumes "ns \<noteq> []" "list_all path_name ns" "ms \<noteq> []" "list_all path_name ms"
    and "descend fs x ROOT_DIR ns = Ok (Some e)" "de_is_directory e"
    and "read_dir_entries fs x (de_cluster e) = Ok es"
  shows "find_path fs x (join_path ns @ [0x2F, 0x2F] @ join_path ms) = Err (FileNameError FilenameEmpty)"
proof -
  have ms: "split_on 0x2F (join_path ms) = ms"
    using split_join_trailing [OF assms(3, 4), of 0] by simp
  have parts: "split_on 0x2F (join_path ns @ [0x2F, 0x2F] @ join_path ms) = ns @ [] # ms"
    using split_join [OF assms(1, 2), of "0x2F # join_path ms"] ms by simp
  have len: "length (filter (\<lambda>part. part \<noteq> []) (ns @ [] # ms)) = length ns + length ms"
    using path_lengths [OF assms(2), of 0] path_lengths [OF assms(4), of 0] by simp
  have "find_entry fs x (de_cluster e) [] = Err (FileNameError FilenameEmpty)"
    using assms(7) by (simp add: find_entry_def sfn_parse_def)
  then show ?thesis
    using trim_leading(1) [OF assms(1, 2), of 0 "[0x2F, 0x2F] @ join_path ms"] parts len assms(3, 5, 6)
      find_parts_through [OF assms(1), of 0 "length ns + length ms" fs x ROOT_DIR "[] # ms"]
    by (simp add: find_path_def Let_def)
qed

section \<open>The layout of a volume\<close>

text \<open>The table as the bytes of its sectors, and entry \<open>c\<close> of it.\<close>

definition fat_data :: "'d fat16 \<Rightarrow> nat \<Rightarrow> u8 list" where
  "fat_data fs n = concat (map (\<lambda>k. sector_bytes fs (fat_start fs + k)) [0..<n])"

lemma get_next_cluster_spec:
  assumes "f_bps fs = BLOCK_SIZE" "\<forall>k<n. sector_readable fs (fat_start fs + k)"
    and "unat c * 2 + 1 < n * BLOCK_SIZE"
  shows "get_next_cluster fs c =
    (let e = field_u16 (fat_data fs n) (unat c * 2) in
     Ok (if e = 0 \<or> 0xFFF8 \<le> e then None else Some e))"
proof -
  define off where "off = unat c * 2"
  define q where "q = off div BLOCK_SIZE"
  define r where "r = off mod BLOCK_SIZE"
  let ?bs = "map (\<lambda>k. sector_bytes fs (fat_start fs + k)) [0..<n]"
  have blocks: "\<forall>b\<in>set ?bs. length b = BLOCK_SIZE"
    using assms(2) by (auto dest: sector_readable_read)
  have q: "q < n" using assms(3) by (simp add: q_def off_def BLOCK_SIZE_def less_mult_imp_div_less)
  have "off mod 512 = 2 * (unat c mod 256)"
    using mult_mod_right [of 2 "unat c" 256] by (simp add: off_def mult.commute)
  moreover have "unat c mod 256 < 256" by simp
  ultimately have r: "r + 2 \<le> BLOCK_SIZE" unfolding r_def BLOCK_SIZE_def by linarith
  define sec where "sec = sector_bytes fs (fat_start fs + q)"
  have sec: "f_read fs (fat_start fs + q) = Ok sec" "length sec = BLOCK_SIZE" "?bs ! q = sec"
    using sector_readable_read [of fs "fat_start fs + q"] assms(2) q by (auto simp: sec_def)
  have len: "length (fat_data fs n) = n * BLOCK_SIZE"
    using length_concat_blocks [OF blocks] by (simp add: fat_data_def)
  have "q * BLOCK_SIZE + r = off" by (simp add: q_def r_def)
  then have two: "take 2 (drop off (fat_data fs n)) = take 2 (drop r sec)"
    using take_drop_concat_blocks [OF blocks _ r, of q] q sec(3) by (simp add: fat_data_def)
  have at: "xs ! i = take 2 (drop i xs) ! 0" "xs ! (i + 1) = take 2 (drop i xs) ! 1"
    if "i + 2 \<le> length xs" for i and xs :: "u8 list" using that by simp_all
  have off: "off + 2 \<le> length (fat_data fs n)" using assms(3) len by (simp add: off_def)
  have nth: "fat_data fs n ! off = sec ! r" "fat_data fs n ! (off + 1) = sec ! (r + 1)"
    using at [OF off] at [of r sec] two sec(2) r by metis+
  have idx: "index_at sec r = (Ok (sec ! r) :: u8 fs_result)"
      "index_at sec (r + 1) = (Ok (sec ! (r + 1)) :: u8 fs_result)"
    using r sec(2) by (simp_all add: index_at_def)
  have bps: "f_bps fs \<noteq> 0" using assms(1) by (simp add: BLOCK_SIZE_def)
  show ?thesis
    unfolding get_next_cluster_def Let_def off_def [symmetric] field_u16_def
    using bps off nth idx sec(1)
    by (simp only: assms(1) q_def [symmetric] r_def [symmetric] if_False if_True andThen.simps simp_thms
        split: if_split) blast
qed

lemma cluster_sector_value:
  "2 \<le> c \<Longrightarrow> c \<noteq> ROOT_DIR \<Longrightarrow>
    cluster_to_sector fs c = (unat c - 2) * f_spc fs + first_data_sector fs"
proof -
  assume c: "2 \<le> c" "c \<noteq> ROOT_DIR"
  then have "unat (c - 2) = unat c - 2" by (simp add: unat_sub)
  moreover have "\<not> c < 2" using c(1) by (simp add: linorder_not_less)
  ultimately show ?thesis using c by (simp add: cluster_to_sector_def)
qed

lemma clusters_apart:
  assumes "2 \<le> c" "c \<noteq> ROOT_DIR" "2 \<le> d" "d \<noteq> ROOT_DIR" "c \<noteq> d" "i < f_spc fs" "j < f_spc fs"
  shows "cluster_to_sector fs c + i \<noteq> cluster_to_sector fs d + j"
proof -
  have bound: "2 \<le> unat c" "2 \<le> unat d" using assms(1, 3) by (simp_all add: word_le_nat_alt)
  have "unat c \<noteq> unat d" using assms(5) by (simp add: word_unat_eq_iff)
  with bound have "unat c - 2 \<noteq> unat d - 2" by linarith
  then have "(unat c - 2) * f_spc fs + i \<noteq> (unat d - 2) * f_spc fs + j"
    using assms(6, 7) by (metis div_mult_self3 div_less add.commute add.right_neutral not_less_zero)
  then show ?thesis using assms(1-4) by (simp add: cluster_sector_value)
qed

lemma fat16_new_layout:
  assumes "fat16_new inner d = Ok fs"
  shows "fat_start fs + unat (fat_count (f_bpb fs)) * unat (sectors_per_fat (f_bpb fs)) =
      first_root_dir_sector fs \<and>
    root_dir_size (f_bpb fs) = Ok (first_data_sector fs - first_root_dir_sector fs) \<and>
    first_root_dir_sector fs \<le> first_data_sector fs \<and> f_inner fs = inner \<and> f_dev fs = d \<and> 0 < f_bps fs"
  using assms
  by (auto simp: fat16_new_def root_dir_size_def f_bps_def Let_def split: res.splits if_splits)

lemma root_dir_holds:
  "root_dir_size b = Ok n \<Longrightarrow> unat (root_entries_count b) * 32 \<le> n * bps b"
proof -
  assume "root_dir_size b = Ok n"
  then have b: "0 < bps b" "n = (unat (root_entries_count b) * 32 + (bps b - 1)) div bps b"
    by (auto simp: root_dir_size_def split: if_splits)
  have "unat (root_entries_count b) * 32 + (bps b - 1) < (n + 1) * bps b"
    unfolding b(2) using b(1) by (metis Suc_eq_plus1 dividend_less_div_times mult_Suc)
  with b(1) show ?thesis by (simp add: algebra_simps)
qed

end
