(* ===== verification/StorageSpec.thy ===== *)
theory StorageSpec
  imports FatFs
begin

text \<open>
  The properties of the storage stack, and a small volume on which they are exercised: one
  sector per cluster, a FAT of one sector, a root directory of one sector holding
  \<open>A.TXT\<close> (700 bytes in clusters 2 and 3) and a directory \<open>D\<close> (cluster 4, which the FAT
  links to itself).
\<close>

section \<open>A sample volume\<close>

definition boot_sector :: "u8 list" where
  "boot_sector = replicate 11 0 @ [0, 2, 1, 1, 0, 1, 16, 0, 8, 0, 0xF8, 1, 0] @ replicate 486 0 @ [0x55, 0xAA]"

definition fat_sector :: "u8 list" where
  "fat_sector = [0, 0, 0, 0, 3, 0, 0xFF, 0xFF, 4, 0] @ replicate 502 0"

definition name_a :: short_file_name where
  "name_a = \<lparr>sfn_name = [0x41, 0x20, 0x20, 0x20, 0x20, 0x20, 0x20, 0x20], sfn_ext = [0x54, 0x58, 0x54]\<rparr>"

definition name_d :: short_file_name where
  "name_d = \<lparr>sfn_name = [0x44, 0x20, 0x20, 0x20, 0x20, 0x20, 0x20, 0x20], sfn_ext = [0x20, 0x20, 0x20]\<rparr>"

definition record_a :: "u8 list" where
  "record_a = entry_bytes (sfn_name name_a) (sfn_ext name_a) 0x20 0 0 0 2 0 0 700"

definition record_d :: "u8 list" where
  "record_d = entry_bytes (sfn_name name_d) (sfn_ext name_d) 0x10 0 0 0 4 0 0 0"

definition root_sector :: "u8 list" where
  "root_sector = record_a @ record_d @ replicate 448 0"

text \<open>A sector of \<open>D\<close>: sixteen records of deleted files, with no record left unused.\<close>

definition dir_sector :: "u8 list" where
  "dir_sector = concat (replicate 16 (replicate 32 0xE5))"

definition sample_read :: "unit \<Rightarrow> nat \<Rightarrow> u8 list fs_result" where
  "sample_read d i =
     (if i = 0 then Ok boot_sector else if i = 1 then Ok fat_sector
      else if i = 2 then Ok root_sector
      else if i = 3 then Ok (replicate 512 0x41) else if i = 4 then Ok (replicate 512 0x42)
      else if i = 5 then Ok dir_sector else Err (DeviceError ReadError))"

definition sample_device :: "unit block_device" where
  "sample_device =
     \<lparr>bd_count = \<lambda>d. Ok 6, bd_read = sample_read, bd_write = \<lambda>d i b. Err (DeviceError WriteError)\<rparr>"

definition sample_volume :: "unit fat16" where
  "sample_volume =
     \<lparr>f_inner = sample_device, f_dev = (), f_bpb = \<lparr>bpb_data = boot_sector\<rparr>, fat_start = 1,
      first_data_sector = 3, first_root_dir_sector = 2\<rparr>"

definition sample_externs :: "nat externs" where
  "sample_externs =
     \<lparr>ext_to_uppercase = map ascii_upper, ext_ymd_hms = \<lambda>y mo d h mi s. Some y, ext_epoch = 0\<rparr>"

definition sample_entry :: "short_file_name \<Rightarrow> cluster \<Rightarrow> attributes \<Rightarrow> u32 \<Rightarrow> nat dir_entry" where
  "sample_entry n c a sz =
     \<lparr>filename = n, modified_time = 0, created_time = 0, accessed_time = 0, de_cluster = c,
      de_attributes = a, de_size = sz\<rparr>"

definition sample_file :: "(unit, nat) fat_file" where
  "sample_file = file_new sample_volume (sample_entry name_a 2 0x20 700)"

lemma sample_lengths [simp]:
  "length boot_sector = 512" "length fat_sector = 512" "length root_sector = 512" "length dir_sector = 512"
  by (simp_all add: boot_sector_def fat_sector_def root_sector_def record_a_def record_d_def
      entry_bytes_def name_a_def name_d_def u16_to_le_def dir_sector_def length_concat sum_list_replicate)

lemma boot_bytes:
  "boot_sector ! 11 = 0" "boot_sector ! 12 = 2" "boot_sector ! 13 = 1" "boot_sector ! 14 = 1"
  "boot_sector ! 15 = 0" "boot_sector ! 16 = 1" "boot_sector ! 17 = 16" "boot_sector ! 18 = 0"
  "boot_sector ! 22 = 1" "boot_sector ! 23 = 0" "boot_sector ! 510 = 0x55" "boot_sector ! 511 = 0xAA"
  by (simp_all add: boot_sector_def nth_append)

lemma sample_params [simp]:
  "bytes_per_sector \<lparr>bpb_data = boot_sector\<rparr> = 512" "sectors_per_cluster \<lparr>bpb_data = boot_sector\<rparr> = 1"
  "reserved_sector_count \<lparr>bpb_data = boot_sector\<rparr> = 1" "fat_count \<lparr>bpb_data = boot_sector\<rparr> = 1"
  "root_entries_count \<lparr>bpb_data = boot_sector\<rparr> = 16" "sectors_per_fat \<lparr>bpb_data = boot_sector\<rparr> = 1"
  "trail \<lparr>bpb_data = boot_sector\<rparr> = 0xAA55"
  by (simp_all add: bytes_per_sector_def sectors_per_cluster_def reserved_sector_count_def
      fat_count_def root_entries_count_def sectors_per_fat_def trail_def field_u8_def field_u16_def
      u16_le_def boot_bytes)

lemma sample_volume_new: "fat16_new sample_device () = Ok sample_volume"
  by (simp add: fat16_new_def sample_device_def sample_read_def fat16_bpb_new_def root_dir_size_def
      bps_def Let_def sample_volume_def)

lemma sample_wf [simp]:
  "f_bps sample_volume = 512" "f_spc sample_volume = 1" "volume_wf sample_volume"
  "cluster_size sample_volume = 512"
  by (simp_all add: sample_volume_def f_bps_def f_spc_def bps_def spc_def volume_wf_def BLOCK_SIZE_def
      cluster_size_def)

lemma sample_sectors [simp]:
  "f_read sample_volume = sample_read ()" "fat_start sample_volume = 1"
  "first_data_sector sample_volume = 3" "first_root_dir_sector sample_volume = 2"
  by (simp_all add: sample_volume_def f_read_def sample_device_def)

lemma sample_sector_values [simp]:
  "sector_bytes sample_volume (Suc 0) = fat_sector" "sector_bytes sample_volume 2 = root_sector"
  "sector_bytes sample_volume 3 = replicate 512 0x41" "sector_bytes sample_volume 4 = replicate 512 0x42"
  "sector_bytes sample_volume 5 = dir_sector"
  "i < 6 \<Longrightarrow> sector_readable sample_volume i"
  by (simp_all add: sector_bytes_def sector_readable_def sample_read_def BLOCK_SIZE_def)

lemma sample_clusters [simp]:
  "cluster_to_sector sample_volume 2 = 3" "cluster_to_sector sample_volume 3 = 4"
  "cluster_to_sector sample_volume 4 = 5"
  by (simp_all add: cluster_to_sector_def ROOT_DIR_def)

lemma sample_fat [simp]:
  "get_next_cluster sample_volume 2 = Ok (Some 3)" "get_next_cluster sample_volume 3 = Ok None"
  "get_next_cluster sample_volume 4 = Ok (Some 4)"
  by (simp_all add: get_next_cluster_def Let_def sample_read_def index_at_def fat_sector_def u16_le_def)

lemma sample_file_parts [simp]:
  "ff_handle sample_file = sample_volume" "file_length sample_file = 700" "ff_offset sample_file = 0"
  by (simp_all add: sample_file_def file_new_def file_length_def sample_entry_def)

lemma sample_readable [simp]:
  "cluster_readable sample_volume 2" "cluster_readable sample_volume 3" "cluster_readable sample_volume 4"
  by (simp_all add: cluster_readable_def cluster_sectors_def)

lemma sample_data [simp]:
  "cluster_data sample_volume 2 = replicate 512 0x41" "cluster_data sample_volume 3 = replicate 512 0x42"
  "cluster_data sample_volume 4 = dir_sector"
  by (simp_all add: cluster_data_def cluster_sectors_def)

lemma sample_chain [simp]: "file_chain sample_file = Some [2, 3]"
proof -
  have "chain sample_volume 2 (Suc (Suc 0)) = Some [2, 3]" by simp
  moreover have "file_clusters sample_file = Suc (Suc 0)" by (simp add: file_clusters_def)
  ultimately show ?thesis
    by (simp add: file_chain_def) (simp add: sample_file_def file_new_def sample_entry_def)
qed

lemma sample_file_wf [simp]: "file_wf sample_file"
  "file_content sample_file = replicate 512 0x41 @ replicate 188 0x42"
  by (simp_all add: file_wf_def file_content_def)

section \<open>Files\<close>

text \<open>
  C1: Reading a file. If the FAT links as many clusters as the size of a file needs and their
  sectors can be read, \<open>File::read\<close> from offset \<open>o\<close> into a buffer gives
  \<open>min (len buf) (size - o)\<close> bytes: exactly the bytes of the file at \<open>o\<close>, whatever sector and
  cluster borders they cross; the rest of the buffer is unchanged and the offset advances by
  the number of bytes read.
\<close>

theorem file_read_correct:
  assumes "file_wf f"
  shows "\<exists>c. file_read f buf =
    (let n = min (length buf) (file_length f - ff_offset f) in
     (Ok n, take n (drop (ff_offset f) (file_content f)) @ drop n buf,
      f\<lparr>ff_offset := ff_offset f + n, ff_cluster := c\<rparr>))"
  by (rule file_read_spec [OF assms])

text \<open>The sample file at another offset.\<close>

lemma sample_file_at:
  "file_wf (sample_file\<lparr>ff_offset := k\<rparr>)"
  "file_content (sample_file\<lparr>ff_offset := k\<rparr>) = file_content sample_file"
  "file_length (sample_file\<lparr>ff_offset := k\<rparr>) = 700"
  using file_wf_moved(1) [OF sample_file_wf(1), where n = k and c = "ff_cluster sample_file"]
    file_wf_moved(2) [where f = sample_file and n = k and c = "ff_cluster sample_file"]
  by (simp_all add: file_length_def) (simp add: sample_file_def file_new_def sample_entry_def)

theorem file_read_correct_witness:
  "\<exists>c. file_read (sample_file\<lparr>ff_offset := 510\<rparr>) (replicate 4 0) =
    (Ok 4, [0x41, 0x41, 0x42, 0x42], sample_file\<lparr>ff_offset := 514, ff_cluster := c\<rparr>)"
proof -
  have "take 4 (drop 510 (replicate 512 0x41 @ replicate 188 0x42)) = [0x41, 0x41, 0x42, 0x42 :: u8]"
    by (simp add: numeral_eq_Suc)
  then show ?thesis
    using file_read_correct [OF sample_file_at(1), of 510 "replicate 4 0"]
    by (simp add: sample_file_at del: take_append drop_append)
qed

text \<open>
  Reading a whole file. From any offset of a file whose chain can be read, \<open>read_all\<close>
  returns, with the number of bytes left as its result, and has appended exactly those bytes of
  the file to the vector; nothing is left to read.
\<close>

theorem file_read_all:
  assumes "file_wf f"
  shows "\<exists>f'. read_all file_read f buf =
    Some (Ok (file_length f - ff_offset f), buf @ drop (ff_offset f) (file_content f), f') \<and>
    file_length f' \<le> ff_offset f'"
proof -
  from fat.read_all_rest [OF assms, of buf] obtain f' where
    "read_all file_read f buf = Some (Ok (length (file_rest f)), buf @ file_rest f, f')"
    "file_wf f'" "file_rest f' = []" by blast
  then show ?thesis
    using length_file_content [OF assms] length_file_content [of f'] by (auto simp: file_rest_def)
qed

theorem file_read_all_witness:
  "\<exists>f'. read_all file_read sample_file [7] =
    Some (Ok 700, 7 # replicate 512 0x41 @ replicate 188 0x42, f') \<and> file_length f' \<le> ff_offset f'"
  using file_read_all [OF sample_file_wf(1), of "[7]"] by simp

section \<open>The table\<close>

text \<open>
  Following the FAT. If the sectors of the table that hold the entry of a cluster can be
  read, the next cluster is the little-endian 16-bit entry at byte \<open>2 * cluster\<close> of the table,
  and there is none if the entry is 0 or at least 0xFFF8. The bytes of an entry are never split
  over two sectors.
\<close>

theorem fat_lookup:
  assumes "f_bps fs = BLOCK_SIZE" "\<forall>k<n. sector_readable fs (fat_start fs + k)"
    and "unat c * 2 + 1 < n * BLOCK_SIZE"
  shows "get_next_cluster fs c =
    (let e = field_u16 (fat_data fs n) (unat c * 2) in
     Ok (if e = 0 \<or> 0xFFF8 \<le> e then None else Some e))"
  by (rule get_next_cluster_spec [OF assms])

theorem fat_lookup_witness: "field_u16 (fat_data sample_volume 1) 4 = 3"
proof -
  have "get_next_cluster sample_volume 2 =
    (let e = field_u16 (fat_data sample_volume 1) (unat (2 :: u16) * 2) in
     Ok (if e = 0 \<or> 0xFFF8 \<le> e then None else Some e))"
    by (rule fat_lookup) (simp_all add: BLOCK_SIZE_def)
  then show ?thesis by (simp add: Let_def split: if_splits)
qed

text \<open>
  The layout of a volume. Opening a volume places, in this order and without overlap, the
  table copies, the root directory (large enough for the number of entries the boot sector
  gives) and the data region; every cluster from 2 on lies in the data region, and two
  different clusters have no sector in common.
\<close>

theorem volume_layout:
  assumes "fat16_new inner d = Ok fs"
  shows "fat_start fs + unat (fat_count (f_bpb fs)) * unat (sectors_per_fat (f_bpb fs)) =
      first_root_dir_sector fs \<and>
    unat (root_entries_count (f_bpb fs)) * 32
      \<le> (first_data_sector fs - first_root_dir_sector fs) * f_bps fs \<and>
    first_root_dir_sector fs \<le> first_data_sector fs \<and>
    (\<forall>c. 2 \<le> c \<and> c \<noteq> ROOT_DIR \<longrightarrow> first_data_sector fs \<le> cluster_to_sector fs c \<and>
      (\<forall>c'. 2 \<le> c' \<and> c' \<noteq> ROOT_DIR \<and> c \<noteq> c' \<longrightarrow>
        (\<forall>i<f_spc fs. \<forall>j<f_spc fs. cluster_to_sector fs c + i \<noteq> cluster_to_sector fs c' + j)))"
  using fat16_new_layout [OF assms] root_dir_holds [of "f_bpb fs"] clusters_apart [of _ _ _ fs]
  by (intro conjI allI impI) (simp_all add: f_bps_def cluster_sector_value)

theorem volume_layout_witness:
  "first_root_dir_sector sample_volume = 2 \<and> first_data_sector sample_volume = 3 \<and>
   cluster_to_sector sample_volume 2 \<noteq> cluster_to_sector sample_volume 3"
  using volume_layout [OF sample_volume_new] by simp

section \<open>Directories\<close>

lemma records_Cons:
  assumes "length r = 32"
  shows "records (r @ bs) = r # records bs"
proof -
  have k: "length (r @ bs) div 32 = Suc (length bs div 32)" using assms by simp
  have "take 32 (drop (Suc j * 32) (r @ bs)) = take 32 (drop (j * 32) bs)" for j
    using assms by simp
  then show ?thesis
    using assms by (simp only: records_def k map_upt_Suc) simp
qed

lemma sample_records:
  "records root_sector = record_a # record_d # replicate 32 0 # records (replicate 416 0)"
proof -
  have "replicate 448 (0 :: u8) = replicate 32 0 @ replicate 416 0" by (simp flip: replicate_add)
  moreover have "length record_a = 32" "length record_d = 32"
    by (simp_all add: record_a_def record_d_def entry_bytes_def name_a_def name_d_def u16_to_le_def)
  ultimately show ?thesis by (simp add: root_sector_def records_Cons)
qed

lemma sample_parse [simp]:
  "dir_entry_parse sample_externs record_a = Ok (sample_entry name_a 2 0x20 700)"
  "dir_entry_parse sample_externs record_d = Ok (sample_entry name_d 4 0x10 0)"
  by (simp_all add: record_a_def record_d_def dir_entry_parse_bytes name_a_def name_d_def
      sample_entry_def parse_datetime_def sample_externs_def ATTR_ALL_def)

lemma sample_listing:
  "listing sample_externs (records root_sector) =
    [sample_entry name_a 2 0x20 700, sample_entry name_d 4 0x10 0]"
proof -
  have "record_a ! 0 = 0x41" "record_d ! 0 = 0x44"
    by (simp_all add: record_a_def record_d_def entry_bytes_def name_a_def name_d_def)
  then show ?thesis
    by (simp add: sample_records listing_def in_use_def listed_def)
      (simp add: sample_entry_def de_is_valid_def sfn_is_unused_def sfn_is_eod_def name_a_def name_d_def
        de_is_long_name_def attr_contains_def ATTR_LFN_def)
qed

lemma sample_root [simp]:
  "root_data sample_volume 1 = root_sector" "root_dir_size (f_bpb sample_volume) = Ok 1"
proof -
  have "sector_bytes sample_volume (Suc (Suc 0)) = root_sector"
    by (simp flip: numeral_2_eq_2)
  then show "root_data sample_volume 1 = root_sector" by (simp add: root_data_def)
  show "root_dir_size (f_bpb sample_volume) = Ok 1"
    by (simp add: root_dir_size_def sample_volume_def bps_def)
qed

lemma sample_root_readable: "\<forall>k<1. sector_readable sample_volume (first_root_dir_sector sample_volume + k)"
  by simp

text \<open>
  Listing the root directory. If the sectors of the root directory can be read, its entries
  are exactly the live 8.3 records before the first unused one, in order, wherever the sector
  borders fall.
\<close>

theorem read_dir_root:
  assumes "volume_wf fs" "root_dir_size (f_bpb fs) = Ok n"
    and "\<forall>k<n. sector_readable fs (first_root_dir_sector fs + k)"
  shows "read_dir_entries fs x ROOT_DIR = Ok (listing x (records (root_data fs n)))"
  by (rule read_dir_root_spec [OF assms])

theorem read_dir_root_witness:
  "read_dir_entries sample_volume sample_externs ROOT_DIR =
    Ok [sample_entry name_a 2 0x20 700, sample_entry name_d 4 0x10 0]"
  using read_dir_root [OF sample_wf(3) sample_root(2) sample_root_readable, of sample_externs]
  by (simp only: sample_root sample_listing)

text \<open>
  C11: Listing a subdirectory. If the FAT links the clusters of a directory and they can be read,
  its entries are the live 8.3 records of all its clusters before the first unused record,
  provided the directory has an unused record or its chain ends.
\<close>

theorem read_dir_chain:
  assumes "volume_wf fs" "chain fs c (Suc n) = Some cs" "c \<noteq> ROOT_DIR"
    and "list_all (cluster_readable fs) cs"
    and "\<not> list_all in_use (chain_records fs cs) \<or> chain_ends fs (last cs)"
  shows "read_dir_entries fs x c = Ok (listing x (chain_records fs cs))"
  by (rule read_dir_chain_spec [OF assms])

theorem read_dir_chain_witness:
  "read_dir_entries sample_volume sample_externs 2 =
    Ok (listing sample_externs (records (replicate 512 0x41) @ records (replicate 512 0x42)))"
  using read_dir_chain [of sample_volume 2 1 "[2, 3]" sample_externs]
  by (simp add: ROOT_DIR_def chain_ends_def chain_records_def)

text \<open>
  C38: A directory whose clusters the FAT links in a circle, with no unused record in them, is
  never listed: the loop of \<open>read_dir_entries\<close> does not end, since it bounds neither the number
  of clusters nor the entries it collects.
\<close>

theorem read_dir_circular:
  assumes "volume_wf fs" "endless fs C" "c \<in> C"
  shows "read_dir_entries fs x c = Diverge"
  by (rule read_dir_endless [OF assms])

theorem read_dir_circular_witness: "read_dir_entries sample_volume sample_externs 4 = Diverge"
proof (rule read_dir_circular [of _ "{4}"])
  have cat: "records (concat (replicate n (replicate 32 0xE5))) = replicate n (replicate 32 0xE5)" for n
    by (induction n) (simp_all add: records_Cons, simp add: records_def)
  have "list_all in_use (records dir_sector)"
    unfolding dir_sector_def cat by (simp add: list_all_iff in_use_def)
  then show "endless sample_volume {4}" by (simp add: endless_def ROOT_DIR_def)
qed simp_all

section \<open>Paths and names\<close>

lemma sample_upper: "uppercase_ascii sample_externs"
  by (simp add: uppercase_ascii_def sample_externs_def)

lemma sample_chars: "list_all sfn_char [0x61]" "list_all sfn_char [0x74, 0x78, 0x74]"
  by (simp_all add: sfn_char_def INVALID_CHARS_def)

lemma sample_parse_a: "sfn_parse sample_externs [0x61, 0x2E, 0x74, 0x78, 0x74] = Ok name_a"
proof -
  have blanks: "replicate 7 b = [b, b, b, b, b, b, b]" for b :: u8 by (simp add: numeral_eq_Suc)
  have "ascii_upper 0x61 = 0x41" "ascii_upper 0x74 = 0x54" "ascii_upper 0x78 = 0x58"
    by (simp_all add: ascii_upper_def between_def)
  then show ?thesis
    using sfn_parse_text [OF sample_upper _ sample_chars]
    by (simp add: sfn_text_def pad_def name_a_def blanks)
qed

text \<open>
  Resolving a path. A path of non-empty names, with any number of leading and trailing
  slashes, is resolved by descending from the root directory name by name; every name but the
  last must lead to a directory.
\<close>

theorem find_path_canonical:
  assumes "ns \<noteq> []" "list_all path_name ns"
  shows "find_path fs x (replicate k 0x2F @ join_path ns @ replicate m 0x2F) = descend fs x ROOT_DIR ns"
  by (rule find_path_spec [OF assms])

theorem find_path_canonical_witness:
  "find_path sample_volume sample_externs [0x2F, 0x61, 0x2E, 0x74, 0x78, 0x74] =
    Ok (Some (sample_entry name_a 2 0x20 700))"
proof -
  have "find_path sample_volume sample_externs
      (replicate 1 0x2F @ join_path [[0x61, 0x2E, 0x74, 0x78, 0x74]] @ replicate 0 0x2F) =
    descend sample_volume sample_externs ROOT_DIR [[0x61, 0x2E, 0x74, 0x78, 0x74]]"
    by (rule find_path_canonical) (simp_all add: path_name_def)
  moreover have "find_entry sample_volume sample_externs ROOT_DIR [0x61, 0x2E, 0x74, 0x78, 0x74] =
      Ok (Some (sample_entry name_a 2 0x20 700))"
    using read_dir_root_spec [OF sample_wf(3) sample_root(2) sample_root_readable, of sample_externs]
    by (simp only: sample_root sample_listing find_entry_def sample_parse_a)
      (simp add: sample_entry_def)
  ultimately show ?thesis by simp
qed

text \<open>
  Resolving a path with an empty name in the middle (\<open>a//b\<close>). The count of parts skips
  empty parts but the walk does not: once the names before it are found and lead to a directory
  that can be read, the path is refused with \<open>FilenameEmpty\<close>, whether or not the target exists.
\<close>

theorem find_path_double_slash:
  assumes "ns \<noteq> []" "list_all path_name ns" "ms \<noteq> []" "list_all path_name ms"
    and "descend fs x ROOT_DIR ns = Ok (Some e)" "de_is_directory e"
    and "read_dir_entries fs x (de_cluster e) = Ok es"
  shows "find_path fs x (join_path ns @ [0x2F, 0x2F] @ join_path ms) = Err (FileNameError FilenameEmpty)"
  by (rule find_path_double [OF assms])

text \<open>The sample volume with its FAT cut off, so that \<open>D\<close> is one cluster long.\<close>

definition cut_read :: "unit \<Rightarrow> nat \<Rightarrow> u8 list fs_result" where
  "cut_read d i = (if i = 1 then Ok (replicate 512 0) else sample_read d i)"

definition cut_volume :: "unit fat16" where
  "cut_volume = sample_volume\<lparr>f_inner := sample_device\<lparr>bd_read := cut_read\<rparr>\<rparr>"

lemma cut_read_root:
  "read_dir_entries cut_volume sample_externs ROOT_DIR =
    Ok [sample_entry name_a 2 0x20 700, sample_entry name_d 4 0x10 0]"
proof -
  have wf: "volume_wf cut_volume"
    using sample_wf(3) by (simp add: cut_volume_def volume_wf_def f_bps_def f_spc_def)
  have size: "root_dir_size (f_bpb cut_volume) = Ok 1"
    using sample_root(2) by (simp add: cut_volume_def)
  have start: "first_root_dir_sector cut_volume = 2"
    using sample_sectors(4) by (simp add: cut_volume_def)
  have two: "sector_bytes cut_volume 2 = root_sector" "sector_readable cut_volume 2"
    using sample_sector_values(2, 6)
    by (simp_all add: sector_bytes_def sector_readable_def f_read_def cut_volume_def cut_read_def
        sample_volume_def sample_device_def)
  have "root_data cut_volume 1 = root_sector"
    using two(1) by (simp add: root_data_def start flip: numeral_2_eq_2)
  then show ?thesis
    using read_dir_root_spec [OF wf size, of sample_externs] start two by (simp add: sample_listing)
qed

lemma cut_read_d: "read_dir_entries cut_volume sample_externs 4 = Ok []"
proof -
  have wf: "volume_wf cut_volume"
    using sample_wf(3) by (simp add: cut_volume_def volume_wf_def f_bps_def f_spc_def)
  have spc: "f_spc cut_volume = 1" using sample_wf(2) by (simp add: cut_volume_def f_spc_def)
  have at: "cluster_to_sector cut_volume 4 = 5"
    using sample_clusters(3) spc sample_wf(2) by (simp add: cluster_to_sector_def cut_volume_def ROOT_DIR_def)
  have five: "sector_bytes cut_volume 5 = dir_sector" "sector_readable cut_volume 5"
    using sample_sector_values(5, 6)
    by (simp_all add: sector_bytes_def sector_readable_def f_read_def cut_volume_def cut_read_def
        sample_volume_def sample_device_def)
  have data: "cluster_readable cut_volume 4" "cluster_data cut_volume 4 = dir_sector"
    using five at spc by (simp_all add: cluster_readable_def cluster_data_def cluster_sectors_def)
  have ends: "chain_ends cut_volume 4"
    using sample_wf(1)
    by (simp add: chain_ends_def get_next_cluster_def Let_def f_read_def cut_volume_def cut_read_def
        sample_volume_def sample_device_def index_at_def u16_le_def f_bps_def)
  have cat: "records (concat (replicate n (replicate 32 0xE5))) = replicate n (replicate 32 0xE5)" for n
    by (induction n) (simp_all add: records_Cons, simp add: records_def)
  have "listed sample_externs (replicate 32 0xE5) = []"
    by (simp add: listed_def split: res.split)
  then have "listing sample_externs (records dir_sector) = []"
    unfolding dir_sector_def cat by (simp add: listing_def in_use_def)
  then show ?thesis
    using read_dir_chain_spec [OF wf, of 4 0 "[4]" sample_externs] data ends
    by (simp add: chain_records_def ROOT_DIR_def)
qed

theorem find_path_double_slash_witness:
  "find_path cut_volume sample_externs [0x44, 0x2F, 0x2F, 0x42] = Err (FileNameError FilenameEmpty)"
proof -
  have blanks: "replicate 7 b = [b, b, b, b, b, b, b]" "replicate 3 b = [b, b, b]" for b :: u8
    by (simp_all add: numeral_eq_Suc)
  have "list_all sfn_char [0x44]" by (simp add: sfn_char_def INVALID_CHARS_def)
  moreover have "ascii_upper 0x44 = 0x44" by (simp add: ascii_upper_def between_def)
  ultimately have "sfn_parse sample_externs [0x44] = Ok name_d"
    using sfn_parse_text [OF sample_upper, of "[0x44]" "[]"]
    by (simp add: sfn_text_def pad_def name_d_def blanks)
  then have "descend cut_volume sample_externs ROOT_DIR [[0x44]] = Ok (Some (sample_entry name_d 4 0x10 0))"
    by (simp add: find_entry_def cut_read_root)
      (simp add: sample_entry_def name_a_def name_d_def)
  then have "find_path cut_volume sample_externs (join_path [[0x44]] @ [0x2F, 0x2F] @ join_path [[0x42]]) =
      Err (FileNameError FilenameEmpty)"
    using cut_read_d
    by (intro find_path_double_slash [where e = "sample_entry name_d 4 0x10 0" and es = "[]"])
      (simp_all add: path_name_def sample_entry_def de_is_directory_def attr_contains_def ATTR_DIRECTORY_def)
  then show ?thesis by simp
qed

text \<open>
  8.3 names. A name of at most 8 characters with an extension of at most 3, all ASCII and
  valid and with no other period, is parsed to a padded short name; printing that gives the name
  in upper case, and parsing the printed name gives the same short name. \<open>uppercase_ascii\<close> is
  what the library documents of \<open>to_uppercase\<close> on ASCII.
\<close>

theorem sfn_roundtrip:
  assumes "uppercase_ascii x" "sfn_text base ext \<noteq> []" "list_all sfn_char base" "list_all sfn_char ext"
    and "length base \<le> 8" "length ext \<le> 3"
  shows "\<exists>s. sfn_parse x (sfn_text base ext) = Ok s \<and>
    sfn_display s = Ok (map ascii_upper (sfn_text base ext)) \<and>
    sfn_parse x (map ascii_upper (sfn_text base ext)) = Ok s"
  by (rule sfn_roundtrip_text [OF assms])

theorem sfn_roundtrip_witness:
  "\<exists>s. sfn_parse sample_externs [0x61, 0x2E, 0x74, 0x78, 0x74] = Ok s \<and>
    sfn_display s = Ok [0x41, 0x2E, 0x54, 0x58, 0x54]"
  using sfn_roundtrip [OF sample_upper _ sample_chars]
  by (auto simp: sfn_text_def ascii_upper_def between_def)

text \<open>
  Names that are not 8.3. With a base of more than 8 characters the parser answers
  \<open>NameTooLong\<close>; with an extension of more than 3 it does not: it panics, since the copy runs
  over the 3-byte array.
\<close>

theorem sfn_parse_overlong:
  assumes "uppercase_ascii x" "list_all sfn_char base" "list_all sfn_char ext"
  shows "(8 < length base \<longrightarrow> sfn_parse x (sfn_text base ext) = Err (FileNameError NameTooLong)) \<and>
    (length base \<le> 8 \<and> 3 < length ext \<longrightarrow> sfn_parse x (sfn_text base ext) = Panic)"
  using sfn_parse_text [OF assms(1) _ assms(2, 3)]
  by (cases "sfn_text base ext = []") (auto simp: sfn_text_def split: if_splits)

theorem sfn_parse_overlong_witness:
  "sfn_parse sample_externs [0x61, 0x2E, 0x68, 0x74, 0x6D, 0x6C] = Panic"
  using sfn_parse_overlong [OF sample_upper, of "[0x61]" "[0x68, 0x74, 0x6D, 0x6C]"]
  by (simp add: sfn_text_def sfn_char_def INVALID_CHARS_def)

text \<open>
  Directory entries on disk. Parsing the 32 bytes of an entry gives back its name, its
  attributes (less the two undefined bits), the 32-bit cluster from its two halves, the size and
  the three timestamps.
\<close>

theorem dir_entry_roundtrip:
  assumes "length name = 8" "length ext = 3"
  shows "dir_entry_parse x (entry_bytes name ext attr ctime cdate adate cl mtime mdate sz) =
    Ok \<lparr>filename = \<lparr>sfn_name = name, sfn_ext = ext\<rparr>, modified_time = parse_datetime x mdate mtime,
        created_time = parse_datetime x cdate ctime, accessed_time = parse_datetime x adate 0,
        de_cluster = cl, de_attributes = attr AND ATTR_ALL, de_size = sz\<rparr>"
  by (rule dir_entry_parse_bytes [OF assms])

theorem dir_entry_roundtrip_witness:
  "dir_entry_parse sample_externs record_a = Ok (sample_entry name_a 2 0x20 700)"
proof -
  have "length (sfn_name name_a) = 8" "length (sfn_ext name_a) = 3" by (simp_all add: name_a_def)
  from dir_entry_roundtrip [OF this, of sample_externs] show ?thesis
    by (simp add: record_a_def name_a_def sample_entry_def parse_datetime_def sample_externs_def ATTR_ALL_def)
qed

section \<open>Opening and reading a file by its path\<close>

text \<open>
  C7: Opening a file by its path and reading it to the end. If a canonical path leads to a
  file whose chain can be read, \<open>open_file\<close> gives a handle whose metadata has the printed name
  and the size, and \<open>read_all\<close> on it gives the whole content.
\<close>

theorem open_and_read:
  assumes "ns \<noteq> []" "list_all path_name ns"
    and "descend fs x ROOT_DIR ns = Ok (Some e)" "de_is_file e" "sfn_display (filename e) = Ok shown"
    and "file_wf (file_new fs e)"
  shows "\<exists>m f f'. fat16_open_file fs x (0x2F # join_path ns) = Ok (m, f) \<and> md_name m = shown \<and>
    metadata_is_file m \<and> md_len m = unat (de_size e) \<and>
    read_all file_read f [] = Some (Ok (unat (de_size e)), file_content (file_new fs e), f')"
proof -
  have "find_path fs x (0x2F # join_path ns) = Ok (Some e)"
    using find_path_spec [OF assms(1, 2), of fs x 1 0] assms(3) by simp
  moreover from fat.read_all_rest [OF assms(6), of "[]"] obtain f' where
    "read_all file_read (file_new fs e) [] =
      Some (Ok (length (file_rest (file_new fs e))), file_rest (file_new fs e), f')" by auto
  moreover have "file_rest (file_new fs e) = file_content (file_new fs e)"
    by (simp add: file_rest_def file_new_def)
  moreover have "file_length (file_new fs e) = unat (de_size e)"
    by (simp add: file_length_def file_new_def)
  ultimately show ?thesis
    using assms(4, 5) length_file_content [OF assms(6)]
    by (simp add: fat16_open_file_def entry_meta_def metadata_new_def metadata_is_file_def)
qed

theorem open_and_read_witness:
  "\<exists>m f f'. fat16_open_file sample_volume sample_externs [0x2F, 0x61, 0x2E, 0x74, 0x78, 0x74] = Ok (m, f) \<and>
    read_all file_read f [] = Some (Ok 700, replicate 512 0x41 @ replicate 188 0x42, f')"
proof -
  let ?e = "sample_entry name_a 2 0x20 700"
  have "find_entry sample_volume sample_externs ROOT_DIR [0x61, 0x2E, 0x74, 0x78, 0x74] = Ok (Some ?e)"
    using read_dir_root_spec [OF sample_wf(3) sample_root(2) sample_root_readable, of sample_externs]
    by (simp only: sample_root sample_listing find_entry_def sample_parse_a)
      (simp add: sample_entry_def)
  moreover have "\<exists>shown. sfn_display name_a = Ok shown"
    using sfn_roundtrip_text [OF sample_upper _ sample_chars] sample_parse_a by (auto simp: sfn_text_def)
  moreover have "de_is_file ?e" "filename ?e = name_a" "unat (de_size ?e) = 700"
    by (simp_all add: sample_entry_def de_is_file_def de_is_directory_def attr_contains_def
        ATTR_DIRECTORY_def ATTR_VOLUME_ID_def)
  moreover have "file_wf (file_new sample_volume ?e)"
    "file_content (file_new sample_volume ?e) = replicate 512 0x41 @ replicate 188 0x42"
    using sample_file_wf by (simp_all add: sample_file_def)
  ultimately show ?thesis
    using open_and_read [of "[[0x61, 0x2E, 0x74, 0x78, 0x74]]" sample_volume sample_externs ?e]
    by (auto simp: path_name_def)
qed

section \<open>Partitions\<close>

text \<open>
  C22: The partition table. For every sector read as MBR, the partitions offered are those of
  the four entries whose status is 0x80, in order; a request to one of them within its
  \<open>total_lba\<close> blocks reaches the disk at \<open>begin_lba\<close> plus the block, and any other request is
  refused without touching the disk.
\<close>

theorem mbr_partition_windows:
  assumes "bd_read inner d 0 = Ok sector" "length sector = BLOCK_SIZE"
  defines "active \<equiv> filter (\<lambda>i. sector ! (0x1BE + i * 16) = 0x80) [0, 1, 2, 3]"
  shows "\<exists>t ps. mbr_table_parse inner d = Ok t \<and> mbr_partitions t = Ok ps \<and> length ps = length active \<and>
    (\<forall>j<length active. \<forall>k. partition_read_block (ps ! j) d k =
      (let off = 0x1BE + active ! j * 16 in
       if k < unat (field_u32 sector (off + 0x0C))
       then bd_read inner d (unat (field_u32 sector (off + 0x08)) + k)
       else Err InvalidOffset))"
proof -
  let ?part = "\<lambda>i. partition_new inner (unat (begin_lba (mbr_entry sector i))) (unat (total_lba (mbr_entry sector i)))"
  have "filter (is_active \<circ> mbr_entry sector) [0, 1, 2, 3] = active"
    unfolding active_def using assms(2) by (intro filter_cong) (auto simp: mbr_entry_active)
  then have ps: "mbr_partitions \<lparr>mt_inner = inner, mt_partitions = map (mbr_entry sector) [0, 1, 2, 3]\<rparr> =
      Ok (map ?part active)"
    by (simp only: mbr_partitions_def mbr_table.simps filter_map map_map comp_def)
  have "active ! j < 4" if "j < length active" for j
    using nth_mem [OF that] by (auto simp: active_def)
  then have "partition_read_block (map ?part active ! j) d k =
      (let off = 0x1BE + active ! j * 16 in
       if k < unat (field_u32 sector (off + 0x0C))
       then bd_read inner d (unat (field_u32 sector (off + 0x08)) + k) else Err InvalidOffset)"
    if "j < length active" for j k
    using that assms(2)
    by (simp add: partition_read_block_def partition_new_def mbr_entry_lba Let_def not_less)
  then show ?thesis using mbr_table_parse_ok [OF assms(1, 2)] ps by (intro exI conjI) auto
qed

definition mbr_sector :: "u8 list" where
  "mbr_sector = replicate 446 0 @ [0x80, 0, 0, 0, 6, 0, 0, 0, 4, 0, 0, 0, 2, 0, 0, 0] @ replicate 50 0"

definition mbr_device :: "unit block_device" where
  "mbr_device = sample_device\<lparr>bd_read := \<lambda>d i. if i = 0 then Ok mbr_sector else sample_read d (i - 1)\<rparr>"

theorem mbr_partition_windows_witness:
  "\<exists>t p. mbr_table_parse mbr_device () = Ok t \<and> mbr_partitions t = Ok [p] \<and>
    partition_read_block p () 0 = Ok (replicate 512 0x41) \<and> partition_read_block p () 2 = Err InvalidOffset"
proof -
  have bytes: "mbr_sector ! 446 = 0x80" "mbr_sector ! 462 = 0" "mbr_sector ! 478 = 0" "mbr_sector ! 494 = 0"
    "length mbr_sector = BLOCK_SIZE"
    by (simp_all add: mbr_sector_def nth_append BLOCK_SIZE_def)
  have lba: "field_u32 mbr_sector 454 = 4" "field_u32 mbr_sector 458 = 2"
    using bytes(5) by (simp_all add: field_u32_def BLOCK_SIZE_def)
      (simp_all add: mbr_sector_def nth_append u32_le_def)
  have "bd_read mbr_device () 0 = Ok mbr_sector" by (simp add: mbr_device_def)
  from mbr_partition_windows [OF this bytes(5)] obtain t ps where
    t: "mbr_table_parse mbr_device () = Ok t" "mbr_partitions t = Ok ps" "length ps = 1"
    "\<forall>k. partition_read_block (ps ! 0) () k =
      (if k < 2 then bd_read mbr_device () (4 + k) else Err InvalidOffset)"
    using bytes lba by (auto simp: Let_def)
  then obtain p where "ps = [p]" by (cases ps) auto
  with t show ?thesis by (simp add: mbr_device_def sample_read_def sample_device_def)
qed

end
