(* ===== verification/UnitTests.thy ===== *)
theory UnitTests
  imports DirEntry Bpb
begin

text \<open>
  The unit tests that the storage library brings along (\<open>bpb.rs\<close>, \<open>direntry.rs\<close>, \<open>mbr/entry.rs\<close>)
  as predicates over the model: the sectors and entries of real disks and what is asserted of them.
\<close>

section \<open>Boot sectors\<close>

text \<open>\<open>resize(510, 0)\<close> and the signature\<close>

definition bpb_sector :: "u8 list \<Rightarrow> u8 list" where
  "bpb_sector data = data @ replicate (510 - length data) 0 @ [0x55, 0xAA]"

text \<open>Taken from a Raspberry Pi bootable SD-Card\<close>

definition bpb_data_1 :: "u8 list" where
  "bpb_data_1 = [
    0xEB, 0x3C, 0x90, 0x6D, 0x6B, 0x66, 0x73, 0x2E, 0x66, 0x61, 0x74, 0x00, 0x02, 0x10, 0x01, 0x00,
    0x02, 0x00, 0x02, 0x00, 0x00, 0xF8, 0x20, 0x00, 0x3F, 0x00, 0xFF, 0x00, 0x00, 0x00, 0x00, 0x00,
    0x00, 0xE0, 0x01, 0x00, 0x80, 0x01, 0x29, 0xBB, 0xB0, 0x71, 0x77, 0x62, 0x6F, 0x6F, 0x74, 0x20,
    0x20, 0x20, 0x20, 0x20, 0x20, 0x20, 0x46, 0x41, 0x54, 0x31, 0x36, 0x20, 0x20, 0x20, 0x0E, 0x1F,
    0xBE, 0x5B, 0x7C, 0xAC, 0x22, 0xC0, 0x74, 0x0B, 0x56, 0xB4, 0x0E, 0xBB, 0x07, 0x00, 0xCD, 0x10,
    0x5E, 0xEB, 0xF0, 0x32, 0xE4, 0xCD, 0x16, 0xCD, 0x19, 0xEB, 0xFE, 0x54, 0x68, 0x69, 0x73, 0x20,
    0x69, 0x73, 0x20, 0x6E, 0x6F, 0x74, 0x20, 0x61, 0x20, 0x62, 0x6F, 0x6F, 0x74, 0x61, 0x62, 0x6C,
    0x65, 0x20, 0x64, 0x69, 0x73, 0x6B, 0x2E, 0x20, 0x20, 0x50, 0x6C, 0x65, 0x61, 0x73, 0x65, 0x20,
    0x69, 0x6E, 0x73, 0x65, 0x72, 0x74, 0x20, 0x61, 0x20, 0x62, 0x6F, 0x6F, 0x74, 0x61, 0x62, 0x6C,
    0x65, 0x20, 0x66, 0x6C, 0x6F, 0x70, 0x70, 0x79, 0x20, 0x61, 0x6E, 0x64, 0x0D, 0x0A, 0x70, 0x72,
    0x65, 0x73, 0x73, 0x20, 0x61, 0x6E, 0x79, 0x20, 0x6B, 0x65, 0x79, 0x20, 0x74, 0x6F, 0x20, 0x74,
    0x72, 0x79, 0x20, 0x61, 0x67, 0x61, 0x69, 0x6E, 0x20, 0x2E, 0x2E, 0x2E, 0x20, 0x0D, 0x0A, 0x00]"

text \<open>Taken from QEMU VVFAT\<close>

definition bpb_data_2 :: "u8 list" where
  "bpb_data_2 = [
    0xEB, 0x3E, 0x90, 0x4D, 0x53, 0x57, 0x49, 0x4E, 0x34, 0x2E, 0x31, 0x00, 0x02, 0x10, 0x01, 0x00,
    0x02, 0x00, 0x02, 0x00, 0x00, 0xF8, 0xFC, 0x00, 0x3F, 0x00, 0x10, 0x00, 0x3F, 0x00, 0x00, 0x00,
    0xC1, 0xBF, 0x0F, 0x00, 0x80, 0x00, 0x29, 0xFD, 0x1A, 0xBE, 0xFA, 0x51, 0x45, 0x4D, 0x55, 0x20,
    0x56, 0x56, 0x46, 0x41, 0x54, 0x20, 0x46, 0x41, 0x54, 0x31, 0x36, 0x20, 0x20, 0x20, 0x00, 0x00]"

definition test_fat16_bpb_1 :: bool where
  "test_fat16_bpb_1 \<longleftrightarrow> (case fat16_bpb_new (bpb_sector bpb_data_1) of
     Ok bpb \<Rightarrow>
       oem_name bpb = str ''mkfs.fat'' \<and> bytes_per_sector bpb = 512 \<and> sectors_per_cluster bpb = 16 \<and>
       reserved_sector_count bpb = 1 \<and> fat_count bpb = 2 \<and> root_entries_count bpb = 512 \<and>
       total_sectors_16 bpb = 0 \<and> media_descriptor bpb = 0xf8 \<and> sectors_per_fat bpb = 32 \<and>
       sectors_per_track bpb = 63 \<and> track_count bpb = 255 \<and> hidden_sectors bpb = 0 \<and>
       total_sectors_32 bpb = 0x1e000 \<and> drive_number bpb = 128 \<and> reserved_flags bpb = 1 \<and>
       boot_signature bpb = 0x29 \<and> volume_id bpb = 0x7771b0bb \<and> volume_label bpb = str ''boot       '' \<and>
       system_identifier bpb = str ''FAT16   '' \<and> total_sectors bpb = 0x1e000
   | _ \<Rightarrow> False)"

definition test_fat16_bpb_2 :: bool where
  "test_fat16_bpb_2 \<longleftrightarrow> (case fat16_bpb_new (bpb_sector bpb_data_2) of
     Ok bpb \<Rightarrow>
       oem_name bpb = str ''MSWIN4.1'' \<and> str_or_empty (oem_name bpb) = str ''MSWIN4.1'' \<and>
       bytes_per_sector bpb = 512 \<and> sectors_per_cluster bpb = 16 \<and> reserved_sector_count bpb = 1 \<and>
       fat_count bpb = 2 \<and> root_entries_count bpb = 512 \<and> total_sectors_16 bpb = 0 \<and>
       media_descriptor bpb = 0xf8 \<and> sectors_per_fat bpb = 0xfc \<and> sectors_per_track bpb = 63 \<and>
       track_count bpb = 16 \<and> hidden_sectors bpb = 63 \<and> total_sectors_32 bpb = 0xfbfc1 \<and>
       drive_number bpb = 128 \<and> reserved_flags bpb = 0 \<and> boot_signature bpb = 0x29 \<and>
       volume_id bpb = 0xfabe1afd \<and> volume_label bpb = str ''QEMU VVFAT '' \<and>
       str_or_empty (volume_label bpb) = str ''QEMU VVFAT '' \<and>
       system_identifier bpb = str ''FAT16   '' \<and>
       str_or_empty (system_identifier bpb) = str ''FAT16   '' \<and> total_sectors bpb = 0xfbfc1
   | _ \<Rightarrow> False)"

section \<open>A directory entry and a partition entry\<close>

definition ATTR_ARCHIVE :: attributes where "ATTR_ARCHIVE = 0x20"

definition dir_entry_data :: "u8 list" where
  "dir_entry_data = [
    0x4B, 0x45, 0x52, 0x4E, 0x45, 0x4C, 0x20, 0x20, 0x45, 0x4C, 0x46, 0x20, 0x00, 0x00, 0x0F, 0xBE,
    0xD0, 0x50, 0xD0, 0x50, 0x00, 0x00, 0x0F, 0xBE, 0xD0, 0x50, 0x02, 0x00, 0xF0, 0xE4, 0x0E, 0x00]"

definition test_dir_entry :: "'t externs \<Rightarrow> bool" where
  "test_dir_entry x \<longleftrightarrow> (case dir_entry_parse x dir_entry_data of
     Ok res \<Rightarrow>
       sfn_name (filename res) = str ''KERNEL  '' \<and> sfn_ext (filename res) = str ''ELF'' \<and>
       de_attributes res = ATTR_ARCHIVE \<and> de_cluster res = 2 \<and> de_size res = 0xee4f0 \<and>
       ext_ymd_hms x 2020 6 16 23 48 30 = Some (created_time res) \<and>
       ext_ymd_hms x 2020 6 16 23 48 30 = Some (modified_time res) \<and>
       ext_ymd_hms x 2020 6 16 0 0 0 = Some (accessed_time res)
   | _ \<Rightarrow> False)"

definition partition_data :: "u8 list" where
  "partition_data = [
    0x80, 0x01, 0x01, 0x00, 0x0B, 0xFE, 0xBF, 0xFC, 0x3F, 0x00, 0x00, 0x00, 0x7E, 0x86, 0xBB, 0x00]"

definition partition_test :: bool where
  "partition_test \<longleftrightarrow> (let meta = mbr_partition_parse partition_data in
     is_active meta \<and> begin_head meta = 1 \<and> begin_sector meta = 1 \<and> begin_cylinder meta = 0 \<and>
     partition_type meta = 0x0b \<and> end_head meta = 254 \<and> end_sector meta = 63 \<and> end_cylinder meta = 764 \<and>
     begin_lba meta = 63 \<and> total_lba meta = 12289662)"

section \<open>The property\<close>

lemma boot_sector_tests: "test_fat16_bpb_1" "test_fat16_bpb_2"
  by code_simp+

lemma partition_entry_test: "partition_test"
  by code_simp

text \<open>
  The unit tests of the storage library hold of the model: the two boot sectors, the partition entry, and the
  directory entry wherever chrono knows the two points in time.
\<close>

theorem unit_tests:
  assumes "ext_ymd_hms x 2020 6 16 23 48 30 \<noteq> None" "ext_ymd_hms x 2020 6 16 0 0 0 \<noteq> None"
  shows "test_fat16_bpb_1 \<and> test_fat16_bpb_2 \<and> partition_test \<and> test_dir_entry x"
proof -
  have "test_dir_entry x"
    using assms by (auto simp: test_dir_entry_def dir_entry_parse_def dir_entry_data_def u16_le_def u32_le_def sfn_new_def
        parse_datetime_def str_def attr_from_bits_truncate_def ATTR_ALL_def ATTR_ARCHIVE_def Let_def split: option.splits)
  then show ?thesis using boot_sector_tests partition_entry_test by simp
qed

theorem unit_tests_witness:
  "test_dir_entry \<lparr>ext_to_uppercase = id, ext_ymd_hms = (\<lambda>y mo d h mi s. Some (y, mo, d, h, mi, s)), ext_epoch = (1970, 1, 1, 0, 0, 0)\<rparr>"
  using unit_tests [of "\<lparr>ext_to_uppercase = id, ext_ymd_hms = (\<lambda>y mo d h mi s. Some (y, mo, d, h, mi, s)),
    ext_epoch = (1970, 1, 1, 0, 0, 0)\<rparr>"] by simp

end
