(* ===== verification/Semaphores.thy ===== *)
theory Semaphores
  imports Prelude
begin

text \<open>
  Semaphores, \<open>pkg/kernel/src/proc/sync.rs\<close>: one semaphore, the set of them by key, their
  contract as the locale \<open>sem_table\<close>, and the critical sections that processes build on it.
\<close>

section \<open>One semaphore\<close>

text \<open>\<open>ProcessId\<close> and \<open>SemaphoreId\<close> wrap a \<open>u16\<close> and a \<open>u32\<close>.\<close>

type_synonym pid = u16

text \<open>\<open>count\<close> is a \<open>usize\<close>: adding to it wraps around in the default (release) build.\<close>

record semaphore =
  sem_count :: u64
  sem_queue :: "pid list"

datatype sem_result = SemOk | NotExist | Block pid | WakeUp pid

definition semaphore_new :: "u64 \<Rightarrow> semaphore" where
  "semaphore_new value = \<lparr>sem_count = value, sem_queue = []\<rparr>"

definition semaphore_wait :: "semaphore \<Rightarrow> pid \<Rightarrow> sem_result \<times> semaphore" where
  "semaphore_wait s p =
     (if sem_count s = 0 then (Block p, s\<lparr>sem_queue := sem_queue s @ [p]\<rparr>)
      else (SemOk, s\<lparr>sem_count := sem_count s - 1\<rparr>))"

definition semaphore_signal :: "semaphore \<Rightarrow> sem_result \<times> semaphore" where
  "semaphore_signal s =
     (case sem_queue s of
        [] \<Rightarrow> (SemOk, s\<lparr>sem_count := sem_count s + 1\<rparr>)
      | p # q \<Rightarrow> (WakeUp p, s\<lparr>sem_queue := q\<rparr>))"

section \<open>The set of semaphores\<close>

type_synonym semaphore_set = "u32 \<rightharpoonup> semaphore"

text \<open>\<open>insert(\<dots>).is_none()\<close>: an old semaphore under the key is replaced.\<close>

definition set_insert :: "semaphore_set \<Rightarrow> u32 \<Rightarrow> u64 \<Rightarrow> bool \<times> semaphore_set" where
  "set_insert sems key value = (sems key = None, sems(key \<mapsto> semaphore_new value))"

definition set_remove :: "semaphore_set \<Rightarrow> u32 \<Rightarrow> bool \<times> semaphore_set" where
  "set_remove sems key = (sems key \<noteq> None, sems(key := None))"

definition set_wait :: "semaphore_set \<Rightarrow> u32 \<Rightarrow> pid \<Rightarrow> sem_result \<times> semaphore_set" where
  "set_wait sems key p =
     (case sems key of
        Some sem \<Rightarrow> (case semaphore_wait sem p of (r, sem') \<Rightarrow> (r, sems(key \<mapsto> sem')))
      | None \<Rightarrow> (NotExist, sems))"

definition set_signal :: "semaphore_set \<Rightarrow> u32 \<Rightarrow> sem_result \<times> semaphore_set" where
  "set_signal sems key =
     (case sems key of
        Some sem \<Rightarrow> (case semaphore_signal sem of (r, sem') \<Rightarrow> (r, sems(key \<mapsto> sem')))
      | None \<Rightarrow> (NotExist, sems))"

section \<open>Histories of one semaphore\<close>

datatype sem_op = OpWait pid | OpSignal

text \<open>What a run leaves: the semaphore, the pids blocked, those woken, and the waits that passed.\<close>

fun sem_run :: "sem_op list \<Rightarrow> semaphore \<Rightarrow> pid list \<Rightarrow> pid list \<Rightarrow> nat
    \<Rightarrow> semaphore \<times> pid list \<times> pid list \<times> nat" where
  "sem_run [] s blocked woken passed = (s, blocked, woken, passed)"
| "sem_run (OpWait p # ops) s blocked woken passed =
     (case semaphore_wait s p of
        (Block b, s') \<Rightarrow> sem_run ops s' (blocked @ [b]) woken passed
      | (_, s') \<Rightarrow> sem_run ops s' blocked woken (Suc passed))"
| "sem_run (OpSignal # ops) s blocked woken passed =
     (case semaphore_signal s of
        (WakeUp w, s') \<Rightarrow> sem_run ops s' blocked (woken @ [w]) passed
      | (_, s') \<Rightarrow> sem_run ops s' blocked woken passed)"

fun signals :: "sem_op list \<Rightarrow> nat" where
  "signals [] = 0"
| "signals (OpWait p # ops) = signals ops"
| "signals (OpSignal # ops) = Suc (signals ops)"

lemma unat_pred: "c \<noteq> 0 \<Longrightarrow> unat (c - 1 :: u64) = unat c - 1"
  by (simp add: unat_minus_one)

lemma Suc_unat_pred [simp]: "c \<noteq> 0 \<Longrightarrow> Suc (unat c - Suc 0) = unat (c :: u64)"
  using unat_gt_0 [of c] by simp

lemma unat_succ: "unat c + 1 < 2 ^ 64 \<Longrightarrow> unat (c + 1 :: u64) = unat c + 1"
  by (simp add: unat_word_ariths)

definition sem_wf :: "semaphore \<Rightarrow> bool" where
  "sem_wf s \<longleftrightarrow> (sem_queue s \<noteq> [] \<longrightarrow> sem_count s = 0)"

lemma sem_run_conserves:
  "sem_run ops s blocked woken passed = (s', blocked', woken', passed') \<Longrightarrow>
    blocked = woken @ sem_queue s \<Longrightarrow> sem_wf s \<Longrightarrow> unat (sem_count s) + signals ops < 2 ^ 64 \<Longrightarrow>
    blocked' = woken' @ sem_queue s' \<and> sem_wf s' \<and>
    unat (sem_count s') + passed' + length woken' =
      unat (sem_count s) + passed + length woken + signals ops"
proof (induction ops arbitrary: s blocked woken passed)
  case (Cons op ops)
  show ?case
  proof (cases op)
    case (OpWait p)
    with Cons.prems show ?thesis
      by (auto simp: semaphore_wait_def sem_wf_def unat_pred split: if_splits dest!: Cons.IH)
  next
    case OpSignal
    with Cons.prems show ?thesis
      by (auto simp: semaphore_signal_def sem_wf_def unat_succ split: list.splits dest!: Cons.IH)
  qed
qed auto

section \<open>The contract of a table of semaphores\<close>

text \<open>\<open>view t k\<close> is the number of permits and the queue of semaphore \<open>k\<close>, if there is one.\<close>

locale sem_table =
  fixes wait :: "'t \<Rightarrow> u32 \<Rightarrow> pid \<Rightarrow> sem_result \<times> 't"
    and signal :: "'t \<Rightarrow> u32 \<Rightarrow> sem_result \<times> 't"
    and view :: "'t \<Rightarrow> u32 \<Rightarrow> (nat \<times> pid list) option"
  assumes wait_free:
      "view t k = Some (Suc n, q) \<Longrightarrow> \<exists>t'. wait t k p = (SemOk, t') \<and> view t' = (view t)(k \<mapsto> (n, q))"
    and wait_block:
      "view t k = Some (0, q) \<Longrightarrow> \<exists>t'. wait t k p = (Block p, t') \<and> view t' = (view t)(k \<mapsto> (0, q @ [p]))"
    and wait_none: "view t k = None \<Longrightarrow> wait t k p = (NotExist, t)"
    and signal_wake:
      "view t k = Some (n, p # q) \<Longrightarrow> \<exists>t'. signal t k = (WakeUp p, t') \<and> view t' = (view t)(k \<mapsto> (n, q))"
    and signal_free:
      "view t k = Some (n, []) \<Longrightarrow> n + 1 < 2 ^ 64 \<Longrightarrow>
        \<exists>t'. signal t k = (SemOk, t') \<and> view t' = (view t)(k \<mapsto> (Suc n, []))"
    and signal_none: "view t k = None \<Longrightarrow> signal t k = (NotExist, t)"

text \<open>
  Processes that guard a section with \<open>wait\<close> and \<open>signal\<close> on semaphore \<open>k\<close>. The state is the
  table, who is inside and who waits; a blocked process is inside once it has been woken.
\<close>

inductive cs_step ::
  "('t \<Rightarrow> u32 \<Rightarrow> pid \<Rightarrow> sem_result \<times> 't) \<Rightarrow> ('t \<Rightarrow> u32 \<Rightarrow> sem_result \<times> 't) \<Rightarrow> u32
    \<Rightarrow> 't \<times> pid set \<times> pid set \<Rightarrow> 't \<times> pid set \<times> pid set \<Rightarrow> bool"
  for wait signal k
where
  enter: "p \<notin> ins \<Longrightarrow> p \<notin> wts \<Longrightarrow> wait t k p = (SemOk, t') \<Longrightarrow>
    cs_step wait signal k (t, ins, wts) (t', insert p ins, wts)"
| queue: "p \<notin> ins \<Longrightarrow> p \<notin> wts \<Longrightarrow> wait t k p = (Block p, t') \<Longrightarrow>
    cs_step wait signal k (t, ins, wts) (t', ins, insert p wts)"
| leave: "p \<in> ins \<Longrightarrow> signal t k = (SemOk, t') \<Longrightarrow>
    cs_step wait signal k (t, ins, wts) (t', ins - {p}, wts)"
| pass_on: "p \<in> ins \<Longrightarrow> signal t k = (WakeUp w, t') \<Longrightarrow>
    cs_step wait signal k (t, ins, wts) (t', insert w (ins - {p}), wts - {w})"

inductive_cases cs_stepE: "cs_step wait signal k (t, ins, wts) (t', ins', wts')"

inductive cs_reach ::
  "('t \<Rightarrow> u32 \<Rightarrow> pid \<Rightarrow> sem_result \<times> 't) \<Rightarrow> ('t \<Rightarrow> u32 \<Rightarrow> sem_result \<times> 't) \<Rightarrow> u32
    \<Rightarrow> 't \<times> pid set \<times> pid set \<Rightarrow> 't \<times> pid set \<times> pid set \<Rightarrow> bool"
  for wait signal k
where
  start: "cs_reach wait signal k c c"
| step: "cs_reach wait signal k c c' \<Longrightarrow> cs_step wait signal k c' c'' \<Longrightarrow> cs_reach wait signal k c c''"

context sem_table
begin

text \<open>The permits are shared out: those left and those held by the processes inside add up.\<close>

definition shared_out :: "u32 \<Rightarrow> nat \<Rightarrow> 't \<times> pid set \<times> pid set \<Rightarrow> bool" where
  "shared_out k permits c \<longleftrightarrow>
     (case c of (t, ins, wts) \<Rightarrow>
       \<exists>n q. view t k = Some (n, q) \<and> finite ins \<and> n + card ins = permits \<and> distinct q \<and>
         set q = wts \<and> ins \<inter> wts = {} \<and> (q \<noteq> [] \<longrightarrow> n = 0))"

lemma shared_out_step:
  assumes "cs_step wait signal k c c'" "shared_out k permits c" "permits < 2 ^ 64"
  shows "shared_out k permits c'"
  using assms
proof (cases rule: cs_step.cases)
  case (enter p ins wts t t')
  from assms(2) enter obtain n q where v: "view t k = Some (n, q)" "finite ins" "n + card ins = permits"
    "distinct q" "set q = wts" "ins \<inter> wts = {}" "q \<noteq> [] \<longrightarrow> n = 0" by (auto simp: shared_out_def)
  show ?thesis
  proof (cases n)
    case 0
    with v wait_block [of t k q p] enter show ?thesis by auto
  next
    case (Suc m)
    with v wait_free [of t k m q p] enter show ?thesis by (auto simp: shared_out_def)
  qed
next
  case (queue p ins wts t t')
  from assms(2) queue obtain n q where v: "view t k = Some (n, q)" "finite ins" "n + card ins = permits"
    "distinct q" "set q = wts" "ins \<inter> wts = {}" "q \<noteq> [] \<longrightarrow> n = 0" by (auto simp: shared_out_def)
  show ?thesis
  proof (cases n)
    case 0
    with v wait_block [of t k q p] queue show ?thesis by (auto simp: shared_out_def)
  next
    case (Suc m)
    with v wait_free [of t k m q p] queue show ?thesis by auto
  qed
next
  case (leave p ins t t' wts)
  from assms(2) leave obtain n q where v: "view t k = Some (n, q)" "finite ins" "n + card ins = permits"
    "distinct q" "set q = wts" "ins \<inter> wts = {}" "q \<noteq> [] \<longrightarrow> n = 0" by (auto simp: shared_out_def)
  have "card ins > 0" using leave v(2) by (auto simp: card_gt_0_iff)
  show ?thesis
  proof (cases q)
    case Nil
    with v signal_free [of t k n] leave assms(3) \<open>card ins > 0\<close> show ?thesis
      by (auto simp: shared_out_def)
  next
    case (Cons w q')
    with v signal_wake [of t k n w q'] leave show ?thesis by auto
  qed
next
  case (pass_on p ins t w t' wts)
  from assms(2) pass_on obtain n q where v: "view t k = Some (n, q)" "finite ins" "n + card ins = permits"
    "distinct q" "set q = wts" "ins \<inter> wts = {}" "q \<noteq> [] \<longrightarrow> n = 0" by (auto simp: shared_out_def)
  have "card ins > 0" using pass_on v(2) by (auto simp: card_gt_0_iff)
  show ?thesis
  proof (cases q)
    case Nil
    with v signal_free [of t k n] pass_on assms(3) \<open>card ins > 0\<close> show ?thesis by auto
  next
    case (Cons w' q')
    with v signal_wake [of t k n w' q'] pass_on have "w' = w" "view t' = (view t)(k \<mapsto> (n, q'))" by auto
    with v Cons pass_on \<open>card ins > 0\<close> show ?thesis by (auto simp: shared_out_def card_insert_if)
  qed
qed

lemma shared_out_reach:
  "cs_reach wait signal k c c' \<Longrightarrow> shared_out k permits c \<Longrightarrow> permits < 2 ^ 64 \<Longrightarrow> shared_out k permits c'"
  by (induction rule: cs_reach.induct) (auto dest: shared_out_step)

lemma exclusion:
  assumes "cs_reach wait signal k (t, {}, {}) (t', ins, wts)" "view t k = Some (permits, [])" "permits < 2 ^ 64"
  shows "finite ins \<and> card ins \<le> permits \<and> (wts \<noteq> {} \<longrightarrow> card ins = permits)"
proof -
  have "shared_out k permits (t, {}, {})" using assms(2) by (simp add: shared_out_def)
  from shared_out_reach [OF assms(1) this assms(3)] show ?thesis by (auto simp: shared_out_def)
qed

end

text \<open>\<open>SemaphoreSet\<close> keeps the contract.\<close>

definition set_view :: "semaphore_set \<Rightarrow> u32 \<Rightarrow> (nat \<times> pid list) option" where
  "set_view sems k = map_option (\<lambda>s. (unat (sem_count s), sem_queue s)) (sems k)"

lemma set_view_upd [simp]:
  "set_view (t(k \<mapsto> s)) = (set_view t)(k \<mapsto> (unat (sem_count s), sem_queue s))"
  by (auto simp: set_view_def fun_eq_iff)

interpretation ss: sem_table set_wait set_signal set_view
proof unfold_locales
  fix t :: semaphore_set and k n q p
  assume v: "set_view t k = Some (Suc n, q)"
  then obtain s where s: "t k = Some s" "unat (sem_count s) = Suc n" "sem_queue s = q"
    by (auto simp: set_view_def)
  then have "sem_count s \<noteq> 0" by auto
  with s show "\<exists>t'. set_wait t k p = (SemOk, t') \<and> set_view t' = (set_view t)(k \<mapsto> (n, q))"
    by (auto simp: set_wait_def semaphore_wait_def set_view_def unat_pred)
next
  fix t :: semaphore_set and k q p
  assume "set_view t k = Some (0, q)"
  then obtain s where "t k = Some s" "sem_count s = 0" "sem_queue s = q"
    by (auto simp: set_view_def unat_eq_zero)
  then show "\<exists>t'. set_wait t k p = (Block p, t') \<and> set_view t' = (set_view t)(k \<mapsto> (0, q @ [p]))"
    by (simp add: set_wait_def semaphore_wait_def)
next
  fix t :: semaphore_set and k n q p
  assume "set_view t k = Some (n, p # q)"
  then show "\<exists>t'. set_signal t k = (WakeUp p, t') \<and> set_view t' = (set_view t)(k \<mapsto> (n, q))"
    by (auto simp: set_signal_def semaphore_signal_def set_view_def)
next
  fix t :: semaphore_set and k n
  assume "set_view t k = Some (n, [])" "n + 1 < 2 ^ 64"
  then show "\<exists>t'. set_signal t k = (SemOk, t') \<and> set_view t' = (set_view t)(k \<mapsto> (Suc n, []))"
    by (auto simp: set_signal_def semaphore_signal_def set_view_def unat_succ)
qed (auto simp: set_view_def set_wait_def set_signal_def)

end
