(* ===== verification/Input.thy ===== *)
theory Input
  imports Prelude
begin

text \<open>
  The keyboard buffer and line input of the kernel, \<open>pkg/kernel/src/drivers/input.rs\<close>.
  \<open>pop_key\<close> spins until a key is there; here a function that pops gets the keys that will
  arrive as a list, and waiting for a key that never comes is the result \<open>Diverge\<close>.
\<close>

section \<open>The key queue\<close>

definition INPUT_CAPACITY :: nat where "INPUT_CAPACITY = 128"

definition push_key :: "u8 list \<Rightarrow> u8 \<Rightarrow> u8 list" where
  "push_key q key = (if length q < INPUT_CAPACITY then q @ [key] else q)"

definition try_pop_key :: "u8 list \<Rightarrow> u8 option \<times> u8 list" where
  "try_pop_key q = (case q of [] \<Rightarrow> (None, []) | k # ks \<Rightarrow> (Some k, ks))"

section \<open>Decoding typed characters\<close>

text \<open>No error value is ever returned here, only results, panics and waiting.\<close>

type_synonym 'a keyed = "(unit, 'a) res"

definition is_utf8 :: "u8 \<Rightarrow> bool" where
  "is_utf8 ch \<longleftrightarrow>
     ch AND 0x80 = 0 \<or> ch AND 0xE0 = 0xC0 \<or> ch AND 0xF0 = 0xE0 \<or> ch AND 0xF8 = 0xF0"

definition pop_key :: "u8 list \<Rightarrow> (u8 \<times> u8 list) keyed" where
  "pop_key ks = (case ks of [] \<Rightarrow> Diverge | k # ks' \<Rightarrow> Ok (k, ks'))"

definition low_bits :: "u8 \<Rightarrow> u32" where
  "low_bits k = ucast (k AND 0x3F)"

definition to_utf8 :: "u8 \<Rightarrow> u8 list \<Rightarrow> (u32 \<times> u8 list) keyed" where
  "to_utf8 ch ks =
     (if ch AND 0x80 = 0 then Ok (ucast ch, ks)
      else if ch AND 0xE0 = 0xC0 then
        andThen (pop_key ks) (\<lambda>(k1, ks1).
          Ok (push_bit 6 (ucast (ch AND 0x1F)) OR low_bits k1, ks1))
      else if ch AND 0xF0 = 0xE0 then
        andThen (pop_key ks) (\<lambda>(k1, ks1).
        andThen (pop_key ks1) (\<lambda>(k2, ks2).
          Ok (push_bit 12 (ucast (ch AND 0x0F)) OR push_bit 6 (low_bits k1) OR low_bits k2, ks2)))
      else if ch AND 0xF8 = 0xF0 then
        andThen (pop_key ks) (\<lambda>(k1, ks1).
        andThen (pop_key ks1) (\<lambda>(k2, ks2).
        andThen (pop_key ks2) (\<lambda>(k3, ks3).
          Ok (push_bit 18 (ucast (ch AND 0x07)) OR push_bit 12 (low_bits k1)
                OR push_bit 6 (low_bits k2) OR low_bits k3, ks3))))
      else Ok (0, ks))"

text \<open>\<open>char::from_u32\<close>: the surrogates and what lies above U+10FFFF are no characters.\<close>

definition char_from_u32 :: "u32 \<Rightarrow> u32 option" where
  "char_from_u32 c = (if c < 0xD800 \<or> 0xDFFF < c \<and> c < 0x110000 then Some c else None)"

text \<open>
  One key of the loop of \<open>get_line\<close>: \<open>Inl\<close> is the finished line. A line is its list of
  characters; the echo to the screen is left out.
\<close>

definition get_line_key ::
  "u8 \<Rightarrow> u8 list \<Rightarrow> u32 list \<Rightarrow> ((u32 list + u32 list) \<times> u8 list) keyed" where
  "get_line_key ch ks line =
     (if ch = 13 then Ok (Inl line, ks)
      else if (ch = 0x08 \<or> ch = 0x7F) \<and> line \<noteq> [] then Ok (Inr (butlast line), ks)
      else if is_utf8 ch then
        andThen (to_utf8 ch ks) (\<lambda>(c, ks').
        andThen (of_option (char_from_u32 c)) (\<lambda>utf_char.
          Ok (Inr (line @ [utf_char]), ks')))
      else Ok (Inr (line @ [ucast ch]), ks))"

lemma pop_key_shorter: "pop_key ks = Ok (k, ks') \<Longrightarrow> length ks' < length ks"
  by (auto simp: pop_key_def split: list.splits)

lemma to_utf8_shorter: "to_utf8 ch ks = Ok (c, ks') \<Longrightarrow> length ks' \<le> length ks"
  by (auto simp: to_utf8_def andThen_eq_Ok dest!: pop_key_shorter split: if_splits)

lemma get_line_key_shorter: "get_line_key ch ks line = Ok (r, ks') \<Longrightarrow> length ks' \<le> length ks"
  by (auto simp: get_line_key_def andThen_eq_Ok dest!: to_utf8_shorter split: if_splits)

function get_line :: "u8 list \<Rightarrow> u32 list \<Rightarrow> (u32 list \<times> u8 list) keyed" where
  "get_line ks line =
     (case ks of
        [] \<Rightarrow> Diverge
      | ch # ks' \<Rightarrow>
          (case get_line_key ch ks' line of
             Ok (Inl l, rest) \<Rightarrow> Ok (l, rest)
           | Ok (Inr l, rest) \<Rightarrow> get_line rest l
           | Err e \<Rightarrow> Err e
           | Panic \<Rightarrow> Panic
           | Diverge \<Rightarrow> Diverge))"
  by pat_completeness auto
termination
  by (relation "measure (\<lambda>(ks, line). length ks)") (auto simp: less_Suc_eq_le intro: get_line_key_shorter)

declare get_line.simps [simp del]

text \<open>
  \<open>Stdin::read_line\<close> of the user library (\<open>pkg/lib/src/io.rs\<close>) decodes in the same way, with
  Ctrl-C for an empty line and no effect for a backspace on one.
\<close>

definition read_line_key ::
  "u8 \<Rightarrow> u8 list \<Rightarrow> u32 list \<Rightarrow> ((u32 list + u32 list) \<times> u8 list) keyed" where
  "read_line_key ch ks line =
     (if ch = 0x0D then Ok (Inl line, ks)
      else if ch = 0x03 then Ok (Inl [], ks)
      else if ch = 0x08 \<or> ch = 0x7F then Ok (Inr (butlast line), ks)
      else if is_utf8 ch then
        andThen (to_utf8 ch ks) (\<lambda>(c, ks').
        andThen (of_option (char_from_u32 c)) (\<lambda>utf_char.
          Ok (Inr (line @ [utf_char]), ks')))
      else Ok (Inr (line @ [ucast ch]), ks))"

lemma read_line_key_shorter: "read_line_key ch ks line = Ok (r, ks') \<Longrightarrow> length ks' \<le> length ks"
  by (auto simp: read_line_key_def andThen_eq_Ok dest!: to_utf8_shorter split: if_splits)

function read_line :: "u8 list \<Rightarrow> u32 list \<Rightarrow> (u32 list \<times> u8 list) keyed" where
  "read_line ks line =
     (case ks of
        [] \<Rightarrow> Diverge
      | ch # ks' \<Rightarrow>
          (case read_line_key ch ks' line of
             Ok (Inl l, rest) \<Rightarrow> Ok (l, rest)
           | Ok (Inr l, rest) \<Rightarrow> read_line rest l
           | Err e \<Rightarrow> Err e
           | Panic \<Rightarrow> Panic
           | Diverge \<Rightarrow> Diverge))"
  by pat_completeness auto
termination
  by (relation "measure (\<lambda>(ks, line). length ks)") (auto simp: less_Suc_eq_le intro: read_line_key_shorter)

declare read_line.simps [simp del]

section \<open>Bits of encoded characters\<close>

lemma less_8: "n < 8 \<longleftrightarrow> n = 0 \<or> n = 1 \<or> n = 2 \<or> n = 3 \<or> n = 4 \<or> n = 5 \<or> n = 6 \<or> n = (7::nat)"
  by auto

lemma mask_bits:
  "bit (0x80 :: u8) n \<longleftrightarrow> n = 7"
  "bit (0xC0 :: u8) n \<longleftrightarrow> n = 6 \<or> n = 7"
  "bit (0xE0 :: u8) n \<longleftrightarrow> n = 5 \<or> n = 6 \<or> n = 7"
  "bit (0xF0 :: u8) n \<longleftrightarrow> n = 4 \<or> n = 5 \<or> n = 6 \<or> n = 7"
  "bit (0xF8 :: u8) n \<longleftrightarrow> n = 3 \<or> n = 4 \<or> n = 5 \<or> n = 6 \<or> n = 7"
  by (cases "n < 8"; auto simp: less_8 dest: bit_imp_le_length)+

lemma low_masks:
  "w AND 0x3F = take_bit 6 (w :: u8)" "w AND 0x1F = take_bit 5 w" "w AND 0x0F = take_bit 4 w"
  "w AND 0x07 = take_bit 3 w" "v AND 0x3F = take_bit 6 (v :: u32)"
  by (simp_all add: take_bit_eq_mask mask_eq_exp_minus_1)

lemma small_bits: "unat (c :: u32) < 2 ^ k \<Longrightarrow> bit c n \<Longrightarrow> n < k"
proof -
  assume c: "unat c < 2 ^ k" "bit c n"
  then have "bit (take_bit k (unat c)) n"
    by (simp add: take_bit_nat_eq_self bit_unsigned_iff bit_imp_le_length)
  then show "n < k" by (simp add: bit_take_bit_iff)
qed


lemmas mask_simps = bit_simps mask_bits

text \<open>One group of bits: a marker with no bit below \<open>w\<close>, then bits of \<open>v\<close>.\<close>

lemma group_bits:
  assumes "\<forall>m<w. \<not> bit M m" "w \<le> 8"
  shows "bit (push_bit i (ucast (take_bit w (M OR (ucast (v :: u32) :: u8)))) :: u32) n \<longleftrightarrow>
    i \<le> n \<and> n < 32 \<and> n < i + w \<and> bit v (n - i)"
  using assms by (auto simp: bit_simps)

lemma group_bits0:
  assumes "\<forall>m<w. \<not> bit M m" "w \<le> 8"
  shows "bit (ucast (take_bit w (M OR (ucast (v :: u32) :: u8))) :: u32) n \<longleftrightarrow> n < 32 \<and> n < w \<and> bit v n"
  using assms by (auto simp: bit_simps)

lemma bit_shift: "bit (drop_bit i (c :: u32)) (n - i) = (if i \<le> n then bit c n else bit c i)"
  by (simp add: bit_drop_bit_eq)

lemma markers:
  "\<forall>m<6. \<not> bit (0x80 :: u8) m" "\<forall>m<5. \<not> bit (0xC0 :: u8) m" "\<forall>m<4. \<not> bit (0xE0 :: u8) m"
  "\<forall>m<3. \<not> bit (0xF0 :: u8) m"
  by (auto simp: mask_bits simp del: bit_numeral_word_iff)

lemma regroup:
  assumes "\<And>n. n < 32 \<Longrightarrow> bit x n = bit c n" shows "x = (c :: u32)"
  using assms by (intro bit_word_eqI) simp

lemmas group_simps = low_masks bit_or_iff group_bits [OF markers(1)] group_bits0 [OF markers(1)]
  group_bits [OF markers(2)] group_bits [OF markers(3)] group_bits [OF markers(4)]
  bit_take_bit_iff

lemma enc_value:
  "c < 0x800 \<Longrightarrow>
    push_bit 6 (ucast ((0xC0 OR (ucast (drop_bit 6 c) :: u8)) AND 0x1F)) OR
      ucast ((0x80 OR (ucast (c AND 0x3F) :: u8)) AND 0x3F) = (c :: u32)"
  "c < 0x10000 \<Longrightarrow>
    push_bit 12 (ucast ((0xE0 OR (ucast (drop_bit 12 c) :: u8)) AND 0x0F)) OR
      push_bit 6 (ucast ((0x80 OR (ucast (drop_bit 6 c AND 0x3F) :: u8)) AND 0x3F)) OR
      ucast ((0x80 OR (ucast (c AND 0x3F) :: u8)) AND 0x3F) = c"
  "c < 0x110000 \<Longrightarrow>
    push_bit 18 (ucast ((0xF0 OR (ucast (drop_bit 18 c) :: u8)) AND 0x07)) OR
      push_bit 12 (ucast ((0x80 OR (ucast (drop_bit 12 c AND 0x3F) :: u8)) AND 0x3F)) OR
      push_bit 6 (ucast ((0x80 OR (ucast (drop_bit 6 c AND 0x3F) :: u8)) AND 0x3F)) OR
      ucast ((0x80 OR (ucast (c AND 0x3F) :: u8)) AND 0x3F) = c"
proof -
  assume "c < 0x800"
  then have h: "n < 11" if "bit c n" for n using small_bits [of c 11] that by (simp add: word_less_nat_alt)
  show "push_bit 6 (ucast ((0xC0 OR (ucast (drop_bit 6 c) :: u8)) AND 0x1F)) OR
      ucast ((0x80 OR (ucast (c AND 0x3F) :: u8)) AND 0x3F) = c"
    by (intro regroup, simp only: group_simps) (auto simp: bit_shift dest: h split: if_splits)
next
  assume "c < 0x10000"
  then have h: "n < 16" if "bit c n" for n using small_bits [of c 16] that by (simp add: word_less_nat_alt)
  show "push_bit 12 (ucast ((0xE0 OR (ucast (drop_bit 12 c) :: u8)) AND 0x0F)) OR
      push_bit 6 (ucast ((0x80 OR (ucast (drop_bit 6 c AND 0x3F) :: u8)) AND 0x3F)) OR
      ucast ((0x80 OR (ucast (c AND 0x3F) :: u8)) AND 0x3F) = c"
    by (intro regroup, simp only: group_simps) (auto simp: bit_shift dest: h split: if_splits)
next
  assume "c < 0x110000"
  then have "unat c < 2 ^ 21" by (simp add: word_less_nat_alt)
  then have h: "n < 21" if "bit c n" for n using small_bits [of c 21] that by simp
  show "push_bit 18 (ucast ((0xF0 OR (ucast (drop_bit 18 c) :: u8)) AND 0x07)) OR
      push_bit 12 (ucast ((0x80 OR (ucast (drop_bit 12 c AND 0x3F) :: u8)) AND 0x3F)) OR
      push_bit 6 (ucast ((0x80 OR (ucast (drop_bit 6 c AND 0x3F) :: u8)) AND 0x3F)) OR
      ucast ((0x80 OR (ucast (c AND 0x3F) :: u8)) AND 0x3F) = c"
    by (intro regroup, simp only: group_simps) (auto simp: bit_shift dest: h split: if_splits)
qed

text \<open>The tests on the first byte.\<close>

lemma enc_first:
  "(0xC0 OR v) AND 0x80 \<noteq> (0 :: u8)" "(0xE0 OR v) AND 0x80 \<noteq> (0 :: u8)" "(0xF0 OR v) AND 0x80 \<noteq> (0 :: u8)"
  "(0xE0 OR v) AND 0xE0 \<noteq> (0xC0 :: u8)" "(0xF0 OR v) AND 0xE0 \<noteq> (0xC0 :: u8)"
  "(0xF0 OR v) AND 0xF0 \<noteq> (0xE0 :: u8)"
proof -
  have "bit ((0xC0 OR v) AND 0x80) 7" "bit ((0xE0 OR v) AND 0x80) 7" "bit ((0xF0 OR v) AND 0x80) 7"
    "bit ((0xE0 OR v) AND 0xE0) 5" "bit ((0xF0 OR v) AND 0xE0) 5" "bit ((0xF0 OR v) AND 0xF0) 4"
    by (simp_all add: bit_simps mask_bits del: bit_numeral_word_iff)
  moreover have "\<not> bit (0 :: u8) 7" "\<not> bit (0xC0 :: u8) 5" "\<not> bit (0xE0 :: u8) 4" by simp_all
  ultimately show "(0xC0 OR v) AND 0x80 \<noteq> (0 :: u8)" "(0xE0 OR v) AND 0x80 \<noteq> (0 :: u8)" "(0xF0 OR v) AND 0x80 \<noteq> (0 :: u8)"
    "(0xE0 OR v) AND 0xE0 \<noteq> (0xC0 :: u8)" "(0xF0 OR v) AND 0xE0 \<noteq> (0xC0 :: u8)"
    "(0xF0 OR v) AND 0xF0 \<noteq> (0xE0 :: u8)" by metis+
qed

lemma enc_lead:
  "c < (0x800 :: u32) \<Longrightarrow> (0xC0 OR ucast (drop_bit 6 c)) AND 0xE0 = (0xC0 :: u8)"
  "c < 0x10000 \<Longrightarrow> (0xE0 OR ucast (drop_bit 12 c)) AND 0xF0 = (0xE0 :: u8)"
  "c < 0x110000 \<Longrightarrow> (0xF0 OR ucast (drop_bit 18 c)) AND 0xF8 = (0xF0 :: u8)"
proof -
  assume "c < 0x800"
  then have h: "n < 11" if "bit c n" for n using small_bits [of c 11] that by (simp add: word_less_nat_alt)
  show "(0xC0 OR ucast (drop_bit 6 c)) AND 0xE0 = (0xC0 :: u8)"
    by (intro bit_word_eqI) (auto simp: bit_simps mask_bits simp del: bit_numeral_word_iff dest: h)
next
  assume "c < 0x10000"
  then have h: "n < 16" if "bit c n" for n using small_bits [of c 16] that by (simp add: word_less_nat_alt)
  show "(0xE0 OR ucast (drop_bit 12 c)) AND 0xF0 = (0xE0 :: u8)"
    by (intro bit_word_eqI) (auto simp: bit_simps mask_bits simp del: bit_numeral_word_iff dest: h)
next
  assume "c < 0x110000"
  then have "unat c < 2 ^ 21" by (simp add: word_less_nat_alt)
  then have h: "n < 21" if "bit c n" for n using small_bits [of c 21] that by simp
  show "(0xF0 OR ucast (drop_bit 18 c)) AND 0xF8 = (0xF0 :: u8)"
    by (intro bit_word_eqI) (auto simp: bit_simps mask_bits simp del: bit_numeral_word_iff dest: h)
qed
section \<open>Round trips\<close>

text \<open>The UTF-8 encoding of a code point, by its ranges.\<close>

definition utf8_encode :: "u32 \<Rightarrow> u8 list" where
  "utf8_encode c =
     (if c < 0x80 then [ucast c]
      else if c < 0x800 then [0xC0 OR ucast (drop_bit 6 c), 0x80 OR ucast (c AND 0x3F)]
      else if c < 0x10000 then
        [0xE0 OR ucast (drop_bit 12 c), 0x80 OR ucast (drop_bit 6 c AND 0x3F), 0x80 OR ucast (c AND 0x3F)]
      else
        [0xF0 OR ucast (drop_bit 18 c), 0x80 OR ucast (drop_bit 12 c AND 0x3F),
         0x80 OR ucast (drop_bit 6 c AND 0x3F), 0x80 OR ucast (c AND 0x3F)])"

lemma ascii_byte:
  assumes "c < (0x80 :: u32)"
  shows "(ucast c :: u8) AND 0x80 = 0" "ucast (ucast c :: u8) = c"
proof -
  have h: "n < 7" if "bit c n" for n using small_bits [of c 7] that assms by (simp add: word_less_nat_alt)
  show "(ucast c :: u8) AND 0x80 = 0"
    by (rule bit_word_eqI) (auto simp: bit_simps mask_bits simp del: bit_numeral_word_iff dest: h)
  show "ucast (ucast c :: u8) = c" by (rule bit_word_eqI) (auto simp: bit_simps dest: h)
qed

lemma to_utf8_encode:
  assumes "c < 0x110000" "utf8_encode c = b # bs"
  shows "to_utf8 b (bs @ ks) = Ok (c, ks)" and "is_utf8 b"
  using assms enc_first enc_lead [of c] enc_value [of c] ascii_byte [of c]
  by (auto simp: utf8_encode_def to_utf8_def is_utf8_def low_bits_def pop_key_def split: if_splits)

lemma utf8_encode_first:
  assumes "utf8_encode c = b # bs" "c \<noteq> 13" "c \<noteq> 8" "c \<noteq> 0x7F" "c \<noteq> 3"
  shows "b \<noteq> 13 \<and> b \<noteq> 8 \<and> b \<noteq> 0x7F \<and> b \<noteq> 3"
proof (cases "c < 0x80")
  case True
  with assms ascii_byte(2) [of c] show ?thesis by (auto simp: utf8_encode_def)
next
  case False
  with assms(1) have "b AND 0x80 \<noteq> 0" using enc_first by (auto simp: utf8_encode_def split: if_splits)
  then show ?thesis by auto
qed

text \<open>Characters that are text, not line editing.\<close>

definition typed :: "u32 \<Rightarrow> bool" where
  "typed c \<longleftrightarrow> char_from_u32 c = Some c \<and> c \<noteq> 13 \<and> c \<noteq> 8 \<and> c \<noteq> 0x7F \<and> c \<noteq> 3"

lemma utf8_encode_nonempty: "\<exists>b bs. utf8_encode c = b # bs"
  by (simp add: utf8_encode_def)

lemma char_range: "char_from_u32 c = Some c \<Longrightarrow> c < 0x110000"
  by (auto simp: char_from_u32_def word_less_nat_alt split: if_splits)

lemma get_line_char:
  assumes "typed c"
  shows "get_line (utf8_encode c @ ks) line = get_line ks (line @ [c])"
    and "read_line (utf8_encode c @ ks) line = read_line ks (line @ [c])"
proof -
  obtain b bs where b: "utf8_encode c = b # bs" using utf8_encode_nonempty by blast
  have c: "c < 0x110000" "char_from_u32 c = Some c" using assms by (simp_all add: typed_def char_range)
  have "b \<noteq> 13 \<and> b \<noteq> 8 \<and> b \<noteq> 0x7F \<and> b \<noteq> 3" using utf8_encode_first [OF b] assms by (simp add: typed_def)
  with b c to_utf8_encode [OF c(1) b] show "get_line (utf8_encode c @ ks) line = get_line ks (line @ [c])"
    "read_line (utf8_encode c @ ks) line = read_line ks (line @ [c])"
    by (simp_all add: get_line.simps [of "b # bs @ ks"] read_line.simps [of "b # bs @ ks"]
        get_line_key_def read_line_key_def)
qed

lemma get_line_text:
  "list_all typed cs \<Longrightarrow> get_line (concat (map utf8_encode cs) @ ks) line = get_line ks (line @ cs)"
  "list_all typed cs \<Longrightarrow> read_line (concat (map utf8_encode cs) @ ks) line = read_line ks (line @ cs)"
  by (induction cs arbitrary: line) (simp_all add: get_line_char)

lemma surrogate_panics:
  assumes "0xD800 \<le> c" "c \<le> 0xDFFF"
  shows "get_line (utf8_encode c @ ks) line = Panic" "read_line (utf8_encode c @ ks) line = Panic"
proof -
  have c: "c < 0x110000" "char_from_u32 c = None"
    using assms by (auto simp: char_from_u32_def word_le_nat_alt word_less_nat_alt)
  obtain b bs where b: "utf8_encode c = b # bs" using utf8_encode_nonempty by blast
  have "c \<noteq> 13 \<and> c \<noteq> 8 \<and> c \<noteq> 0x7F \<and> c \<noteq> 3" using assms by (auto simp: word_le_nat_alt)
  with utf8_encode_first [OF b] have "b \<noteq> 13 \<and> b \<noteq> 8 \<and> b \<noteq> 0x7F \<and> b \<noteq> 3" by blast
  with b c to_utf8_encode [OF c(1) b] show "get_line (utf8_encode c @ ks) line = Panic"
    "read_line (utf8_encode c @ ks) line = Panic"
    by (simp_all add: get_line.simps [of "b # bs @ ks"] read_line.simps [of "b # bs @ ks"]
        get_line_key_def read_line_key_def)
qed

end
