(* ===== verification/Resources.thy ===== *)
theory Resources
  imports Readers Input
begin

text \<open>
  The resources of a process and its table of descriptors, \<open>pkg/kernel/src/utils/resource.rs\<close>.
  A file handle is a value of type \<open>'h\<close> with its \<open>read\<close>; the descriptor table's contract is
  the locale \<open>fd_table\<close>.
\<close>

section \<open>Resources\<close>

datatype stdio = Stdin | Stdout | Stderr

datatype 'h resource = Console stdio | FileR 'h | NullR

text \<open>
  What a write shows on the console: the bytes given, which \<open>from_utf8_lossy\<close> turns into text.
\<close>

datatype console_event = Printed "u8 list" | Warned "u8 list"

text \<open>
  \<open>Resource::read\<close>: the count or \<open>None\<close>, the buffer, the resource and the key queue after it.
  Storing a key at \<open>buf[0]\<close> panics on an empty buffer.
\<close>

definition resource_read ::
  "'h reader \<Rightarrow> 'h resource \<Rightarrow> u8 list \<Rightarrow> u8 list
    \<Rightarrow> nat option fs_result \<times> u8 list \<times> 'h resource \<times> u8 list" where
  "resource_read rd r buf keys =
     (case r of
        Console Stdin \<Rightarrow>
          (case try_pop_key keys of
             (Some ch, keys') \<Rightarrow>
               if buf = [] then (Panic, buf, r, keys') else (Ok (Some 1), buf[0 := ch], r, keys')
           | (None, keys') \<Rightarrow> (Ok (Some 0), buf, r, keys'))
      | Console io \<Rightarrow> (Ok None, buf, r, keys)
      | FileR h \<Rightarrow>
          (case rd h buf of
             (Ok bytes_read, buf', h') \<Rightarrow> (Ok (Some bytes_read), buf', FileR h', keys)
           | (Err e, buf', h') \<Rightarrow> (Ok None, buf', FileR h', keys)
           | (Panic, buf', h') \<Rightarrow> (Panic, buf', FileR h', keys)
           | (Diverge, buf', h') \<Rightarrow> (Diverge, buf', FileR h', keys))
      | NullR \<Rightarrow> (Ok (Some 0), buf, r, keys))"

definition resource_write :: "'h resource \<Rightarrow> u8 list \<Rightarrow> nat option \<times> console_event list" where
  "resource_write r buf =
     (case r of
        Console Stdin \<Rightarrow> (None, [])
      | Console Stdout \<Rightarrow> (Some (length buf), [Printed buf])
      | Console Stderr \<Rightarrow> (Some (length buf), [Warned buf])
      | FileR h \<Rightarrow> (None, [])
      | NullR \<Rightarrow> (Some (length buf), []))"

section \<open>The table of descriptors\<close>

record 'h resource_set =
  rs_handles :: "u8 \<rightharpoonup> 'h resource"
  rs_recycled :: "u8 list"

text \<open>\<open>handles.len() as u8\<close> wraps at 256; \<open>pop\<close> and \<open>push\<close> work at the end of \<open>recycled\<close>.\<close>

definition rs_open :: "'h resource_set \<Rightarrow> 'h resource \<Rightarrow> u8 \<times> 'h resource_set" where
  "rs_open rs r =
     (let fd = (if rs_recycled rs = [] then of_nat (card (dom (rs_handles rs)))
                else last (rs_recycled rs))
      in (fd, \<lparr>rs_handles = (rs_handles rs)(fd \<mapsto> r), rs_recycled = butlast (rs_recycled rs)\<rparr>))"

definition rs_close :: "'h resource_set \<Rightarrow> u8 \<Rightarrow> bool \<times> 'h resource_set" where
  "rs_close rs fd =
     (case rs_handles rs fd of
        Some _ \<Rightarrow> (True, \<lparr>rs_handles = (rs_handles rs)(fd := None), rs_recycled = rs_recycled rs @ [fd]\<rparr>)
      | None \<Rightarrow> (False, rs))"

definition rs_empty :: "'h resource_set" where
  "rs_empty = \<lparr>rs_handles = Map.empty, rs_recycled = []\<rparr>"

definition rs_default :: "'h resource_set" where
  "rs_default =
     snd (rs_open (snd (rs_open (snd (rs_open rs_empty (Console Stdin))) (Console Stdout)))
       (Console Stderr))"

text \<open>Both give an \<open>isize\<close>: the count, or -1.\<close>

definition rs_read ::
  "'h reader \<Rightarrow> 'h resource_set \<Rightarrow> u8 \<Rightarrow> u8 list \<Rightarrow> u8 list
    \<Rightarrow> int fs_result \<times> u8 list \<times> 'h resource_set \<times> u8 list" where
  "rs_read rd rs fd buf keys =
     (case rs_handles rs fd of
        None \<Rightarrow> (Ok (-1), buf, rs, keys)
      | Some r \<Rightarrow>
          (case resource_read rd r buf keys of
             (c, buf', r', keys') \<Rightarrow>
               (andThen c (\<lambda>v. Ok (case v of Some count \<Rightarrow> int count | None \<Rightarrow> -1)), buf',
                rs\<lparr>rs_handles := (rs_handles rs)(fd \<mapsto> r')\<rparr>, keys')))"

definition rs_write :: "'h resource_set \<Rightarrow> u8 \<Rightarrow> u8 list \<Rightarrow> int \<times> console_event list" where
  "rs_write rs fd buf =
     (case rs_handles rs fd of
        None \<Rightarrow> (-1, [])
      | Some r \<Rightarrow>
          (case resource_write r buf of
             (Some count, es) \<Rightarrow> (int count, es)
           | (None, es) \<Rightarrow> (-1, es)))"

section \<open>The contract of a descriptor table\<close>

locale fd_table =
  fixes opn :: "'t \<Rightarrow> 'r \<Rightarrow> u8 \<times> 't"
    and cls :: "'t \<Rightarrow> u8 \<Rightarrow> bool \<times> 't"
    and view :: "'t \<Rightarrow> u8 \<rightharpoonup> 'r"
    and inv :: "'t \<Rightarrow> bool"
  assumes open_fresh:
      "inv t \<Longrightarrow> card (dom (view t)) < 256 \<Longrightarrow>
        \<exists>fd t'. opn t r = (fd, t') \<and> inv t' \<and> view t fd = None \<and> view t' = (view t)(fd \<mapsto> r)"
    and close_open:
      "inv t \<Longrightarrow> view t fd = Some r \<Longrightarrow>
        \<exists>t'. cls t fd = (True, t') \<and> inv t' \<and> view t' = (view t)(fd := None)"
    and close_absent: "inv t \<Longrightarrow> view t fd = None \<Longrightarrow> cls t fd = (False, t)"

text \<open>A program that opens and closes: what it believes each of its descriptors to be.\<close>

datatype 'r fd_op = OpOpen 'r | OpClose u8

fun fd_run ::
  "('t \<Rightarrow> 'r \<Rightarrow> u8 \<times> 't) \<Rightarrow> ('t \<Rightarrow> u8 \<Rightarrow> bool \<times> 't) \<Rightarrow> 'r fd_op list \<Rightarrow> 't \<Rightarrow> (u8 \<rightharpoonup> 'r)
    \<Rightarrow> 't \<times> (u8 \<rightharpoonup> 'r)" where
  "fd_run opn cls [] t m = (t, m)"
| "fd_run opn cls (OpOpen r # ops) t m =
     (case opn t r of (fd, t') \<Rightarrow> fd_run opn cls ops t' (m(fd \<mapsto> r)))"
| "fd_run opn cls (OpClose fd # ops) t m =
     (case cls t fd of (ok, t') \<Rightarrow> fd_run opn cls ops t' (m(fd := None)))"

fun fd_opens :: "'r fd_op list \<Rightarrow> nat" where
  "fd_opens [] = 0"
| "fd_opens (OpOpen r # ops) = Suc (fd_opens ops)"
| "fd_opens (OpClose fd # ops) = fd_opens ops"

context fd_table
begin

lemma run_view:
  "inv t \<Longrightarrow> card (dom (view t)) + fd_opens ops \<le> 256 \<Longrightarrow> view t = m \<Longrightarrow>
    fd_run opn cls ops t m = (t', m') \<Longrightarrow> inv t' \<and> view t' = m'"
proof (induction ops arbitrary: t m)
  case (Cons op ops)
  show ?case
  proof (cases op)
    case (OpOpen r)
    with Cons.prems open_fresh [of t r] obtain fd t1 where
      t1: "opn t r = (fd, t1)" "inv t1" "view t fd = None" "view t1 = (view t)(fd \<mapsto> r)" by auto
    then have "card (dom (view t1)) = Suc (card (dom (view t)))"
      by (simp add: card_insert_if domIff)
    then have "card (dom (view t1)) + fd_opens ops \<le> 256" using Cons.prems(2) OpOpen by simp
    moreover have "view t1 = m(fd \<mapsto> r)" using t1(4) Cons.prems(3) by (simp only:)
    moreover have "fd_run opn cls ops t1 (m(fd \<mapsto> r)) = (t', m')"
      using Cons.prems(4) OpOpen t1(1) by (simp del: fun_upd_apply)
    ultimately show ?thesis using t1(2) by (intro Cons.IH)
  next
    case (OpClose fd)
    show ?thesis
    proof (cases "view t fd")
      case None
      then have "m(fd := None) = m" using Cons.prems(3) by auto
      with Cons OpClose None close_absent [of t fd] show ?thesis by simp
    next
      case (Some r)
      with Cons.prems close_open [of t fd r] obtain t1 where
        t1: "cls t fd = (True, t1)" "inv t1" "view t1 = (view t)(fd := None)" by auto
      then have "card (dom (view t1)) \<le> card (dom (view t))" by (simp add: card_Diff1_le)
      then have "card (dom (view t1)) + fd_opens ops \<le> 256" using Cons.prems(2) OpClose by simp
      moreover have "view t1 = m(fd := None)" using t1(3) Cons.prems(3) by (simp only:)
      moreover have "fd_run opn cls ops t1 (m(fd := None)) = (t', m')"
        using Cons.prems(4) OpClose t1(1) by (simp del: fun_upd_apply)
      ultimately show ?thesis using t1(2) by (intro Cons.IH)
    qed
  qed
qed auto

end

text \<open>
  \<open>ResourceSet\<close> keeps the contract: the descriptors in use and the recycled ones are exactly
  those below their number.
\<close>

definition rs_wf :: "'h resource_set \<Rightarrow> bool" where
  "rs_wf rs \<longleftrightarrow>
     distinct (rs_recycled rs) \<and> set (rs_recycled rs) \<inter> dom (rs_handles rs) = {} \<and>
     dom (rs_handles rs) \<union> set (rs_recycled rs) =
       {fd. unat fd < card (dom (rs_handles rs)) + length (rs_recycled rs)} \<and>
     card (dom (rs_handles rs)) + length (rs_recycled rs) \<le> 256"

lemma rs_empty_wf: "rs_wf rs_empty"
  by (simp add: rs_wf_def rs_empty_def)

lemma unat_u8_of_nat: "n < 256 \<Longrightarrow> unat (of_nat n :: u8) = n"
  by (simp add: unat_of_nat take_bit_nat_eq_self)

lemma rs_open_fresh_fd:
  assumes "rs_wf rs" "card (dom (rs_handles rs)) < 256"
  shows "rs_handles rs (fst (rs_open rs r)) = None" and "rs_wf (snd (rs_open rs r))"
proof -
  let ?h = "rs_handles rs" and ?q = "rs_recycled rs"
  define n where "n = card (dom ?h)"
  have "rs_handles rs (fst (rs_open rs r)) = None \<and> rs_wf (snd (rs_open rs r))"
  proof (cases "?q = []")
    case True
    then have dom: "dom ?h = {fd. unat fd < n}" using assms(1) by (simp add: rs_wf_def n_def)
    have n: "n < 256" using assms(2) by (simp add: n_def)
    have fresh: "of_nat n \<notin> dom ?h" unfolding dom using n by (simp add: unat_u8_of_nat)
    have "insert (of_nat n) {fd :: u8. unat fd < n} = {fd. unat fd < Suc n}"
      using n by (auto simp: less_Suc_eq unat_u8_of_nat word_unat_eq_iff)
    then have all: "insert (of_nat n) (dom ?h) = {fd. unat fd < Suc n}" unfolding dom .
    have "card (insert (of_nat n) (dom ?h)) = Suc n" using fresh by (simp add: card_insert_if n_def)
    then show ?thesis
      using True fresh all n by (auto simp: rs_open_def Let_def rs_wf_def n_def [symmetric])
  next
    case False
    have nd: "distinct ?q" "set ?q \<inter> dom ?h = {}"
      and all: "dom ?h \<union> set ?q = {fd. unat fd < n + length ?q}" "n + length ?q \<le> 256"
      using assms(1) by (simp_all add: rs_wf_def n_def)
    obtain b l where bl: "?q = b @ [l]" using False by (metis append_butlast_last_id)
    then have l: "l \<notin> dom ?h" "l \<notin> set b" "distinct b" "set b \<inter> dom ?h = {}" using nd by auto
    have "card (insert l (dom ?h)) = Suc n" using l(1) by (simp add: card_insert_if n_def)
    moreover have "insert l (dom ?h) \<union> set b = {fd. unat fd < Suc n + length b}" using all(1) bl by auto
    ultimately show ?thesis
      using l all(2) bl by (auto simp: rs_open_def Let_def rs_wf_def)
  qed
  then show "rs_handles rs (fst (rs_open rs r)) = None" "rs_wf (snd (rs_open rs r))" by auto
qed

lemma rs_close_wf:
  assumes "rs_wf rs" "rs_handles rs fd = Some r"
  shows "rs_wf (snd (rs_close rs fd))"
proof -
  let ?h = "rs_handles rs" and ?q = "rs_recycled rs"
  have fd: "fd \<in> dom ?h" using assms(2) by auto
  define n where "n = card (dom ?h - {fd})"
  have n: "card (dom ?h) = Suc n" using fd unfolding n_def by (intro card_Suc_Diff1 [symmetric]) simp_all
  have "fd \<notin> set ?q" using fd assms(1) by (auto simp: rs_wf_def)
  moreover have "dom ?h - {fd} \<union> insert fd (set ?q) = dom ?h \<union> set ?q" using fd by auto
  moreover have "card (dom (?h(fd := None))) = n" by (simp add: n_def)
  ultimately show ?thesis
    using assms n by (auto simp: rs_close_def rs_wf_def)
qed

interpretation rs: fd_table rs_open rs_close rs_handles rs_wf
proof unfold_locales
  fix t :: "'h resource_set" and r
  assume "rs_wf t" "card (dom (rs_handles t)) < 256"
  from rs_open_fresh_fd [OF this, of r]
  show "\<exists>fd t'. rs_open t r = (fd, t') \<and> rs_wf t' \<and> rs_handles t fd = None \<and>
      rs_handles t' = (rs_handles t)(fd \<mapsto> r)"
    by (auto simp: rs_open_def Let_def)
next
  fix t :: "'h resource_set" and fd r
  assume "rs_wf t" "rs_handles t fd = Some r"
  with rs_close_wf [OF this]
  show "\<exists>t'. rs_close t fd = (True, t') \<and> rs_wf t' \<and> rs_handles t' = (rs_handles t)(fd := None)"
    by (auto simp: rs_close_def)
next
  fix t :: "'h resource_set" and fd
  assume "rs_wf t" "rs_handles t fd = None"
  then show "rs_close t fd = (False, t)" by (simp add: rs_close_def)
qed

lemma rs_default_wf: "rs_wf rs_default"
  and rs_default_handles:
    "rs_handles rs_default = [0 \<mapsto> Console Stdin, 1 \<mapsto> Console Stdout, 2 \<mapsto> Console Stderr]"
proof -
  have "rs_wf (snd (rs_open rs_empty (Console Stdin)))"
    by (rule rs_open_fresh_fd(2) [OF rs_empty_wf]) (simp add: rs_empty_def)
  then have "rs_wf (snd (rs_open (snd (rs_open rs_empty (Console Stdin))) (Console Stdout)))"
    by (rule rs_open_fresh_fd(2)) (simp add: rs_empty_def rs_open_def)
  then show "rs_wf rs_default"
    unfolding rs_default_def by (rule rs_open_fresh_fd(2)) (simp add: rs_empty_def rs_open_def)
  show "rs_handles rs_default = [0 \<mapsto> Console Stdin, 1 \<mapsto> Console Stdout, 2 \<mapsto> Console Stderr]"
    by (simp add: rs_default_def rs_empty_def rs_open_def)
qed

text \<open>With all 256 descriptors in use, the next one is descriptor 0 again.\<close>

lemma rs_open_full:
  assumes "rs_wf rs" "card (dom (rs_handles rs)) = 256"
  shows "rs_open rs r = (0, rs\<lparr>rs_handles := (rs_handles rs)(0 \<mapsto> r)\<rparr>)" "rs_handles rs 0 \<noteq> None"
proof -
  have q: "rs_recycled rs = []" using assms by (simp add: rs_wf_def)
  have zero: "of_nat 256 = (0 :: u8)" by simp
  show "rs_open rs r = (0, rs\<lparr>rs_handles := (rs_handles rs)(0 \<mapsto> r)\<rparr>)"
    unfolding rs_open_def q assms(2) zero Let_def if_True using q by (cases rs) simp
  have "dom (rs_handles rs) = {fd. unat fd < 256}" using assms q by (simp add: rs_wf_def)
  then have "0 \<in> dom (rs_handles rs)" by simp
  then show "rs_handles rs 0 \<noteq> None" by auto
qed

end
