(* ===== verification/KernelSpec.thy ===== *)
theory KernelSpec
  imports Semaphores Input Resources
begin

text \<open>
  The properties of the kernel's small tables: semaphores, line input and descriptors.
\<close>

section \<open>Semaphores\<close>

text \<open>
  Whatever sequence of waits and signals a new semaphore sees, processes are woken in the
  order in which they were blocked, each blocked process is either woken or still queued, and
  no permit is lost or made up: the permits left, the waits that passed at once and the
  processes woken add up to the initial value and the number of signals. A permit is left only
  when nobody is queued.
\<close>

lemma semaphore_history:
  assumes "sem_run ops (semaphore_new v) [] [] 0 = (s, blocked, woken, passed)"
    and "unat v + signals ops < 2 ^ 64"
  shows "blocked = woken @ sem_queue s \<and>
    unat (sem_count s) + passed + length woken = unat v + signals ops \<and>
    (sem_queue s \<noteq> [] \<longrightarrow> sem_count s = 0)"
  using sem_run_conserves [OF assms(1)] assms(2)
  by (simp add: semaphore_new_def sem_wf_def)

lemma semaphore_history_witness:
  "[7, 8 :: pid] = [7] @ [8] \<and> unat (0 :: u64) + 1 + length [7 :: pid] = unat (1 :: u64) + 1 \<and>
    sem_run [OpWait 5, OpWait 7, OpWait 8, OpSignal] (semaphore_new 1) [] [] 0 =
      (\<lparr>sem_count = 0, sem_queue = [8]\<rparr>, [7, 8], [7], 1)"
  using semaphore_history [of "[OpWait 5, OpWait 7, OpWait 8, OpSignal]" 1
      "\<lparr>sem_count = 0, sem_queue = [8]\<rparr>" "[7, 8]" "[7]" 1]
  by (simp add: semaphore_new_def semaphore_wait_def semaphore_signal_def)

text \<open>
  C12: Processes that wait before a section and signal after it on a semaphore made with
  \<open>permits\<close> permits: in every reachable state no more than \<open>permits\<close> of them are inside, and
  if one waits, exactly \<open>permits\<close> are inside.
\<close>

lemma semaphore_exclusion:
  assumes "cs_reach set_wait set_signal k (snd (set_insert sems k permits), {}, {}) (t, ins, wts)"
  shows "finite ins \<and> card ins \<le> unat permits \<and> (wts \<noteq> {} \<longrightarrow> card ins = unat permits)"
proof (rule ss.exclusion [OF assms])
  show "set_view (snd (set_insert sems k permits)) k = Some (unat permits, [])"
    by (simp add: set_insert_def semaphore_new_def)
  show "unat permits < 2 ^ 64" using unsigned_less [where ?'a = nat, of permits] by simp
qed

lemma semaphore_exclusion_witness:
  "cs_reach set_wait set_signal 3 (snd (set_insert Map.empty 3 1), {}, {})
      ([3 \<mapsto> \<lparr>sem_count = 0, sem_queue = [7]\<rparr>], {5}, {7}) \<and>
    card {5 :: pid} = unat (1 :: u64)"
proof -
  let ?t0 = "[3 \<mapsto> \<lparr>sem_count = 1, sem_queue = []\<rparr>] :: semaphore_set"
  let ?t1 = "[3 \<mapsto> \<lparr>sem_count = 0, sem_queue = []\<rparr>] :: semaphore_set"
  let ?t2 = "[3 \<mapsto> \<lparr>sem_count = 0, sem_queue = [7]\<rparr>] :: semaphore_set"
  have "cs_step set_wait set_signal 3 (?t0, {}, {}) (?t1, {5}, {})"
    by (rule cs_step.enter) (simp_all add: set_wait_def semaphore_wait_def)
  moreover have "cs_step set_wait set_signal 3 (?t1, {5}, {}) (?t2, {5}, {7})"
    by (rule cs_step.queue) (simp_all add: set_wait_def semaphore_wait_def)
  ultimately have "cs_reach set_wait set_signal 3 (?t0, {}, {}) (?t2, {5}, {7})"
    by (blast intro: cs_reach.intros)
  then have run: "cs_reach set_wait set_signal 3 (snd (set_insert Map.empty 3 1), {}, {}) (?t2, {5}, {7})"
    by (simp add: set_insert_def semaphore_new_def)
  then show ?thesis using semaphore_exclusion [OF run] by simp
qed

text \<open>
  Making a semaphore under a key that is in use reports failure, yet replaces the old
  semaphore: every process that waited on it is forgotten, and no later signal on the key
  wakes it.
\<close>

lemma semaphore_replaced:
  assumes "set_insert (sems(k \<mapsto> s)) k v = (r, sems')"
  shows "r = False \<and> (\<exists>new. sems' k = Some new \<and> sem_count new = v \<and> sem_queue new = []) \<and>
    set_signal sems' k = (SemOk, sems(k \<mapsto> semaphore_new (v + 1)))"
  using assms by (auto simp: set_insert_def semaphore_new_def set_signal_def semaphore_signal_def)

lemma semaphore_replaced_witness:
  "False = False \<and>
    (\<exists>new. [3 \<mapsto> semaphore_new 1] (3 :: u32) = Some new \<and> sem_count new = 1 \<and> sem_queue new = []) \<and>
    set_signal [3 \<mapsto> semaphore_new 1] 3 = (SemOk, [3 \<mapsto> semaphore_new (1 + 1)])"
  using semaphore_replaced [of Map.empty 3 "\<lparr>sem_count = 0, sem_queue = [7]\<rparr>" 1 False "[3 \<mapsto> semaphore_new 1]"]
  by (simp add: set_insert_def)

section \<open>Line input\<close>

text \<open>
  C23: A line typed in UTF-8 and ended with carriage return is read back character by
  character, by the kernel and by the user library, and the keys after it stay in the queue.
\<close>

lemma line_roundtrip:
  assumes "list_all typed cs"
  shows "get_line (concat (map utf8_encode cs) @ 13 # ks) [] = Ok (cs, ks) \<and>
    read_line (concat (map utf8_encode cs) @ 13 # ks) [] = Ok (cs, ks)"
  using get_line_text [OF assms, of "13 # ks" "[]"]
  by (simp add: get_line.simps [of "13 # ks"] read_line.simps [of "13 # ks"] get_line_key_def read_line_key_def)

lemma line_roundtrip_witness:
  "get_line (concat (map utf8_encode [0x41, 0x4E2D, 0x1F600]) @ 13 # [9]) [] = Ok ([0x41, 0x4E2D, 0x1F600], [9]) \<and>
    read_line (concat (map utf8_encode [0x41, 0x4E2D, 0x1F600]) @ 13 # [9]) [] = Ok ([0x41, 0x4E2D, 0x1F600], [9])"
  using line_roundtrip [of "[0x41, 0x4E2D, 0x1F600]" "[9]"]
  by (simp add: typed_def char_from_u32_def)

text \<open>
  The three bytes that would encode a surrogate are taken for a character, and the
  \<open>unwrap\<close> of \<open>char::from_u32\<close> panics, in the kernel and in the user library.
\<close>

lemma surrogate_input:
  assumes "0xD800 \<le> c" "c \<le> 0xDFFF"
  shows "get_line (utf8_encode c @ ks) line = Panic \<and> read_line (utf8_encode c @ ks) line = Panic"
  using surrogate_panics [OF assms] by simp

lemma surrogate_input_witness:
  "get_line (utf8_encode 0xD800 @ [13]) [] = Panic \<and> read_line (utf8_encode 0xD800 @ [13]) [] = Panic"
  by (rule surrogate_input) (simp_all add: word_le_nat_alt)

section \<open>Descriptors\<close>

text \<open>
  C37: However a process with the default descriptors opens and closes, as long as it opens at
  most 253 resources in all, each descriptor it was given refers to the very resource it opened there, until it
  closes it: no two open resources share a descriptor. With more opens this is false: the number
  wraps, see \<open>descriptors_wrap\<close>.
\<close>

lemma descriptors_never_alias:
  assumes "fd_opens ops \<le> 253"
    and "fd_run rs_open rs_close ops rs_default
        [0 \<mapsto> Console Stdin, 1 \<mapsto> Console Stdout, 2 \<mapsto> Console Stderr] = (rs, believed)"
  shows "rs_handles rs = believed"
proof -
  have "card (dom (rs_handles (rs_default :: 'a resource_set))) = 3"
    by (simp add: rs_default_handles)
  then show ?thesis
    using rs.run_view [OF rs_default_wf _ rs_default_handles assms(2)] assms(1) by simp
qed

lemma descriptors_never_alias_witness:
  "rs_handles \<lparr>rs_handles = [0 \<mapsto> FileR 7, 2 \<mapsto> Console Stderr, 1 \<mapsto> FileR (8 :: nat)], rs_recycled = []\<rparr> =
     [0 \<mapsto> FileR 7, 2 \<mapsto> Console Stderr, 1 \<mapsto> FileR 8]"
  by (rule descriptors_never_alias [of "[OpClose 0, OpClose 1, OpOpen (FileR 8), OpOpen (FileR 7)]"])
    (auto simp: rs_default_def rs_empty_def rs_open_def rs_close_def fun_eq_iff)

text \<open>
  With all 256 descriptors open the next resource is opened as descriptor 0 and takes the
  place of the one that was there.
\<close>

lemma descriptors_wrap:
  assumes "rs_wf rs" and "card (dom (rs_handles rs)) = 256"
  shows "rs_handles rs 0 \<noteq> None \<and>
    rs_open rs r = (0, rs\<lparr>rs_handles := (rs_handles rs)(0 \<mapsto> r)\<rparr>)"
  using rs_open_full [OF assms] by blast

lemma descriptors_wrap_witness:
  "rs_handles \<lparr>rs_handles = \<lambda>fd. Some NullR, rs_recycled = []\<rparr> 0 \<noteq> None \<and>
    rs_open \<lparr>rs_handles = \<lambda>fd. Some NullR, rs_recycled = []\<rparr> (FileR (7 :: nat)) =
      (0, \<lparr>rs_handles = \<lambda>fd. Some NullR, rs_recycled = []\<rparr>\<lparr>rs_handles := (\<lambda>fd. Some NullR)(0 \<mapsto> FileR 7)\<rparr>)"
proof -
  have all: "dom (\<lambda>fd :: u8. Some NullR) = UNIV" by auto
  have card: "card (UNIV :: u8 set) = 256" by (simp add: card_word)
  have "(UNIV :: u8 set) = {fd. unat fd < 256}" by simp
  with descriptors_wrap [of "\<lparr>rs_handles = \<lambda>fd. Some NullR, rs_recycled = []\<rparr>" "FileR (7 :: nat)"]
  show ?thesis unfolding rs_wf_def by (simp add: all card)
qed

text \<open>
  Reading the keyboard through descriptor 0: with a key waiting, a buffer gets that key in its
  first byte and 1 is returned, without one 0 is returned; but a buffer of length 0 makes the
  read panic as soon as a key is waiting.
\<close>

lemma stdin_read:
  assumes "rs_handles rs 0 = Some (Console Stdin)"
  shows "rs_read rd rs 0 buf [] = (Ok 0, buf, rs, []) \<and>
    rs_read rd rs 0 (b # buf) (k # ks) = (Ok 1, k # buf, rs, ks) \<and>
    fst (rs_read rd rs 0 [] (k # ks)) = Panic"
proof -
  have "(rs_handles rs)(0 \<mapsto> Console Stdin) = rs_handles rs" using assms by (simp add: fun_upd_idem)
  then have "rs\<lparr>rs_handles := (rs_handles rs)(0 \<mapsto> Console Stdin)\<rparr> = rs" by simp
  with assms show ?thesis
    by (simp add: rs_read_def resource_read_def try_pop_key_def)
qed

lemma stdin_read_witness:
  "rs_read (\<lambda>h b. (Ok 0, b, h)) (rs_default :: nat resource_set) 0 [9] [] = (Ok 0, [9], rs_default, []) \<and>
    rs_read (\<lambda>h b. (Ok 0, b, h)) (rs_default :: nat resource_set) 0 (9 # [9]) (0x41 # []) =
      (Ok 1, 0x41 # [9], rs_default, []) \<and>
    fst (rs_read (\<lambda>h b. (Ok 0, b, h)) (rs_default :: nat resource_set) 0 [] (0x41 # [])) = Panic"
  by (rule stdin_read) (simp add: rs_default_handles)

end
