(* ===== verification/Frames.thy ===== *)
theory Frames
  imports Prelude "HOL-Library.Multiset"
begin

text \<open>
  The frame allocator, \<open>pkg/kernel/src/memory/frames.rs\<close>: the frames of the boot memory map,
  handed out in order, and a stack of those given back. \<open>'f\<close> is \<open>PhysFrame\<close>, a type of the
  \<open>x86_64\<close> crate.
\<close>

section \<open>The allocator\<close>

text \<open>
  \<open>frames\<close> is a lazy iterator over the frames of the memory map that have not been handed out;
  here it is their list. \<open>recycled\<close> pushes and pops at its end.
\<close>

record 'f frame_alloc =
  fa_size :: u64
  fa_used :: u64
  fa_frames :: "'f list"
  fa_recycled :: "'f list"

text \<open>A descriptor of the UEFI memory map: is it \<open>CONVENTIONAL\<close>, its start and its pages.\<close>

record memory_descriptor =
  md_conventional :: bool
  md_phys_start :: u64
  md_page_count :: u64

text \<open>\<open>frame_at\<close> is \<open>PhysFrame::containing_address(PhysAddr::new(_))\<close>.\<close>

definition create_frame_iter :: "(u64 \<Rightarrow> 'f) \<Rightarrow> memory_descriptor list \<Rightarrow> 'f list" where
  "create_frame_iter frame_at memory_map =
     map frame_at
       (concat (map (\<lambda>r. map (\<lambda>v. of_nat v * 4096 + md_phys_start r) [0..<unat (md_page_count r)])
         (filter md_conventional memory_map)))"

definition fa_init :: "(u64 \<Rightarrow> 'f) \<Rightarrow> memory_descriptor list \<Rightarrow> u64 \<Rightarrow> 'f frame_alloc" where
  "fa_init frame_at memory_map n =
     \<lparr>fa_size = n, fa_used = 0, fa_frames = create_frame_iter frame_at memory_map, fa_recycled = []\<rparr>"

definition frames_used :: "'f frame_alloc \<Rightarrow> u64" where "frames_used fa = fa_used fa"

definition frames_total :: "'f frame_alloc \<Rightarrow> u64" where "frames_total fa = fa_size fa"

definition frames_recycled_count :: "'f frame_alloc \<Rightarrow> nat" where
  "frames_recycled_count fa = length (fa_recycled fa)"

definition allocate_frame :: "'f frame_alloc \<Rightarrow> 'f option \<times> 'f frame_alloc" where
  "allocate_frame fa =
     (if fa_recycled fa \<noteq> [] then
        (Some (last (fa_recycled fa)), fa\<lparr>fa_recycled := butlast (fa_recycled fa)\<rparr>)
      else
        (case fa_frames fa of
           f # fs \<Rightarrow> (Some f, fa\<lparr>fa_used := fa_used fa + 1, fa_frames := fs\<rparr>)
         | [] \<Rightarrow> (None, fa)))"

definition deallocate_frame :: "'f frame_alloc \<Rightarrow> 'f \<Rightarrow> 'f frame_alloc" where
  "deallocate_frame fa f = fa\<lparr>fa_recycled := fa_recycled fa @ [f]\<rparr>"

section \<open>The contract of a source of frames\<close>

text \<open>\<open>avail\<close> counts what may still be handed out.\<close>

locale frame_source =
  fixes alloc :: "'s \<Rightarrow> 'f option \<times> 's"
    and dealloc :: "'s \<Rightarrow> 'f \<Rightarrow> 's"
    and avail :: "'s \<Rightarrow> 'f multiset"
  assumes alloc_some: "alloc s = (Some f, s') \<Longrightarrow> avail s = add_mset f (avail s')"
    and alloc_none: "alloc s = (None, s') \<Longrightarrow> avail s = {#} \<and> s' = s"
    and dealloc_avail: "avail (dealloc s f) = add_mset f (avail s)"

text \<open>A client that takes frames and gives back the \<open>i\<close>-th it holds.\<close>

datatype frame_op = TakeFrame | GiveFrame nat

fun frames_run ::
  "('s \<Rightarrow> 'f option \<times> 's) \<Rightarrow> ('s \<Rightarrow> 'f \<Rightarrow> 's) \<Rightarrow> frame_op list \<Rightarrow> 's \<Rightarrow> 'f list \<Rightarrow> 's \<times> 'f list" where
  "frames_run alloc dealloc [] s held = (s, held)"
| "frames_run alloc dealloc (TakeFrame # ops) s held =
     (case alloc s of
        (Some f, s') \<Rightarrow> frames_run alloc dealloc ops s' (held @ [f])
      | (None, s') \<Rightarrow> frames_run alloc dealloc ops s' held)"
| "frames_run alloc dealloc (GiveFrame i # ops) s held =
     (if i < length held
      then frames_run alloc dealloc ops (dealloc s (held ! i)) (take i held @ drop (Suc i) held)
      else frames_run alloc dealloc ops s held)"

lemma mset_remove_nth: "i < length xs \<Longrightarrow> add_mset (xs ! i) (mset (take i xs @ drop (Suc i) xs)) = mset xs"
  by (subst (3) id_take_nth_drop [of i xs]) simp_all

context frame_source
begin

lemma run_conserves:
  "frames_run alloc dealloc ops s held = (s', held') \<Longrightarrow> avail s' + mset held' = avail s + mset held"
proof (induction ops arbitrary: s held)
  case (Cons op ops)
  show ?case
  proof (cases op)
    case TakeFrame
    with Cons show ?thesis
      by (cases "alloc s") (auto dest: alloc_some alloc_none split: option.splits)
  next
    case (GiveFrame i)
    show ?thesis
    proof (cases "i < length held")
      case True
      with Cons.prems GiveFrame Cons.IH [of "dealloc s (held ! i)" "take i held @ drop (Suc i) held"]
      have "avail s' + mset held' =
          avail s + add_mset (held ! i) (mset (take i held @ drop (Suc i) held))"
        by (simp add: dealloc_avail)
      then show ?thesis by (simp only: mset_remove_nth [OF True])
    next
      case False
      with Cons GiveFrame show ?thesis by simp
    qed
  qed
qed simp

lemma run_distinct:
  assumes "frames_run alloc dealloc ops s [] = (s', held)" "avail s = mset fs" "distinct fs"
  shows "distinct held \<and> set held \<inter> set_mset (avail s') = {} \<and> set held \<subseteq> set fs"
proof -
  have eq: "avail s' + mset held = mset fs" using run_conserves [OF assms(1)] assms(2) by simp
  obtain gs where gs: "avail s' = mset gs" by (metis ex_mset)
  have "mset (gs @ held) = mset fs" using eq gs by simp
  then have "distinct (gs @ held)" "set (gs @ held) = set fs"
    using assms(3) by (metis mset_eq_imp_distinct_iff, metis mset_eq_setD)
  then show ?thesis using gs by auto
qed

end

definition fa_avail :: "'f frame_alloc \<Rightarrow> 'f multiset" where
  "fa_avail fa = mset (fa_recycled fa) + mset (fa_frames fa)"

lemma fa_avail_split: "allocate_frame fa = (Some f, fa') \<Longrightarrow> fa_avail fa = add_mset f (fa_avail fa')"
proof (cases "fa_recycled fa = []")
  case False
  assume "allocate_frame fa = (Some f, fa')"
  moreover have "mset (fa_recycled fa) = mset (butlast (fa_recycled fa) @ [last (fa_recycled fa)])"
    using False by simp
  ultimately show ?thesis using False by (auto simp: fa_avail_def allocate_frame_def)
qed (auto simp: fa_avail_def allocate_frame_def split: list.splits)

interpretation frames: frame_source allocate_frame deallocate_frame fa_avail
proof unfold_locales
  fix s s' :: "'f frame_alloc" and f
  show "allocate_frame s = (Some f, s') \<Longrightarrow> fa_avail s = add_mset f (fa_avail s')"
    by (rule fa_avail_split)
  show "allocate_frame s = (None, s') \<Longrightarrow> fa_avail s = {#} \<and> s' = s"
    by (auto simp: fa_avail_def allocate_frame_def split: if_splits list.splits)
  show "fa_avail (deallocate_frame s f) = add_mset f (fa_avail s)"
    by (simp add: fa_avail_def deallocate_frame_def)
qed

text \<open>The counter of \<open>frames_used\<close> less the recycled frames is the number of frames in use.\<close>

lemma used_in_use:
  "frames_run allocate_frame deallocate_frame ops fa held = (fa', held') \<Longrightarrow>
    unat (fa_used fa) + length (fa_frames fa) < 2 ^ 64 \<Longrightarrow>
    unat (fa_used fa) = length held + length (fa_recycled fa) \<Longrightarrow>
    unat (fa_used fa') = length held' + length (fa_recycled fa') \<and>
    unat (fa_used fa') + length (fa_frames fa') = unat (fa_used fa) + length (fa_frames fa)"
proof (induction ops arbitrary: fa held)
  case (Cons op ops)
  show ?case
  proof (cases op)
    case TakeFrame
    consider (pop) "fa_recycled fa \<noteq> []" | (fresh) f fs where "fa_recycled fa = []" "fa_frames fa = f # fs"
      | (none) "fa_recycled fa = []" "fa_frames fa = []" by (cases "fa_frames fa") auto
    then show ?thesis
    proof cases
      case pop
      then have "allocate_frame fa = (Some (last (fa_recycled fa)), fa\<lparr>fa_recycled := butlast (fa_recycled fa)\<rparr>)"
        by (simp add: allocate_frame_def)
      with Cons.IH [of "fa\<lparr>fa_recycled := butlast (fa_recycled fa)\<rparr>" "held @ [last (fa_recycled fa)]"]
        Cons.prems TakeFrame pop show ?thesis by (simp add: Suc_diff_le)
    next
      case fresh
      with Cons.prems(2) have u: "unat (fa_used fa + 1) = unat (fa_used fa) + 1"
        by (simp add: unat_word_ariths)
      from fresh have "allocate_frame fa = (Some f, fa\<lparr>fa_used := fa_used fa + 1, fa_frames := fs\<rparr>)"
        by (simp add: allocate_frame_def)
      with Cons.IH [of "fa\<lparr>fa_used := fa_used fa + 1, fa_frames := fs\<rparr>" "held @ [f]"] Cons.prems TakeFrame fresh u
      show ?thesis by simp
    next
      case none
      then have "allocate_frame fa = (None, fa)" by (simp add: allocate_frame_def)
      with Cons.IH [of fa held] Cons.prems TakeFrame show ?thesis by simp
    qed
  next
    case (GiveFrame i)
    show ?thesis
    proof (cases "i < length held")
      case True
      then obtain k where "length held = Suc k" by (cases "length held") auto
      moreover from this have "length (take i held @ drop (Suc i) held) = k" using True by simp
      moreover have "length (fa_recycled (deallocate_frame fa (held ! i))) = length (fa_recycled fa) + 1"
        "fa_used (deallocate_frame fa (held ! i)) = fa_used fa"
        "fa_frames (deallocate_frame fa (held ! i)) = fa_frames fa" by (simp_all add: deallocate_frame_def)
      ultimately show ?thesis
        using Cons.IH [of "deallocate_frame fa (held ! i)" "take i held @ drop (Suc i) held"]
          Cons.prems GiveFrame True by simp
    next
      case False
      with Cons.IH [of fa held] Cons.prems GiveFrame show ?thesis by simp
    qed
  qed
qed simp

end
