(* ===== verification/Units.thy ===== *)
theory Units
  imports Prelude "HOL-Library.Log_Nat"
begin

text \<open>
  \<open>humanized_size\<close> of \<open>pkg/kernel/src/utils/mod.rs\<close>. A finite \<open>f32\<close> that is an integer divided by
  a power of 1024 is that integer and the power; dividing it by 1024 is exact.
\<close>

text \<open>\<open>size as f32\<close>: 24 significant bits, to the nearest, a tie to the even one.\<close>

definition f32_of :: "nat \<Rightarrow> nat" where
  "f32_of n =
     (let e = floorlog 2 n - 24; q = n div 2 ^ e; r = n mod 2 ^ e in
      (if 2 ^ e < 2 * r \<or> 2 ^ e = 2 * r \<and> odd q then q + 1 else q) * 2 ^ e)"

definition SHORT_UNITS :: "u8 list list" where
  "SHORT_UNITS = [[0x42], [0x4B], [0x4D], [0x47]]"

definition UNITS :: "u8 list list" where
  "UNITS = [[0x42], [0x4B, 0x69, 0x42], [0x4D, 0x69, 0x42], [0x47, 0x69, 0x42]]"

text \<open>The value in the loop is \<open>m / 1024 ^ unit\<close>.\<close>

function unit_loop :: "nat \<Rightarrow> nat \<Rightarrow> nat" where
  "unit_loop m unit = (if 1024 ^ Suc unit \<le> m \<and> unit < length UNITS then unit_loop m (Suc unit) else unit)"
  by pat_completeness auto
termination by (relation "measure (\<lambda>(m, unit). length UNITS - unit)") auto

declare unit_loop.simps [simp del]

text \<open>The size shown is the first number divided by \<open>1024\<close> to the second, with the unit.\<close>

definition humanized_size_impl :: "u64 \<Rightarrow> bool \<Rightarrow> ('e, (nat \<times> nat) \<times> u8 list) res" where
  "humanized_size_impl bytes short =
     (let units = (if short then SHORT_UNITS else UNITS);
          m = f32_of (unat bytes);
          unit = unit_loop m 0
      in andThen (index_at units unit) (\<lambda>u. Ok ((m, unit), u)))"

definition humanized_size :: "u64 \<Rightarrow> ('e, (nat \<times> nat) \<times> u8 list) res" where
  "humanized_size bytes = humanized_size_impl bytes False"

definition humanized_size_short :: "u64 \<Rightarrow> ('e, (nat \<times> nat) \<times> u8 list) res" where
  "humanized_size_short bytes = humanized_size_impl bytes True"

section \<open>Rounding\<close>

lemma f32_of_small: "n < 2 ^ 24 \<Longrightarrow> f32_of n = n"
proof -
  assume "n < 2 ^ 24"
  then have "floorlog 2 n \<le> 24" by (simp add: floorlog_le_iff)
  then show ?thesis by (simp add: f32_of_def Let_def)
qed

lemma f32_of_upper: "n < 2 ^ k \<Longrightarrow> 24 \<le> k \<Longrightarrow> f32_of n \<le> 2 ^ k"
proof -
  assume n: "n < 2 ^ k" and k: "24 \<le> k"
  let ?e = "floorlog 2 n - 24"
  have "floorlog 2 n \<le> k" using n by (simp add: floorlog_le_iff)
  then have e: "2 ^ k = 2 ^ (k - ?e) * (2 ^ ?e :: nat)" using k by (simp flip: power_add)
  have "n div 2 ^ ?e < 2 ^ (k - ?e)" using n unfolding e by (simp add: less_mult_imp_div_less)
  then have "(n div 2 ^ ?e + 1) * 2 ^ ?e \<le> 2 ^ k" unfolding e by (intro mult_le_mono1) simp
  moreover have "f32_of n \<le> (n div 2 ^ ?e + 1) * 2 ^ ?e" by (simp add: f32_of_def Let_def)
  ultimately show ?thesis by linarith
qed

lemma f32_of_lower: "2 ^ k \<le> n \<Longrightarrow> 2 ^ k \<le> f32_of n"
proof -
  assume n: "2 ^ k \<le> n"
  let ?e = "floorlog 2 n - 24"
  have n0: "0 < n" using n by (metis gr0I not_one_le_zero one_le_numeral one_le_power order_trans)
  have "2 ^ (floorlog 2 n - 1) \<le> n" using floorlog_bounds [of n 2] n0 by simp
  moreover have "(2::nat) ^ ?e \<le> 2 ^ (floorlog 2 n - 1)" by (intro power_increasing) simp_all
  ultimately have e: "2 ^ ?e \<le> n" by linarith
  have "2 ^ k \<le> n div 2 ^ ?e * 2 ^ ?e"
  proof (cases "?e \<le> k")
    case True
    then have pk: "2 ^ k = 2 ^ (k - ?e) * (2 ^ ?e :: nat)" by (simp flip: power_add)
    have "2 ^ (k - ?e) \<le> n div 2 ^ ?e" using n unfolding pk by (simp add: less_eq_div_iff_mult_less_eq)
    then show ?thesis unfolding pk by (intro mult_le_mono1)
  next
    case False
    have "1 \<le> n div 2 ^ ?e" using e by (simp add: less_eq_div_iff_mult_less_eq)
    then have "2 ^ ?e \<le> n div 2 ^ ?e * 2 ^ ?e" by (metis mult_1 mult_le_mono1)
    moreover have "(2::nat) ^ k \<le> 2 ^ ?e" using False by (intro power_increasing) simp_all
    ultimately show ?thesis by linarith
  qed
  also have "\<dots> \<le> f32_of n" by (simp add: f32_of_def Let_def)
  finally show ?thesis .
qed

text \<open>The numbers that round to 1 Ti or more.\<close>

lemma f32_of_Ti: "2 ^ 40 \<le> f32_of n \<longleftrightarrow> 2 ^ 40 - 2 ^ 15 \<le> n"
proof -
  consider "2 ^ 40 \<le> n" | "n < 2 ^ 39" | "2 ^ 39 \<le> n" "n < 2 ^ 40" by linarith
  then show ?thesis
  proof cases
    case 1
    then show ?thesis using f32_of_lower [OF 1] by simp
  next
    case 2
    then show ?thesis using f32_of_upper [OF 2] by simp
  next
    case 3
    have "floorlog 2 n = 40" using 3 floorlog_le_iff [of 2 n 40] floorlog_le_iff [of 2 n 39] by simp
    then have "f32_of n = (if 2 ^ 16 < 2 * (n mod 2 ^ 16) \<or> 2 ^ 16 = 2 * (n mod 2 ^ 16) \<and> odd (n div 2 ^ 16)
        then n div 2 ^ 16 + 1 else n div 2 ^ 16) * 2 ^ 16"
      by (simp add: f32_of_def Let_def)
    moreover obtain q r where qr: "q = n div 65536" "r = n mod 65536" by blast
    ultimately have f: "f32_of n =
      (if 65536 < 2 * r \<or> 65536 = 2 * r \<and> odd q then q + 1 else q) * 65536" by simp
    have n: "n = q * 65536 + r" and r: "r < 65536" by (simp_all add: qr)
    have q: "q < 16777216" using 3(2) n by simp
    show ?thesis
    proof (cases "q = 16777215")
      case True
      then show ?thesis using f n r by (auto split: if_splits)
    next
      case False
      then have "q + 1 \<le> 16777215" using q by simp
      then have "f32_of n \<le> 16777215 * 65536" unfolding f by (intro mult_le_mono1) simp
      then show ?thesis using False n r q by simp
    qed
  qed
qed

text \<open>The number of units the loop goes up.\<close>

lemma unit_loop_eq:
  "unit_loop m 0 = (if m < 1024 then 0 else if m < 1048576 then 1 else if m < 1073741824 then 2
     else if m < 1099511627776 then 3 else 4)"
proof -
  have 4: "unit_loop m 4 = 4" by (subst unit_loop.simps) (simp add: UNITS_def)
  have 3: "unit_loop m 3 = (if m < 1099511627776 then 3 else 4)"
    by (subst unit_loop.simps) (simp add: UNITS_def 4)
  have "unit_loop m 2 = (if m < 1073741824 then 2 else unit_loop m 3)"
    by (subst unit_loop.simps) (simp add: UNITS_def)
  then have 2: "unit_loop m (Suc (Suc 0)) = (if m < 1073741824 then 2 else unit_loop m 3)"
    by (simp add: numeral_2_eq_2)
  have 1: "unit_loop m (Suc 0) = (if m < 1048576 then 1 else unit_loop m (Suc (Suc 0)))"
    by (subst unit_loop.simps) (simp add: UNITS_def)
  show ?thesis by (subst unit_loop.simps) (simp add: UNITS_def 1 2 3)
qed

text \<open>The size is shown in a unit that exists exactly when it does not round to 1 Ti.\<close>

lemma humanized_size_impl_eq:
  "humanized_size_impl bytes short =
     (if 2 ^ 40 - 2 ^ 15 \<le> unat bytes then Panic
      else Ok ((f32_of (unat bytes), unit_loop (f32_of (unat bytes)) 0),
        (if short then SHORT_UNITS else UNITS) ! unit_loop (f32_of (unat bytes)) 0))"
  using f32_of_Ti [of "unat bytes"]
  by (auto simp: humanized_size_impl_def Let_def unit_loop_eq index_at_def SHORT_UNITS_def UNITS_def)

end
