(* ===== verification/Startup.thy ===== *)
theory Startup
  imports Frames Units
begin

text \<open>
  The memory manager at the start of the kernel, \<open>pkg/kernel/src/memory/mod.rs\<close>: it counts the pages of
  the boot memory map and makes the frame allocator. The two sizes are printed, and it is the
  printing that limits the memory the kernel can start with.
\<close>

section \<open>Initialisation\<close>

definition count_pages :: "memory_descriptor list \<Rightarrow> u64" where
  "count_pages memory_map = fold (\<lambda>d n. n + md_page_count d) memory_map 0"

definition memory_init :: "(u64 \<Rightarrow> 'f) \<Rightarrow> memory_descriptor list \<Rightarrow> ('e, 'f frame_alloc) res" where
  "memory_init frame_at memory_map =
     (let mem_size = count_pages memory_map;
          usable_mem_size = count_pages (filter md_conventional memory_map) in
      andThen (humanized_size (mem_size * 4096)) (\<lambda>_.
      andThen (humanized_size (usable_mem_size * 4096)) (\<lambda>_.
        Ok (fa_init frame_at memory_map usable_mem_size))))"

section \<open>Counting\<close>

definition pages_of :: "memory_descriptor list \<Rightarrow> nat" where
  "pages_of memory_map = (\<Sum>d\<leftarrow>memory_map. unat (md_page_count d))"

lemma count_pages_from: "fold (\<lambda>d n. n + md_page_count d) mm a = a + of_nat (pages_of mm)"
  by (induction mm arbitrary: a) (simp_all add: pages_of_def)

lemma unat_count_pages: "pages_of mm < 2 ^ 64 \<Longrightarrow> unat (count_pages mm) = pages_of mm"
  unfolding count_pages_def count_pages_from by (simp add: unat_of_nat take_bit_nat_eq_self)

lemma pages_of_filter: "pages_of (filter P mm) \<le> pages_of mm"
  by (induction mm) (auto simp: pages_of_def)

lemma length_create_frames: "length (create_frame_iter frame_at mm) = pages_of (filter md_conventional mm)"
  by (induction mm) (simp_all add: create_frame_iter_def pages_of_def)

lemma count_bytes: "pages_of mm < 2 ^ 52 \<Longrightarrow> unat (count_pages mm * 4096) = 4096 * pages_of mm"
  by (subst unat_mult_lem [THEN iffD1]) (simp_all add: unat_count_pages)

section \<open>The property\<close>

text \<open>The frames by their place: those of a usable descriptor follow those of the usable ones before it.\<close>

lemma create_frames_nth:
  assumes "md_conventional d" "i < unat (md_page_count d)"
  shows "create_frame_iter frame_at (as @ d # bs) ! (pages_of (filter md_conventional as) + i) =
    frame_at (md_phys_start d + of_nat i * 4096)"
proof -
  have "create_frame_iter frame_at (as @ d # bs) = create_frame_iter frame_at as @
      map (\<lambda>v. frame_at (of_nat v * 4096 + md_phys_start d)) [0..<unat (md_page_count d)] @ create_frame_iter frame_at bs"
    using assms(1) by (simp add: create_frame_iter_def)
  then show ?thesis using assms(2)
    by (simp add: nth_append length_create_frames [of frame_at as, symmetric] add.commute [of _ "md_phys_start d"])
qed

text \<open>
  C36: With fewer than 2 ^ 28 - 8 pages (1 TiB less 32 KiB) in the memory map the frame allocator has exactly the frames of the
  usable memory, none of them in use, in the order of the memory map: as many as the usable descriptors have pages, and
  page \<open>i\<close> of a usable descriptor is the frame at its start plus \<open>4096 i\<close>, after the frames of the usable descriptors before it.
  With that many pages or more the kernel panics while it prints the size.
\<close>

theorem memory_init_limit:
  assumes "pages_of mm < 2 ^ 52"
  shows "if pages_of mm < 2 ^ 28 - 8
    then (\<exists>fa. memory_init frame_at mm = (Ok fa :: ('e, 'f frame_alloc) res) \<and>
      length (fa_frames fa) = unat (frames_total fa) \<and> unat (frames_total fa) = pages_of (filter md_conventional mm) \<and>
      (\<forall>as d bs i. mm = as @ d # bs \<and> md_conventional d \<and> i < unat (md_page_count d) \<longrightarrow>
         fa_frames fa ! (pages_of (filter md_conventional as) + i) = frame_at (md_phys_start d + of_nat i * 4096)) \<and>
      frames_used fa = 0 \<and> fa_recycled fa = [])
    else memory_init frame_at mm = (Panic :: ('e, 'f frame_alloc) res)"
proof -
  let ?u = "filter md_conventional mm"
  have u: "pages_of ?u \<le> pages_of mm" by (rule pages_of_filter)
  then have "pages_of ?u < 2 ^ 52" using assms by simp
  note bytes = count_bytes [OF assms] count_bytes [OF this]
  have eq: "memory_init frame_at mm =
      (if 2 ^ 28 - 8 \<le> pages_of mm then Panic else Ok (fa_init frame_at mm (count_pages ?u)))"
    using u by (auto simp: memory_init_def Let_def humanized_size_def humanized_size_impl_eq bytes)
  have "unat (count_pages ?u) = pages_of ?u" using assms u by (intro unat_count_pages) simp
  then show ?thesis
    by (auto simp: eq fa_init_def frames_total_def frames_used_def length_create_frames create_frames_nth)
qed

theorem memory_init_limit_witness:
  "\<exists>fa. memory_init (\<lambda>a. a) [\<lparr>md_conventional = False, md_phys_start = 0, md_page_count = 1\<rparr>,
      \<lparr>md_conventional = True, md_phys_start = 0x1000, md_page_count = 3\<rparr>] = (Ok fa :: (unit, u64 frame_alloc) res) \<and>
    length (fa_frames fa) = 3 \<and> fa_frames fa ! 2 = 0x3000 \<and>
    memory_init (\<lambda>a. a) [\<lparr>md_conventional = True, md_phys_start = 0, md_page_count = 0x10000000\<rparr>] =
      (Panic :: (unit, u64 frame_alloc) res)"
proof -
  let ?d = "\<lparr>md_conventional = False, md_phys_start = 0, md_page_count = 1\<rparr>"
  let ?e = "\<lparr>md_conventional = True, md_phys_start = 0x1000, md_page_count = 3\<rparr>"
  have "pages_of [?d, ?e] < 2 ^ 28 - 8" "pages_of [?d, ?e] < 2 ^ 52" by (simp_all add: pages_of_def)
  with memory_init_limit [where 'e = unit and frame_at = "\<lambda>a. a" and mm = "[?d, ?e]"] obtain fa where
    fa: "memory_init (\<lambda>a. a) [?d, ?e] = (Ok fa :: (unit, u64 frame_alloc) res)" "length (fa_frames fa) = unat (frames_total fa)"
      "unat (frames_total fa) = pages_of (filter md_conventional [?d, ?e])"
    and nth: "\<forall>as d bs i. [?d, ?e] = as @ d # bs \<and> md_conventional d \<and> i < unat (md_page_count d) \<longrightarrow>
      fa_frames fa ! (pages_of (filter md_conventional as) + i) = md_phys_start d + of_nat i * 4096" by auto
  have "fa_frames fa ! (pages_of (filter md_conventional [?d]) + 2) = md_phys_start ?e + of_nat 2 * 4096"
    using nth [THEN spec, of "[?d]", THEN spec, of ?e, THEN spec, of "[]", THEN spec, of 2] by simp
  moreover have "pages_of (filter md_conventional [?d]) + 2 = 2" by (simp add: pages_of_def)
  ultimately have "fa_frames fa ! 2 = 0x3000" by (simp only:) simp
  moreover have "memory_init (\<lambda>a. a) [\<lparr>md_conventional = True, md_phys_start = 0, md_page_count = 0x10000000\<rparr>] =
      (Panic :: (unit, u64 frame_alloc) res)"
    using memory_init_limit [where 'e = unit and frame_at = "\<lambda>a. a" and
        mm = "[\<lparr>md_conventional = True, md_phys_start = 0, md_page_count = 0x10000000\<rparr>]"] by (simp add: pages_of_def)
  ultimately show ?thesis using fa by (simp add: pages_of_def)
qed

end
