(* ===== verification/Paging.thy ===== *)
theory Paging
  imports Frames
begin

text \<open>
  Mapping and unmapping ranges of pages, the first half of \<open>pkg/elf/src/lib.rs\<close>. The page
  tables belong to the \<open>x86_64\<close> crate: what the code calls of it is the record \<open>x86\<close>, a
  parameter of everything here, and what the crate documents of these calls is the predicate
  \<open>mapper_laws\<close>, a hypothesis of the properties.
\<close>

section \<open>The interface of the x86-64 crate\<close>

text \<open>
  A \<open>Page\<close> is represented by its number, a \<open>PhysFrame\<close> by its start address. \<open>page_of\<close> and
  \<open>page_addr\<close> go between a page and its addresses.
\<close>

type_synonym page = nat
type_synonym frame = u64

datatype page_flag = PRESENT | WRITABLE | USER_ACCESSIBLE | NO_EXECUTE

datatype map_error = FrameAllocationFailed | ParentEntryHugePage | PageAlreadyMapped frame

datatype unmap_error = UnmapHugePage | PageNotMapped | InvalidFrameAddress u64

definition page_of :: "u64 \<Rightarrow> page" where "page_of a = unat a div 4096"

definition page_addr :: "page \<Rightarrow> u64" where "page_addr p = of_nat (4096 * p)"

text \<open>
  \<open>x_virt_ok a\<close>, \<open>x_phys_ok a\<close>: \<open>VirtAddr::new(a)\<close>, \<open>PhysAddr::new(a)\<close> do not panic; the
  sums and differences of addresses panic when the result is no such address, and with
  \<open>x_checked\<close> also when they overflow (releases of the crate differ in this; otherwise they
  wrap in the default build). \<open>x_map_to\<close> may take frames for tables.
\<close>

record 'm x86 =
  x_virt_ok :: "u64 \<Rightarrow> bool"
  x_phys_ok :: "u64 \<Rightarrow> bool"
  x_checked :: bool
  x_map_to :: "page \<Rightarrow> frame \<Rightarrow> page_flag set \<Rightarrow> 'm \<Rightarrow> frame frame_alloc
    \<Rightarrow> (map_error, unit) res \<times> 'm \<times> frame frame_alloc"
  x_unmap :: "page \<Rightarrow> 'm \<Rightarrow> (unmap_error, frame) res \<times> 'm"
  x_translate :: "'m \<Rightarrow> page \<Rightarrow> frame option"

text \<open>The memory the kernel works on: page tables, free frames, and bytes by address.\<close>

record 'm mem =
  mem_table :: 'm
  mem_frames :: "frame frame_alloc"
  mem_bytes :: "u64 \<Rightarrow> u8"

definition virt_addr :: "'m x86 \<Rightarrow> u64 \<Rightarrow> ('e, u64) res" where
  "virt_addr x a = (if x_virt_ok x a then Ok a else Panic)"

definition addr_plus :: "bool \<Rightarrow> (u64 \<Rightarrow> bool) \<Rightarrow> u64 \<Rightarrow> u64 \<Rightarrow> ('e, u64) res" where
  "addr_plus checked ok a n =
     (if (checked \<longrightarrow> unat a + unat n < 2 ^ 64) \<and> ok (a + n) then Ok (a + n) else Panic)"

definition addr_minus :: "bool \<Rightarrow> (u64 \<Rightarrow> bool) \<Rightarrow> u64 \<Rightarrow> u64 \<Rightarrow> ('e, u64) res" where
  "addr_minus checked ok a n = (if (checked \<longrightarrow> n \<le> a) \<and> ok (a - n) then Ok (a - n) else Panic)"

text \<open>\<open>align_up(addr, Size4KiB::SIZE)\<close>\<close>

definition align_up :: "u64 \<Rightarrow> ('e, u64) res" where
  "align_up a =
     (let n = (unat a + 4095) div 4096 * 4096 in if n < 2 ^ 64 then Ok (of_nat n) else Panic)"

definition page_add :: "'m x86 \<Rightarrow> page \<Rightarrow> nat \<Rightarrow> ('e, page) res" where
  "page_add x p n =
     andThen (addr_plus (x_checked x) (x_virt_ok x) (page_addr p) (of_nat n * 4096)) (\<lambda>a. Ok (page_of a))"

definition map_to :: "'m x86 \<Rightarrow> page \<Rightarrow> frame \<Rightarrow> page_flag set \<Rightarrow> 'm mem \<Rightarrow> (map_error, unit) res \<times> 'm mem" where
  "map_to x p f fl m =
     (case x_map_to x p f fl (mem_table m) (mem_frames m) of
        (r, tab, fa) \<Rightarrow> (r, m\<lparr>mem_table := tab, mem_frames := fa\<rparr>))"

definition unmap :: "'m x86 \<Rightarrow> page \<Rightarrow> 'm mem \<Rightarrow> (unmap_error, frame) res \<times> 'm mem" where
  "unmap x p m = (case x_unmap x p (mem_table m) of (r, tab) \<Rightarrow> (r, m\<lparr>mem_table := tab\<rparr>))"

section \<open>Ranges of pages\<close>

text \<open>\<open>frame_allocator.allocate_frame().ok_or(FrameAllocationFailed)\<close>\<close>

definition take_frame :: "'m mem \<Rightarrow> (map_error, frame) res \<times> 'm mem" where
  "take_frame m =
     (case allocate_frame (mem_frames m) of
        (Some f, fa) \<Rightarrow> (Ok f, m\<lparr>mem_frames := fa\<rparr>)
      | (None, fa) \<Rightarrow> (Err FrameAllocationFailed, m\<lparr>mem_frames := fa\<rparr>))"

primrec map_each :: "'m x86 \<Rightarrow> page_flag set \<Rightarrow> page list \<Rightarrow> 'm mem \<Rightarrow> (map_error, unit) res \<times> 'm mem" where
  "map_each x fl [] m = (Ok (), m)"
| "map_each x fl (p # ps) m =
     doS (take_frame m) (\<lambda>f m. doS (map_to x p f fl m) (\<lambda>_ m. map_each x fl ps m))"

definition range_flags :: "bool \<Rightarrow> page_flag set" where
  "range_flags user_access = {PRESENT, WRITABLE} \<union> (if user_access then {USER_ACCESSIBLE} else {})"

definition map_range :: "'m x86 \<Rightarrow> page \<Rightarrow> page \<Rightarrow> bool \<Rightarrow> 'm mem \<Rightarrow> (map_error, unit) res \<times> 'm mem" where
  "map_range x first_page last_page user_access m =
     map_each x (range_flags user_access) [first_page..<Suc last_page] m"

text \<open>The result is the half-open page range. With no pages at page 0 the end cannot be formed.\<close>

definition map_pages ::
  "'m x86 \<Rightarrow> u64 \<Rightarrow> u64 \<Rightarrow> bool \<Rightarrow> 'm mem \<Rightarrow> (map_error, page \<times> page) res \<times> 'm mem" where
  "map_pages x addr pages user_access m =
     andThenS (virt_addr x addr) m (\<lambda>addr. let range_start = page_of addr in
     andThenS (page_add x range_start (unat pages)) m (\<lambda>range_end.
       if range_end = 0 then (Panic, m)
       else doS (map_range x range_start (range_end - 1) user_access m) (\<lambda>_ m.
              (Ok (range_start, range_end), m))))"

primrec unmap_each :: "'m x86 \<Rightarrow> bool \<Rightarrow> page list \<Rightarrow> 'm mem \<Rightarrow> (unmap_error, unit) res \<times> 'm mem" where
  "unmap_each x do_dealloc [] m = (Ok (), m)"
| "unmap_each x do_dealloc (p # ps) m =
     doS (unmap x p m) (\<lambda>f m.
       unmap_each x do_dealloc ps
         (if do_dealloc then m\<lparr>mem_frames := deallocate_frame (mem_frames m) f\<rparr> else m))"

definition unmap_range :: "'m x86 \<Rightarrow> page \<Rightarrow> page \<Rightarrow> bool \<Rightarrow> 'm mem \<Rightarrow> (unmap_error, unit) res \<times> 'm mem" where
  "unmap_range x first_page last_page do_dealloc m =
     unmap_each x do_dealloc [first_page..<Suc last_page] m"

definition unmap_pages ::
  "'m x86 \<Rightarrow> u64 \<Rightarrow> u64 \<Rightarrow> bool \<Rightarrow> 'm mem \<Rightarrow> (unmap_error, unit) res \<times> 'm mem" where
  "unmap_pages x addr pages do_dealloc m =
     andThenS (virt_addr x addr) m (\<lambda>addr. let start = page_of addr in
     andThenS (page_add x start (unat pages)) m (\<lambda>past.
       if past = 0 then (Panic, m) else unmap_range x start (past - 1) do_dealloc m))"

lemma unat_page_addr: "4096 * p < 2 ^ 64 \<Longrightarrow> unat (page_addr p) = 4096 * p"
  unfolding page_addr_def unat_of_nat by simp

lemma page_of_addr [simp]: "4096 * p < 2 ^ 64 \<Longrightarrow> page_of (page_addr p) = p"
  by (simp add: page_of_def unat_page_addr)

lemma page_add_Ok:
  assumes "page_add x p n = Ok q" "4096 * (p + n) < 2 ^ 64"
  shows "q = p + n"
proof -
  have "page_addr p + of_nat n * 4096 = page_addr (p + n)" by (simp add: page_addr_def algebra_simps)
  then show ?thesis using assms by (auto simp: page_add_def addr_plus_def split: if_splits)
qed

section \<open>What the crate documents\<close>

type_synonym 'm lookup = "'m \<Rightarrow> page \<Rightarrow> (frame \<times> page_flag set) option"

definition mapper_laws :: "'m x86 \<Rightarrow> 'm lookup \<Rightarrow> bool" where
  "mapper_laws x look \<longleftrightarrow>
     (\<forall>tab p. x_translate x tab p = map_option fst (look tab p)) \<and>
     (\<forall>tab p f fl fa. look tab p \<noteq> None \<longrightarrow>
        (\<exists>e tab'. x_map_to x p f fl tab fa = (Err e, tab', fa) \<and> look tab' = look tab)) \<and>
     (\<forall>tab p f fl fa. look tab p = None \<longrightarrow>
        (\<exists>r tab' fa' ts. x_map_to x p f fl tab fa = (r, tab', fa') \<and>
           fa_avail fa = mset ts + fa_avail fa' \<and>
           (r = Ok () \<and> look tab' = (look tab)(p \<mapsto> (f, fl)) \<or>
            (\<exists>e. r = Err e) \<and> look tab' = look tab))) \<and>
     (\<forall>tab p f fl. look tab p = Some (f, fl) \<longrightarrow>
        (\<exists>tab'. x_unmap x p tab = (Ok f, tab') \<and> look tab' = (look tab)(p := None))) \<and>
     (\<forall>tab p. look tab p = None \<longrightarrow> (\<exists>e. x_unmap x p tab = (Err e, tab)))"

lemma translate_look: "mapper_laws x look \<Longrightarrow> x_translate x tab p = map_option fst (look tab p)"
  by (simp add: mapper_laws_def)

lemma map_to_mapped:
  assumes "mapper_laws x look" "look (mem_table m) p \<noteq> None"
  shows "\<exists>e tab. map_to x p f fl m = (Err e, m\<lparr>mem_table := tab\<rparr>) \<and> look tab = look (mem_table m)"
proof -
  from assms obtain e tab where
    "x_map_to x p f fl (mem_table m) (mem_frames m) = (Err e, tab, mem_frames m)"
    "look tab = look (mem_table m)" unfolding mapper_laws_def by blast
  then show ?thesis by (auto simp: map_to_def)
qed

lemma map_to_unmapped:
  assumes "mapper_laws x look" "look (mem_table m) p = None"
  shows "\<exists>r m' ts. map_to x p f fl m = (r, m') \<and> mem_bytes m' = mem_bytes m \<and>
     fa_avail (mem_frames m) = mset ts + fa_avail (mem_frames m') \<and>
     (r = Ok () \<and> look (mem_table m') = (look (mem_table m))(p \<mapsto> (f, fl)) \<or>
      (\<exists>e. r = Err e) \<and> look (mem_table m') = look (mem_table m))"
proof -
  from assms(1) [unfolded mapper_laws_def, THEN conjunct2, THEN conjunct2, THEN conjunct1,
      rule_format, OF assms(2), of f fl "mem_frames m"]
  obtain r tab fa ts where
    "x_map_to x p f fl (mem_table m) (mem_frames m) = (r, tab, fa)"
    "fa_avail (mem_frames m) = mset ts + fa_avail fa"
    "r = Ok () \<and> look tab = (look (mem_table m))(p \<mapsto> (f, fl)) \<or>
      (\<exists>e. r = Err e) \<and> look tab = look (mem_table m)" by (elim exE conjE)
  then show ?thesis by (auto simp: map_to_def)
qed

lemma unmap_mapped:
  assumes "mapper_laws x look" "look (mem_table m) p = Some (f, fl)"
  shows "\<exists>tab. unmap x p m = (Ok f, m\<lparr>mem_table := tab\<rparr>) \<and> look tab = (look (mem_table m))(p := None)"
proof -
  from assms obtain tab where "x_unmap x p (mem_table m) = (Ok f, tab)"
    "look tab = (look (mem_table m))(p := None)" unfolding mapper_laws_def by blast
  then show ?thesis by (auto simp: unmap_def)
qed

lemma unmap_unmapped:
  assumes "mapper_laws x look" "look (mem_table m) p = None"
  shows "\<exists>e. unmap x p m = (Err e, m)"
proof -
  from assms obtain e where "x_unmap x p (mem_table m) = (Err e, mem_table m)"
    unfolding mapper_laws_def by blast
  then show ?thesis by (auto simp: unmap_def)
qed

lemma take_frame_cases:
  obtains (some) f m1 where "take_frame m = (Ok f, m1)" "mem_table m1 = mem_table m" "mem_bytes m1 = mem_bytes m"
      "fa_avail (mem_frames m) = add_mset f (fa_avail (mem_frames m1))"
    | (none) "take_frame m = (Err FrameAllocationFailed, m)" "fa_avail (mem_frames m) = {#}"
proof (cases "allocate_frame (mem_frames m)")
  case (Pair r fa)
  show ?thesis
  proof (cases r)
    case None
    with Pair frames.alloc_none have "fa_avail (mem_frames m) = {#}" "fa = mem_frames m" by blast+
    with Pair None none show ?thesis by (simp add: take_frame_def)
  next
    case (Some f)
    with Pair have "fa_avail (mem_frames m) = add_mset f (fa_avail fa)" by (simp add: frames.alloc_some)
    with Pair Some some [of f "m\<lparr>mem_frames := fa\<rparr>"] show ?thesis by (simp add: take_frame_def)
  qed
qed

section \<open>Mapping a range\<close>

text \<open>
  A run over pages that are not mapped maps a first part of them to frames of the allocator,
  all of them when it succeeds; \<open>ts\<close> are the frames that went into tables.
\<close>

definition mapped_to :: "page list \<Rightarrow> frame list \<Rightarrow> page_flag set \<Rightarrow> page \<rightharpoonup> frame \<times> page_flag set" where
  "mapped_to ps fs fl = map_of (zip ps (map (\<lambda>f. (f, fl)) fs))"

lemma mapped_to_Cons [simp]: "mapped_to (p # ps) (f # fs) fl = (mapped_to ps fs fl)(p \<mapsto> (f, fl))"
  by (simp add: mapped_to_def)

lemma mapped_to_Nil [simp]: "mapped_to [] fs fl = Map.empty" "mapped_to ps [] fl = Map.empty"
  by (simp_all add: mapped_to_def)

lemma mapped_to_notin: "p \<notin> set ps \<Longrightarrow> mapped_to ps fs fl p = None"
  unfolding mapped_to_def by (metis map_of_eq_None_iff in_set_zipE imageE prod.collapse)

lemma mapped_to_nth:
  "distinct ps \<Longrightarrow> length fs = length ps \<Longrightarrow> i < length ps \<Longrightarrow> mapped_to ps fs fl (ps ! i) = Some (fs ! i, fl)"
  unfolding mapped_to_def by (simp add: map_of_zip_nth)

lemma map_each_spec:
  "mapper_laws x look \<Longrightarrow> distinct ps \<Longrightarrow> \<forall>p\<in>set ps. look (mem_table m) p = None \<Longrightarrow>
    map_each x fl ps m = (r, m') \<Longrightarrow>
    \<exists>before after fs ts. ps = before @ after \<and> length fs = length before \<and>
      look (mem_table m') = look (mem_table m) ++ mapped_to before fs fl \<and>
      fa_avail (mem_frames m) = mset fs + mset ts + fa_avail (mem_frames m') \<and>
      mem_bytes m' = mem_bytes m \<and> (r = Ok () \<and> after = [] \<or> (\<exists>e. r = Err e) \<and> after \<noteq> [])"
proof (induction ps arbitrary: m)
  case Nil
  then show ?case by (intro exI [of _ "[]"]) auto
next
  case (Cons p ps)
  note laws = Cons.prems(1)
  show ?case
  proof (cases rule: take_frame_cases [of m])
    case none
    with Cons.prems(4) have "m' = m" "r = Err FrameAllocationFailed" by auto
    then show ?thesis by (intro exI [of _ "[]"] exI [of _ "p # ps"]) auto
  next
    case (some f m1)
    have "look (mem_table m1) p = None" using Cons.prems(3) some by simp
    from map_to_unmapped [OF laws this, of f fl] obtain r1 m2 ts where
      m2: "map_to x p f fl m1 = (r1, m2)" "mem_bytes m2 = mem_bytes m1"
        "fa_avail (mem_frames m1) = mset ts + fa_avail (mem_frames m2)"
      and r1: "r1 = Ok () \<and> look (mem_table m2) = (look (mem_table m1))(p \<mapsto> (f, fl)) \<or>
        (\<exists>e. r1 = Err e) \<and> look (mem_table m2) = look (mem_table m1)" by blast
    from r1 show ?thesis
    proof
      assume ok: "r1 = Ok () \<and> look (mem_table m2) = (look (mem_table m1))(p \<mapsto> (f, fl))"
      then have "map_each x fl ps m2 = (r, m')" using Cons.prems(4) some m2 by simp
      moreover have "\<forall>q\<in>set ps. look (mem_table m2) q = None"
        using Cons.prems(2, 3) ok some by auto
      ultimately obtain before after fs us where IH: "ps = before @ after" "length fs = length before"
        "look (mem_table m') = look (mem_table m2) ++ mapped_to before fs fl"
        "fa_avail (mem_frames m2) = mset fs + mset us + fa_avail (mem_frames m')"
        "mem_bytes m' = mem_bytes m2" "r = Ok () \<and> after = [] \<or> (\<exists>e. r = Err e) \<and> after \<noteq> []"
        using Cons.IH [OF laws, of m2] Cons.prems(2) by auto
      have "p \<notin> set before" using Cons.prems(2) IH(1) by auto
      then have "look (mem_table m') = look (mem_table m) ++ mapped_to (p # before) (f # fs) fl"
        using IH(3) ok some(2) by (auto simp: map_add_def fun_eq_iff mapped_to_notin split: option.splits)
      moreover have "fa_avail (mem_frames m) = mset (f # fs) + mset (ts @ us) + fa_avail (mem_frames m')"
        using some(4) m2(3) IH(4) by simp
      moreover have "p # ps = (p # before) @ after" "length (f # fs) = length (p # before)"
        "mem_bytes m' = mem_bytes m" using IH some(3) m2(2) by simp_all
      ultimately show ?thesis using IH(6) by blast
    next
      assume err: "(\<exists>e. r1 = Err e) \<and> look (mem_table m2) = look (mem_table m1)"
      then have "m' = m2" "\<exists>e. r = Err e" using Cons.prems(4) some m2 by auto
      with some m2 err show ?thesis
        by (intro exI [of _ "[]"] exI [of _ "p # ps"] exI [of _ "f # ts"]) auto
    qed
  qed
qed

text \<open>A page that is mapped already stops the run, and the frame taken for it is lost.\<close>

lemma map_each_taken:
  assumes "mapper_laws x look" "look (mem_table m) p \<noteq> None"
  shows "\<exists>e m'. map_each x fl (p # ps) m = (Err e, m') \<and> look (mem_table m') = look (mem_table m) \<and>
    mem_bytes m' = mem_bytes m \<and>
    (fa_avail (mem_frames m) \<noteq> {#} \<longrightarrow> (\<exists>f. fa_avail (mem_frames m) = add_mset f (fa_avail (mem_frames m'))))"
proof (cases rule: take_frame_cases [of m])
  case (some f m1)
  with assms have "look (mem_table m1) p \<noteq> None" by simp
  from map_to_mapped [OF assms(1) this, of f fl] obtain e tab where
    "map_to x p f fl m1 = (Err e, m1\<lparr>mem_table := tab\<rparr>)" "look tab = look (mem_table m1)" by blast
  with some show ?thesis by auto
qed auto

section \<open>Unmapping a range\<close>

lemma unmap_each_spec:
  "mapper_laws x look \<Longrightarrow> distinct ps \<Longrightarrow> \<forall>p\<in>set ps. look (mem_table m) p \<noteq> None \<Longrightarrow>
    \<exists>m'. unmap_each x d ps m = (Ok (), m') \<and>
      look (mem_table m') = (look (mem_table m)) |` (- set ps) \<and> mem_bytes m' = mem_bytes m \<and>
      mem_frames m' = (if d then mem_frames m
        \<lparr>fa_recycled := fa_recycled (mem_frames m) @ map (\<lambda>p. fst (the (look (mem_table m) p))) ps\<rparr>
        else mem_frames m)"
proof (induction ps arbitrary: m)
  case Nil
  then show ?case by (auto simp: restrict_map_def fun_eq_iff)
next
  case (Cons p ps)
  from Cons.prems(3) obtain f fl where "look (mem_table m) p = Some (f, fl)" by auto
  from this unmap_mapped [OF Cons.prems(1) this] obtain tab where
    u: "look (mem_table m) p = Some (f, fl)" "unmap x p m = (Ok f, m\<lparr>mem_table := tab\<rparr>)"
      "look tab = (look (mem_table m))(p := None)" by blast
  let ?m = "if d then m\<lparr>mem_table := tab, mem_frames := deallocate_frame (mem_frames m) f\<rparr>
    else m\<lparr>mem_table := tab\<rparr>"
  have tab: "mem_table ?m = tab" by simp
  then have look: "look (mem_table ?m) = (look (mem_table m))(p := None)" using u by (simp only:)
  then have "\<forall>q\<in>set ps. look (mem_table ?m) q \<noteq> None" using Cons.prems(2, 3) by auto
  with Cons.IH [OF Cons.prems(1), of ?m] Cons.prems(2) obtain m' where
    m': "unmap_each x d ps ?m = (Ok (), m')" "look (mem_table m') = (look (mem_table ?m)) |` (- set ps)"
      "mem_bytes m' = mem_bytes ?m" "mem_frames m' = (if d then mem_frames ?m
        \<lparr>fa_recycled := fa_recycled (mem_frames ?m) @ map (\<lambda>p. fst (the (look (mem_table ?m) p))) ps\<rparr>
        else mem_frames ?m)" by auto
  have "map (\<lambda>q. fst (the (look (mem_table ?m) q))) ps = map (\<lambda>q. fst (the (look (mem_table m) q))) ps"
    using look Cons.prems(2) by auto
  moreover have "(look (mem_table ?m)) |` (- set ps) = (look (mem_table m)) |` (- set (p # ps))"
    unfolding look by (auto simp: restrict_map_def fun_eq_iff)
  moreover have "unmap_each x d (p # ps) m = unmap_each x d ps ?m" using u(2) by (simp add: deallocate_frame_def)
  ultimately show ?case using m' u(1) by (auto simp: deallocate_frame_def)
qed

text \<open>A page in the range that is not mapped stops the run there.\<close>

lemma unmap_each_missing:
  assumes "mapper_laws x look" "look (mem_table m) p = None"
  shows "\<exists>e. unmap_each x d (p # ps) m = (Err e, m)"
  using unmap_unmapped [OF assms] by auto

end
