(* ===== verification/ElfLoad.thy ===== *)
theory ElfLoad
  imports Paging
begin

text \<open>
  Loading and mapping ELF images, the second half of \<open>pkg/elf/src/lib.rs\<close>: \<open>load_elf\<close> copies
  the segments of a user program to new frames, \<open>map_elf\<close> maps the kernel's image where it
  lies. The ELF parser is the crate \<open>xmas_elf\<close>; the fields the code reads of it are records.
\<close>

section \<open>Segments\<close>

text \<open>
  \<open>ph_type\<close> is the result of \<open>get_type\<close>, \<open>None\<close> its error, \<open>Some True\<close> the type \<open>Load\<close>.
\<close>

record program_header =
  ph_type :: "bool option"
  ph_mem_size :: u64
  ph_file_size :: u64
  ph_offset :: u64
  ph_virtual_addr :: u64
  ph_execute :: bool
  ph_write :: bool

text \<open>The image: the bytes in memory from \<open>input.as_ptr()\<close> on, that address, and the header's fields.\<close>

record elf_file =
  elf_input :: "u64 \<Rightarrow> u8"
  elf_ptr :: u64
  elf_segments :: "program_header list"
  elf_entry :: u64

definition segment_flags :: "program_header \<Rightarrow> page_flag set" where
  "segment_flags seg =
     {PRESENT} \<union> (if ph_execute seg then {} else {NO_EXECUTE}) \<union>
     (if ph_write seg then {WRITABLE} else {})"

text \<open>\<open>n\<close> bytes written from address \<open>at\<close> on.\<close>

definition write_block :: "u64 \<Rightarrow> nat \<Rightarrow> (nat \<Rightarrow> u8) \<Rightarrow> (u64 \<Rightarrow> u8) \<Rightarrow> u64 \<Rightarrow> u8" where
  "write_block at n src bs = (\<lambda>a. if unat (a - at) < n then src (unat (a - at)) else bs a)"

section \<open>Loading a segment to new frames\<close>

text \<open>
  One page of file data. The subtractions on \<open>u64\<close> wrap in the default build.
\<close>

definition load_page ::
  "'m x86 \<Rightarrow> u64 \<Rightarrow> (u64 \<Rightarrow> u8) \<Rightarrow> program_header \<Rightarrow> page_flag set \<Rightarrow> nat \<Rightarrow> page \<Rightarrow> 'm mem
    \<Rightarrow> (map_error, unit) res \<times> 'm mem" where
  "load_page x physical_offset input seg fl idx page m =
     doS (take_frame m) (\<lambda>frame m.
       let data_offset = of_nat idx * 4096;
           left = ph_file_size seg - data_offset;
           n = (if left < 4096 then left else 4096);
           copied = write_block (frame + physical_offset) (unat n)
             (\<lambda>i. input (ph_offset seg + data_offset + of_nat i)) (mem_bytes m);
           bytes = (if n < 4096
             then write_block (frame + physical_offset + n) (unat (4096 - n)) (\<lambda>i. 0) copied
             else copied)
       in map_to x page frame fl (m\<lparr>mem_bytes := bytes\<rparr>))"

primrec load_pages ::
  "'m x86 \<Rightarrow> u64 \<Rightarrow> (u64 \<Rightarrow> u8) \<Rightarrow> program_header \<Rightarrow> page_flag set \<Rightarrow> nat \<Rightarrow> page list \<Rightarrow> 'm mem
    \<Rightarrow> (map_error, unit) res \<times> 'm mem" where
  "load_pages x off input seg fl idx [] m = (Ok (), m)"
| "load_pages x off input seg fl idx (p # ps) m =
     doS (load_page x off input seg fl idx p m) (\<lambda>_ m. load_pages x off input seg fl (Suc idx) ps m)"

text \<open>The pages after the file data: both branches of the source's test ask whether the page is mapped.\<close>

primrec load_bss ::
  "'m x86 \<Rightarrow> u64 \<Rightarrow> page_flag set \<Rightarrow> page list \<Rightarrow> 'm mem \<Rightarrow> (map_error, unit) res \<times> 'm mem" where
  "load_bss x off fl [] m = (Ok (), m)"
| "load_bss x off fl (p # ps) m =
     (if x_translate x (mem_table m) p = None then
        doS (take_frame m) (\<lambda>frame m. doS (map_to x p frame fl m) (\<lambda>_ m.
          load_bss x off fl ps (m\<lparr>mem_bytes := write_block (frame + off) 4096 (\<lambda>i. 0) (mem_bytes m)\<rparr>)))
      else load_bss x off fl ps m)"

text \<open>The last page of \<open>n\<close> bytes from address \<open>a\<close>: \<open>containing_address(a + n - 1)\<close>.\<close>

definition last_page :: "'m x86 \<Rightarrow> u64 \<Rightarrow> u64 \<Rightarrow> ('e, page) res" where
  "last_page x a n =
     andThen (addr_plus (x_checked x) (x_virt_ok x) a n) (\<lambda>e.
     andThen (addr_minus (x_checked x) (x_virt_ok x) e 1) (\<lambda>l. Ok (page_of l)))"

text \<open>The result is the inclusive page range of the segment and its size in bytes.\<close>

definition load_segment ::
  "'m x86 \<Rightarrow> elf_file \<Rightarrow> u64 \<Rightarrow> program_header \<Rightarrow> bool \<Rightarrow> 'm mem
    \<Rightarrow> (map_error, (page \<times> page) \<times> u64) res \<times> 'm mem" where
  "load_segment x elf physical_offset seg user_access m =
     (let mem_size = ph_mem_size seg; file_size = ph_file_size seg;
          fl = segment_flags seg \<union> (if user_access then {USER_ACCESSIBLE} else {}) in
      andThenS (virt_addr x (ph_virtual_addr seg)) m (\<lambda>start.
      doS (if 0 < file_size then
             andThenS (last_page x start file_size) m (\<lambda>data_end.
               load_pages x physical_offset (elf_input elf) seg fl 0 [page_of start..<Suc data_end] m)
           else (Ok (), m)) (\<lambda>_ m.
      doS (if file_size < mem_size then
             andThenS (addr_plus (x_checked x) (x_virt_ok x) start file_size) m (\<lambda>bss_start.
             andThenS (andThen (align_up bss_start) (virt_addr x)) m (\<lambda>bss_aligned.
             andThenS (last_page x start mem_size) m (\<lambda>bss_end.
               load_bss x physical_offset fl [page_of bss_aligned..<Suc bss_end] m)))
           else (Ok (), m)) (\<lambda>_ m.
      andThenS (last_page x start mem_size) m (\<lambda>seg_end.
        (Ok ((page_of start, seg_end), of_nat (Suc seg_end - page_of start) * 4096), m))))))"

primrec load_segments ::
  "'m x86 \<Rightarrow> elf_file \<Rightarrow> u64 \<Rightarrow> bool \<Rightarrow> program_header list \<Rightarrow> (page \<times> page) list \<Rightarrow> u64 \<Rightarrow> 'm mem
    \<Rightarrow> (map_error, (page \<times> page) list \<times> u64) res \<times> 'm mem" where
  "load_segments x elf off ua [] ranges usage m = (Ok (ranges, usage), m)"
| "load_segments x elf off ua (seg # segs) ranges usage m =
     (case ph_type seg of
        None \<Rightarrow> (Panic, m)
      | Some is_load \<Rightarrow>
          if \<not> is_load \<or> ph_mem_size seg = 0 then load_segments x elf off ua segs ranges usage m
          else doS (load_segment x elf off seg ua m) (\<lambda>((s, e), u) m.
            load_segments x elf off ua segs (if s \<le> e then ranges @ [(s, e)] else ranges) (usage + u) m))"

definition load_elf ::
  "'m x86 \<Rightarrow> elf_file \<Rightarrow> u64 \<Rightarrow> bool \<Rightarrow> 'm mem \<Rightarrow> (map_error, (page \<times> page) list \<times> u64) res \<times> 'm mem" where
  "load_elf x elf physical_offset user_access m =
     load_segments x elf physical_offset user_access (elf_segments elf) [] 0 m"

section \<open>Mapping an image in place\<close>

text \<open>
  \<open>PhysFrame::range_inclusive(start_frame, end_frame)\<close> for \<open>file_size\<close> bytes from
  \<open>phys_start_addr\<close>, as the frames' distances from the first.
\<close>

definition frame_offsets :: "'m x86 \<Rightarrow> u64 \<Rightarrow> u64 \<Rightarrow> ('e, nat list) res" where
  "frame_offsets x phys_start file_size =
     andThen (addr_plus (x_checked x) (x_phys_ok x) phys_start file_size) (\<lambda>e.
     andThen (addr_minus (x_checked x) (x_phys_ok x) e 1) (\<lambda>l. Ok [0..<Suc (page_of l) - page_of phys_start]))"

primrec map_frames ::
  "'m x86 \<Rightarrow> page \<Rightarrow> page \<Rightarrow> page_flag set \<Rightarrow> nat list \<Rightarrow> 'm mem \<Rightarrow> (map_error, unit) res \<times> 'm mem" where
  "map_frames x start_page start_frame fl [] m = (Ok (), m)"
| "map_frames x start_page start_frame fl (i # is) m =
     andThenS (page_add x start_page i) m (\<lambda>page.
     doS (map_to x page (page_addr (start_frame + i)) fl m) (\<lambda>_ m.
       map_frames x start_page start_frame fl is m))"

text \<open>
  \<open>write_bytes(zero_start, 0, n)\<close> through the page table in use, where physical memory lies
  at its own addresses.
\<close>

primrec virt_zero :: "'m x86 \<Rightarrow> u64 \<Rightarrow> nat \<Rightarrow> 'm mem \<Rightarrow> ('e, unit) res \<times> 'm mem" where
  "virt_zero x a 0 m = (Ok (), m)"
| "virt_zero x a (Suc n) m =
     (case x_translate x (mem_table m) (page_of a) of
        None \<Rightarrow> (Panic, m)
      | Some f \<Rightarrow>
          virt_zero x (a + 1) n (m\<lparr>mem_bytes := (mem_bytes m)(f + (a AND 0xFFF) := 0)\<rparr>))"

text \<open>The last page of the file data gets a copy of its own when zeroes follow on it.\<close>

definition copy_last_page ::
  "'m x86 \<Rightarrow> page \<Rightarrow> u64 \<Rightarrow> page_flag set \<Rightarrow> 'm mem \<Rightarrow> (map_error, unit) res \<times> 'm mem" where
  "copy_last_page x page end_frame fl m =
     doS (take_frame m) (\<lambda>new_frame m.
       let m = m\<lparr>mem_bytes :=
         write_block new_frame 4096 (\<lambda>i. mem_bytes m (end_frame + of_nat i)) (mem_bytes m)\<rparr> in
       (case unmap x page m of
          (Ok f, m) \<Rightarrow> map_to x page new_frame fl m
        | (Err UnmapHugePage, m) \<Rightarrow> (Err ParentEntryHugePage, m)
        | (Err e, m) \<Rightarrow> (Panic, m)
        | (Panic, m) \<Rightarrow> (Panic, m)
        | (Diverge, m) \<Rightarrow> (Diverge, m)))"

definition map_segment ::
  "'m x86 \<Rightarrow> program_header \<Rightarrow> u64 \<Rightarrow> 'm mem \<Rightarrow> (map_error, unit) res \<times> 'm mem" where
  "map_segment x seg start m =
     (case ph_type seg of
        None \<Rightarrow> (Panic, m)
      | Some False \<Rightarrow> (Ok (), m)
      | Some True \<Rightarrow>
     (let mem_size = ph_mem_size seg; file_size = ph_file_size seg; fl = segment_flags seg in
      andThenS (addr_plus (x_checked x) (x_phys_ok x) start (ph_offset seg AND NOT 0xFFF)) m (\<lambda>phys_start.
      andThenS (virt_addr x (ph_virtual_addr seg)) m (\<lambda>virt_start.
      andThenS (frame_offsets x phys_start file_size) m (\<lambda>offsets.
      doS (map_frames x (page_of virt_start) (page_of phys_start) fl offsets m) (\<lambda>_ m.
        if mem_size \<le> file_size then (Ok (), m)
        else
          andThenS (addr_plus (x_checked x) (x_virt_ok x) virt_start file_size) m (\<lambda>zero_start.
          andThenS (addr_plus (x_checked x) (x_virt_ok x) virt_start mem_size) m (\<lambda>zero_end.
          doS (if zero_start AND 0xFFF \<noteq> 0 then
                 andThenS (last_page x virt_start file_size) m (\<lambda>page.
                   copy_last_page x page (page_addr (page_of (phys_start + file_size - 1))) fl m)
               else (Ok (), m)) (\<lambda>_ m.
          andThenS (andThen (align_up zero_start) (virt_addr x)) m (\<lambda>bss_start.
          doS (map_each x fl [page_of bss_start..<Suc (page_of zero_end)] m) (\<lambda>_ m.
            virt_zero x zero_start (unat (mem_size - file_size)) m)))))))))))"

primrec map_segments ::
  "'m x86 \<Rightarrow> u64 \<Rightarrow> program_header list \<Rightarrow> 'm mem \<Rightarrow> (map_error, unit) res \<times> 'm mem" where
  "map_segments x start [] m = (Ok (), m)"
| "map_segments x start (seg # segs) m = doS (map_segment x seg start m) (\<lambda>_ m. map_segments x start segs m)"

definition map_elf :: "'m x86 \<Rightarrow> elf_file \<Rightarrow> 'm mem \<Rightarrow> (map_error, unit) res \<times> 'm mem" where
  "map_elf x elf m =
     (if x_phys_ok x (elf_ptr elf) then map_segments x (elf_ptr elf) (elf_segments elf) m else (Panic, m))"

primrec unmap_frames ::
  "'m x86 \<Rightarrow> page \<Rightarrow> nat list \<Rightarrow> 'm mem \<Rightarrow> (unmap_error, unit) res \<times> 'm mem" where
  "unmap_frames x start_page [] m = (Ok (), m)"
| "unmap_frames x start_page (i # is) m =
     andThenS (page_add x start_page i) m (\<lambda>page.
     doS (unmap x page m) (\<lambda>_ m. unmap_frames x start_page is m))"

definition unmap_segment ::
  "'m x86 \<Rightarrow> program_header \<Rightarrow> u64 \<Rightarrow> 'm mem \<Rightarrow> (unmap_error, unit) res \<times> 'm mem" where
  "unmap_segment x seg kernel_start m =
     (case ph_type seg of
        None \<Rightarrow> (Panic, m)
      | Some False \<Rightarrow> (Ok (), m)
      | Some True \<Rightarrow>
     (let mem_size = ph_mem_size seg; file_size = ph_file_size seg in
      andThenS (addr_plus (x_checked x) (x_phys_ok x) kernel_start (ph_offset seg AND NOT 0xFFF)) m (\<lambda>phys_start.
      andThenS (virt_addr x (ph_virtual_addr seg)) m (\<lambda>virt_start.
      andThenS (frame_offsets x phys_start file_size) m (\<lambda>offsets.
      doS (unmap_frames x (page_of virt_start) offsets m) (\<lambda>_ m.
        if mem_size \<le> file_size then (Ok (), m)
        else
          andThenS (addr_plus (x_checked x) (x_virt_ok x) virt_start file_size) m (\<lambda>zero_start.
          andThenS (addr_plus (x_checked x) (x_virt_ok x) virt_start mem_size) m (\<lambda>zero_end.
          doS (if zero_start AND 0xFFF \<noteq> 0 then
                 andThenS (last_page x virt_start file_size) m (\<lambda>page.
                   doS (unmap x page m) (\<lambda>_ m. (Ok (), m)))
               else (Ok (), m)) (\<lambda>_ m.
          andThenS (andThen (align_up zero_start) (virt_addr x)) m (\<lambda>bss_start.
            unmap_each x False [page_of bss_start..<Suc (page_of zero_end)] m))))))))))"

primrec unmap_segments ::
  "'m x86 \<Rightarrow> u64 \<Rightarrow> program_header list \<Rightarrow> 'm mem \<Rightarrow> (unmap_error, unit) res \<times> 'm mem" where
  "unmap_segments x start [] m = (Ok (), m)"
| "unmap_segments x start (seg # segs) m =
     doS (unmap_segment x seg start m) (\<lambda>_ m. unmap_segments x start segs m)"

definition unmap_elf :: "'m x86 \<Rightarrow> elf_file \<Rightarrow> 'm mem \<Rightarrow> (unmap_error, unit) res \<times> 'm mem" where
  "unmap_elf x elf m =
     (if x_phys_ok x (elf_ptr elf) then unmap_segments x (elf_ptr elf) (elf_segments elf) m else (Panic, m))"

text \<open>
  \<open>map_physical_memory\<close>: 2 MiB pages from \<open>offset\<close> on for the frames up to \<open>max_addr\<close>;
  \<open>big\<close> is the crate's \<open>map_to\<close> for pages of that size, by their numbers.
\<close>

primrec map_big ::
  "'m x86 \<Rightarrow> (nat \<Rightarrow> nat \<Rightarrow> page_flag set \<Rightarrow> 'm mem \<Rightarrow> (map_error, unit) res \<times> 'm mem) \<Rightarrow> u64 \<Rightarrow> nat list
    \<Rightarrow> 'm mem \<Rightarrow> (map_error, unit) res \<times> 'm mem" where
  "map_big x big off [] m = (Ok (), m)"
| "map_big x big off (i # is) m =
     andThenS (virt_addr x (of_nat (i * 0x200000) + off)) m (\<lambda>a.
       (case big (unat a div 0x200000) i {PRESENT, WRITABLE} m of
          (Ok u, m) \<Rightarrow> map_big x big off is m
        | (Err e, m) \<Rightarrow> (Panic, m)
        | (Panic, m) \<Rightarrow> (Panic, m)
        | (Diverge, m) \<Rightarrow> (Diverge, m)))"

definition map_physical_memory ::
  "'m x86 \<Rightarrow> (nat \<Rightarrow> nat \<Rightarrow> page_flag set \<Rightarrow> 'm mem \<Rightarrow> (map_error, unit) res \<times> 'm mem) \<Rightarrow> u64 \<Rightarrow> u64
    \<Rightarrow> 'm mem \<Rightarrow> (map_error, unit) res \<times> 'm mem" where
  "map_physical_memory x big offset max_addr m =
     (if x_phys_ok x max_addr then map_big x big offset [0..<Suc (unat max_addr div 0x200000)] m
      else (Panic, m))"

end
