(* ===== verification/ElfFacts.thy ===== *)
theory ElfFacts
  imports ElfLoad
begin

text \<open>
  Facts about the loops of \<open>load_segment\<close>: what \<open>filled\<close> says of a run over a list of pages,
  that runs compose, and that each loop of the loader is such a run.
\<close>

section \<open>Blocks of memory\<close>

lemma write_block_in: "k < n \<Longrightarrow> k < 2 ^ 64 \<Longrightarrow> write_block at n src bs (at + of_nat k) = src k"
  by (simp add: write_block_def unat_of_nat take_bit_nat_eq_self)

lemma write_block_out: "n \<le> unat (a - at) \<Longrightarrow> write_block at n src bs a = bs a"
  by (simp add: write_block_def)

lemma block_cancel: "f + off + b - (g + off) = (f - g) + (b :: u64)"
  by simp

lemma aligned_diff:
  assumes "4096 dvd unat (f :: u64)" "4096 dvd unat (g :: u64)"
  shows "4096 dvd unat (f - g)"
proof -
  obtain i j where "unat f = 4096 * i" "unat g = 4096 * j" using assms by (auto simp: dvd_def)
  moreover have "f = of_nat (unat f)" "g = of_nat (unat g)" by simp_all
  ultimately have "f = of_nat (4096 * i)" "g = of_nat (4096 * j)" by (simp_all only:)
  moreover define w :: u64 where "w = of_nat i - of_nat j"
  ultimately have "f - g = 4096 * w" unfolding w_def by (simp add: right_diff_distrib)
  then have "unat (f - g) = (4096 * unat w) mod 2 ^ 64" by (simp add: unat_word_ariths)
  then show ?thesis by (simp add: dvd_mod)
qed

lemma aligned_blocks:
  assumes "4096 dvd unat f" "4096 dvd unat g" "f \<noteq> g" "k < 4096"
  shows "4096 \<le> unat (f + off + of_nat k - (g + off :: u64))"
proof -
  obtain q where q: "unat (f - g) = 4096 * q" using aligned_diff [OF assms(1, 2)] by (auto simp: dvd_def)
  have "unat (f - g) \<noteq> 0" using assms(3) by (simp add: unat_eq_0)
  then have "q \<noteq> 0" using q by auto
  have "unat (f - g) < 2 ^ 64" using unsigned_less [where ?'a = nat, of "f - g"] by simp
  then have "q < 2 ^ 52" using q by simp
  then have "4096 * q + k < 2 ^ 64" using assms(4) by simp
  then have "unat ((f - g) + of_nat k) = 4096 * q + k"
    using q assms(4) by (subst unat_add_lem [THEN iffD1]) (simp_all add: unat_of_nat take_bit_nat_eq_self)
  then show ?thesis using \<open>q \<noteq> 0\<close> unfolding block_cancel by simp
qed

section \<open>Filled pages\<close>

definition frames_ok :: "'m mem \<Rightarrow> bool" where
  "frames_ok m \<longleftrightarrow>
     (\<forall>f. count (fa_avail (mem_frames m)) f \<le> 1) \<and> (\<forall>f\<in>#fa_avail (mem_frames m). 4096 dvd unat f)"

text \<open>
  The pages \<open>ps\<close> have been mapped to frames \<open>fs\<close> of the allocator, byte \<open>k\<close> of page \<open>p\<close> is
  \<open>c p k\<close>, and nothing outside these frames has been written.
\<close>

definition filled ::
  "'m lookup \<Rightarrow> u64 \<Rightarrow> page_flag set \<Rightarrow> (page \<Rightarrow> nat \<Rightarrow> u8) \<Rightarrow> page list \<Rightarrow> 'm mem \<Rightarrow> 'm mem \<Rightarrow> bool" where
  "filled look off fl c ps m m' \<longleftrightarrow>
     (\<exists>fs ts. length fs = length ps \<and>
        look (mem_table m') = look (mem_table m) ++ mapped_to ps fs fl \<and>
        fa_avail (mem_frames m) = mset fs + mset ts + fa_avail (mem_frames m') \<and>
        (\<forall>j<length ps. \<forall>k<4096. mem_bytes m' (fs ! j + off + of_nat k) = c (ps ! j) k) \<and>
        (\<forall>a. (\<forall>f\<in>set fs. 4096 \<le> unat (a - (f + off))) \<longrightarrow> mem_bytes m' a = mem_bytes m a))"

lemma filled_Nil: "filled look off fl c [] m m"
  unfolding filled_def by (intro exI [of _ "[]"]) simp

lemma filled_frames_ok:
  assumes "filled look off fl c ps m m'" "frames_ok m"
  shows "frames_ok m'"
proof -
  obtain us where us: "fa_avail (mem_frames m) = us + fa_avail (mem_frames m')"
    using assms(1) by (auto simp: filled_def)
  have "count (fa_avail (mem_frames m')) f \<le> 1" for f
  proof -
    have "count (fa_avail (mem_frames m)) f \<le> 1" using assms(2) by (simp add: frames_ok_def)
    with us show ?thesis by simp
  qed
  with us assms(2) show ?thesis by (auto simp: frames_ok_def)
qed

lemma filled_unmapped:
  assumes "filled look off fl c ps m m'" "p \<notin> set ps"
  shows "look (mem_table m') p = look (mem_table m) p"
  using assms by (auto simp: filled_def map_add_def mapped_to_notin)

lemma mapped_to_dom: "dom (mapped_to ps fs fl) \<subseteq> set ps"
  using mapped_to_notin by fastforce

lemma mapped_to_append:
  assumes "length fs = length ps" "set ps \<inter> set qs = {}"
  shows "mapped_to ps fs fl ++ mapped_to qs gs fl = mapped_to (ps @ qs) (fs @ gs) fl"
proof -
  have "dom (mapped_to ps fs fl) \<inter> dom (mapped_to qs gs fl) = {}"
    using assms(2) mapped_to_dom [of ps fs fl] mapped_to_dom [of qs gs fl] by blast
  then have "mapped_to ps fs fl ++ mapped_to qs gs fl = mapped_to qs gs fl ++ mapped_to ps fs fl"
    by (rule map_add_comm)
  also have "\<dots> = mapped_to (ps @ qs) (fs @ gs) fl" using assms(1) by (simp add: mapped_to_def)
  finally show ?thesis .
qed

lemma filled_append:
  assumes "filled look off fl c ps m m1" "filled look off fl c qs m1 m2" "frames_ok m"
    and "set ps \<inter> set qs = {}"
  shows "filled look off fl c (ps @ qs) m m2"
proof -
  obtain fs ts where 1: "length fs = length ps"
      "look (mem_table m1) = look (mem_table m) ++ mapped_to ps fs fl"
      "fa_avail (mem_frames m) = mset fs + mset ts + fa_avail (mem_frames m1)"
      "\<forall>j<length ps. \<forall>k<4096. mem_bytes m1 (fs ! j + off + of_nat k) = c (ps ! j) k"
      "\<forall>a. (\<forall>f\<in>set fs. 4096 \<le> unat (a - (f + off))) \<longrightarrow> mem_bytes m1 a = mem_bytes m a"
    using assms(1) by (auto simp: filled_def)
  obtain gs us where 2: "length gs = length qs"
      "look (mem_table m2) = look (mem_table m1) ++ mapped_to qs gs fl"
      "fa_avail (mem_frames m1) = mset gs + mset us + fa_avail (mem_frames m2)"
      "\<forall>j<length qs. \<forall>k<4096. mem_bytes m2 (gs ! j + off + of_nat k) = c (qs ! j) k"
      "\<forall>a. (\<forall>f\<in>set gs. 4096 \<le> unat (a - (f + off))) \<longrightarrow> mem_bytes m2 a = mem_bytes m1 a"
    using assms(2) by (auto simp: filled_def)
  have avail: "fa_avail (mem_frames m) = mset (fs @ gs) + mset (ts @ us) + fa_avail (mem_frames m2)"
    using 1(3) 2(3) by simp
  have apart: "4096 \<le> unat (f + off + of_nat k - (g + off))" if "f \<in> set fs" "g \<in> set gs" "k < 4096" for f g k
  proof (rule aligned_blocks)
    have "f \<in># fa_avail (mem_frames m)" "g \<in># fa_avail (mem_frames m)" using that avail by simp_all
    then show "4096 dvd unat f" "4096 dvd unat g" using assms(3) by (simp_all add: frames_ok_def)
    show "f \<noteq> g"
    proof
      assume "f = g"
      then have "0 < count (mset fs) f" "0 < count (mset gs) f" using that by (simp_all add: count_mset_gt_0)
      moreover have "count (fa_avail (mem_frames m)) f \<le> 1" using assms(3) by (simp add: frames_ok_def)
      moreover have "count (mset fs) f + count (mset gs) f \<le> count (fa_avail (mem_frames m)) f"
        unfolding avail by simp
      ultimately show False by linarith
    qed
  qed (use that in simp)
  have "mem_bytes m2 ((fs @ gs) ! j + off + of_nat k) = c ((ps @ qs) ! j) k"
    if "j < length (ps @ qs)" "k < 4096" for j k
  proof (cases "j < length ps")
    case True
    then have "fs ! j \<in> set fs" using 1(1) by simp
    then have "mem_bytes m2 (fs ! j + off + of_nat k) = mem_bytes m1 (fs ! j + off + of_nat k)"
      using 2(5) apart that(2) by simp
    then show ?thesis using True 1(1, 4) that(2) by (simp add: nth_append)
  next
    case False
    with that 1(1) 2(1, 4) show ?thesis by (simp add: nth_append)
  qed
  moreover have "look (mem_table m2) = look (mem_table m) ++ mapped_to (ps @ qs) (fs @ gs) fl"
    unfolding 2(2) 1(2) using mapped_to_append [OF 1(1) assms(4), of fl gs] by (simp flip: map_add_assoc)
  moreover have "\<forall>a. (\<forall>f\<in>set (fs @ gs). 4096 \<le> unat (a - (f + off))) \<longrightarrow> mem_bytes m2 a = mem_bytes m a"
    using 1(5) 2(5) by simp
  moreover have "length (fs @ gs) = length (ps @ qs)" using 1(1) 2(1) by simp
  ultimately show ?thesis unfolding filled_def using avail by blast
qed

lemma filled_Cons:
  assumes "filled look off fl c [p] m m1" "filled look off fl c ps m1 m2" "frames_ok m" "p \<notin> set ps"
  shows "filled look off fl c (p # ps) m m2"
  using filled_append [OF assms(1, 2, 3)] assms(4) by simp

lemma filled_single:
  assumes "look (mem_table m') = (look (mem_table m))(p \<mapsto> (f, fl))"
    and "fa_avail (mem_frames m) = add_mset f (mset ts + fa_avail (mem_frames m'))"
    and "\<And>k. k < 4096 \<Longrightarrow> mem_bytes m' (f + off + of_nat k) = c p k"
    and "\<And>a. 4096 \<le> unat (a - (f + off)) \<Longrightarrow> mem_bytes m' a = mem_bytes m a"
  shows "filled look off fl c [p] m m'"
  unfolding filled_def
  by (rule exI [of _ "[f]"], rule exI [of _ ts]) (use assms in simp)

text \<open>What a filled run says of one of its pages.\<close>

lemma filled_page:
  assumes "filled look off fl c ps m m'" "distinct ps" "p \<in> set ps"
  shows "\<exists>f. look (mem_table m') p = Some (f, fl) \<and> (\<forall>k<4096. mem_bytes m' (f + off + of_nat k) = c p k)"
proof -
  obtain j where j: "j < length ps" "p = ps ! j" using assms(3) by (metis in_set_conv_nth)
  from assms(1) obtain fs where fs: "length fs = length ps"
      "look (mem_table m') = look (mem_table m) ++ mapped_to ps fs fl"
      "\<forall>j<length ps. \<forall>k<4096. mem_bytes m' (fs ! j + off + of_nat k) = c (ps ! j) k"
    by (auto simp: filled_def)
  have "mapped_to ps fs fl p = Some (fs ! j, fl)"
    unfolding j(2) using assms(2) fs(1) j(1) by (rule mapped_to_nth)
  with fs j show ?thesis by auto
qed

lemma filled_congI:
  assumes "filled look off fl c ps m m'" "\<And>p k. p \<in> set ps \<Longrightarrow> k < 4096 \<Longrightarrow> c p k = d p k"
  shows "filled look off fl d ps m m'"
proof -
  from assms(1) obtain fs ts where "length fs = length ps"
      "look (mem_table m') = look (mem_table m) ++ mapped_to ps fs fl"
      "fa_avail (mem_frames m) = mset fs + mset ts + fa_avail (mem_frames m')"
      "\<forall>j<length ps. \<forall>k<4096. mem_bytes m' (fs ! j + off + of_nat k) = c (ps ! j) k"
      "\<forall>a. (\<forall>f\<in>set fs. 4096 \<le> unat (a - (f + off))) \<longrightarrow> mem_bytes m' a = mem_bytes m a"
    unfolding filled_def by blast
  then show ?thesis unfolding filled_def using assms(2)
    by (rule_tac exI [of _ fs], rule_tac exI [of _ ts]) simp
qed

section \<open>The loops of the loader\<close>

text \<open>Byte \<open>k\<close> of page number \<open>idx\<close> of the file data.\<close>

definition file_byte :: "(u64 \<Rightarrow> u8) \<Rightarrow> program_header \<Rightarrow> nat \<Rightarrow> nat \<Rightarrow> u8" where
  "file_byte input seg idx k =
     (let left = ph_file_size seg - of_nat idx * 4096 in
      if k < unat (min left 4096) then input (ph_offset seg + of_nat idx * 4096 + of_nat k) else 0)"

lemma page_write:
  assumes "n \<le> 4096" "k < 4096"
  shows "(if n < 4096 then write_block (b + n) (unat (4096 - n)) (\<lambda>i. 0) (write_block b (unat n) src bs)
      else write_block b (unat n) src bs) (b + of_nat k) = (if k < unat n then src k else (0 :: u8))"
proof (cases "k < unat n")
  case True
  have "n \<noteq> 0" using True by auto
  have n: "unat n \<le> 4096" using assms(1) by (simp add: word_le_nat_alt)
  have "(of_nat k :: u64) < n" using True assms(2)
    by (simp add: word_less_nat_alt unat_of_nat take_bit_nat_eq_self)
  then have "unat (of_nat k - n) = 2 ^ 64 + k - unat n"
    using n assms(2) True
    by (simp add: unat_sub_if_size word_size unat_of_nat take_bit_nat_eq_self not_le [symmetric])
  then have "unat (4096 - n) \<le> unat (b + of_nat k - (b + n))"
    using n assms(1) by (simp add: unat_sub)
  with True assms show ?thesis by (simp add: write_block_out write_block_in)
next
  case False
  have n: "unat n \<le> 4096" using assms(1) by (simp add: word_le_nat_alt)
  have lt: "n < 4096" using False assms(2) n by (simp add: word_less_nat_alt)
  have le: "n \<le> of_nat k" using False assms(2)
    by (simp add: word_le_nat_alt unat_of_nat take_bit_nat_eq_self)
  then have "unat (of_nat k - n) = k - unat n"
    using assms(2) by (simp add: unat_sub unat_of_nat take_bit_nat_eq_self)
  moreover have "unat (4096 - n) = 4096 - unat n" using lt by (simp add: unat_sub)
  moreover have "k - unat n < 4096 - unat n" using False assms(2) by arith
  ultimately have "write_block (b + n) (unat (4096 - n)) (\<lambda>i. 0) cs (b + of_nat k) = 0" for cs :: "u64 \<Rightarrow> u8"
    using False assms(2) by (simp add: write_block_def)
  with False lt show ?thesis by simp
qed

lemma page_write_out:
  assumes "n \<le> 4096" "4096 \<le> unat (a - b)"
  shows "(if n < 4096 then write_block (b + n) (unat (4096 - n)) (\<lambda>i. 0) (write_block b (unat n) src bs)
      else write_block b (unat n) src bs) a = (bs a :: u8)"
proof -
  have n: "unat n \<le> 4096" using assms(1) by (simp add: word_le_nat_alt)
  have "n \<le> a - b" using n assms(2) by (simp add: word_le_nat_alt)
  then have "unat (a - b - n) = unat (a - b) - unat n" by (rule unat_sub)
  moreover have "unat (4096 - n) = 4096 - unat n" using assms(1) by (simp add: unat_sub)
  ultimately have "unat (4096 - n) \<le> unat (a - (b + n))" using assms(2) by (simp add: diff_diff_eq)
  then show ?thesis using n assms(2) by (simp add: write_block_out)
qed

lemma load_page_filled:
  assumes "mapper_laws x look" "look (mem_table m) p = None"
    and "load_page x off input seg fl idx p m = (Ok (), m')"
  shows "filled look off fl (\<lambda>q. file_byte input seg idx) [p] m m'"
proof (cases rule: take_frame_cases [of m])
  case none
  with assms(3) show ?thesis by (simp add: load_page_def)
next
  case (some f m1)
  define left where "left = ph_file_size seg - of_nat idx * 4096"
  define n where "n = (if left < 4096 then left else 4096)"
  define src where "src = (\<lambda>i. input (ph_offset seg + of_nat idx * 4096 + of_nat i))"
  define bytes where "bytes = (if n < 4096
    then write_block (f + off + n) (unat (4096 - n)) (\<lambda>i. 0) (write_block (f + off) (unat n) src (mem_bytes m1))
    else write_block (f + off) (unat n) src (mem_bytes m1))"
  have n: "n \<le> 4096" "n = min left 4096" by (auto simp: n_def min_def)
  have "map_to x p f fl (m1\<lparr>mem_bytes := bytes\<rparr>) = (Ok (), m')"
    using assms(3) unfolding load_page_def some(1) thenS.simps Let_def bytes_def n_def left_def src_def .
  moreover have "look (mem_table (m1\<lparr>mem_bytes := bytes\<rparr>)) p = None" using some assms(2) by simp
  from map_to_unmapped [OF assms(1) this, of f fl] obtain r m2 ts where
    "map_to x p f fl (m1\<lparr>mem_bytes := bytes\<rparr>) = (r, m2)" "mem_bytes m2 = bytes"
    "fa_avail (mem_frames m1) = mset ts + fa_avail (mem_frames m2)"
    "r = Ok () \<and> look (mem_table m2) = (look (mem_table m1))(p \<mapsto> (f, fl)) \<or>
      (\<exists>e. r = Err e) \<and> look (mem_table m2) = look (mem_table m1)" by auto
  ultimately have m': "mem_bytes m' = bytes" "fa_avail (mem_frames m1) = mset ts + fa_avail (mem_frames m')"
    "look (mem_table m') = (look (mem_table m))(p \<mapsto> (f, fl))" using some by auto
  show ?thesis
  proof (rule filled_single [of look m' m p f fl ts])
    fix k :: nat assume "k < 4096"
    then show "mem_bytes m' (f + off + of_nat k) = file_byte input seg idx k"
      unfolding m'(1) bytes_def page_write [OF n(1) \<open>k < 4096\<close>]
      by (simp add: file_byte_def src_def n(2) left_def)
  next
    fix a assume "4096 \<le> unat (a - (f + off))"
    then show "mem_bytes m' a = mem_bytes m a"
      unfolding m'(1) bytes_def some(3) [symmetric] by (rule page_write_out [OF n(1)])
  qed (use m' some in simp_all)
qed

lemma load_pages_filled:
  "mapper_laws x look \<Longrightarrow> frames_ok m \<Longrightarrow>
    \<forall>p. s \<le> p \<and> p < e \<longrightarrow> look (mem_table m) p = None \<Longrightarrow>
    load_pages x off input seg fl (s - s0) [s..<e] m = (Ok (), m') \<Longrightarrow> s0 \<le> s \<Longrightarrow>
    filled look off fl (\<lambda>p. file_byte input seg (p - s0)) [s..<e] m m'"
proof (induction "e - s" arbitrary: s m)
  case 0
  then show ?case by (auto intro: filled_Nil)
next
  case (Suc d)
  then have upt: "[s..<e] = s # [Suc s..<e]" by (simp add: upt_conv_Cons)
  from Suc.prems(4) obtain m1 where m1: "load_page x off input seg fl (s - s0) s m = (Ok (), m1)"
    "load_pages x off input seg fl (Suc s - s0) [Suc s..<e] m1 = (Ok (), m')"
    using Suc.prems(5) unfolding upt by (auto simp: thenS_eq_Ok Suc_diff_le)
  have "look (mem_table m) s = None" using Suc.prems(3) Suc.hyps(2) by simp
  from load_page_filled [OF Suc.prems(1) this m1(1)]
  have f1: "filled look off fl (\<lambda>p. file_byte input seg (p - s0)) [s] m m1"
    by (rule filled_congI) simp
  have "\<forall>p. Suc s \<le> p \<and> p < e \<longrightarrow> look (mem_table m1) p = None"
    using Suc.prems(3) filled_unmapped [OF f1] by simp
  then have "filled look off fl (\<lambda>p. file_byte input seg (p - s0)) [Suc s..<e] m1 m'"
    using Suc.hyps Suc.prems m1(2) filled_frames_ok [OF f1] by simp
  then show ?case unfolding upt by (rule filled_Cons [OF f1 _ Suc.prems(2)]) simp
qed

lemma load_bss_filled:
  "mapper_laws x look \<Longrightarrow> frames_ok m \<Longrightarrow> distinct ps \<Longrightarrow>
    \<forall>p\<in>set ps. look (mem_table m) p = None \<Longrightarrow> load_bss x off fl ps m = (Ok (), m') \<Longrightarrow>
    filled look off fl (\<lambda>p k. 0) ps m m'"
proof (induction ps arbitrary: m)
  case Nil
  then show ?case by (auto intro: filled_Nil)
next
  case (Cons p ps)
  have unm: "look (mem_table m) p = None" using Cons.prems(4) by simp
  then have tr: "x_translate x (mem_table m) p = None" by (simp add: translate_look [OF Cons.prems(1)])
  show ?case
  proof (cases rule: take_frame_cases [of m])
    case none
    with Cons.prems(5) tr show ?thesis by simp
  next
    case (some f m1)
    have "look (mem_table m1) p = None" using some unm by simp
    from map_to_unmapped [OF Cons.prems(1) this, of f fl] obtain r m2 ts where m2:
      "map_to x p f fl m1 = (r, m2)" "mem_bytes m2 = mem_bytes m1"
      "fa_avail (mem_frames m1) = mset ts + fa_avail (mem_frames m2)"
      "r = Ok () \<and> look (mem_table m2) = (look (mem_table m1))(p \<mapsto> (f, fl)) \<or>
        (\<exists>e. r = Err e) \<and> look (mem_table m2) = look (mem_table m1)" by blast
    then have ok: "r = Ok ()" "look (mem_table m2) = (look (mem_table m1))(p \<mapsto> (f, fl))"
      using Cons.prems(5) tr some by auto
    let ?m = "m2\<lparr>mem_bytes := write_block (f + off) 4096 (\<lambda>i. 0) (mem_bytes m2)\<rparr>"
    have rest: "load_bss x off fl ps ?m = (Ok (), m')" using Cons.prems(5) tr some m2(1) ok by simp
    have f1: "filled look off fl (\<lambda>p k. 0) [p] m ?m"
      by (rule filled_single [of look ?m m p f fl ts]) (use some m2 ok in \<open>simp_all add: write_block_in write_block_out\<close>)
    have "\<forall>q\<in>set ps. look (mem_table ?m) q = None"
    proof
      fix q assume "q \<in> set ps"
      moreover from this have "q \<notin> set [p]" using Cons.prems(3) by auto
      ultimately show "look (mem_table ?m) q = None" using filled_unmapped [OF f1] Cons.prems(4) by simp
    qed
    with Cons.IH [OF Cons.prems(1) filled_frames_ok [OF f1 Cons.prems(2)]] Cons.prems(3) rest
    show ?thesis by (auto intro: filled_Cons [OF f1 _ Cons.prems(2)])
  qed
qed

section \<open>A whole segment\<close>

lemma last_page_Ok:
  assumes "last_page x a n = Ok p" "0 < n" "unat a + unat n < 2 ^ 64"
  shows "p = (unat a + unat n - 1) div 4096"
proof -
  from assms(1) have p: "p = page_of (a + n - 1)"
    by (auto simp: last_page_def addr_plus_def addr_minus_def andThen_eq_Ok split: if_splits)
  have "unat (a + n) = unat a + unat n" using assms(3) by (simp add: unat_word_ariths)
  moreover have "0 < unat n" using assms(2) by (simp add: unat_gt_0)
  ultimately have "unat (a + n - 1) = unat a + unat n - 1" by (subst unat_minus_one) (auto simp: unat_eq_0 [symmetric])
  then show "p = (unat a + unat n - 1) div 4096" by (simp add: p page_of_def)
qed

lemma align_up_Ok:
  assumes "align_up a = Ok c"
  shows "unat c = (unat a + 4095) div 4096 * 4096"
proof -
  define n where "n = (unat a + 4095) div 4096 * 4096"
  have "n < 2 ^ 64" "c = of_nat n"
    using assms unfolding align_up_def n_def [symmetric] Let_def by (simp_all split: if_splits)
  then have "unat c = n" by (simp add: unat_of_nat take_bit_nat_eq_self)
  then show ?thesis by (simp only: n_def)
qed

text \<open>Byte \<open>k\<close> of page \<open>p\<close> of a segment that starts at page \<open>s\<close>.\<close>

definition image_byte :: "elf_file \<Rightarrow> program_header \<Rightarrow> page \<Rightarrow> page \<Rightarrow> nat \<Rightarrow> u8" where
  "image_byte elf seg s p k =
     (let i = (p - s) * 4096 + k in
      if i < unat (ph_file_size seg) then elf_input elf (ph_offset seg + of_nat i) else 0)"

lemma file_byte_image:
  assumes "idx * 4096 < unat (ph_file_size seg)" "k < 4096" "idx = p - s"
  shows "file_byte (elf_input elf) seg idx k = image_byte elf seg s p k"
proof -
  have F: "unat (ph_file_size seg) < 2 ^ 64" using unsigned_less [where ?'a = nat, of "ph_file_size seg"] by simp
  then have i: "unat (of_nat idx * 4096 :: u64) = idx * 4096"
    using assms(1) by (simp add: unat_word_ariths unat_of_nat take_bit_nat_eq_self)
  then have "unat (ph_file_size seg - of_nat idx * 4096) = unat (ph_file_size seg) - idx * 4096"
    using assms(1) by (subst unat_sub) (simp_all add: word_le_nat_alt)
  then have "k < unat (min (ph_file_size seg - of_nat idx * 4096) 4096) \<longleftrightarrow>
      idx * 4096 + k < unat (ph_file_size seg)"
    using assms(1, 2) by (auto simp: min_def word_le_nat_alt)
  then show ?thesis by (simp add: file_byte_def image_byte_def Let_def assms(3) [symmetric] add.assoc)
qed

lemma round_up: "((n :: nat) + 4095) div 4096 = (if n = 0 then 0 else Suc ((n - 1) div 4096))"
proof (cases n)
  case (Suc m)
  then have "n + 4095 = m + 4096" by simp
  then show ?thesis using Suc by simp
qed simp

lemma load_segment_filled:
  assumes laws: "mapper_laws x look" and ok: "frames_ok m"
    and aligned: "unat (ph_virtual_addr seg) = 4096 * s"
    and sizes: "ph_file_size seg \<le> ph_mem_size seg" "0 < ph_mem_size seg"
    and e: "e = s + (unat (ph_mem_size seg) - 1) div 4096"
    and fits: "4096 * s + unat (ph_mem_size seg) < 2 ^ 64"
    and unmapped: "\<forall>p. s \<le> p \<and> p \<le> e \<longrightarrow> look (mem_table m) p = None"
    and run: "load_segment x elf off seg ua m = (Ok (r, u), m')"
  shows "r = (s, e) \<and> u = of_nat (Suc e - s) * 4096 \<and>
    filled look off (segment_flags seg \<union> (if ua then {USER_ACCESSIBLE} else {}))
      (image_byte elf seg s) [s..<Suc e] m m'"
proof -
  define fl where "fl = segment_flags seg \<union> (if ua then {USER_ACCESSIBLE} else {})"
  define F where "F = unat (ph_file_size seg)"
  define M where "M = unat (ph_mem_size seg)"
  define pb where "pb = s + (F + 4095) div 4096"
  let ?v = "ph_virtual_addr seg"
  have FM: "F \<le> M" "0 < M" using sizes by (simp_all add: F_def M_def word_le_nat_alt word_less_nat_alt)
  have page: "page_of ?v = s" by (simp add: page_of_def aligned)
  obtain v u1 m1 u2 m2 l where
    v: "(virt_addr x ?v :: (map_error, u64) res) = Ok v"
    and fpart0: "(if 0 < ph_file_size seg then andThenS (last_page x v (ph_file_size seg)) m (\<lambda>data_end.
        load_pages x off (elf_input elf) seg fl 0 [page_of v..<Suc data_end] m) else (Ok (), m)) = (Ok u1, m1)"
    and bss0: "(if ph_file_size seg < ph_mem_size seg then
        andThenS (addr_plus (x_checked x) (x_virt_ok x) v (ph_file_size seg)) m1 (\<lambda>bss_start.
        andThenS (andThen (align_up bss_start) (virt_addr x)) m1 (\<lambda>bss_aligned.
        andThenS (last_page x v (ph_mem_size seg)) m1 (\<lambda>bss_end.
          load_bss x off fl [page_of bss_aligned..<Suc bss_end] m1))) else (Ok (), m1)) = (Ok u2, m2)"
    and l0: "(last_page x v (ph_mem_size seg) :: (map_error, page) res) = Ok l"
      "(Ok ((page_of v, l), of_nat (Suc l - page_of v) * 4096), m2) = (Ok (r, u), m')"
    using run unfolding load_segment_def Let_def andThenS_eq_Ok thenS_eq_Ok fl_def by blast
  have v': "v = ?v" using v by (simp add: virt_addr_def split: if_splits)
  have eqs: "u1 = ()" "u2 = ()" "m2 = m'" "r = (s, l)" "u = of_nat (Suc l - s) * 4096"
    using l0(2) by (simp_all add: v' page)
  have fpart: "(if 0 < ph_file_size seg then andThenS (last_page x ?v (ph_file_size seg)) m (\<lambda>data_end.
        load_pages x off (elf_input elf) seg fl 0 [s..<Suc data_end] m) else (Ok (), m)) = (Ok (), m1)"
    and bss: "(if ph_file_size seg < ph_mem_size seg then
        andThenS (addr_plus (x_checked x) (x_virt_ok x) ?v (ph_file_size seg)) m1 (\<lambda>bss_start.
        andThenS (andThen (align_up bss_start) (virt_addr x)) m1 (\<lambda>bss_aligned.
        andThenS (last_page x ?v (ph_mem_size seg)) m1 (\<lambda>bss_end.
          load_bss x off fl [page_of bss_aligned..<Suc bss_end] m1))) else (Ok (), m1)) = (Ok (), m')"
    and l: "(last_page x ?v (ph_mem_size seg) :: (map_error, page) res) = Ok l" "r = (s, l)" "u = of_nat (Suc l - s) * 4096"
    using fpart0 bss0 l0(1) eqs(4, 5) unfolding v' page eqs(1-3) .
  have lt: "4096 * s + M < 2 ^ 64" using fits by (simp add: M_def)
  have le: "l = e" using last_page_Ok [OF l(1) sizes(2)] lt FM(2) by (simp add: aligned M_def e)
  have pb: "s \<le> pb" "pb \<le> Suc e"
    using FM by (auto simp: pb_def e round_up M_def [symmetric] intro!: div_le_mono)
  have fpages: "filled look off fl (image_byte elf seg s) [s..<pb] m m1"
  proof (cases "ph_file_size seg = 0")
    case True
    then show ?thesis using fpart by (simp add: pb_def F_def filled_Nil)
  next
    case False
    then have F: "0 < ph_file_size seg" "0 < F" by (simp_all add: word_neq_0_conv F_def unat_gt_0)
    from fpart F obtain d where d: "(last_page x ?v (ph_file_size seg) :: (map_error, page) res) = Ok d"
      "load_pages x off (elf_input elf) seg fl 0 [s..<Suc d] m = (Ok (), m1)"
      by (auto simp: andThenS_eq_Ok simp del: upt_Suc)
    have "Suc d = pb"
      using last_page_Ok [OF d(1) F(1)] F(2) lt FM(1) by (simp add: pb_def aligned F_def [symmetric] round_up)
    with d(2) have run1: "load_pages x off (elf_input elf) seg fl (s - s) [s..<pb] m = (Ok (), m1)" by simp
    have "\<forall>p. s \<le> p \<and> p < pb \<longrightarrow> look (mem_table m) p = None" using unmapped pb(2) by simp
    from load_pages_filled [OF laws ok this run1] show ?thesis
    proof (rule filled_congI)
      fix p k :: nat assume "p \<in> set [s..<pb]" "k < 4096"
      then have "p - s < (F + 4095) div 4096" by (auto simp: pb_def)
      then have "(p - s) * 4096 < F" using F(2) by (simp add: round_up less_Suc_eq_le)
      then show "file_byte (elf_input elf) seg (p - s) k = image_byte elf seg s p k"
        using \<open>k < 4096\<close> by (intro file_byte_image) (simp_all add: F_def)
    qed simp
  qed
  have ok1: "frames_ok m1" by (rule filled_frames_ok [OF fpages ok])
  have bpages: "filled look off fl (image_byte elf seg s) [pb..<Suc e] m1 m'"
  proof (cases "ph_file_size seg < ph_mem_size seg")
    case False
    then have "F = M" using FM by (simp add: F_def M_def word_less_nat_alt)
    then have "pb = Suc e" using FM(2) by (simp add: pb_def e round_up M_def)
    moreover have "m' = m1" using False bss by simp
    ultimately show ?thesis by (simp add: filled_Nil)
  next
    case True
    from bss True obtain b c d where b: "(addr_plus (x_checked x) (x_virt_ok x) ?v (ph_file_size seg) :: (map_error, u64) res) = Ok b"
      "(align_up b :: (map_error, u64) res) = Ok c"
      "(last_page x ?v (ph_mem_size seg) :: (map_error, page) res) = Ok d"
      "load_bss x off fl [page_of c..<Suc d] m1 = (Ok (), m')"
      by (auto simp: andThenS_eq_Ok andThen_eq_Ok virt_addr_def split: if_splits simp del: upt_Suc)
    have "d = e" using b(3) l(1) le by simp
    have "unat b = 4096 * s + F"
      using b(1) lt FM by (auto simp: addr_plus_def unat_word_ariths aligned F_def split: if_splits)
    then have "unat c = (4096 * s + F + 4095) div 4096 * 4096"
      using align_up_Ok [OF b(2)] by simp
    then have "page_of c = pb" by (simp add: page_of_def pb_def)
    with b(4) \<open>d = e\<close> have run2: "load_bss x off fl [pb..<Suc e] m1 = (Ok (), m')" by simp
    have "\<forall>p\<in>set [pb..<Suc e]. look (mem_table m1) p = None"
      using unmapped pb(1) filled_unmapped [OF fpages] by (auto simp del: upt_Suc)
    from load_bss_filled [OF laws ok1 _ this run2] show ?thesis
    proof (rule filled_congI)
      fix p k :: nat assume "p \<in> set [pb..<Suc e]"
      then have "(F + 4095) div 4096 \<le> p - s" by (auto simp: pb_def)
      then have "F \<le> (p - s) * 4096" by (auto simp: round_up split: if_splits)
      then show "0 = image_byte elf seg s p k" by (simp add: image_byte_def Let_def F_def)
    qed simp
  qed
  have "[s..<pb] @ [pb..<Suc e] = [s..<Suc e]" using pb by (metis upt_add_eq_append le_add_diff_inverse)
  with filled_append [OF fpages bpages ok] l le show ?thesis by (simp add: fl_def del: upt_Suc)
qed

end
