(* ===== verification/MemSpec.thy ===== *)
theory MemSpec
  imports ElfFacts
begin

text \<open>
  The properties of the frame allocator, of mapping ranges of pages and of the ELF loader, and
  a mapper over a plain map on which they are exercised.
\<close>

section \<open>A concrete mapper\<close>

text \<open>Page tables as a map; no frame is taken for tables, addresses are canonical 48-bit ones.\<close>

type_synonym flat = "page \<Rightarrow> (frame \<times> page_flag set) option"

definition flat_x86 :: "flat x86" where
  "flat_x86 =
     \<lparr>x_virt_ok = \<lambda>a. a < 0x800000000000 \<or> 0xFFFF800000000000 \<le> a,
      x_phys_ok = \<lambda>a. a < 0x10000000000000, x_checked = True,
      x_map_to = \<lambda>p f fl tab fa.
        (case tab p of
           None \<Rightarrow> (Ok (), tab(p \<mapsto> (f, fl)), fa)
         | Some (g, _) \<Rightarrow> (Err (PageAlreadyMapped g), tab, fa)),
      x_unmap = \<lambda>p tab.
        (case tab p of Some (f, _) \<Rightarrow> (Ok f, tab(p := None)) | None \<Rightarrow> (Err PageNotMapped, tab)),
      x_translate = \<lambda>tab p. map_option fst (tab p)\<rparr>"

definition flat_look :: "flat lookup" where "flat_look tab = tab"

lemma flat_laws: "mapper_laws flat_x86 flat_look"
  unfolding mapper_laws_def
proof (intro conjI allI impI)
  fix tab :: flat and p f fl fa
  show "x_translate flat_x86 tab p = map_option fst (flat_look tab p)"
    by (simp add: flat_x86_def flat_look_def)
  show "\<exists>e tab'. x_map_to flat_x86 p f fl tab fa = (Err e, tab', fa) \<and> flat_look tab' = flat_look tab"
    if "flat_look tab p \<noteq> None" using that by (auto simp: flat_x86_def flat_look_def)
  show "\<exists>r tab' fa' ts. x_map_to flat_x86 p f fl tab fa = (r, tab', fa') \<and>
      fa_avail fa = mset ts + fa_avail fa' \<and>
      (r = Ok () \<and> flat_look tab' = (flat_look tab)(p \<mapsto> (f, fl)) \<or>
       (\<exists>e. r = Err e) \<and> flat_look tab' = flat_look tab)" if "flat_look tab p = None"
    using that by (auto simp: flat_x86_def flat_look_def intro!: exI [of _ "[]"])
  show "\<exists>tab'. x_unmap flat_x86 p tab = (Ok f, tab') \<and> flat_look tab' = (flat_look tab)(p := None)"
    if "flat_look tab p = Some (f, fl)" using that by (simp add: flat_x86_def flat_look_def)
  show "\<exists>e. x_unmap flat_x86 p tab = (Err e, tab)" if "flat_look tab p = None"
    using that by (simp add: flat_x86_def flat_look_def)
qed

definition flat_mem :: "flat \<Rightarrow> frame list \<Rightarrow> flat mem" where
  "flat_mem tab fs =
     \<lparr>mem_table = tab,
      mem_frames = \<lparr>fa_size = 8, fa_used = 0, fa_frames = fs, fa_recycled = []\<rparr>,
      mem_bytes = \<lambda>a. 0xCC\<rparr>"

lemmas flat_simps = flat_x86_def flat_mem_def take_frame_def allocate_frame_def map_to_def unmap_def
  deallocate_frame_def virt_addr_def page_add_def

section \<open>The frame allocator\<close>

text \<open>
  C6: Starting from a boot memory map whose frames are distinct, whatever sequence of
  allocations and deallocations of held frames is made, no frame is held twice, every frame
  held is one of the map, and the figure the kernel prints as memory in use, frames used less
  frames recycled, is the number of frames held.
\<close>

lemma frames_never_shared:
  assumes "distinct (create_frame_iter frame_at mm)" "length (create_frame_iter frame_at mm) < 2 ^ 64"
    and "frames_run allocate_frame deallocate_frame ops (fa_init frame_at mm n) [] = (fa, held)"
  shows "distinct held \<and> set held \<subseteq> set (create_frame_iter frame_at mm) \<and>
    unat (frames_used fa) - frames_recycled_count fa = length held"
proof -
  have "fa_avail (fa_init frame_at mm n) = mset (create_frame_iter frame_at mm)"
    by (simp add: fa_avail_def fa_init_def)
  from frames.run_distinct [OF assms(3) this assms(1)] used_in_use [OF assms(3)] assms(2)
  show ?thesis by (simp add: fa_init_def frames_used_def frames_recycled_count_def)
qed

lemma frames_never_shared_witness:
  "distinct [0x2000, 0x1000 :: u64] \<and>
    set [0x2000, 0x1000] \<subseteq>
      set (create_frame_iter (\<lambda>a. a) [\<lparr>md_conventional = True, md_phys_start = 0x1000, md_page_count = 3\<rparr>]) \<and>
    unat (frames_used \<lparr>fa_size = 3, fa_used = 2, fa_frames = [0x3000 :: u64], fa_recycled = []\<rparr>) -
      frames_recycled_count \<lparr>fa_size = 3, fa_used = 2, fa_frames = [0x3000 :: u64], fa_recycled = []\<rparr> =
      length [0x2000, 0x1000 :: u64]"
  by (rule frames_never_shared [where ops = "[TakeFrame, TakeFrame, GiveFrame 0, TakeFrame]" and n = 3])
    (simp_all add: create_frame_iter_def fa_init_def allocate_frame_def deallocate_frame_def upt_rec)

section \<open>Ranges of pages\<close>

text \<open>
  C13: Mapping a range of pages none of which is mapped: on success every page of the range is
  mapped, to frames that are distinct and were free; on failure a proper first part of the
  range stays mapped. Other pages keep their mappings, and no frame mapped can be allocated
  again.
\<close>

lemma map_range_maps:
  assumes laws: "mapper_laws x look"
    and free: "\<forall>f. count (fa_avail (mem_frames m)) f \<le> 1"
    and unmapped: "\<forall>p. s \<le> p \<and> p \<le> e \<longrightarrow> look (mem_table m) p = None"
    and run: "map_range x s e user m = (r, m')"
  shows "\<exists>k fs. length fs = k \<and> distinct fs \<and> set fs \<subseteq> set_mset (fa_avail (mem_frames m)) \<and>
    set fs \<inter> set_mset (fa_avail (mem_frames m')) = {} \<and>
    (\<forall>i<k. look (mem_table m') (s + i) = Some (fs ! i, range_flags user)) \<and>
    (\<forall>p. p < s \<or> s + k \<le> p \<longrightarrow> look (mem_table m') p = look (mem_table m) p) \<and>
    (r = Ok () \<and> k = Suc e - s \<or> (\<exists>er. r = Err er) \<and> k < Suc e - s)"
proof -
  have "\<forall>p\<in>set [s..<Suc e]. look (mem_table m) p = None" using unmapped by (auto simp del: upt_Suc)
  from map_each_spec [OF laws distinct_upt this run [unfolded map_range_def]]
  obtain before after fs ts where b: "[s..<Suc e] = before @ after" "length fs = length before"
    "look (mem_table m') = look (mem_table m) ++ mapped_to before fs (range_flags user)"
    "fa_avail (mem_frames m) = mset fs + mset ts + fa_avail (mem_frames m')"
    "r = Ok () \<and> after = [] \<or> (\<exists>e. r = Err e) \<and> after \<noteq> []" by blast
  have count: "count (mset fs) f + count (fa_avail (mem_frames m')) f \<le> 1" for f
    using free [rule_format, of f] b(4) by simp
  have "before = take (length before) [s..<Suc e]" using b(1) by simp
  also have "\<dots> = [s..<s + length before]"
    using b(1) by (metis append_eq_conv_conj length_append le_add1 length_upt take_upt
        le_add_diff_inverse nat_le_linear diff_is_0_eq le_0_eq add_is_0 upt_conv_Nil take_Nil
        length_0_conv add.right_neutral nat_add_left_cancel_le)
  finally have before: "before = [s..<s + length before]" .
  have len: "length before + length after = Suc e - s" using b(1) by (metis length_append length_upt)
  have "distinct fs"
    unfolding distinct_count_atmost_1 using count by (metis add_leD1 count_mset_0_iff le_antisym less_one not_le)
  moreover have "set fs \<inter> set_mset (fa_avail (mem_frames m')) = {}"
  proof (rule ccontr)
    assume "set fs \<inter> set_mset (fa_avail (mem_frames m')) \<noteq> {}"
    then obtain f where "f \<in> set fs" "f \<in># fa_avail (mem_frames m')" by blast
    then have "0 < count (mset fs) f" "0 < count (fa_avail (mem_frames m')) f" by (simp_all add: count_mset_gt_0)
    with count [of f] show False by linarith
  qed
  moreover have "look (mem_table m') (s + i) = Some (fs ! i, range_flags user)" if "i < length fs" for i
  proof -
    have i: "i < length before" using that b(2) by simp
    have "distinct before" by (subst before) simp
    then have "mapped_to before fs (range_flags user) (before ! i) = Some (fs ! i, range_flags user)"
      using b(2) i by (rule mapped_to_nth)
    moreover have "before ! i = s + i" using i by (subst before) simp
    ultimately show ?thesis using b(3) by simp
  qed
  moreover have "look (mem_table m') p = look (mem_table m) p" if "p < s \<or> s + length fs \<le> p" for p
  proof -
    have "p \<notin> set before" using that b(2) by (subst before) auto
    then show ?thesis using b(3) by (simp add: map_add_def mapped_to_notin)
  qed
  moreover have "r = Ok () \<and> length fs = Suc e - s \<or> (\<exists>er. r = Err er) \<and> length fs < Suc e - s"
    using b(2, 5) len by (cases after) auto
  ultimately show ?thesis using b(4) by (intro exI [of _ "length fs"] exI [of _ fs]) auto
qed

lemma map_range_maps_witness:
  "\<exists>k fs. length fs = k \<and> distinct fs \<and> set fs \<subseteq> set_mset (fa_avail (mem_frames (flat_mem Map.empty [0x1000, 0x2000]))) \<and>
    set fs \<inter> set_mset (fa_avail (mem_frames (snd (map_range flat_x86 5 6 True (flat_mem Map.empty [0x1000, 0x2000]))))) = {} \<and>
    (\<forall>i<k. flat_look (mem_table (snd (map_range flat_x86 5 6 True (flat_mem Map.empty [0x1000, 0x2000])))) (5 + i) =
       Some (fs ! i, range_flags True)) \<and>
    (\<forall>p. p < 5 \<or> 5 + k \<le> p \<longrightarrow>
       flat_look (mem_table (snd (map_range flat_x86 5 6 True (flat_mem Map.empty [0x1000, 0x2000])))) p =
       flat_look (mem_table (flat_mem Map.empty [0x1000, 0x2000])) p) \<and>
    (fst (map_range flat_x86 5 6 True (flat_mem Map.empty [0x1000, 0x2000])) = Ok () \<and> k = Suc 6 - 5 \<or>
     (\<exists>er. fst (map_range flat_x86 5 6 True (flat_mem Map.empty [0x1000, 0x2000])) = Err er) \<and> k < Suc 6 - 5)"
  by (rule map_range_maps [OF flat_laws]) (simp_all add: flat_mem_def flat_look_def fa_avail_def)

text \<open>
  C14: Unmapping with deallocation a range that was mapped by \<open>map_range\<close> succeeds, restores
  every mapping there was before, and gives back every frame the range was mapped to: what the
  allocator can hand out afterwards is what it could before, less the frames that mapping spent
  beyond those of the range, which went into page tables.
\<close>

lemma map_unmap_range:
  assumes laws: "mapper_laws x look"
    and unmapped: "\<forall>p. s \<le> p \<and> p \<le> e \<longrightarrow> look (mem_table m) p = None"
    and run: "map_range x s e user m = (Ok (), m')"
  shows "\<exists>m'' fs. unmap_range x s e True m' = (Ok (), m'') \<and> look (mem_table m'') = look (mem_table m) \<and>
    length fs = Suc e - s \<and> (\<forall>i < Suc e - s. look (mem_table m') (s + i) = Some (fs ! i, range_flags user)) \<and>
    fa_avail (mem_frames m'') = mset fs + fa_avail (mem_frames m') \<and>
    (\<exists>ts. fa_avail (mem_frames m) = mset ts + fa_avail (mem_frames m''))"
proof -
  let ?ps = "[s..<Suc e]"
  have none: "\<forall>p\<in>set ?ps. look (mem_table m) p = None" using unmapped by (auto simp del: upt_Suc)
  from map_each_spec [OF laws distinct_upt none run [unfolded map_range_def]]
  obtain fs ts where b: "length fs = length ?ps"
    "look (mem_table m') = look (mem_table m) ++ mapped_to ?ps fs (range_flags user)"
    "fa_avail (mem_frames m) = mset fs + mset ts + fa_avail (mem_frames m')" by auto
  have nth: "look (mem_table m') (?ps ! i) = Some (fs ! i, range_flags user)" if "i < length ?ps" for i
    using mapped_to_nth [OF distinct_upt b(1) that] b(2) by simp
  have mapped: "\<forall>p\<in>set ?ps. look (mem_table m') p \<noteq> None"
  proof
    fix p assume "p \<in> set ?ps"
    then obtain i where "i < length ?ps" "p = ?ps ! i" by (metis in_set_conv_nth)
    then show "look (mem_table m') p \<noteq> None" using nth by simp
  qed
  have frames: "map (\<lambda>p. fst (the (look (mem_table m') p))) ?ps = fs"
  proof (rule nth_equalityI)
    fix i assume "i < length (map (\<lambda>p. fst (the (look (mem_table m') p))) ?ps)"
    then have i: "i < length ?ps" by simp
    then show "map (\<lambda>p. fst (the (look (mem_table m') p))) ?ps ! i = fs ! i"
      by (subst nth_map [OF i]) (simp only: nth [OF i] option.sel fst_conv)
  qed (simp add: b(1))
  from unmap_each_spec [OF laws distinct_upt mapped, of True] obtain m'' where
    m'': "unmap_each x True ?ps m' = (Ok (), m'')" "look (mem_table m'') = look (mem_table m') |` (- set ?ps)"
    "mem_frames m'' = mem_frames m'\<lparr>fa_recycled := fa_recycled (mem_frames m') @ fs\<rparr>" unfolding frames by auto
  have "look (mem_table m'') p = look (mem_table m) p" for p
    using none by (cases "p \<in> set ?ps") (simp_all add: m''(2) b(2) map_add_def mapped_to_notin del: upt_Suc set_upt)
  moreover have "fa_avail (mem_frames m) = mset ts + fa_avail (mem_frames m'')"
    using b(3) m''(3) by (simp add: fa_avail_def)
  moreover have "fa_avail (mem_frames m'') = mset fs + fa_avail (mem_frames m')"
    using m''(3) by (simp add: fa_avail_def)
  moreover have "\<forall>i < Suc e - s. look (mem_table m') (s + i) = Some (fs ! i, range_flags user)"
    using nth by (simp del: upt_Suc)
  moreover have "length fs = Suc e - s" using b(1) by (simp del: upt_Suc)
  ultimately show ?thesis unfolding unmap_range_def using m''(1) by blast
qed

lemma map_unmap_range_witness:
  "\<exists>m'' fs. unmap_range flat_x86 5 6 True (snd (map_range flat_x86 5 6 True (flat_mem Map.empty [0x1000, 0x2000]))) =
      (Ok (), m'') \<and>
    flat_look (mem_table m'') = flat_look (mem_table (flat_mem Map.empty [0x1000, 0x2000])) \<and>
    length fs = Suc 6 - 5 \<and>
    (\<forall>i < Suc 6 - 5. flat_look (mem_table (snd (map_range flat_x86 5 6 True (flat_mem Map.empty [0x1000, 0x2000])))) (5 + i) =
      Some (fs ! i, range_flags True)) \<and>
    fa_avail (mem_frames m'') =
      mset fs + fa_avail (mem_frames (snd (map_range flat_x86 5 6 True (flat_mem Map.empty [0x1000, 0x2000])))) \<and>
    (\<exists>ts. fa_avail (mem_frames (flat_mem Map.empty [0x1000, 0x2000])) = mset ts + fa_avail (mem_frames m''))"
proof (rule map_unmap_range [OF flat_laws])
  show "map_range flat_x86 5 6 True (flat_mem Map.empty [0x1000, 0x2000]) =
      (Ok (), snd (map_range flat_x86 5 6 True (flat_mem Map.empty [0x1000, 0x2000])))"
    by (simp add: map_range_def flat_simps upt_rec)
qed (simp add: flat_mem_def flat_look_def)

text \<open>
  Mapping a range whose first page is mapped already fails and leaves the mappings as they
  are; but the frame taken for that page is neither mapped nor free any more: each such call
  loses a frame.
\<close>

lemma map_range_occupied:
  assumes "mapper_laws x look" "look (mem_table m) s \<noteq> None" "s \<le> e"
    and "fa_avail (mem_frames m) \<noteq> {#}"
  shows "\<exists>er m' f. map_range x s e user m = (Err er, m') \<and> look (mem_table m') = look (mem_table m) \<and>
    fa_avail (mem_frames m) = add_mset f (fa_avail (mem_frames m'))"
proof -
  have "[s..<Suc e] = s # [Suc s..<Suc e]" using assms(3) by (simp add: upt_rec)
  then show ?thesis
    using map_each_taken [OF assms(1, 2), of "range_flags user" "[Suc s..<Suc e]"] assms(4)
    unfolding map_range_def by (auto simp del: upt_Suc)
qed

lemma map_range_occupied_witness:
  "\<exists>er m' f. map_range flat_x86 5 6 True (flat_mem [5 \<mapsto> (0, {})] [0x1000]) = (Err er, m') \<and>
    flat_look (mem_table m') = flat_look (mem_table (flat_mem [5 \<mapsto> (0, {})] [0x1000])) \<and>
    fa_avail (mem_frames (flat_mem [5 \<mapsto> (0, {})] [0x1000])) = add_mset f (fa_avail (mem_frames m'))"
  by (rule map_range_occupied [OF flat_laws]) (simp_all add: flat_mem_def flat_look_def fa_avail_def)

section \<open>Loading ELF segments\<close>

text \<open>
  C3: A segment that starts at a page boundary, does not wrap around the address space and
  whose pages are not mapped: when
  \<open>load_segment\<close> succeeds, every byte of the segment's memory reads, through the new mapping,
  the byte of the file, or zero beyond the file data, with the segment's flags; other pages
  keep their mappings; the page range and the memory usage returned are those of the segment.
\<close>

lemma load_segment_image:
  assumes laws: "mapper_laws x look" and ok: "frames_ok m"
    and aligned: "unat (ph_virtual_addr seg) = 4096 * s"
    and sizes: "ph_file_size seg \<le> ph_mem_size seg" "0 < ph_mem_size seg"
    and e: "e = s + (unat (ph_mem_size seg) - 1) div 4096"
    and fits: "4096 * s + unat (ph_mem_size seg) < 2 ^ 64"
    and unmapped: "\<forall>p. s \<le> p \<and> p \<le> e \<longrightarrow> look (mem_table m) p = None"
    and run: "load_segment x elf off seg ua m = (Ok (r, u), m')"
  shows "r = (s, e) \<and> u = of_nat (Suc e - s) * 4096 \<and>
    (\<forall>i < unat (ph_mem_size seg). \<exists>f.
       look (mem_table m') (page_of (ph_virtual_addr seg + of_nat i)) =
         Some (f, segment_flags seg \<union> (if ua then {USER_ACCESSIBLE} else {})) \<and>
       mem_bytes m' (f + off + of_nat (i mod 4096)) =
         (if i < unat (ph_file_size seg) then elf_input elf (ph_offset seg + of_nat i) else 0)) \<and>
    (\<forall>p. p < s \<or> e < p \<longrightarrow> look (mem_table m') p = look (mem_table m) p)"
proof -
  let ?fl = "segment_flags seg \<union> (if ua then {USER_ACCESSIBLE} else {})"
  let ?M = "unat (ph_mem_size seg)"
  from load_segment_filled [OF laws ok aligned sizes e fits unmapped run]
  have r: "r = (s, e)" "u = of_nat (Suc e - s) * 4096"
    and filled: "filled look off ?fl (image_byte elf seg s) [s..<Suc e] m m'" by auto
  have "\<exists>f. look (mem_table m') (page_of (ph_virtual_addr seg + of_nat i)) = Some (f, ?fl) \<and>
      mem_bytes m' (f + off + of_nat (i mod 4096)) =
        (if i < unat (ph_file_size seg) then elf_input elf (ph_offset seg + of_nat i) else 0)" if "i < ?M" for i
  proof -
    have "unat (ph_virtual_addr seg + of_nat i) = 4096 * s + i"
      using fits that by (subst unat_add_lem [THEN iffD1]) (simp_all add: aligned unat_of_nat take_bit_nat_eq_self)
    then have page: "page_of (ph_virtual_addr seg + of_nat i) = s + i div 4096" by (simp add: page_of_def)
    have "i div 4096 \<le> (?M - 1) div 4096" using that by (intro div_le_mono) simp
    then have "s + i div 4096 \<in> set [s..<Suc e]" by (simp add: e del: upt_Suc)
    from filled_page [OF filled distinct_upt this] obtain f where
      "look (mem_table m') (s + i div 4096) = Some (f, ?fl)"
      "\<forall>k<4096. mem_bytes m' (f + off + of_nat k) = image_byte elf seg s (s + i div 4096) k" by blast
    then show ?thesis unfolding page
      by (intro exI [of _ f]) (simp add: image_byte_def Let_def)
  qed
  moreover have "look (mem_table m') p = look (mem_table m) p" if "p < s \<or> e < p" for p
    using that by (intro filled_unmapped [OF filled]) (auto simp del: upt_Suc)
  ultimately show ?thesis using r(1, 2) by blast
qed

definition sample_segment :: "u64 \<Rightarrow> u64 \<Rightarrow> u64 \<Rightarrow> program_header" where
  "sample_segment vaddr file_size mem_size =
     \<lparr>ph_type = Some True, ph_mem_size = mem_size, ph_file_size = file_size, ph_offset = 0x1000,
      ph_virtual_addr = vaddr, ph_execute = True, ph_write = False\<rparr>"

definition sample_elf :: elf_file where
  "sample_elf = \<lparr>elf_input = \<lambda>a. ucast a, elf_ptr = 0x100000, elf_segments = [], elf_entry = 0\<rparr>"

lemma load_segment_image_witness:
  "\<exists>m' f g. load_segment flat_x86 sample_elf 0 (sample_segment 0x5000 3 5000) True (flat_mem Map.empty [0x1000, 0x2000]) =
      (Ok ((5, 6), 8192), m') \<and>
    flat_look (mem_table m') 5 = Some (f, segment_flags (sample_segment 0x5000 3 5000) \<union> {USER_ACCESSIBLE}) \<and>
    mem_bytes m' (f + 2) = elf_input sample_elf (ph_offset (sample_segment 0x5000 3 5000) + 2) \<and>
    flat_look (mem_table m') 6 = Some (g, segment_flags (sample_segment 0x5000 3 5000) \<union> {USER_ACCESSIBLE}) \<and>
    mem_bytes m' (g + 404) = 0 \<and> flat_look (mem_table m') 7 = None"
proof -
  let ?seg = "sample_segment 0x5000 3 5000" and ?m = "flat_mem Map.empty [0x1000, 0x2000]"
  obtain m' where run: "load_segment flat_x86 sample_elf 0 ?seg True ?m = (Ok ((5, 6), 8192), m')"
    by (simp add: load_segment_def sample_segment_def Let_def flat_simps last_page_def addr_plus_def
        addr_minus_def page_of_def align_up_def load_page_def upt_rec)
  have img: "((5 :: page, 6 :: page) = (5, 6) \<and> (8192 :: u64) = of_nat (Suc 6 - 5) * 4096) \<and>
    (\<forall>i < unat (ph_mem_size ?seg). \<exists>f.
       flat_look (mem_table m') (page_of (ph_virtual_addr ?seg + of_nat i)) =
         Some (f, segment_flags ?seg \<union> (if True then {USER_ACCESSIBLE} else {})) \<and>
       mem_bytes m' (f + 0 + of_nat (i mod 4096)) =
         (if i < unat (ph_file_size ?seg) then elf_input sample_elf (ph_offset ?seg + of_nat i) else 0)) \<and>
    (\<forall>p. p < 5 \<or> 6 < p \<longrightarrow> flat_look (mem_table m') p = flat_look (mem_table ?m) p)"
    using load_segment_image [OF flat_laws, of ?m ?seg 5 6 sample_elf 0 True "(5, 6)" 8192 m'] run
    by (simp add: sample_segment_def flat_mem_def flat_look_def frames_ok_def fa_avail_def)
  have "\<exists>f. flat_look (mem_table m') 5 = Some (f, segment_flags ?seg \<union> {USER_ACCESSIBLE}) \<and>
    mem_bytes m' (f + 2) = elf_input sample_elf (ph_offset ?seg + 2)"
    using img [THEN conjunct2, THEN conjunct1, THEN spec, of 2] by (simp add: sample_segment_def page_of_def)
  moreover have "\<exists>g. flat_look (mem_table m') 6 = Some (g, segment_flags ?seg \<union> {USER_ACCESSIBLE}) \<and>
    mem_bytes m' (g + 404) = 0"
    using img [THEN conjunct2, THEN conjunct1, THEN spec, of 4500] by (simp add: sample_segment_def page_of_def)
  moreover have "flat_look (mem_table m') 7 = None" using img by (simp add: flat_mem_def flat_look_def)
  ultimately show ?thesis using run by blast
qed

text \<open>
  A segment whose address is not a page boundary, with all its data in one page: the data
  is copied to the start of the frame and not to the offset of the address in the page, so that
  byte \<open>i\<close> of the segment reads byte \<open>r0 + i\<close> of the file data, or zero beyond its end.
\<close>

lemma load_segment_unaligned:
  assumes laws: "mapper_laws x look" and ok: "frames_ok m"
    and addr: "unat (ph_virtual_addr seg) = 4096 * s + r0" "0 < r0"
    and sizes: "ph_mem_size seg = ph_file_size seg" "0 < ph_file_size seg" "r0 + unat (ph_file_size seg) < 4096"
    and unmapped: "look (mem_table m) s = None"
    and run: "load_segment x elf off seg ua m = (Ok ru, m')"
  shows "\<exists>f fl. look (mem_table m') (page_of (ph_virtual_addr seg)) = Some (f, fl) \<and>
    (\<forall>i < unat (ph_file_size seg). mem_bytes m' (f + off + of_nat (r0 + i)) =
       (if r0 + i < unat (ph_file_size seg) then elf_input elf (ph_offset seg + of_nat (r0 + i)) else 0))"
proof -
  let ?F = "unat (ph_file_size seg)"
  define fl where "fl = segment_flags seg \<union> (if ua then {USER_ACCESSIBLE} else {})"
  have F: "0 < ?F" using sizes(2) by (simp add: unat_gt_0)
  have page: "page_of (ph_virtual_addr seg) = s" using addr sizes(3) F by (simp add: page_of_def)
  have "unat (ph_virtual_addr seg) < 2 ^ 64" using unsigned_less [where ?'a = nat, of "ph_virtual_addr seg"] by simp
  then have "s < 2 ^ 52" using addr(1) by simp
  then have unat_lt: "4096 * s + r0 + ?F < 2 ^ 64" using sizes(3) by simp
  obtain v u1 d where v: "(virt_addr x (ph_virtual_addr seg) :: (map_error, u64) res) = Ok v"
      "(last_page x v (ph_file_size seg) :: (map_error, page) res) = Ok d"
      "load_pages x off (elf_input elf) seg fl 0 [page_of v..<Suc d] m = (Ok u1, m')"
    using run sizes(2) unfolding load_segment_def Let_def andThenS_eq_Ok thenS_eq_Ok sizes(1) fl_def
    by (auto simp: andThenS_eq_Ok simp del: upt_Suc)
  then have "v = ph_virtual_addr seg" by (simp add: virt_addr_def split: if_splits)
  moreover from this have "d = s"
    using last_page_Ok [OF v(2) sizes(2)] addr sizes(3) F unat_lt by simp
  ultimately have "load_page x off (elf_input elf) seg fl 0 s m = (Ok (), m')"
    using v(3) page by (simp add: thenS_eq_Ok)
  from load_page_filled [OF laws unmapped this]
  have filled: "filled look off fl (\<lambda>q. file_byte (elf_input elf) seg 0) [s] m m'" .
  from filled_page [OF filled] obtain f where f: "look (mem_table m') s = Some (f, fl)"
    "\<forall>k<4096. mem_bytes m' (f + off + of_nat k) = file_byte (elf_input elf) seg 0 k" by auto
  have "mem_bytes m' (f + off + of_nat (r0 + i)) =
      (if r0 + i < ?F then elf_input elf (ph_offset seg + of_nat (r0 + i)) else 0)" if "i < ?F" for i
  proof -
    have "r0 + i < 4096" using that sizes(3) by simp
    from f(2) [rule_format, OF this] show ?thesis
      using file_byte_image [of 0 seg "r0 + i" s s elf] F \<open>r0 + i < 4096\<close>
      by (simp add: image_byte_def Let_def del: of_nat_add)
  qed
  then show ?thesis unfolding page using f(1) by blast
qed

lemma load_segment_unaligned_witness:
  "\<exists>f fl. flat_look (mem_table (snd (load_segment flat_x86 sample_elf 0 (sample_segment 0x5010 32 32) True
        (flat_mem Map.empty [0x1000])))) (page_of (ph_virtual_addr (sample_segment 0x5010 32 32))) = Some (f, fl) \<and>
    (\<forall>i < unat (ph_file_size (sample_segment 0x5010 32 32)).
       mem_bytes (snd (load_segment flat_x86 sample_elf 0 (sample_segment 0x5010 32 32) True
         (flat_mem Map.empty [0x1000]))) (f + 0 + of_nat (16 + i)) =
       (if 16 + i < unat (ph_file_size (sample_segment 0x5010 32 32))
        then elf_input sample_elf (ph_offset (sample_segment 0x5010 32 32) + of_nat (16 + i)) else 0))"
proof (rule load_segment_unaligned [OF flat_laws])
  show "frames_ok (flat_mem Map.empty [0x1000])"
    by (simp add: frames_ok_def flat_mem_def fa_avail_def)
  show "unat (ph_virtual_addr (sample_segment 0x5010 32 32)) = 4096 * 5 + 16" by (simp add: sample_segment_def)
  show "load_segment flat_x86 sample_elf 0 (sample_segment 0x5010 32 32) True (flat_mem Map.empty [0x1000]) =
      (Ok ((5, 5), 4096), snd (load_segment flat_x86 sample_elf 0 (sample_segment 0x5010 32 32) True
        (flat_mem Map.empty [0x1000])))"
    by (simp add: load_segment_def sample_segment_def Let_def flat_simps last_page_def addr_plus_def
        addr_minus_def page_of_def load_page_def upt_rec)
qed (simp_all add: sample_segment_def flat_mem_def flat_look_def)

lemma unmap_frames_unmapped:
  "mapper_laws x look \<Longrightarrow> \<forall>i\<in>set is. 4096 * (sp + i) < 2 ^ 64 \<Longrightarrow>
    unmap_frames x sp is m = (Ok (), m') \<Longrightarrow>
    (\<forall>p. look (mem_table m) p = None \<longrightarrow> look (mem_table m') p = None) \<and>
    (\<forall>i\<in>set is. look (mem_table m') (sp + i) = None)"
proof (induction "is" arbitrary: m)
  case (Cons i "is")
  from Cons.prems(3) obtain q f m1 where q: "(page_add x sp i :: (unmap_error, page) res) = Ok q"
    and m1: "unmap x q m = (Ok f, m1)" "unmap_frames x sp is m1 = (Ok (), m')"
    by (auto simp: andThenS_eq_Ok thenS_eq_Ok)
  have "q = sp + i" using page_add_Ok [OF q] Cons.prems(2) by simp
  note m1 = m1 [unfolded this]
  have "look (mem_table m) (sp + i) \<noteq> None"
  proof
    assume "look (mem_table m) (sp + i) = None"
    from unmap_unmapped [OF Cons.prems(1) this] m1(1) show False by auto
  qed
  then obtain g fl where "look (mem_table m) (sp + i) = Some (g, fl)"
    by (cases "look (mem_table m) (sp + i)") auto
  from unmap_mapped [OF Cons.prems(1) this] m1(1)
  have "look (mem_table m1) = (look (mem_table m))(sp + i := None)" by auto
  then show ?case using Cons.IH [OF Cons.prems(1) _ m1(2)] Cons.prems(2) by auto
qed simp

text \<open>
  \<open>unmap_segment\<close> never succeeds on a segment with file data that does not end at a page
  boundary and zeroes after it: its first loop unmaps the last page of the file data, and then it
  unmaps that page a second time.
\<close>

lemma unmap_segment_fails:
  assumes laws: "mapper_laws x look"
    and seg: "ph_type seg = Some True" "unat (ph_virtual_addr seg) = 4096 * s"
    and phys: "unat (start + (ph_offset seg AND NOT 0xFFF)) = 4096 * k"
    and sizes: "0 < ph_file_size seg" "ph_file_size seg < ph_mem_size seg"
    and tail: "(ph_virtual_addr seg + ph_file_size seg) AND 0xFFF \<noteq> 0"
    and fits: "4096 * s + unat (ph_mem_size seg) < 2 ^ 64" "4096 * k + unat (ph_mem_size seg) < 2 ^ 64"
  shows "fst (unmap_segment x seg start m) \<noteq> Ok ()"
proof
  assume "fst (unmap_segment x seg start m) = Ok ()"
  then obtain m' where run: "unmap_segment x seg start m = (Ok (), m')" by (cases "unmap_segment x seg start m") auto
  let ?ps = "start + (ph_offset seg AND NOT 0xFFF)" and ?F = "ph_file_size seg"
  let ?v = "ph_virtual_addr seg"
  from run seg(1) sizes obtain offsets m1 m2 l f where
    offs: "(frame_offsets x ?ps ?F :: (unmap_error, nat list) res) = Ok offsets"
    and loop: "unmap_frames x (page_of ?v) offsets m = (Ok (), m1)"
    and l: "(last_page x ?v ?F :: (unmap_error, page) res) = Ok l" "unmap x l m1 = (Ok f, m2)"
    using tail by (auto simp: unmap_segment_def Let_def andThenS_eq_Ok thenS_eq_Ok virt_addr_def addr_plus_def
        not_le split: if_splits)
  have F: "0 < unat ?F" using sizes(1) by (simp add: unat_gt_0)
  have FM: "unat ?F < unat (ph_mem_size seg)" using sizes(2) by (simp add: word_less_nat_alt)
  have lt: "unat ?ps + unat ?F < 2 ^ 64" unfolding phys using fits(2) FM by simp
  from offs have o: "offsets = [0..<Suc (page_of (?ps + ?F - 1)) - page_of ?ps]"
    by (auto simp: frame_offsets_def addr_plus_def addr_minus_def andThen_eq_Ok split: if_splits)
  have "unat (?ps + ?F) = unat ?ps + unat ?F" using lt by (simp add: unat_word_ariths)
  moreover have "?ps + ?F \<noteq> 0" using calculation F by auto
  moreover from this have "unat (?ps + ?F - 1) = unat (?ps + ?F) - 1" by (intro unat_minus_one)
  ultimately have "unat (?ps + ?F - 1) = 4096 * k + (unat ?F - 1)" using F phys by linarith
  then have offs': "set offsets = {..(unat ?F - 1) div 4096}"
    unfolding o page_of_def phys by (auto simp del: upt_Suc)
  have page: "page_of ?v = s" by (simp add: page_of_def seg(2))
  have "\<forall>i\<in>set offsets. 4096 * (page_of ?v + i) < 2 ^ 64"
  proof
    fix i assume "i \<in> set offsets"
    then have "4096 * i \<le> unat ?F - 1" unfolding offs' by (simp add: less_eq_div_iff_mult_less_eq mult.commute)
    then show "4096 * (page_of ?v + i) < 2 ^ 64" unfolding page using fits(1) FM by simp
  qed
  from unmap_frames_unmapped [OF laws this loop]
  have "\<forall>i\<le>(unat ?F - 1) div 4096. look (mem_table m1) (s + i) = None" unfolding offs' page by simp
  moreover have "l = s + (unat ?F - 1) div 4096"
    using last_page_Ok [OF l(1) sizes(1)] F fits(1) FM by (simp add: seg(2))
  ultimately have "look (mem_table m1) l = None" by simp
  from unmap_unmapped [OF laws this] l(2) show False by auto
qed

lemma unmap_segment_fails_witness:
  "fst (unmap_segment flat_x86 (sample_segment 0x5000 3 5000) 0x100000
      (flat_mem [5 \<mapsto> (0x101000, {}), 6 \<mapsto> (0x102000, {})] [])) \<noteq> Ok ()"
proof (rule unmap_segment_fails [OF flat_laws])
  show "unat (0x100000 + (ph_offset (sample_segment 0x5000 3 5000) AND NOT 0xFFF)) = 4096 * 0x101"
    by (simp add: sample_segment_def)
  show "unat (ph_virtual_addr (sample_segment 0x5000 3 5000)) = 4096 * 5" by (simp add: sample_segment_def)
qed (simp_all add: sample_segment_def)

end
