(* ===== verification/UserHeap.thy ===== *)
theory UserHeap
  imports Paging
begin

text \<open>
  The heap of a user process, \<open>pkg/kernel/src/proc/vm/heap.rs\<close>. The end of the heap is an
  atomic cell shared by the processes of one address space; the operations get its value and
  give its new one.
\<close>

section \<open>The heap\<close>

definition HEAP_START :: u64 where "HEAP_START = 0x200000000000"

definition HEAP_PAGES :: u64 where "HEAP_PAGES = 0x100000"

definition HEAP_SIZE :: u64 where "HEAP_SIZE = HEAP_PAGES * 4096"

definition HEAP_END :: u64 where "HEAP_END = HEAP_START + HEAP_SIZE - 8"

text \<open>\<open>hp_base\<close> never changes; \<open>hp_end\<close> is the value of the shared cell.\<close>

record heap =
  hp_base :: u64
  hp_end :: u64

definition heap_empty :: heap where
  "heap_empty = \<lparr>hp_base = HEAP_START, hp_end = HEAP_START\<rparr>"

definition heap_memory_usage :: "heap \<Rightarrow> u64" where
  "heap_memory_usage h = hp_end h - hp_base h"

text \<open>The first page after the heap when its end is \<open>e\<close>; the page of the end itself belongs to it.\<close>

definition page_after :: "'m x86 \<Rightarrow> u64 \<Rightarrow> u64 \<Rightarrow> ('e, page) res" where
  "page_after x base e = (if e = base then Ok (page_of e) else page_add x (page_of e) 1)"

text \<open>\<open>\<dots>.ok()?\<close>: an error of a mapping operation makes the caller return \<open>None\<close>.\<close>

fun ok_none :: "('e, 'a) res \<times> 's \<Rightarrow> ('s \<Rightarrow> (unit, 'b option) res \<times> 't) \<Rightarrow> ('s \<Rightarrow> 't) \<Rightarrow> (unit, 'b option) res \<times> 't" where
  "ok_none (Ok a, s) f g = f s"
| "ok_none (Err e, s) f g = (Ok None, g s)"
| "ok_none (Panic, s) f g = (Panic, g s)"
| "ok_none (Diverge, s) f g = (Diverge, g s)"

definition heap_brk ::
  "'m x86 \<Rightarrow> heap \<Rightarrow> u64 option \<Rightarrow> 'm mem \<Rightarrow> (unit, u64 option) res \<times> heap \<times> 'm mem" where
  "heap_brk x h new_end m =
     (case new_end of
        None \<Rightarrow> andThenS (virt_addr x (hp_end h)) (h, m) (\<lambda>e. (Ok (Some e), h, m))
      | Some new_end \<Rightarrow>
          andThenS (addr_plus (x_checked x) (x_virt_ok x) (hp_base h) HEAP_SIZE) (h, m) (\<lambda>limit.
            if limit < new_end \<or> new_end < hp_base h then (Ok None, h, m)
            else
              andThenS (virt_addr x (hp_end h)) (h, m) (\<lambda>cur_end.
              andThenS (page_after x (hp_base h) cur_end) (h, m) (\<lambda>cur_end_page.
              andThenS (page_after x (hp_base h) new_end) (h, m) (\<lambda>new_end_page.
                if cur_end_page < new_end_page then
                  ok_none (map_range x cur_end_page (new_end_page - 1) True m)
                    (\<lambda>m. (Ok (Some new_end), h\<lparr>hp_end := new_end\<rparr>, m)) (\<lambda>m. (h, m))
                else if new_end_page < cur_end_page then
                  ok_none (unmap_range x new_end_page (cur_end_page - 1) True m)
                    (\<lambda>m. (Ok (Some new_end), h\<lparr>hp_end := new_end\<rparr>, m)) (\<lambda>m. (h, m))
                else (Ok (Some new_end), h\<lparr>hp_end := new_end\<rparr>, m))))))"

definition heap_clean_up :: "'m x86 \<Rightarrow> heap \<Rightarrow> 'm mem \<Rightarrow> (unmap_error, unit) res \<times> heap \<times> 'm mem" where
  "heap_clean_up x h m =
     (if heap_memory_usage h = 0 then (Ok (), h, m)
      else
        let end_addr = hp_end h; h = h\<lparr>hp_end := hp_base h\<rparr> in
        andThenS (virt_addr x end_addr) (h, m) (\<lambda>end_addr.
          thenS (unmap_range x (page_of (hp_base h)) (page_of end_addr) True m)
            (\<lambda>_ m. (Ok (), h, m)) (\<lambda>m. (h, m))))"

section \<open>The pages of the heap\<close>

text \<open>The pages that belong to a heap are those up to the page of its end, none if it is empty.\<close>

definition heap_pages :: "heap \<Rightarrow> page set" where
  "heap_pages h = (if hp_end h = hp_base h then {} else {page_of (hp_base h)..page_of (hp_end h)})"

text \<open>
  The invariant of a heap in its address space: it lies in its region, and of the pages of the
  region exactly its own are mapped.
\<close>

definition heap_ok :: "'m lookup \<Rightarrow> heap \<Rightarrow> 'm mem \<Rightarrow> bool" where
  "heap_ok look h m \<longleftrightarrow>
     hp_base h = HEAP_START \<and> HEAP_START \<le> hp_end h \<and> hp_end h \<le> HEAP_START + HEAP_SIZE \<and>
     (\<forall>p. page_of HEAP_START \<le> p \<and> p \<le> page_of (HEAP_START + HEAP_SIZE) \<longrightarrow>
       (look (mem_table m) p \<noteq> None \<longleftrightarrow> p \<in> heap_pages h))"

text \<open>Every address of the lower half is accepted by the crate.\<close>

definition user_half_ok :: "'m x86 \<Rightarrow> bool" where
  "user_half_ok x \<longleftrightarrow> (\<forall>a < 0x800000000000. x_virt_ok x a)"

lemma heap_limits [simp]:
  "unat HEAP_START = 0x200000000000" "unat (HEAP_START + HEAP_SIZE) = 0x200100000000"
  "page_of HEAP_START = 0x200000000" "page_of (HEAP_START + HEAP_SIZE) = 0x200100000"
  by (simp_all add: HEAP_START_def HEAP_SIZE_def HEAP_PAGES_def page_of_def)

lemma page_of_le: "a \<le> b \<Longrightarrow> page_of a \<le> page_of b"
  by (simp add: page_of_def word_le_nat_alt div_le_mono)

lemma page_after_eq:
  assumes "user_half_ok x" "HEAP_START \<le> e" "e \<le> HEAP_START + HEAP_SIZE"
  shows "page_after x HEAP_START e = Ok (if e = HEAP_START then page_of e else Suc (page_of e))"
proof -
  have p: "page_of e \<le> 0x200100000" using page_of_le [OF assms(3)] by simp
  have "unat (page_addr (page_of e + 1)) = 4096 * (page_of e + 1)" using p by (intro unat_page_addr) simp
  then have "page_addr (page_of e + 1) < 0x800000000000" using p by (simp add: word_less_nat_alt)
  then have "x_virt_ok x (page_addr (page_of e + 1))" using assms(1) by (simp add: user_half_ok_def)
  moreover have "page_addr (page_of e) + 4096 = page_addr (page_of e + 1)" by (simp add: page_addr_def)
  moreover have "unat (page_addr (page_of e)) = 4096 * page_of e" using p by (intro unat_page_addr) simp
  moreover have "page_of (page_addr (page_of e + 1)) = page_of e + 1" using p by (intro page_of_addr) simp
  ultimately show ?thesis using p by (simp add: page_after_def page_add_def addr_plus_def)
qed

lemma heap_limit_ok:
  assumes "user_half_ok x"
  shows "addr_plus (x_checked x) (x_virt_ok x) HEAP_START HEAP_SIZE = Ok (HEAP_START + HEAP_SIZE)"
proof -
  have "x_virt_ok x (HEAP_START + HEAP_SIZE)"
    using assms by (simp add: user_half_ok_def word_less_nat_alt)
  then show ?thesis by (simp add: addr_plus_def) (simp add: HEAP_START_def HEAP_SIZE_def HEAP_PAGES_def)
qed

lemma virt_addr_heap:
  assumes "user_half_ok x" "e \<le> HEAP_START + HEAP_SIZE"
  shows "virt_addr x e = Ok e"
proof -
  have "unat e \<le> 0x200100000000" using assms(2) by (simp add: word_le_nat_alt)
  then have "e < 0x800000000000" by (simp add: word_less_nat_alt)
  then show ?thesis using assms(1) by (simp add: virt_addr_def user_half_ok_def)
qed

text \<open>The first page after a heap, as it is when the heap is well formed.\<close>

definition heap_top :: "u64 \<Rightarrow> page" where
  "heap_top e = (if e = HEAP_START then page_of e else Suc (page_of e))"

lemma heap_pages_top:
  "hp_base h = HEAP_START \<Longrightarrow> HEAP_START \<le> hp_end h \<Longrightarrow> heap_pages h = {page_of HEAP_START..<heap_top (hp_end h)}"
  using page_of_le [of HEAP_START "hp_end h"] by (auto simp: heap_pages_def heap_top_def)

lemma heap_top_bounds:
  assumes "HEAP_START \<le> e" "e \<le> HEAP_START + HEAP_SIZE"
  shows "0x200000000 \<le> heap_top e" "heap_top e \<le> Suc 0x200100000"
  using page_of_le [OF assms(1)] page_of_le [OF assms(2)] by (simp_all add: heap_top_def)

lemma heap_brk_Some:
  assumes "user_half_ok x" "hp_base h = HEAP_START" "HEAP_START \<le> hp_end h" "hp_end h \<le> HEAP_START + HEAP_SIZE"
    and "HEAP_START \<le> e" "e \<le> HEAP_START + HEAP_SIZE"
  shows "heap_brk x h (Some e) m =
    (if heap_top (hp_end h) < heap_top e then
       ok_none (map_range x (heap_top (hp_end h)) (heap_top e - 1) True m)
         (\<lambda>m. (Ok (Some e), h\<lparr>hp_end := e\<rparr>, m)) (\<lambda>m. (h, m))
     else if heap_top e < heap_top (hp_end h) then
       ok_none (unmap_range x (heap_top e) (heap_top (hp_end h) - 1) True m)
         (\<lambda>m. (Ok (Some e), h\<lparr>hp_end := e\<rparr>, m)) (\<lambda>m. (h, m))
     else (Ok (Some e), h\<lparr>hp_end := e\<rparr>, m))"
proof -
  have "(page_after x HEAP_START (hp_end h) :: (unit, page) res) = Ok (heap_top (hp_end h))"
    "(page_after x HEAP_START e :: (unit, page) res) = Ok (heap_top e)"
    unfolding heap_top_def by (rule page_after_eq; use assms in simp)+
  moreover have "\<not> HEAP_START + HEAP_SIZE < e" "\<not> e < HEAP_START" using assms(5, 6) by (simp_all add: not_less)
  ultimately show ?thesis
    using assms(2)
    by (simp add: heap_brk_def virt_addr_heap [OF assms(1, 4)] heap_limit_ok [OF assms(1)] del: heap_limits)
qed

text \<open>A new end outside the region is refused and nothing changes.\<close>

lemma heap_brk_outside:
  assumes "user_half_ok x" "hp_base h = HEAP_START" "e < HEAP_START \<or> HEAP_START + HEAP_SIZE < e"
  shows "heap_brk x h (Some e) m = (Ok None, h, m)"
  using assms(2, 3) by (auto simp: heap_brk_def heap_limit_ok [OF assms(1)] simp del: heap_limits)

lemma heap_okD:
  assumes "heap_ok look h m"
  shows "hp_base h = HEAP_START" "HEAP_START \<le> hp_end h" "hp_end h \<le> HEAP_START + HEAP_SIZE"
    and "0x200000000 \<le> p \<Longrightarrow> p \<le> 0x200100000 \<Longrightarrow>
      look (mem_table m) p \<noteq> None \<longleftrightarrow> p < heap_top (hp_end h)"
  using assms heap_pages_top [of h] by (simp_all add: heap_ok_def del: split_paired_All not_None_eq)

lemma heap_okI:
  assumes "hp_base h = HEAP_START" "HEAP_START \<le> hp_end h" "hp_end h \<le> HEAP_START + HEAP_SIZE"
    and "\<And>p. 0x200000000 \<le> p \<Longrightarrow> p \<le> 0x200100000 \<Longrightarrow>
      look (mem_table m) p \<noteq> None \<longleftrightarrow> p < heap_top (hp_end h)"
  shows "heap_ok look h m"
  using assms heap_pages_top [of h] by (simp add: heap_ok_def del: split_paired_All not_None_eq)

text \<open>
  \<open>brk\<close> to an end inside the region: it moves the end, with the invariant, or returns
  \<open>None\<close> and keeps the end; then a first part of the new pages may be mapped.
\<close>

lemma heap_brk_inside:
  assumes laws: "mapper_laws x look" and x: "user_half_ok x" and ok: "heap_ok look h m"
    and e: "HEAP_START \<le> e" "e \<le> HEAP_START + HEAP_SIZE"
    and run: "heap_brk x h (Some e) m = (r, h', m')"
  shows "r = Ok (Some e) \<and> h' = h\<lparr>hp_end := e\<rparr> \<and> heap_ok look h' m' \<or>
    r = Ok None \<and> h' = h \<and> heap_top (hp_end h) < heap_top e"
    and "\<forall>p. p < 0x200000000 \<or> 0x200100000 < p \<longrightarrow> look (mem_table m') p = look (mem_table m) p"
proof -
  note h = heap_okD [OF ok]
  note eq = heap_brk_Some [OF x h(1-3) e, of m]
  note top = heap_top_bounds [OF h(2, 3)] heap_top_bounds [OF e]
  let ?c = "heap_top (hp_end h)" and ?n = "heap_top e"
  have "(r = Ok (Some e) \<and> h' = h\<lparr>hp_end := e\<rparr> \<and> heap_ok look h' m' \<or>
      r = Ok None \<and> h' = h \<and> ?c < ?n) \<and>
    (\<forall>p. p < 0x200000000 \<or> 0x200100000 < p \<longrightarrow> look (mem_table m') p = look (mem_table m) p)"
  proof (cases rule: linorder_cases [of ?c ?n])
    case less
    let ?ps = "[?c..<Suc (?n - 1)]"
    have unm: "\<forall>p\<in>set ?ps. look (mem_table m) p = None"
    proof
      fix p assume "p \<in> set ?ps"
      then have "?c \<le> p" "p < ?n" using less by (auto simp del: upt_Suc)
      then show "look (mem_table m) p = None" using h(4) [of p] top by (auto simp del: not_None_eq)
    qed
    obtain r1 m1 where m1: "map_range x ?c (?n - 1) True m = (r1, m1)" by (cases "map_range x ?c (?n - 1) True m")
    from map_each_spec [OF laws distinct_upt unm m1 [unfolded map_range_def]] obtain before after fs where
      b: "?ps = before @ after" "length fs = length before"
        "look (mem_table m1) = look (mem_table m) ++ mapped_to before fs (range_flags True)"
        "r1 = Ok () \<and> after = [] \<or> (\<exists>e. r1 = Err e) \<and> after \<noteq> []" by blast
    have "set before \<subseteq> {?c..<?n}"
    proof -
      have "set ?ps = {?c..<?n}" using less by (auto simp del: upt_Suc)
      then show ?thesis unfolding b(1) by auto
    qed
    then have out: "look (mem_table m1) p = look (mem_table m) p" if "p < ?c \<or> ?n \<le> p" for p
    proof -
      have "p \<notin> set before" using that \<open>set before \<subseteq> {?c..<?n}\<close> by auto
      then show ?thesis using b(3) by (simp add: map_add_def mapped_to_notin)
    qed
    have outside: "\<forall>p. p < 0x200000000 \<or> 0x200100000 < p \<longrightarrow> look (mem_table m1) p = look (mem_table m) p"
      using out top by auto
    from b(4) show ?thesis
    proof
      assume "r1 = Ok () \<and> after = []"
      then have all: "before = ?ps" and r: "r = Ok (Some e)" "h' = h\<lparr>hp_end := e\<rparr>" "m' = m1"
        using b(1) run eq less m1 by auto
      have "heap_ok look h' m'"
      proof (rule heap_okI)
        fix p :: nat assume p: "0x200000000 \<le> p" "p \<le> 0x200100000"
        show "look (mem_table m') p \<noteq> None \<longleftrightarrow> p < heap_top (hp_end h')"
        proof (cases "p < ?c \<or> ?n \<le> p")
          case True
          with out [of p] h(4) [OF p] less r show ?thesis by auto
        next
          case False
          then have "p \<in> set ?ps" using less by (auto simp del: upt_Suc)
          then obtain i where "i < length ?ps" "p = ?ps ! i" by (metis in_set_conv_nth)
          then have "look (mem_table m1) p = Some (fs ! i, range_flags True)"
            using mapped_to_nth [of ?ps fs i "range_flags True"] b(2, 3) all by simp
          with False r show ?thesis by simp
        qed
      qed (use r h e in simp_all)
      with r outside show ?thesis by simp
    next
      assume "(\<exists>e. r1 = Err e) \<and> after \<noteq> []"
      then have "r = Ok None" "h' = h" "m' = m1" using run eq less m1 by auto
      with outside less show ?thesis by simp
    qed
  next
    case equal
    then have "r = Ok (Some e)" "h' = h\<lparr>hp_end := e\<rparr>" "m' = m" using run eq by auto
    moreover have "heap_ok look (h\<lparr>hp_end := e\<rparr>) m"
      using h e equal by (intro heap_okI) auto
    ultimately show ?thesis by simp
  next
    case greater
    let ?ps = "[?n..<Suc (?c - 1)]"
    have set: "set ?ps = {?n..<?c}" using greater by (auto simp del: upt_Suc)
    have mapped: "\<forall>p\<in>set ?ps. look (mem_table m) p \<noteq> None"
    proof
      fix p assume "p \<in> set ?ps"
      then show "look (mem_table m) p \<noteq> None" using h(4) [of p] top unfolding set by auto
    qed
    from unmap_each_spec [OF laws distinct_upt mapped, of True] obtain m1 where
      m1: "unmap_range x ?n (?c - 1) True m = (Ok (), m1)" "look (mem_table m1) = look (mem_table m) |` (- set ?ps)"
      unfolding unmap_range_def by blast
    then have r: "r = Ok (Some e)" "h' = h\<lparr>hp_end := e\<rparr>" "m' = m1" using run eq greater by auto
    have "heap_ok look h' m'"
    proof (rule heap_okI)
      fix p :: nat assume p: "0x200000000 \<le> p" "p \<le> 0x200100000"
      show "look (mem_table m') p \<noteq> None \<longleftrightarrow> p < heap_top (hp_end h')"
        using h(4) [OF p] greater r m1(2) unfolding set by (auto simp: restrict_map_def)
    qed (use r h e in simp_all)
    moreover have "\<forall>p. p < 0x200000000 \<or> 0x200100000 < p \<longrightarrow> look (mem_table m') p = look (mem_table m) p"
      using r(3) m1(2) top unfolding set by (auto simp: restrict_map_def)
    ultimately show ?thesis using r by simp
  qed
  then show "r = Ok (Some e) \<and> h' = h\<lparr>hp_end := e\<rparr> \<and> heap_ok look h' m' \<or>
      r = Ok None \<and> h' = h \<and> heap_top (hp_end h) < heap_top e"
    "\<forall>p. p < 0x200000000 \<or> 0x200100000 < p \<longrightarrow> look (mem_table m') p = look (mem_table m) p"
    by blast+
qed

text \<open>If the page after the heap is mapped, as a failed \<open>brk\<close> may leave it, the heap cannot grow.\<close>

lemma heap_brk_blocked:
  assumes laws: "mapper_laws x look" and x: "user_half_ok x"
    and h: "hp_base h = HEAP_START" "HEAP_START \<le> hp_end h" "hp_end h \<le> HEAP_START + HEAP_SIZE"
    and e: "HEAP_START \<le> e" "e \<le> HEAP_START + HEAP_SIZE" "heap_top (hp_end h) < heap_top e"
    and mapped: "look (mem_table m) (heap_top (hp_end h)) \<noteq> None"
  shows "\<exists>m'. heap_brk x h (Some e) m = (Ok None, h, m') \<and> look (mem_table m') = look (mem_table m)"
proof -
  have "[heap_top (hp_end h)..<Suc (heap_top e - 1)] = heap_top (hp_end h) # [Suc (heap_top (hp_end h))..<Suc (heap_top e - 1)]"
    using e(3) by (intro upt_conv_Cons) simp
  with map_each_taken [OF laws mapped] obtain er m' where
    "map_range x (heap_top (hp_end h)) (heap_top e - 1) True m = (Err er, m')" "look (mem_table m') = look (mem_table m)"
    unfolding map_range_def by metis
  then show ?thesis using heap_brk_Some [OF x h e(1, 2), of m] e(3) by auto
qed

text \<open>\<open>clean_up\<close> gives back the frames of all pages of the heap and leaves it empty.\<close>

lemma heap_clean_up_all:
  assumes laws: "mapper_laws x look" and x: "user_half_ok x" and ok: "heap_ok look h m"
  shows "\<exists>m'. heap_clean_up x h m = (Ok (), h\<lparr>hp_end := HEAP_START\<rparr>, m') \<and>
    heap_ok look (h\<lparr>hp_end := HEAP_START\<rparr>) m' \<and> look (mem_table m') = look (mem_table m) |` (- heap_pages h) \<and>
    fa_avail (mem_frames m') = fa_avail (mem_frames m) +
      image_mset (\<lambda>p. fst (the (look (mem_table m) p))) (mset_set (heap_pages h))"
proof -
  note h = heap_okD [OF ok]
  have usage: "heap_memory_usage h = 0 \<longleftrightarrow> hp_end h = HEAP_START" using h(1) by (simp add: heap_memory_usage_def)
  show ?thesis
  proof (cases "hp_end h = HEAP_START")
    case True
    then have eq: "h\<lparr>hp_end := HEAP_START\<rparr> = h" by (cases h) simp
    have "look (mem_table m) |` (- heap_pages h) = look (mem_table m)"
      using True h(1) by (auto simp: heap_pages_def restrict_map_def)
    then show ?thesis unfolding eq using True ok usage h(1) by (simp add: heap_clean_up_def heap_pages_def)
  next
    case False
    let ?ps = "[page_of HEAP_START..<Suc (page_of (hp_end h))]"
    have le: "page_of HEAP_START \<le> page_of (hp_end h)" by (rule page_of_le [OF h(2)])
    have top: "heap_top (hp_end h) = Suc (page_of (hp_end h))" using False by (simp add: heap_top_def)
    have pages: "heap_pages h = set ?ps" using False h(1) by (auto simp: heap_pages_def simp del: upt_Suc)
    have bound: "page_of (hp_end h) \<le> 0x200100000" using page_of_le [OF h(3)] by simp
    have mapped: "\<forall>p\<in>set ?ps. look (mem_table m) p \<noteq> None"
    proof
      fix p assume "p \<in> set ?ps"
      then show "look (mem_table m) p \<noteq> None"
        using h(4) [of p] bound le top by (auto simp del: upt_Suc not_None_eq)
    qed
    from unmap_each_spec [OF laws distinct_upt mapped, of True] obtain m' where m':
      "unmap_each x True ?ps m = (Ok (), m')" "look (mem_table m') = look (mem_table m) |` (- set ?ps)"
      "mem_frames m' = mem_frames m\<lparr>fa_recycled := fa_recycled (mem_frames m) @
        map (\<lambda>p. fst (the (look (mem_table m) p))) ?ps\<rparr>" by auto
    have "heap_ok look (h\<lparr>hp_end := HEAP_START\<rparr>) m'"
    proof (rule heap_okI)
      fix p :: nat assume p: "0x200000000 \<le> p" "p \<le> 0x200100000"
      show "look (mem_table m') p \<noteq> None \<longleftrightarrow> p < heap_top (hp_end (h\<lparr>hp_end := HEAP_START\<rparr>))"
        using h(4) [OF p] p top m'(2) by (auto simp: restrict_map_def heap_top_def simp del: upt_Suc not_None_eq)
    qed (use h(1) in \<open>simp_all add: word_le_nat_alt\<close>)
    moreover have "fa_avail (mem_frames m') = fa_avail (mem_frames m) +
        image_mset (\<lambda>p. fst (the (look (mem_table m) p))) (mset_set (heap_pages h))"
      using m'(3) unfolding pages mset_set_set [OF distinct_upt] by (simp add: fa_avail_def del: upt_Suc)
    moreover have "heap_clean_up x h m = (Ok (), h\<lparr>hp_end := HEAP_START\<rparr>, m')"
      using usage False m'(1)
      by (simp add: heap_clean_up_def Let_def virt_addr_heap [OF x h(3)] unmap_range_def h(1) del: upt_Suc heap_limits)
    ultimately show ?thesis using m'(2) unfolding pages by blast
  qed
qed

section \<open>The heap of the system-call allocator\<close>

text \<open>
  \<open>init_user_heap\<close> of \<open>memory/user.rs\<close>. The range is half-open although its end is the last page
  of the heap; the result is the region given to the allocator.
\<close>

definition USER_HEAP_START :: u64 where "USER_HEAP_START = 0x400000000000"

definition USER_HEAP_SIZE :: u64 where "USER_HEAP_SIZE = 1024 * 1024"

definition USER_HEAP_PAGE :: u64 where "USER_HEAP_PAGE = USER_HEAP_SIZE div 4096"

definition init_user_heap :: "'m x86 \<Rightarrow> 'm mem \<Rightarrow> (map_error, u64 \<times> u64) res \<times> 'm mem" where
  "init_user_heap x m =
     andThenS (virt_addr x USER_HEAP_START) m (\<lambda>heap_start.
     andThenS (page_add x (page_of heap_start) (unat USER_HEAP_PAGE)) m (\<lambda>past.
       if past = 0 then (Panic, m)
       else doS (map_each x {PRESENT, WRITABLE, USER_ACCESSIBLE} [page_of heap_start..<past - 1] m) (\<lambda>_ m.
              (Ok (USER_HEAP_START, USER_HEAP_SIZE), m))))"

text \<open>The last page of the region is not mapped.\<close>

lemma init_user_heap_short:
  assumes laws: "mapper_laws x look"
    and free: "\<forall>p. 0x400000000 \<le> p \<and> p < 0x400000100 \<longrightarrow> look (mem_table m) p = None"
    and run: "init_user_heap x m = (Ok (start, bytes), m')"
  shows "unat start + unat bytes = 4096 * 0x400000100 \<and> look (mem_table m') 0x4000000FF = None \<and>
    (\<forall>p. 0x400000000 \<le> p \<and> p < 0x4000000FF \<longrightarrow> look (mem_table m') p \<noteq> None)"
proof -
  have pages: "page_of USER_HEAP_START = 0x400000000" "unat USER_HEAP_PAGE = 256"
    by (simp_all add: USER_HEAP_START_def USER_HEAP_PAGE_def USER_HEAP_SIZE_def page_of_def)
  from run obtain past where add: "page_add x 0x400000000 256 = (Ok past :: (map_error, page) res)"
    and each: "map_each x {PRESENT, WRITABLE, USER_ACCESSIBLE} [0x400000000..<past - 1] m = (Ok (), m')"
    and res: "start = USER_HEAP_START" "bytes = USER_HEAP_SIZE"
    by (auto simp: init_user_heap_def andThenS_eq_Ok thenS_eq_Ok virt_addr_def pages split: if_splits)
  have past: "past = 0x400000100" using page_add_Ok [OF add] by simp
  have each: "map_each x {PRESENT, WRITABLE, USER_ACCESSIBLE} [0x400000000..<0x4000000FF] m = (Ok (), m')"
    using each unfolding past by (simp del: upt_rec_numeral)
  have unm: "\<forall>p\<in>set [0x400000000..<0x4000000FF]. look (mem_table m) p = None" using free by (auto simp del: upt_rec_numeral)
  from map_each_spec [OF laws distinct_upt unm each] obtain fs where
    fs: "length fs = length [0x400000000..<0x4000000FF :: nat]" "look (mem_table m') = look (mem_table m) ++
      mapped_to [0x400000000..<0x4000000FF] fs {PRESENT, WRITABLE, USER_ACCESSIBLE}"
    by (auto simp del: upt_rec_numeral)
  have "look (mem_table m') 0x4000000FF = None"
    using fs(2) free by (simp add: map_add_def mapped_to_notin del: upt_rec_numeral)
  moreover have "look (mem_table m') p \<noteq> None" if "0x400000000 \<le> p" "p < 0x4000000FF" for p
    using mapped_to_nth [of "[0x400000000..<0x4000000FF]" fs "p - 0x400000000" "{PRESENT, WRITABLE, USER_ACCESSIBLE}"]
      fs that by (simp add: map_add_def del: upt_rec_numeral)
  ultimately show ?thesis by (simp add: res USER_HEAP_START_def USER_HEAP_SIZE_def)
qed

end
