(* ===== verification/UserStack.thy ===== *)
theory UserStack
  imports UserHeap
begin

text \<open>
  The stack of a process, \<open>pkg/kernel/src/proc/vm/stack.rs\<close>: every thread of an address space
  has a slot of 4 GiB, mapped from the top of the slot downwards as it grows.
\<close>

section \<open>Constants\<close>

definition STACK_MAX :: u64 where "STACK_MAX = 0x400000000000"

definition STACK_MAX_PAGES :: u64 where "STACK_MAX_PAGES = 0x100000"

definition STACK_MAX_SIZE :: u64 where "STACK_MAX_SIZE = STACK_MAX_PAGES * 4096"

definition STACK_START_MASK :: u64 where "STACK_START_MASK = NOT (STACK_MAX_SIZE - 1)"

definition STACK_DEF_BOT :: u64 where "STACK_DEF_BOT = STACK_MAX - STACK_MAX_SIZE"

definition STACK_DEF_PAGE :: u64 where "STACK_DEF_PAGE = 1"

definition STACK_DEF_SIZE :: u64 where "STACK_DEF_SIZE = STACK_DEF_PAGE * 4096"

definition STACK_INIT_BOT :: u64 where "STACK_INIT_BOT = STACK_MAX - STACK_DEF_SIZE"

definition STACK_INIT_TOP :: u64 where "STACK_INIT_TOP = STACK_MAX - 8"

definition STACK_INIT_TOP_PAGE :: page where "STACK_INIT_TOP_PAGE = page_of STACK_INIT_TOP"

definition KSTACK_MAX :: u64 where "KSTACK_MAX = 0xffffff0200000000"

definition KSTACK_DEF_BOT :: u64 where "KSTACK_DEF_BOT = KSTACK_MAX - STACK_MAX_SIZE"

definition KSTACK_DEF_PAGE :: u64 where "KSTACK_DEF_PAGE = 8"

definition KSTACK_DEF_SIZE :: u64 where "KSTACK_DEF_SIZE = KSTACK_DEF_PAGE * 4096"

definition KSTACK_INIT_BOT :: u64 where "KSTACK_INIT_BOT = KSTACK_MAX - KSTACK_DEF_SIZE"

definition KSTACK_INIT_TOP :: u64 where "KSTACK_INIT_TOP = KSTACK_MAX - 8"

definition KSTACK_INIT_PAGE :: page where "KSTACK_INIT_PAGE = page_of KSTACK_INIT_BOT"

definition KSTACK_INIT_TOP_PAGE :: page where "KSTACK_INIT_TOP_PAGE = page_of KSTACK_INIT_TOP"

section \<open>The stack\<close>

text \<open>\<open>range\<close> is the half-open page range from \<open>sk_start\<close> to \<open>sk_end\<close>.\<close>

record stack =
  sk_start :: page
  sk_end :: page
  sk_usage :: u64

text \<open>\<open>Stack::new\<close>, for a stack below a page that is not the first \<open>size\<close> of the address space.\<close>

definition stack_new :: "page \<Rightarrow> u64 \<Rightarrow> stack" where
  "stack_new tp n = \<lparr>sk_start = tp - unat n + 1, sk_end = tp + 1, sk_usage = n\<rparr>"

definition kstack :: stack where
  "kstack = \<lparr>sk_start = KSTACK_INIT_PAGE, sk_end = KSTACK_INIT_TOP_PAGE, sk_usage = KSTACK_DEF_PAGE\<rparr>"

definition stack_empty :: stack where
  "stack_empty = \<lparr>sk_start = STACK_INIT_TOP_PAGE, sk_end = STACK_INIT_TOP_PAGE, sk_usage = 0\<rparr>"

definition stack_memory_usage :: "stack \<Rightarrow> u64" where
  "stack_memory_usage s = sk_usage s * 4096"

definition stack_clean_up :: "'m x86 \<Rightarrow> stack \<Rightarrow> 'm mem \<Rightarrow> (unmap_error, unit) res \<times> stack \<times> 'm mem" where
  "stack_clean_up x s m =
     (if sk_usage s = 0 then (Ok (), s, m)
      else
        let start_addr = page_addr (sk_start s); page_count = sk_end s - sk_start s in
        if page_count > 0 then
          thenS (unmap_pages x start_addr (of_nat page_count) True m)
            (\<lambda>_ m. (Ok (), s\<lparr>sk_usage := 0\<rparr>, m)) (\<lambda>m. (s, m))
        else (Ok (), s\<lparr>sk_usage := 0\<rparr>, m))"

text \<open>\<open>unwrap\<close> of the result: an error panics.\<close>

fun unwrapS :: "('e, 'a) res \<times> 's \<Rightarrow> ('f, 'a) res \<times> 's" where
  "unwrapS (Ok a, s) = (Ok a, s)"
| "unwrapS (Err e, s) = (Panic, s)"
| "unwrapS (Panic, s) = (Panic, s)"
| "unwrapS (Diverge, s) = (Diverge, s)"

definition stack_init :: "'m x86 \<Rightarrow> stack \<Rightarrow> 'm mem \<Rightarrow> (unit, unit) res \<times> stack \<times> 'm mem" where
  "stack_init x s m =
     thenS (unwrapS (map_pages x STACK_INIT_BOT STACK_DEF_PAGE True m))
       (\<lambda>(a, b) m. (Ok (), \<lparr>sk_start = a, sk_end = b, sk_usage = STACK_DEF_PAGE\<rparr>, m)) (\<lambda>m. (s, m))"

text \<open>The difference wraps in the default build; a child's stack lies below its parent's.\<close>

definition stack_offset :: "stack \<Rightarrow> stack \<Rightarrow> u64" where
  "stack_offset s old_stack = page_addr (sk_start s) - page_addr (sk_start old_stack)"

text \<open>
  The search of \<open>vfork\<close> for a place: the slots below, until a mapping succeeds. \<open>None\<close> is a
  search that does not end.
\<close>

partial_function (option) vfork_place ::
  "'m x86 \<Rightarrow> u64 \<Rightarrow> u64 \<Rightarrow> 'm mem \<Rightarrow> ((unit, u64) res \<times> 'm mem) option" where
  "vfork_place x usage new_stack_base m =
     (case map_pages x new_stack_base usage True m of
        (Ok r, m) \<Rightarrow> Some (Ok new_stack_base, m)
      | (Err e, m) \<Rightarrow> vfork_place x usage (new_stack_base - STACK_MAX_SIZE) m
      | (Panic, m) \<Rightarrow> Some (Panic, m)
      | (Diverge, m) \<Rightarrow> Some (Diverge, m))"

text \<open>
  \<open>copy_nonoverlapping\<close> of whole pages between two page-aligned addresses of the address space;
  physical memory is seen from address \<open>off\<close> on. A page that is not mapped faults.
\<close>

primrec copy_pages :: "'m x86 \<Rightarrow> u64 \<Rightarrow> page \<Rightarrow> page \<Rightarrow> nat \<Rightarrow> 'm mem \<Rightarrow> (unit, unit) res \<times> 'm mem" where
  "copy_pages x off src dst 0 m = (Ok (), m)"
| "copy_pages x off src dst (Suc n) m =
     (case (x_translate x (mem_table m) src, x_translate x (mem_table m) dst) of
        (Some f, Some g) \<Rightarrow>
          copy_pages x off (Suc src) (Suc dst) n
            (m\<lparr>mem_bytes := (\<lambda>a. if unat (a - (g + off)) < 4096
                then mem_bytes m (f + off + (a - (g + off))) else mem_bytes m a)\<rparr>)
      | _ \<Rightarrow> (Panic, m))"

definition stack_vfork :: "'m x86 \<Rightarrow> u64 \<Rightarrow> stack \<Rightarrow> u64 \<Rightarrow> 'm mem \<Rightarrow> (unit, stack) res \<times> 'm mem" where
  "stack_vfork x off s offset_count m =
     (case vfork_place x (sk_usage s) (page_addr (sk_start s) - offset_count * STACK_MAX_SIZE) m of
        None \<Rightarrow> (Diverge, m)
      | Some place \<Rightarrow>
          doS place (\<lambda>new_stack_base m.
          doS (copy_pages x off (sk_start s) (page_of new_stack_base) (unat (sk_usage s)) m) (\<lambda>_ m.
          andThenS (page_add x (page_of new_stack_base) (unat (sk_usage s))) m (\<lambda>new_end.
            (Ok \<lparr>sk_start = page_of new_stack_base, sk_end = new_end, sk_usage = sk_usage s\<rparr>, m)))))"

section \<open>Growing on page faults\<close>

definition is_on_stack :: "stack \<Rightarrow> u64 \<Rightarrow> bool" where
  "is_on_stack s addr \<longleftrightarrow> addr AND STACK_START_MASK = page_addr (sk_start s) AND STACK_START_MASK"

text \<open>
  \<open>user_access\<close>: the current process is not the kernel. The difference of the two pages
  panics when the address lies above the start, or wraps, as the crate does it.
\<close>

definition grow_stack ::
  "'m x86 \<Rightarrow> bool \<Rightarrow> stack \<Rightarrow> u64 \<Rightarrow> 'm mem \<Rightarrow> (map_error, unit) res \<times> stack \<times> 'm mem" where
  "grow_stack x user_access s addr m =
     (let new_start_page = page_of addr in
      andThenS (addr_minus (x_checked x) (\<lambda>a. True) (page_addr (sk_start s)) (page_addr new_start_page)) (s, m)
        (\<lambda>diff.
        thenS (map_pages x (page_addr new_start_page) (diff div 4096) user_access m)
          (\<lambda>r m. (Ok (), s\<lparr>sk_start := new_start_page,
             sk_usage := of_nat (sk_end s - new_start_page)\<rparr>, m))
          (\<lambda>m. (s, m))))"

definition stack_handle_page_fault ::
  "'m x86 \<Rightarrow> bool \<Rightarrow> stack \<Rightarrow> u64 \<Rightarrow> 'm mem \<Rightarrow> (unit, bool) res \<times> stack \<times> 'm mem" where
  "stack_handle_page_fault x user_access s addr m =
     (if \<not> is_on_stack s addr then (Ok False, s, m)
      else
        (case grow_stack x user_access s addr m of
           (Ok u, s, m) \<Rightarrow> (Ok True, s, m)
         | (Err e, s, m) \<Rightarrow> (Ok False, s, m)
         | (Panic, s, m) \<Rightarrow> (Panic, s, m)
         | (Diverge, s, m) \<Rightarrow> (Diverge, s, m)))"

end
