(* ===== verification/ProcVm.thy ===== *)
theory ProcVm
  imports UserStack ElfLoad
begin

text \<open>
  The address space of a process: page-table references (\<open>pkg/kernel/src/proc/paging.rs\<close>) and
  \<open>ProcessVm\<close> (\<open>pkg/kernel/src/proc/vm/mod.rs\<close>).
\<close>

section \<open>The machine\<close>

text \<open>
  What the kernel uses of the crate for whole page tables: the mapper over the level-4 table
  in a frame, the effect on the tables of copying one frame over another, and \<open>clean_up\<close>, which
  frees the tables below the level-4 one. \<open>mc_offset\<close> is the address at which physical memory is
  seen.
\<close>

record 'm machine =
  mc_mapper :: "frame \<Rightarrow> 'm x86"
  mc_copy_table :: "frame \<Rightarrow> frame \<Rightarrow> 'm \<Rightarrow> 'm"
  mc_clean_up :: "frame \<Rightarrow> 'm \<Rightarrow> frame frame_alloc \<Rightarrow> 'm \<times> frame frame_alloc"
  mc_offset :: u64

text \<open>
  The shared cells. Each address space has a number; \<open>vs_count\<close> is the strong count of its
  \<open>Arc<Cr3RegValue>\<close> and \<open>vs_end\<close> the cell with the end of its heap, made and shared together
  with it. \<open>vs_cr3\<close> is the register.
\<close>

type_synonym cr3 = "frame \<times> u64"

record 'm vmem =
  vs_mem :: "'m mem"
  vs_count :: "nat \<Rightarrow> nat"
  vs_end :: "nat \<Rightarrow> u64"
  vs_next :: nat
  vs_cr3 :: cr3

section \<open>References to page tables\<close>

record page_table =
  pt_id :: nat
  pt_reg :: cr3

definition pt_share :: "cr3 \<Rightarrow> 'm vmem \<Rightarrow> page_table \<times> 'm vmem" where
  "pt_share reg v =
     (\<lparr>pt_id = vs_next v, pt_reg = reg\<rparr>,
      v\<lparr>vs_count := (vs_count v)(vs_next v := 1), vs_next := Suc (vs_next v)\<rparr>)"

definition pt_new :: "'m vmem \<Rightarrow> page_table \<times> 'm vmem" where
  "pt_new v = pt_share (vs_cr3 v) v"

definition pt_clone_level_4 :: "'m machine \<Rightarrow> page_table \<Rightarrow> 'm vmem \<Rightarrow> (unit, page_table) res \<times> 'm vmem" where
  "pt_clone_level_4 mc pt v =
     (let m = vs_mem v in
      case allocate_frame (mem_frames m) of
        (None, fa) \<Rightarrow> (Panic, v)
      | (Some frame, fa) \<Rightarrow>
          (case pt_share (frame, 0)
             (v\<lparr>vs_mem := m\<lparr>mem_table := mc_copy_table mc (fst (pt_reg pt)) frame (mem_table m),
                            mem_frames := fa\<rparr>\<rparr>) of
             (pt', v') \<Rightarrow> (Ok pt', v')))"

definition pt_using_count :: "page_table \<Rightarrow> 'm vmem \<Rightarrow> nat" where
  "pt_using_count pt v = vs_count v (pt_id pt)"

definition pt_load :: "page_table \<Rightarrow> 'm vmem \<Rightarrow> 'm vmem" where
  "pt_load pt v = v\<lparr>vs_cr3 := pt_reg pt\<rparr>"

definition pt_fork :: "page_table \<Rightarrow> 'm vmem \<Rightarrow> page_table \<times> 'm vmem" where
  "pt_fork pt v = (pt, v\<lparr>vs_count := (vs_count v)(pt_id pt := Suc (vs_count v (pt_id pt)))\<rparr>)"

definition pt_drop :: "page_table \<Rightarrow> 'm vmem \<Rightarrow> 'm vmem" where
  "pt_drop pt v = v\<lparr>vs_count := (vs_count v)(pt_id pt := vs_count v (pt_id pt) - 1)\<rparr>"

definition pt_mapper :: "'m machine \<Rightarrow> page_table \<Rightarrow> 'm x86" where
  "pt_mapper mc pt = mc_mapper mc (fst (pt_reg pt))"

section \<open>The memory of a process\<close>

text \<open>The end of the heap is the cell of the address space \<open>pv_table\<close>.\<close>

record proc_vm =
  pv_table :: page_table
  pv_stack :: stack
  pv_heap_base :: u64
  pv_code :: "(page \<times> page) list"
  pv_code_usage :: u64

definition pv_heap :: "proc_vm \<Rightarrow> 'm vmem \<Rightarrow> heap" where
  "pv_heap vm v = \<lparr>hp_base = pv_heap_base vm, hp_end = vs_end v (pt_id (pv_table vm))\<rparr>"

definition store_heap :: "proc_vm \<Rightarrow> heap \<Rightarrow> 'm vmem \<Rightarrow> 'm vmem" where
  "store_heap vm h v = v\<lparr>vs_end := (vs_end v)(pt_id (pv_table vm) := hp_end h)\<rparr>"

definition proc_vm_new :: "page_table \<Rightarrow> 'm vmem \<Rightarrow> proc_vm \<times> 'm vmem" where
  "proc_vm_new pt v =
     (\<lparr>pv_table = pt, pv_stack = stack_empty, pv_heap_base = hp_base heap_empty, pv_code = [], pv_code_usage = 0\<rparr>,
      v\<lparr>vs_end := (vs_end v)(pt_id pt := hp_end heap_empty)\<rparr>)"

definition range_count :: "page \<times> page \<Rightarrow> nat" where
  "range_count r = Suc (snd r) - fst r"

definition init_kernel_vm :: "(page \<times> page) list \<Rightarrow> proc_vm \<Rightarrow> proc_vm" where
  "init_kernel_vm pages vm =
     vm\<lparr>pv_code := pages,
        pv_code_usage := foldl (\<lambda>u r. u + of_nat (range_count r) * 4096) 0 pages,
        pv_stack := kstack\<rparr>"

definition proc_vm_brk ::
  "'m machine \<Rightarrow> proc_vm \<Rightarrow> u64 option \<Rightarrow> 'm vmem \<Rightarrow> (unit, u64 option) res \<times> 'm vmem" where
  "proc_vm_brk mc vm addr v =
     (case heap_brk (pt_mapper mc (pv_table vm)) (pv_heap vm v) addr (vs_mem v) of
        (r, h, m) \<Rightarrow> (r, store_heap vm h (v\<lparr>vs_mem := m\<rparr>)))"

definition load_elf_code ::
  "'m machine \<Rightarrow> elf_file \<Rightarrow> proc_vm \<Rightarrow> 'm mem \<Rightarrow> (unit, proc_vm) res \<times> 'm mem" where
  "load_elf_code mc elf vm m =
     doS (unwrapS (load_elf (pt_mapper mc (pv_table vm)) elf (mc_offset mc) True m)) (\<lambda>(code, usage) m.
       (Ok (vm\<lparr>pv_code := code, pv_code_usage := usage\<rparr>), m))"

definition proc_vm_load_elf ::
  "'m machine \<Rightarrow> elf_file \<Rightarrow> proc_vm \<Rightarrow> 'm vmem \<Rightarrow> (unit, proc_vm) res \<times> 'm vmem" where
  "proc_vm_load_elf mc elf vm v =
     thenS (load_elf_code mc elf vm (vs_mem v))
       (\<lambda>vm m. (case stack_init (pt_mapper mc (pv_table vm)) (pv_stack vm) m of
          (r, s, m) \<Rightarrow> (andThen r (\<lambda>u. Ok (vm\<lparr>pv_stack := s\<rparr>)), v\<lparr>vs_mem := m\<rparr>)))
       (\<lambda>m. v\<lparr>vs_mem := m\<rparr>)"

definition proc_vm_fork ::
  "'m machine \<Rightarrow> proc_vm \<Rightarrow> u64 \<Rightarrow> 'm vmem \<Rightarrow> (unit, proc_vm) res \<times> 'm vmem" where
  "proc_vm_fork mc vm stack_offset_count v =
     (case pt_fork (pv_table vm) v of
        (owned, v) \<Rightarrow>
          (case stack_vfork (pt_mapper mc owned) (mc_offset mc) (pv_stack vm) stack_offset_count (vs_mem v) of
             (r, m) \<Rightarrow>
               (andThen r (\<lambda>s. Ok \<lparr>pv_table = owned, pv_stack = s, pv_heap_base = pv_heap_base vm,
                                  pv_code = [], pv_code_usage = 0\<rparr>),
                v\<lparr>vs_mem := m\<rparr>)))"

definition proc_vm_handle_page_fault ::
  "'m machine \<Rightarrow> bool \<Rightarrow> proc_vm \<Rightarrow> u64 \<Rightarrow> 'm vmem \<Rightarrow> (unit, bool) res \<times> proc_vm \<times> 'm vmem" where
  "proc_vm_handle_page_fault mc user_access vm addr v =
     (case stack_handle_page_fault (pt_mapper mc (pv_table vm)) user_access (pv_stack vm) addr (vs_mem v) of
        (r, s, m) \<Rightarrow> (r, vm\<lparr>pv_stack := s\<rparr>, v\<lparr>vs_mem := m\<rparr>))"

definition proc_vm_memory_usage :: "proc_vm \<Rightarrow> 'm vmem \<Rightarrow> u64" where
  "proc_vm_memory_usage vm v =
     stack_memory_usage (pv_stack vm) + heap_memory_usage (pv_heap vm v) + pv_code_usage vm"

primrec unmap_ranges ::
  "'m x86 \<Rightarrow> (page \<times> page) list \<Rightarrow> 'm mem \<Rightarrow> (unmap_error, unit) res \<times> 'm mem" where
  "unmap_ranges x [] m = (Ok (), m)"
| "unmap_ranges x (r # rs) m = doS (unmap_range x (fst r) (snd r) True m) (\<lambda>_ m. unmap_ranges x rs m)"

text \<open>
  The stack is unmapped for every process; heap, code and page tables go with the last process
  of the address space. An early error leaves the rest as it is.
\<close>

definition proc_vm_clean_up ::
  "'m machine \<Rightarrow> proc_vm \<Rightarrow> 'm vmem \<Rightarrow> (unmap_error, unit) res \<times> proc_vm \<times> 'm vmem" where
  "proc_vm_clean_up mc vm v =
     (let x = pt_mapper mc (pv_table vm) in
      case stack_clean_up x (pv_stack vm) (vs_mem v) of
        (r, s, m) \<Rightarrow>
          let vm = vm\<lparr>pv_stack := s\<rparr>; v = v\<lparr>vs_mem := m\<rparr> in
          andThenS r (vm, v) (\<lambda>_.
            if pt_using_count (pv_table vm) v = 1 then
              (case heap_clean_up x (pv_heap vm v) (vs_mem v) of
                 (r, h, m) \<Rightarrow>
                   let v = store_heap vm h (v\<lparr>vs_mem := m\<rparr>) in
                   andThenS r (vm, v) (\<lambda>_.
                     thenS (unmap_ranges x (pv_code vm) (vs_mem v))
                       (\<lambda>_ m.
                         case mc_clean_up mc (fst (pt_reg (pv_table vm))) (mem_table m) (mem_frames m) of
                           (tab, fa) \<Rightarrow>
                             (Ok (), vm, v\<lparr>vs_mem := m\<lparr>mem_table := tab,
                                mem_frames := deallocate_frame fa (fst (pt_reg (pv_table vm)))\<rparr>\<rparr>))
                       (\<lambda>m. (vm, v\<lparr>vs_mem := m\<rparr>))))
            else (Ok (), vm, v)))"

text \<open>
  \<open>Drop\<close>: an error of \<open>clean_up\<close> is only logged; then the reference to the page table goes.
\<close>

definition proc_vm_drop :: "'m machine \<Rightarrow> proc_vm \<Rightarrow> 'm vmem \<Rightarrow> (unit, unit) res \<times> 'm vmem" where
  "proc_vm_drop mc vm v =
     (case proc_vm_clean_up mc vm v of
        (Panic, vm, v) \<Rightarrow> (Panic, v)
      | (Diverge, vm, v) \<Rightarrow> (Diverge, v)
      | (r, vm, v) \<Rightarrow> (Ok (), pt_drop (pv_table vm) v))"

end
