(* ===== verification/VmFacts.thy ===== *)
theory VmFacts
  imports ProcVm ElfFacts
begin

text \<open>
  Facts about stacks: the slot of an address, growing on a page fault, and the place and the
  contents of the stack that \<open>vfork\<close> makes.
\<close>

section \<open>Runs of \<open>map_each\<close> over any pages\<close>

text \<open>Whatever the outcome, what was mapped stays as it is and no byte changes.\<close>

lemma map_each_mono:
  "mapper_laws x look \<Longrightarrow> map_each x fl ps m = (r, m') \<Longrightarrow>
    (\<forall>p. look (mem_table m) p \<noteq> None \<longrightarrow> look (mem_table m') p = look (mem_table m) p) \<and>
    mem_bytes m' = mem_bytes m \<and> (\<exists>us. fa_avail (mem_frames m) = us + fa_avail (mem_frames m'))"
proof (induction ps arbitrary: m)
  case Nil
  then show ?case by auto
next
  case (Cons p ps)
  show ?case
  proof (cases rule: take_frame_cases [of m])
    case none
    with Cons.prems(2) show ?thesis by auto
  next
    case (some f m1)
    show ?thesis
    proof (cases "look (mem_table m1) p = None")
      case False
      from map_to_mapped [OF Cons.prems(1) False, of f fl] obtain e tab where
        "map_to x p f fl m1 = (Err e, m1\<lparr>mem_table := tab\<rparr>)" "look tab = look (mem_table m1)" by blast
      with Cons.prems(2) some have "m' = m1\<lparr>mem_table := tab\<rparr>" "look tab = look (mem_table m)" by auto
      with some show ?thesis by (auto intro: exI [of _ "{#f#}"])
    next
      case True
      from map_to_unmapped [OF Cons.prems(1) True, of f fl] obtain r1 m2 ts where
        m2: "map_to x p f fl m1 = (r1, m2)" "mem_bytes m2 = mem_bytes m1"
          "fa_avail (mem_frames m1) = mset ts + fa_avail (mem_frames m2)"
          "r1 = Ok () \<and> look (mem_table m2) = (look (mem_table m1))(p \<mapsto> (f, fl)) \<or>
            (\<exists>e. r1 = Err e) \<and> look (mem_table m2) = look (mem_table m1)" by blast
      then have look2: "\<forall>q. look (mem_table m) q \<noteq> None \<longrightarrow> look (mem_table m2) q = look (mem_table m) q"
        using True some by (auto simp del: not_None_eq)
      have avail2: "fa_avail (mem_frames m) = add_mset f (mset ts) + fa_avail (mem_frames m2)" using some m2(3) by simp
      show ?thesis
      proof (cases "\<exists>u. r1 = Ok u")
        case False
        with m2(1, 4) Cons.prems(2) some have "m' = m2" by auto
        with look2 avail2 m2(2) some show ?thesis by auto
      next
        case True
        with m2(1) Cons.prems(2) some have "map_each x fl ps m2 = (r, m')" by auto
        from Cons.IH [OF Cons.prems(1) this] obtain us where
          "\<forall>q. look (mem_table m2) q \<noteq> None \<longrightarrow> look (mem_table m') q = look (mem_table m2) q"
          "mem_bytes m' = mem_bytes m2" "fa_avail (mem_frames m2) = us + fa_avail (mem_frames m')" by blast
        with look2 avail2 m2(2) some show ?thesis
          by (intro conjI exI [of _ "add_mset f (mset ts) + us"]) (auto simp del: not_None_eq)
      qed
    qed
  qed
qed

text \<open>A run that succeeds has met no page that was mapped.\<close>

lemma map_each_Ok_unmapped:
  "mapper_laws x look \<Longrightarrow> map_each x fl ps m = (Ok (), m') \<Longrightarrow> \<forall>p\<in>set ps. look (mem_table m) p = None"
proof (induction ps arbitrary: m)
  case (Cons p ps)
  have unm: "look (mem_table m) p = None"
  proof (rule ccontr)
    assume "look (mem_table m) p \<noteq> None"
    from map_each_taken [OF Cons.prems(1) this, of fl ps] Cons.prems(2) show False by auto
  qed
  from Cons.prems(2) obtain f m1 m2 where
    m1: "take_frame m = (Ok f, m1)" and m2: "map_to x p f fl m1 = (Ok (), m2)" "map_each x fl ps m2 = (Ok (), m')"
    by (auto simp: thenS_eq_Ok)
  have look1: "look (mem_table m1) = look (mem_table m)"
    using m1 by (cases rule: take_frame_cases [of m]) auto
  have "look (mem_table m2) = (look (mem_table m1))(p \<mapsto> (f, fl))"
    using map_to_unmapped [OF Cons.prems(1), of m1 p f fl] unm look1 m2(1) by auto
  then have look2: "look (mem_table m2) q = (if q = p then Some (f, fl) else look (mem_table m) q)" for q
    by (simp add: look1)
  have rest: "look (mem_table m2) q = None" if "q \<in> set ps" for q
    using Cons.IH [OF Cons.prems(1) m2(2)] that by blast
  have "look (mem_table m) q = None" if "q \<in> set ps" for q
  proof (cases "q = p")
    case False
    then show ?thesis using rest [OF that] unfolding look2 by simp
  qed (simp add: unm)
  with unm show ?case by simp
qed simp

section \<open>Mapping by address\<close>

lemma map_pages_eq:
  assumes "4096 * (p + n) < 2 ^ 64" "0 < p + n" "x_virt_ok x (page_addr p)" "x_virt_ok x (page_addr (p + n))"
  shows "map_pages x (page_addr p) (of_nat n) ua m =
    doS (map_range x p (p + n - 1) ua m) (\<lambda>_ m. (Ok (p, p + n), m))"
proof -
  have n: "unat (of_nat n :: u64) = n" using assms(1) by (simp add: unat_of_nat take_bit_nat_eq_self)
  have add: "page_addr p + of_nat n * 4096 = page_addr (p + n)" by (simp add: page_addr_def algebra_simps)
  have lt: "unat (page_addr p) + unat (of_nat n * 4096 :: u64) < 2 ^ 64"
  proof -
    have "unat (of_nat n * 4096 :: u64) = 4096 * n"
      using assms(1) n by (simp add: unat_word_ariths)
    then show ?thesis using assms(1) by (simp add: unat_page_addr)
  qed
  have pa: "(page_add x p n :: (map_error, page) res) = Ok (p + n)"
    using assms(1, 4) lt by (simp add: page_add_def addr_plus_def add)
  have "p + n \<noteq> 0" using assms(2) by simp
  moreover have "page_of (page_addr p) = p" using assms(1) by simp
  ultimately show ?thesis
    by (simp only: map_pages_def virt_addr_def n pa assms(3) if_True andThenS.simps Let_def if_False)
qed

lemma user_page_ok:
  assumes "user_half_ok x" "p < 0x800000000"
  shows "x_virt_ok x (page_addr p)"
proof -
  have "unat (page_addr p) = 4096 * p" using assms(2) by (intro unat_page_addr) simp
  then have "page_addr p < 0x800000000000" using assms(2) by (simp add: word_less_nat_alt)
  then show ?thesis using assms(1) by (simp add: user_half_ok_def)
qed

section \<open>Slots\<close>

lemma bit_start_mask: "bit STACK_START_MASK n \<longleftrightarrow> 32 \<le> n \<and> n < 64"
proof -
  have "STACK_MAX_SIZE - 1 = mask 32"
    by (simp add: STACK_MAX_SIZE_def STACK_MAX_PAGES_def mask_eq_exp_minus_1)
  then show ?thesis by (auto simp: STACK_START_MASK_def bit_simps)
qed

lemma same_slot:
  "a AND STACK_START_MASK = b AND STACK_START_MASK \<longleftrightarrow> unat a div 2 ^ 32 = unat b div 2 ^ 32"
proof -
  have "a AND STACK_START_MASK = b AND STACK_START_MASK \<longleftrightarrow> drop_bit 32 a = drop_bit 32 b"
  proof
    assume eq: "a AND STACK_START_MASK = b AND STACK_START_MASK"
    show "drop_bit 32 a = drop_bit 32 b"
    proof (rule bit_word_eqI)
      fix n assume "n < LENGTH(64)"
      have "bit (a AND STACK_START_MASK) (32 + n) = bit (b AND STACK_START_MASK) (32 + n)" using eq by simp
      then show "bit (drop_bit 32 a) n = bit (drop_bit 32 b) n"
        by (auto simp: bit_simps bit_start_mask dest: bit_imp_le_length)
    qed
  next
    assume eq: "drop_bit 32 a = drop_bit 32 b"
    show "a AND STACK_START_MASK = b AND STACK_START_MASK"
    proof (rule bit_word_eqI)
      fix n assume "n < LENGTH(64)"
      show "bit (a AND STACK_START_MASK) n = bit (b AND STACK_START_MASK) n"
      proof (cases "32 \<le> n")
        case True
        have "bit (drop_bit 32 a) (n - 32) = bit (drop_bit 32 b) (n - 32)" using eq by simp
        with True show ?thesis by (simp add: bit_simps)
      qed (simp add: bit_simps bit_start_mask)
    qed
  qed
  also have "\<dots> \<longleftrightarrow> unat (drop_bit 32 a) = unat (drop_bit 32 b)" by (simp only: word_unat_eq_iff)
  also have "\<dots> \<longleftrightarrow> unat a div 2 ^ 32 = unat b div 2 ^ 32" by (simp only: unat_drop_bit_eq) (simp only: drop_bit_eq_div)
  finally show ?thesis .
qed

text \<open>The slot of a page, of which there are \<open>2 ^ 20\<close> in a slot.\<close>

definition slot :: "page \<Rightarrow> nat" where "slot p = p div 0x100000"

lemma is_on_stack_slot:
  assumes "4096 * sk_start s < 2 ^ 64"
  shows "is_on_stack s addr \<longleftrightarrow> slot (page_of addr) = slot (sk_start s)"
proof -
  have "unat addr div 2 ^ 32 = unat addr div 4096 div 0x100000" by (simp add: div_mult2_eq [symmetric])
  moreover have "unat (page_addr (sk_start s)) div 2 ^ 32 = sk_start s div 0x100000"
    unfolding unat_page_addr [OF assms] by (simp add: div_mult2_eq [symmetric])
  ultimately show ?thesis by (simp add: is_on_stack_def same_slot slot_def page_of_def)
qed

section \<open>Growing\<close>

text \<open>
  A stack in its slot: its pages are mapped, those of the slot below it are not, and \<open>usage\<close>
  is the number of its pages.
\<close>

definition stack_ok :: "'m lookup \<Rightarrow> stack \<Rightarrow> 'm mem \<Rightarrow> bool" where
  "stack_ok look s m \<longleftrightarrow>
     0 < sk_start s \<and> sk_start s < sk_end s \<and> sk_end s < 0x800000000 \<and> slot (sk_end s - 1) = slot (sk_start s) \<and>
     unat (sk_usage s) = sk_end s - sk_start s \<and>
     (\<forall>p. slot p = slot (sk_start s) \<and> p < sk_end s \<longrightarrow> (look (mem_table m) p \<noteq> None \<longleftrightarrow> sk_start s \<le> p))"

lemma slot_mono: "p \<le> q \<Longrightarrow> slot p \<le> slot q"
  by (simp add: slot_def div_le_mono)

lemma slot_between: "slot p = slot r \<Longrightarrow> p \<le> q \<Longrightarrow> q \<le> r \<Longrightarrow> slot q = slot r"
  using slot_mono [of p q] slot_mono [of q r] by simp

lemma handle_page_fault_grows:
  assumes laws: "mapper_laws x look" and x: "user_half_ok x" and ok: "stack_ok look s m"
    and addr: "slot (page_of addr) = slot (sk_start s)" "0 < page_of addr" "page_of addr < sk_start s"
    and run: "stack_handle_page_fault x ua s addr m = (r, s', m')"
  shows "r = Ok True \<and> stack_ok look s' m' \<and> sk_start s' = page_of addr \<and> sk_end s' = sk_end s \<or>
    r = Ok False \<and> s' = s \<and> (\<exists>e. fst (map_range x (page_of addr) (sk_start s - 1) ua m) = Err e)"
    and "\<forall>p. p < page_of addr \<or> sk_start s \<le> p \<longrightarrow> look (mem_table m') p = look (mem_table m) p"
proof -
  let ?n = "page_of addr" and ?b = "sk_start s"
  have b: "?b < 0x800000000" "sk_end s < 0x800000000" using ok by (auto simp: stack_ok_def)
  have on: "is_on_stack s addr" using addr(1) b by (subst is_on_stack_slot) simp_all
  have un: "unat (page_addr ?b) = 4096 * ?b" "unat (page_addr ?n) = 4096 * ?n"
    using b addr(3) by (simp_all add: unat_page_addr)
  have le: "page_addr ?n \<le> page_addr ?b" using un addr(3) by (simp add: word_le_nat_alt)
  have "unat (page_addr ?b - page_addr ?n) = 4096 * (?b - ?n)" using le un by (simp add: unat_sub diff_mult_distrib2)
  then have "unat ((page_addr ?b - page_addr ?n) div 4096) = ?b - ?n" by (simp add: unat_div)
  moreover have "of_nat (unat ((page_addr ?b - page_addr ?n) div 4096)) = (page_addr ?b - page_addr ?n) div 4096"
    by simp
  ultimately have diff: "(page_addr ?b - page_addr ?n) div 4096 = of_nat (?b - ?n)" by simp
  have mp: "map_pages x (page_addr ?n) (of_nat (?b - ?n)) ua m =
      doS (map_range x ?n (?b - 1) ua m) (\<lambda>_ m. (Ok (?n, ?b), m))"
    using map_pages_eq [of ?n "?b - ?n" x ua m] addr(2, 3) b user_page_ok [OF x, of ?n] user_page_ok [OF x, of ?b]
    by simp
  have unm: "\<forall>p\<in>set [?n..<Suc (?b - 1)]. look (mem_table m) p = None"
  proof
    fix p assume "p \<in> set [?n..<Suc (?b - 1)]"
    then have "?n \<le> p" "p < ?b" using addr(3) by (auto simp del: upt_Suc)
    moreover from this have "slot p = slot ?b" using slot_between [OF addr(1), of p] by simp
    ultimately show "look (mem_table m) p = None" using ok by (auto simp: stack_ok_def simp del: not_None_eq)
  qed
  obtain r1 m1 where m1: "map_range x ?n (?b - 1) ua m = (r1, m1)" by (cases "map_range x ?n (?b - 1) ua m")
  from map_each_spec [OF laws distinct_upt unm m1 [unfolded map_range_def]] obtain before after fs where
    bf: "[?n..<Suc (?b - 1)] = before @ after" "length fs = length before"
      "look (mem_table m1) = look (mem_table m) ++ mapped_to before fs (range_flags ua)"
      "r1 = Ok () \<and> after = [] \<or> (\<exists>e. r1 = Err e) \<and> after \<noteq> []" by blast
  have set: "set [?n..<Suc (?b - 1)] = {?n..<?b}" using addr(3) by (auto simp del: upt_Suc)
  have sub: "set before \<subseteq> {?n..<?b}" using bf(1) set by (metis Un_upper1 set_append)
  have out: "look (mem_table m1) p = look (mem_table m) p" if "p < ?n \<or> ?b \<le> p" for p
  proof -
    have "p \<notin> set before" using that sub by auto
    then show ?thesis using bf(3) by (simp add: map_add_def mapped_to_notin)
  qed
  from bf(4) have "(r = Ok True \<and> stack_ok look s' m' \<and> sk_start s' = ?n \<and> sk_end s' = sk_end s \<or>
      r = Ok False \<and> s' = s \<and> (\<exists>e. fst (map_range x ?n (?b - 1) ua m) = Err e)) \<and> m' = m1"
  proof
    assume all: "r1 = Ok () \<and> after = []"
    then have r: "r = Ok True" "s' = s\<lparr>sk_start := ?n, sk_usage := of_nat (sk_end s - ?n)\<rparr>" "m' = m1"
      using run on m1 mp le
      by (auto simp: stack_handle_page_fault_def grow_stack_def Let_def addr_minus_def diff)
    have "look (mem_table m1) p \<noteq> None \<longleftrightarrow> ?n \<le> p" if "slot p = slot ?n" "p < sk_end s" for p
    proof (cases "?n \<le> p \<and> p < ?b")
      case True
      then have "p \<in> set before" using all bf(1) set by auto
      then obtain i where i: "i < length before" "before ! i = p" by (metis in_set_conv_nth)
      have "distinct before" using bf(1) by (metis distinct_append distinct_upt)
      from mapped_to_nth [OF this bf(2) i(1), of "range_flags ua"] bf(3) i(2) True show ?thesis by simp
    next
      case False
      then have "look (mem_table m1) p = look (mem_table m) p" using out [of p] by auto
      moreover have "look (mem_table m) p \<noteq> None \<longleftrightarrow> ?b \<le> p" using ok that addr(1) by (simp add: stack_ok_def del: not_None_eq)
      ultimately show ?thesis using False addr(3) by (auto simp del: not_None_eq)
    qed
    moreover have "unat (of_nat (sk_end s - ?n) :: u64) = sk_end s - ?n"
      using b(2) by (simp add: unat_of_nat take_bit_nat_eq_self)
    ultimately have "stack_ok look s' m'"
      using ok r addr by (auto simp: stack_ok_def simp del: not_None_eq)
    with r show ?thesis by simp
  next
    assume "(\<exists>e. r1 = Err e) \<and> after \<noteq> []"
    then show ?thesis
      using run on m1 mp le
      by (auto simp: stack_handle_page_fault_def grow_stack_def Let_def addr_minus_def diff)
  qed
  with out show "r = Ok True \<and> stack_ok look s' m' \<and> sk_start s' = ?n \<and> sk_end s' = sk_end s \<or>
      r = Ok False \<and> s' = s \<and> (\<exists>e. fst (map_range x ?n (?b - 1) ua m) = Err e)"
    "\<forall>p. p < ?n \<or> ?b \<le> p \<longrightarrow> look (mem_table m') p = look (mem_table m) p" by auto
qed

section \<open>The place of a forked stack\<close>

text \<open>From \<open>m\<close> to \<open>m'\<close> only frames have been taken and pages mapped that were not.\<close>

definition maps_more :: "'m lookup \<Rightarrow> 'm mem \<Rightarrow> 'm mem \<Rightarrow> bool" where
  "maps_more look m m' \<longleftrightarrow>
    (\<forall>p. look (mem_table m) p \<noteq> None \<longrightarrow> look (mem_table m') p = look (mem_table m) p) \<and>
    mem_bytes m' = mem_bytes m \<and> (\<exists>us. fa_avail (mem_frames m) = us + fa_avail (mem_frames m'))"

lemma maps_more_refl: "maps_more look m m"
  by (auto simp: maps_more_def)

lemma maps_more_trans: "maps_more look m1 m2 \<Longrightarrow> maps_more look m2 m3 \<Longrightarrow> maps_more look m1 m3"
  unfolding maps_more_def by (auto simp: add.assoc [symmetric] simp del: not_None_eq)

lemma map_pages_more:
  assumes "mapper_laws x look" "map_pages x a n ua m = (r, m')"
  shows "maps_more look m m'"
proof -
  have range: "maps_more look m m2" if "map_range x s e ua m = (r2, m2)" for s e r2 m2
    using map_each_mono [OF assms(1)] that unfolding map_range_def maps_more_def by blast
  show ?thesis
  proof (cases "(virt_addr x a :: (map_error, u64) res)")
    case (Ok b)
    show ?thesis
    proof (cases "(page_add x (page_of b) (unat n) :: (map_error, page) res)")
      case (Ok q)
      obtain r2 m2 where run: "map_range x (page_of b) (q - 1) ua m = (r2, m2)"
        by (cases "map_range x (page_of b) (q - 1) ua m")
      have "m' = m2 \<or> m' = m"
        using assms(2) run Ok \<open>virt_addr x a = res.Ok b\<close>
        by (cases r2) (auto simp: map_pages_def Let_def split: if_splits)
      then show ?thesis using range [OF run] maps_more_refl by metis
    qed (use assms(2) Ok in \<open>auto simp: map_pages_def Let_def maps_more_refl\<close>)
  qed (use assms(2) in \<open>auto simp: map_pages_def maps_more_refl\<close>)
qed

lemma vfork_place_run:
  "vfork_place x u b m = Some y \<Longrightarrow> mapper_laws x look \<longrightarrow> (\<forall>b' m'. y = (Ok b', m') \<longrightarrow>
    (\<exists>j m1 r. b' = b - of_nat j * STACK_MAX_SIZE \<and> maps_more look m m1 \<and> map_pages x b' u True m1 = (Ok r, m')))"
proof (rule vfork_place.raw_induct [where xa = "(((x, u), b), m)" and y = y
      and P = "\<lambda>x u b m y. mapper_laws x look \<longrightarrow> (\<forall>b' m'. y = (Ok b', m') \<longrightarrow>
        (\<exists>j m1 r. b' = b - of_nat j * STACK_MAX_SIZE \<and> maps_more look m m1 \<and>
          map_pages x b' u True m1 = (Ok r, m')))", unfolded prod.case])
  fix loop and x :: "'a x86" and u b m and y :: "(unit, u64) res \<times> 'a mem"
  assume IH: "\<And>x u b m y. loop x u b m = Some y \<Longrightarrow> mapper_laws x look \<longrightarrow> (\<forall>b' m'. y = (Ok b', m') \<longrightarrow>
      (\<exists>j m1 r. b' = b - of_nat j * STACK_MAX_SIZE \<and> maps_more look m m1 \<and>
        map_pages x b' u True m1 = (Ok r, m')))"
    and y: "(case map_pages x b u True m of
        (Ok r, m) \<Rightarrow> Some (Ok b, m)
      | (Err e, m) \<Rightarrow> loop x u (b - STACK_MAX_SIZE) m
      | (Panic, m) \<Rightarrow> Some (Panic, m)
      | (Diverge, m) \<Rightarrow> Some (Diverge, m)) = Some y"
  show "mapper_laws x look \<longrightarrow> (\<forall>b' m'. y = (Ok b', m') \<longrightarrow>
      (\<exists>j m1 r. b' = b - of_nat j * STACK_MAX_SIZE \<and> maps_more look m m1 \<and>
        map_pages x b' u True m1 = (Ok r, m')))"
  proof (intro impI allI)
    fix b' m' assume laws: "mapper_laws x look" and yeq: "y = (Ok b', m')"
    obtain r1 m1 where run: "map_pages x b u True m = (r1, m1)" by (cases "map_pages x b u True m")
    show "\<exists>j m1 r. b' = b - of_nat j * STACK_MAX_SIZE \<and> maps_more look m m1 \<and>
        map_pages x b' u True m1 = (Ok r, m')"
    proof (cases r1)
      case (Ok r)
      with y yeq run have "b' = b - of_nat 0 * STACK_MAX_SIZE" "map_pages x b' u True m = (res.Ok r, m')" by auto
      with maps_more_refl show ?thesis by metis
    next
      case (Err e)
      with y run have "loop x u (b - STACK_MAX_SIZE) m1 = Some y" by simp
      from IH [OF this] laws yeq obtain j m2 r where
        j: "b' = b - STACK_MAX_SIZE - of_nat j * STACK_MAX_SIZE" "maps_more look m1 m2"
          "map_pages x b' u True m2 = (Ok r, m')" by blast
      have "b' = b - of_nat (Suc j) * STACK_MAX_SIZE" using j(1) by (simp add: algebra_simps)
      moreover have "maps_more look m m2" using maps_more_trans [OF map_pages_more [OF laws run] j(2)] .
      ultimately show ?thesis using j(3) by blast
    qed (use y yeq run in auto)
  qed
qed

lemmas vfork_place_found = vfork_place_run [rule_format, OF _ _ refl]

text \<open>The place has the same offset in its slot, so that the pages of the stack fit.\<close>

lemma slot_offset:
  "unat (a - j * STACK_MAX_SIZE) mod 2 ^ 32 = unat a mod 2 ^ 32"
proof -
  have mm: "(z mod 2 ^ 64) mod 2 ^ 32 = z mod (2 ^ 32 :: int)" for z by (rule mod_mod_cancel) simp
  have size: "uint STACK_MAX_SIZE = 2 ^ 32" by (simp add: STACK_MAX_SIZE_def STACK_MAX_PAGES_def)
  have "uint (j * STACK_MAX_SIZE) mod 2 ^ 32 = 0"
    by (simp only: uint_word_arith_bintrs take_bit_eq_mod) (simp add: mm [simplified] size)
  moreover have "uint (a - j * STACK_MAX_SIZE) mod 2 ^ 32 = (uint a - uint (j * STACK_MAX_SIZE)) mod 2 ^ 32"
    by (simp only: uint_word_arith_bintrs(2) take_bit_eq_mod) (simp add: mm [simplified])
  ultimately have "uint (a - j * STACK_MAX_SIZE) mod 2 ^ 32 = uint a mod 2 ^ 32"
    by (metis mod_diff_right_eq diff_zero)
  moreover have "unat w mod 2 ^ 32 = nat (uint w mod 2 ^ 32)" for w :: u64
    by (simp only: nat_mod_distrib unat_eq_nat_uint uint_nonnegative zero_le_power zero_le_numeral nat_power_eq nat_numeral)
  ultimately show ?thesis by (simp only:)
qed

section \<open>Copying pages\<close>

text \<open>
  Copying \<open>n\<close> pages between frames that are all different: every byte of a page copied is that
  of its source before, and no other byte changes. \<open>fr\<close> is the frame of each page.
\<close>

lemma copy_pages_spec:
  "\<forall>i<n. x_translate x (mem_table m) (src + i) = Some (fr (src + i)) \<and>
      x_translate x (mem_table m) (dst + i) = Some (fr (dst + i)) \<and>
      4096 dvd unat (fr (src + i)) \<and> 4096 dvd unat (fr (dst + i)) \<Longrightarrow>
    \<forall>i<n. \<forall>j<n. fr (src + i) \<noteq> fr (dst + j) \<and> (i \<noteq> j \<longrightarrow> fr (dst + i) \<noteq> fr (dst + j)) \<Longrightarrow>
    \<exists>bs. copy_pages x off src dst n m = (Ok (), m\<lparr>mem_bytes := bs\<rparr>) \<and>
      (\<forall>i<n. \<forall>k<4096. bs (fr (dst + i) + off + of_nat k) = mem_bytes m (fr (src + i) + off + of_nat k)) \<and>
      (\<forall>a. (\<forall>i<n. 4096 \<le> unat (a - (fr (dst + i) + off))) \<longrightarrow> bs a = mem_bytes m a)"
proof (induction n arbitrary: src dst m)
  case 0
  show ?case by (intro exI [of _ "mem_bytes m"]) simp
next
  case (Suc n)
  let ?f = "fr src" and ?g = "fr dst"
  define b1 where "b1 = (\<lambda>a. if unat (a - (?g + off)) < 4096
      then mem_bytes m (?f + off + (a - (?g + off))) else mem_bytes m a)"
  let ?m = "m\<lparr>mem_bytes := b1\<rparr>"
  have hd: "x_translate x (mem_table m) src = Some ?f" "x_translate x (mem_table m) dst = Some ?g"
    "4096 dvd unat ?g" using Suc.prems(1) [rule_format, of 0] by auto
  have tl: "\<forall>i<n. x_translate x (mem_table ?m) (Suc src + i) = Some (fr (Suc src + i)) \<and>
      x_translate x (mem_table ?m) (Suc dst + i) = Some (fr (Suc dst + i)) \<and>
      4096 dvd unat (fr (Suc src + i)) \<and> 4096 dvd unat (fr (Suc dst + i))"
    using Suc.prems(1) by (auto dest: spec [of _ "Suc _"])
  have tl2: "\<forall>i<n. \<forall>j<n. fr (Suc src + i) \<noteq> fr (Suc dst + j) \<and>
      (i \<noteq> j \<longrightarrow> fr (Suc dst + i) \<noteq> fr (Suc dst + j))"
  proof (intro allI impI)
    fix i j assume "i < n" "j < n"
    with Suc.prems(2) [rule_format, of "Suc i" "Suc j"]
    show "fr (Suc src + i) \<noteq> fr (Suc dst + j) \<and> (i \<noteq> j \<longrightarrow> fr (Suc dst + i) \<noteq> fr (Suc dst + j))" by simp
  qed
  from Suc.IH [OF tl tl2] obtain bs where
    bs: "copy_pages x off (Suc src) (Suc dst) n ?m = (Ok (), ?m\<lparr>mem_bytes := bs\<rparr>)"
      "\<And>i k. i < n \<Longrightarrow> k < 4096 \<Longrightarrow>
        bs (fr (Suc dst + i) + off + of_nat k) = b1 (fr (Suc src + i) + off + of_nat k)"
      "\<And>a. (\<forall>i<n. 4096 \<le> unat (a - (fr (Suc dst + i) + off))) \<Longrightarrow> bs a = b1 a" by auto
  have keep: "b1 (fr (Suc src + i) + off + of_nat k) = mem_bytes m (fr (Suc src + i) + off + of_nat k)"
    if "i < n" "k < 4096" for i k
  proof -
    have "fr (src + Suc i) \<noteq> fr (dst + 0)" using Suc.prems(2) that by blast
    then have "4096 \<le> unat (fr (Suc src + i) + off + of_nat k - (?g + off))"
      using aligned_blocks [of "fr (Suc src + i)" ?g k off] tl hd that by simp
    then show ?thesis by (simp add: b1_def)
  qed
  have first: "bs (?g + off + of_nat k) = mem_bytes m (?f + off + of_nat k)" if "k < 4096" for k
  proof -
    have "4096 \<le> unat (?g + off + of_nat k - (fr (Suc dst + i) + off))" if "i < n" for i
    proof -
      have "fr (dst + 0) \<noteq> fr (dst + Suc i)" using Suc.prems(2) that by blast
      then show ?thesis using aligned_blocks [of ?g "fr (Suc dst + i)" k off] tl hd \<open>k < 4096\<close> that by simp
    qed
    then have "bs (?g + off + of_nat k) = b1 (?g + off + of_nat k)" by (intro bs(3)) simp
    then show ?thesis using that by (simp add: b1_def unat_of_nat take_bit_nat_eq_self)
  qed
  have "copy_pages x off src dst (Suc n) m = (Ok (), m\<lparr>mem_bytes := bs\<rparr>)"
    using bs(1) hd by (simp add: b1_def)
  moreover have "bs (fr (dst + i) + off + of_nat k) = mem_bytes m (fr (src + i) + off + of_nat k)"
    if "i < Suc n" "k < 4096" for i k
    using that first bs(2) keep by (cases i) auto
  moreover have "bs a = mem_bytes m a" if "\<forall>i<Suc n. 4096 \<le> unat (a - (fr (dst + i) + off))" for a
  proof -
    have "\<forall>i<n. 4096 \<le> unat (a - (fr (Suc dst + i) + off))" using that by (auto dest: spec [of _ "Suc _"])
    then have "bs a = b1 a" by (rule bs(3))
    then show ?thesis using that [rule_format, of 0] by (simp add: b1_def)
  qed
  ultimately show ?case by blast
qed

section \<open>The stack that \<open>vfork\<close> makes\<close>

lemma slot_room: "slot (p + n - 1) = slot p \<Longrightarrow> 0 < n \<Longrightarrow> p mod 0x100000 + n \<le> 0x100000"
proof -
  assume eq: "slot (p + n - 1) = slot p" and n: "0 < n"
  have "p + n - 1 < (Suc (slot p)) * 0x100000"
    using div_less_iff_less_mult [of "0x100000" "p + n - 1" "Suc (slot p)"] eq by (simp add: slot_def)
  moreover have "p = slot p * 0x100000 + p mod 0x100000" by (simp add: slot_def)
  ultimately show ?thesis using n by (simp add: algebra_simps)
qed

lemma room_slot: "p mod 0x100000 + n \<le> 0x100000 \<Longrightarrow> i < n \<Longrightarrow> slot (p + i) = slot p"
proof -
  assume "p mod 0x100000 + n \<le> 0x100000" "i < n"
  then have i: "p mod 0x100000 + i < 0x100000" by simp
  then have "i mod 0x100000 = i" "i div 0x100000 = 0" by simp_all
  with i show ?thesis unfolding slot_def div_add1_eq [of p i] by simp
qed

text \<open>The pages that a successful search has mapped, at the offset of the parent's stack.\<close>

lemma vfork_place_maps:
  assumes laws: "mapper_laws x look"
    and s: "slot (b + n - 1) = slot b" "0 < n" "unat u = n" "4096 * b < 2 ^ 64"
    and found: "vfork_place x u (page_addr b - c * STACK_MAX_SIZE) m = Some (Ok base, m1)"
  shows "\<exists>m0 fs ts. maps_more look m m0 \<and> unat base = 4096 * page_of base \<and>
    page_of base mod 0x100000 = b mod 0x100000 \<and> page_of base + n < 2 ^ 52 \<and>
    (page_add x (page_of base) n :: (unit, page) res) = Ok (page_of base + n) \<and> virt_addr x base = (Ok base :: (unit, u64) res) \<and>
    (\<forall>i<n. look (mem_table m0) (page_of base + i) = None) \<and> length fs = n \<and>
    look (mem_table m1) = look (mem_table m0) ++ mapped_to [page_of base..<page_of base + n] fs (range_flags True) \<and>
    fa_avail (mem_frames m0) = mset fs + mset ts + fa_avail (mem_frames m1) \<and> mem_bytes m1 = mem_bytes m0"
proof -
  let ?p = "page_of base"
  from vfork_place_found [OF found laws] obtain j m0 r where
    j: "base = page_addr b - c * STACK_MAX_SIZE - of_nat j * STACK_MAX_SIZE" "maps_more look m m0"
      "map_pages x base u True m0 = (Ok r, m1)" by blast
  have "base = page_addr b - (c + of_nat j) * STACK_MAX_SIZE" using j(1) by (simp add: algebra_simps)
  then have md: "unat base mod 2 ^ 32 = 4096 * b mod 2 ^ 32" by (simp only: slot_offset unat_page_addr [OF s(4)])
  have d: "(y :: nat) mod 2 ^ 32 = 4096 * (y div 4096 mod 0x100000) + y mod 4096" for y
    using mod_mult2_eq [of y 4096 "0x100000"] by simp
  have al: "unat base mod 4096 = 0"
    using arg_cong [OF md, of "\<lambda>y. y mod 4096"] by (simp add: mod_mod_cancel)
  have off: "?p mod 0x100000 = b mod 0x100000"
    using md d [of "unat base"] d [of "4096 * b"] al by (simp add: page_of_def)
  have base: "unat base = 4096 * ?p" using al by (simp add: page_of_def mod_0_imp_dvd)
  have room: "?p mod 0x100000 + n \<le> 0x100000" using slot_room [OF s(1, 2)] off by simp
  have "unat base < 2 ^ 64" using unsigned_less [where ?'a = nat, of base] by simp
  then have "?p < 2 ^ 52" using base by simp
  then have "?p div 0x100000 < 0x100000000" by (simp add: div_less_iff_less_mult)
  moreover have "?p = ?p div 0x100000 * 0x100000 + ?p mod 0x100000" by simp
  ultimately have "?p + n \<le> 4503599627370496" using room by linarith
  then have le: "?p + n \<le> 2 ^ 52" by simp
  from j(3) obtain q where v: "virt_addr x base = (Ok base :: (map_error, u64) res)"
    and q: "page_add x ?p n = (Ok q :: (map_error, page) res)" "q \<noteq> 0"
    and run: "map_range x ?p (q - 1) True m0 = (Ok (), m1)"
    using s(3) by (auto simp: map_pages_def andThenS_eq_Ok thenS_eq_Ok virt_addr_def Let_def split: if_splits)
  have "?p + n \<noteq> 2 ^ 52"
  proof
    assume top: "?p + n = 2 ^ 52"
    have "page_addr ?p + of_nat n * 4096 = of_nat (4096 * (?p + n))" by (simp add: page_addr_def algebra_simps)
    also have "\<dots> = 0" unfolding top by simp
    finally show False using q by (auto simp: page_add_def addr_plus_def page_of_def split: if_splits)
  qed
  then have lt: "?p + n < 2 ^ 52" using le by simp
  have qn: "q = ?p + n" by (rule page_add_Ok [OF q(1)]) (use lt in simp)
  have pa: "page_add x ?p n = (Ok (?p + n) :: (unit, page) res)" "virt_addr x base = (Ok base :: (unit, u64) res)"
    using q(1) v unfolding qn by (auto simp: page_add_def addr_plus_def virt_addr_def andThen_eq_Ok split: if_splits)
  have run: "map_each x (range_flags True) [?p..<?p + n] m0 = (Ok (), m1)"
    using run q(2) unfolding map_range_def qn by (simp del: upt_Suc)
  have unm: "\<forall>p\<in>set [?p..<?p + n]. look (mem_table m0) p = None" by (rule map_each_Ok_unmapped [OF laws run])
  from map_each_spec [OF laws distinct_upt unm run] obtain fs ts where
    "length fs = n" "look (mem_table m1) = look (mem_table m0) ++ mapped_to [?p..<?p + n] fs (range_flags True)"
    "fa_avail (mem_frames m0) = mset fs + mset ts + fa_avail (mem_frames m1)" "mem_bytes m1 = mem_bytes m0" by auto
  moreover have "\<forall>i<n. look (mem_table m0) (?p + i) = None" using unm by simp
  ultimately show ?thesis using j(2) base off lt pa by blast
qed

end
