(* ===== verification/VmSpec.thy ===== *)
theory VmSpec
  imports VmFacts MemSpec
begin

text \<open>
  The properties of the address space of a process: its heap, its stack, and the stack that
  \<open>vfork\<close> makes.
\<close>

section \<open>The heap\<close>

text \<open>A refused end inside the region: the pages between could not be mapped.\<close>

lemma heap_brk_refused:
  assumes laws: "mapper_laws x look" and x: "user_half_ok x" and ok: "heap_ok look h m"
    and e: "HEAP_START \<le> e" "e \<le> HEAP_START + HEAP_SIZE"
    and run: "heap_brk x h (Some e) m = (Ok None, h', m')"
  shows "\<exists>er. fst (map_range x (heap_top (hp_end h)) (heap_top e - 1) True m) = Err er"
proof -
  have "heap_top (hp_end h) < heap_top e" using heap_brk_inside(1) [OF laws x ok e run] by auto
  then have "ok_none (map_range x (heap_top (hp_end h)) (heap_top e - 1) True m)
      (\<lambda>m. (Ok (Some e), h\<lparr>hp_end := e\<rparr>, m)) (\<lambda>m. (h, m)) = (Ok None, h', m')"
    using run heap_brk_Some [OF x heap_okD(1-3) [OF ok] e, of m] by simp
  then show ?thesis by (cases "map_range x (heap_top (hp_end h)) (heap_top e - 1) True m" rule: prod.exhaust)
      (auto split: res.splits elim: ok_none.elims)
qed

text \<open>
  C9: \<open>brk\<close> on a heap whose pages are exactly those of its region that are mapped, where the heap
  has the page of its end, which need not be aligned, and the region the code checks ends at
  \<open>HEAP_START + HEAP_SIZE\<close>, one page more than the 4 GiB up to \<open>HEAP_END\<close> of the comment: a query
  returns the end and changes nothing; a new end is either returned, and then it is the end and
  the pages mapped are again exactly those of the heap, the page of the end among them, even the
  one past the 4 GiB, or refused, and then the end stays, which happens only for an end outside the
  region and for a heap that would grow by pages that cannot be mapped. Mappings outside the
  region never change.
\<close>

lemma heap_brk_keeps:
  assumes laws: "mapper_laws x look" and x: "user_half_ok x" and ok: "heap_ok look h m"
    and run: "heap_brk x h a m = (r, h', m')"
  shows "(a = None \<and> r = Ok (Some (hp_end h)) \<and> h' = h \<and> m' = m \<or>
     (\<exists>e. a = Some e \<and> HEAP_START \<le> e \<and> e \<le> HEAP_START + HEAP_SIZE \<and>
        r = Ok (Some e) \<and> h' = h\<lparr>hp_end := e\<rparr> \<and> heap_ok look h' m' \<and>
        (e \<noteq> HEAP_START \<longrightarrow> look (mem_table m') (page_of e) \<noteq> None) \<and>
        (HEAP_END + 8 \<le> e \<longrightarrow> look (mem_table m') (page_of HEAP_START + 0x100000) \<noteq> None)) \<or>
     (\<exists>e. a = Some e \<and> r = Ok None \<and> h' = h \<and>
        (e < HEAP_START \<or> HEAP_START + HEAP_SIZE < e \<or>
         heap_top (hp_end h) < heap_top e \<and>
           (\<exists>er. fst (map_range x (heap_top (hp_end h)) (heap_top e - 1) True m) = Err er)))) \<and>
    (\<forall>p. (p < page_of HEAP_START \<or> page_of (HEAP_START + HEAP_SIZE) < p) \<longrightarrow>
       look (mem_table m') p = look (mem_table m) p)"
proof (cases a)
  case None
  with run have "r = Ok (Some (hp_end h)) \<and> h' = h \<and> m' = m"
    by (auto simp: heap_brk_def virt_addr_heap [OF x heap_okD(3) [OF ok]])
  with None show ?thesis by simp
next
  case (Some e)
  show ?thesis
  proof (cases "HEAP_START \<le> e \<and> e \<le> HEAP_START + HEAP_SIZE")
    case True
    then have e: "HEAP_START \<le> e" "e \<le> HEAP_START + HEAP_SIZE" by auto
    note inside = heap_brk_inside [OF laws x ok e run [unfolded Some]]
    have past: "look (mem_table m') (page_of HEAP_START + 0x100000) \<noteq> None"
      if "HEAP_END + 8 \<le> e" "look (mem_table m') (page_of e) \<noteq> None"
    proof -
      have "HEAP_END + 8 = HEAP_START + HEAP_SIZE" by (simp add: HEAP_END_def)
      then have "e = HEAP_START + HEAP_SIZE" using that(1) e(2) by simp
      then show ?thesis using that(2) by simp
    qed
    from inside(1) show ?thesis
    proof (elim disjE conjE)
      assume a: "r = Ok (Some e)" "h' = h\<lparr>hp_end := e\<rparr>" "heap_ok look h' m'"
      then have hk: "heap_ok look (h\<lparr>hp_end := e\<rparr>) m'" "hp_end (h\<lparr>hp_end := e\<rparr>) = e" by simp_all
      have "look (mem_table m') (page_of e) \<noteq> None" if "e \<noteq> HEAP_START"
        using heap_okD(4) [OF hk(1), of "page_of e"] hk(2) that page_of_le [OF e(1)] page_of_le [OF e(2)]
        by (simp add: heap_top_def del: not_None_eq)
      moreover have "HEAP_END + 8 \<le> e \<Longrightarrow> e \<noteq> HEAP_START"
        by (auto simp: HEAP_END_def HEAP_START_def HEAP_SIZE_def HEAP_PAGES_def)
      ultimately show ?thesis using a(1, 2) hk(1) e inside(2) past Some by (simp del: not_None_eq)
    next
      assume a: "r = Ok None" "h' = h" "heap_top (hp_end h) < heap_top e"
      then show ?thesis using heap_brk_refused [OF laws x ok e, of h' m'] inside(2) run Some
        by (simp del: not_None_eq)
    qed
  next
    case False
    then have out: "e < HEAP_START \<or> HEAP_START + HEAP_SIZE < e" by auto
    with heap_brk_outside [OF x heap_okD(1) [OF ok] this, of m] run Some
    have "r = Ok None \<and> h' = h \<and> m' = m" by simp
    with out Some show ?thesis by blast
  qed
qed

lemma heap_ok_fresh: "heap_ok flat_look heap_empty (flat_mem Map.empty fs)"
  by (simp add: heap_ok_def heap_empty_def heap_pages_def flat_look_def flat_mem_def)
    (simp add: HEAP_START_def HEAP_SIZE_def HEAP_PAGES_def)

lemma flat_user_half: "user_half_ok flat_x86"
  by (simp add: user_half_ok_def flat_x86_def)

lemmas heap_run_simps = heap_brk_def heap_empty_def HEAP_START_def HEAP_SIZE_def HEAP_PAGES_def
  page_after_def addr_plus_def map_range_def page_of_def page_addr_def upt_rec flat_simps

lemma heap_brk_keeps_witness:
  "\<exists>h m. heap_brk flat_x86 heap_empty (Some 0x200000000008) (flat_mem Map.empty [0x1000]) =
      (Ok (Some 0x200000000008), h, m) \<and>
    h = heap_empty\<lparr>hp_end := 0x200000000008\<rparr> \<and> heap_ok flat_look h m \<and> flat_look (mem_table m) 7 = None"
proof -
  obtain m where run: "heap_brk flat_x86 heap_empty (Some 0x200000000008) (flat_mem Map.empty [0x1000]) =
    (Ok (Some 0x200000000008), heap_empty\<lparr>hp_end := 0x200000000008\<rparr>, m)"
    by (simp add: heap_run_simps)
  note res = heap_brk_keeps [OF flat_laws flat_user_half heap_ok_fresh run]
  have "heap_ok flat_look (heap_empty\<lparr>hp_end := 0x200000000008\<rparr>) m" using conjunct1 [OF res] by auto
  moreover have "flat_look (mem_table m) 7 = None"
    using conjunct2 [OF res, THEN spec, of 7] by (simp add: page_of_def heap_limits flat_mem_def flat_look_def)
  ultimately show ?thesis using run by blast
qed

text \<open>
  When a \<open>brk\<close> inside the region is refused after it has mapped the first of the new pages,
  the heap can never grow beyond its end again: whatever frames are free later, each such call
  is refused too, for the page left mapped is in its way.
\<close>

lemma heap_brk_stuck:
  assumes laws: "mapper_laws x look" and x: "user_half_ok x" and ok: "heap_ok look h m"
    and e: "HEAP_START \<le> e" "e \<le> HEAP_START + HEAP_SIZE"
    and run: "heap_brk x h (Some e) m = (Ok None, h', m1)"
    and left: "look (mem_table m1) (heap_top (hp_end h)) \<noteq> None"
    and e2: "HEAP_START \<le> e2" "e2 \<le> HEAP_START + HEAP_SIZE" "heap_top (hp_end h) < heap_top e2"
  shows "h' = h \<and> (\<exists>m2. heap_brk x h' (Some e2) (m1\<lparr>mem_frames := fa\<rparr>) = (Ok None, h', m2) \<and>
    look (mem_table m2) = look (mem_table m1))"
proof -
  have h': "h' = h" using heap_brk_inside(1) [OF laws x ok e run] by auto
  have "look (mem_table (m1\<lparr>mem_frames := fa\<rparr>)) (heap_top (hp_end h)) \<noteq> None" using left by simp
  from heap_brk_blocked [OF laws x heap_okD(1-3) [OF ok] e2 this] h' show ?thesis by auto
qed

lemma heap_brk_stuck_witness:
  "heap_empty = heap_empty \<and>
   (\<exists>m2. heap_brk flat_x86 heap_empty (Some 0x200000000008)
      ((snd (snd (heap_brk flat_x86 heap_empty (Some 0x200000001000) (flat_mem Map.empty [0x1000]))))
        \<lparr>mem_frames := mem_frames (flat_mem Map.empty [0x2000, 0x3000])\<rparr>) = (Ok None, heap_empty, m2) \<and>
    flat_look (mem_table m2) = flat_look (mem_table
      (snd (snd (heap_brk flat_x86 heap_empty (Some 0x200000001000) (flat_mem Map.empty [0x1000]))))))"
proof (rule heap_brk_stuck [OF flat_laws flat_user_half heap_ok_fresh])
  show "heap_brk flat_x86 heap_empty (Some 0x200000001000) (flat_mem Map.empty [0x1000]) =
    (Ok None, heap_empty, snd (snd (heap_brk flat_x86 heap_empty (Some 0x200000001000) (flat_mem Map.empty [0x1000]))))"
    by (simp add: heap_run_simps)
  show "flat_look (mem_table (snd (snd (heap_brk flat_x86 heap_empty (Some 0x200000001000) (flat_mem Map.empty [0x1000])))))
      (heap_top (hp_end heap_empty)) \<noteq> None"
    by (simp add: heap_run_simps flat_look_def heap_top_def)
qed (simp_all add: HEAP_START_def HEAP_SIZE_def HEAP_PAGES_def heap_top_def heap_empty_def page_of_def)

section \<open>The stack\<close>

text \<open>
  C10: A page fault outside the slot of a stack, the 4 GiB that
  \<open>STACK_START_MASK\<close> selects, is not handled and nothing changes. A fault in the slot and below the
  stack maps the pages from the fault up to the stack, which then starts there, its pages again
  the mapped ones of the slot and \<open>usage\<close> their number; only when mapping those pages fails is
  the fault not handled, and then the stack is as before. What lies below the fault or in the
  stack keeps its mapping.
\<close>

lemma stack_grows:
  assumes "mapper_laws x look" "user_half_ok x" "stack_ok look s m"
    and "stack_handle_page_fault x ua s addr m = (r, s', m')"
  shows "(slot (page_of addr) \<noteq> slot (sk_start s) \<longrightarrow> r = Ok False \<and> s' = s \<and> m' = m) \<and>
    (slot (page_of addr) = slot (sk_start s) \<and> 0 < page_of addr \<and> page_of addr < sk_start s \<longrightarrow>
      (r = Ok True \<and> stack_ok look s' m' \<and> sk_start s' = page_of addr \<and> sk_end s' = sk_end s \<or>
       r = Ok False \<and> s' = s \<and> (\<exists>e. fst (map_range x (page_of addr) (sk_start s - 1) ua m) = Err e)) \<and>
      (\<forall>p. (p < page_of addr \<or> sk_start s \<le> p) \<longrightarrow> look (mem_table m') p = look (mem_table m) p))"
proof (intro conjI impI)
  assume "slot (page_of addr) \<noteq> slot (sk_start s)"
  then have "\<not> is_on_stack s addr" using is_on_stack_slot [of s addr] assms(3) by (auto simp: stack_ok_def)
  then show "r = Ok False" "s' = s" "m' = m" using assms(4) by (simp_all add: stack_handle_page_fault_def)
qed (use handle_page_fault_grows [OF assms(1-3) _ _ _ assms(4)] in blast)+

definition sample_stack :: stack where
  "sample_stack = \<lparr>sk_start = 0x3FFFFFFFF, sk_end = 0x400000000, sk_usage = 1\<rparr>"

definition stack_mem :: "frame list \<Rightarrow> flat mem" where
  "stack_mem fs = flat_mem [0x3FFFFFFFF \<mapsto> (0x9000, range_flags True)] fs"

lemma sample_stack_ok: "stack_ok flat_look sample_stack (stack_mem fs)"
  by (auto simp: stack_ok_def sample_stack_def stack_mem_def flat_mem_def flat_look_def slot_def)

lemmas stack_run_simps = stack_handle_page_fault_def is_on_stack_def STACK_START_MASK_def STACK_MAX_SIZE_def
  STACK_MAX_PAGES_def grow_stack_def addr_minus_def addr_plus_def map_pages_def map_range_def page_of_def
  page_addr_def upt_rec sample_stack_def stack_mem_def flat_simps

lemma stack_grows_witness:
  "(\<exists>s m. stack_handle_page_fault flat_x86 True sample_stack 0x3FFFFFFFD010 (stack_mem [0x1000, 0x2000]) = (Ok True, s, m) \<and>
     stack_ok flat_look s m \<and> sk_start s = 0x3FFFFFFFD \<and> sk_end s = 0x400000000 \<and>
     flat_look (mem_table m) 7 = flat_look (mem_table (stack_mem [0x1000, 0x2000])) 7) \<and>
   stack_handle_page_fault flat_x86 True sample_stack 0x3FFE00000010 (stack_mem [0x1000, 0x2000]) =
     (Ok False, sample_stack, stack_mem [0x1000, 0x2000])"
proof
  obtain m where run: "stack_handle_page_fault flat_x86 True sample_stack 0x3FFFFFFFD010 (stack_mem [0x1000, 0x2000]) =
    (Ok True, \<lparr>sk_start = 0x3FFFFFFFD, sk_end = 0x400000000, sk_usage = 3\<rparr>, m)"
    by (simp add: stack_run_simps)
  have "slot (page_of 0x3FFFFFFFD010) = slot (sk_start sample_stack) \<and> 0 < page_of 0x3FFFFFFFD010 \<and>
    page_of 0x3FFFFFFFD010 < sk_start sample_stack"
    by (simp add: sample_stack_def page_of_def slot_def)
  note res = mp [OF conjunct2 [OF stack_grows [OF flat_laws flat_user_half sample_stack_ok run]] this]
  have "stack_ok flat_look \<lparr>sk_start = 0x3FFFFFFFD, sk_end = 0x400000000, sk_usage = 3\<rparr> m" using conjunct1 [OF res] by auto
  moreover have "flat_look (mem_table m) 7 = flat_look (mem_table (stack_mem [0x1000, 0x2000])) 7"
    using conjunct2 [OF res, THEN spec, of 7] by (simp add: page_of_def)
  ultimately show "\<exists>s m. stack_handle_page_fault flat_x86 True sample_stack 0x3FFFFFFFD010 (stack_mem [0x1000, 0x2000]) =
      (Ok True, s, m) \<and> stack_ok flat_look s m \<and> sk_start s = 0x3FFFFFFFD \<and> sk_end s = 0x400000000 \<and>
     flat_look (mem_table m) 7 = flat_look (mem_table (stack_mem [0x1000, 0x2000])) 7"
    using run by auto
next
  obtain r s m where run: "stack_handle_page_fault flat_x86 True sample_stack 0x3FFE00000010 (stack_mem [0x1000, 0x2000]) =
    (r, s, m)" by (cases "stack_handle_page_fault flat_x86 True sample_stack 0x3FFE00000010 (stack_mem [0x1000, 0x2000])")
  have "slot (page_of 0x3FFE00000010) \<noteq> slot (sk_start sample_stack)"
    by (simp add: sample_stack_def page_of_def slot_def)
  from mp [OF conjunct1 [OF stack_grows [OF flat_laws flat_user_half sample_stack_ok run]] this] run
  show "stack_handle_page_fault flat_x86 True sample_stack 0x3FFE00000010 (stack_mem [0x1000, 0x2000]) =
     (Ok False, sample_stack, stack_mem [0x1000, 0x2000])" by simp
qed

text \<open>
  Where \<open>vfork\<close> puts the copy: another slot, at the same offset, on distinct frames that were free;
  the pages of the stack keep their frames.
\<close>

lemma vfork_place_frames:
  assumes laws: "mapper_laws x look" and ok: "stack_ok look s m" and free: "frames_ok m" and n: "n = sk_end s - sk_start s"
    and found: "vfork_place x (sk_usage s) (page_addr (sk_start s) - c * STACK_MAX_SIZE) m = Some (Ok base, m1)"
  shows "\<exists>fs. length fs = n \<and> distinct fs \<and> (\<forall>f\<in>set fs. f \<in># fa_avail (mem_frames m)) \<and>
    slot (page_of base) \<noteq> slot (sk_start s) \<and> page_of base mod 0x100000 = sk_start s mod 0x100000 \<and>
    page_add x (page_of base) n = (Ok (page_of base + n) :: (unit, page) res) \<and> mem_bytes m1 = mem_bytes m \<and>
    (\<forall>i<n. look (mem_table m1) (page_of base + i) = Some (fs ! i, range_flags True) \<and>
      look (mem_table m) (sk_start s + i) \<noteq> None \<and>
      look (mem_table m1) (sk_start s + i) = look (mem_table m) (sk_start s + i))"
proof -
  let ?b = "sk_start s" and ?p = "page_of base"
  have s: "0 < n" "unat (sk_usage s) = n" "?b < 0x800000000" "?b + n = sk_end s" "slot (?b + n - 1) = slot ?b"
    using ok by (auto simp: stack_ok_def n)
  have own: "look (mem_table m) (?b + i) \<noteq> None" if "i < n" for i
  proof -
    have "slot (?b + i) = slot ?b" using slot_between [of ?b "?b + n - 1" "?b + i"] s(5) that by simp
    then show ?thesis using ok that s(4) by (auto simp: stack_ok_def)
  qed
  from vfork_place_maps [OF laws s(5, 1, 2) _ found] s(3) obtain m0 fs ts where
    more: "maps_more look m m0" and pb: "?p mod 0x100000 = ?b mod 0x100000"
    and pa: "page_add x ?p n = (Ok (?p + n) :: (unit, page) res)"
    and unm: "\<And>i. i < n \<Longrightarrow> look (mem_table m0) (?p + i) = None"
    and fs: "length fs = n" "look (mem_table m1) = look (mem_table m0) ++ mapped_to [?p..<?p + n] fs (range_flags True)"
      "fa_avail (mem_frames m0) = mset fs + mset ts + fa_avail (mem_frames m1)" "mem_bytes m1 = mem_bytes m0"
    by auto
  from more obtain us where m0: "\<And>p. look (mem_table m) p \<noteq> None \<Longrightarrow> look (mem_table m0) p = look (mem_table m) p"
    "mem_bytes m0 = mem_bytes m" "fa_avail (mem_frames m) = us + fa_avail (mem_frames m0)"
    by (auto simp: maps_more_def)
  have count: "count (mset fs) f \<le> 1" for f
    using free [unfolded frames_ok_def, THEN conjunct1, rule_format, of f] m0(3) fs(3) by simp
  then have dist: "distinct fs" by (simp add: distinct_count_atmost_1 le_Suc_eq)
  have avail: "f \<in># fa_avail (mem_frames m)" if "f \<in> set fs" for f using that m0(3) fs(3) by simp
  have slots: "slot ?p \<noteq> slot ?b"
  proof
    assume "slot ?p = slot ?b"
    then have "?p = ?b" using pb unfolding slot_def by (metis div_mult_mod_eq)
    with unm [of 0] own [of 0] m0(1) [of ?b] s(1) show False by simp
  qed
  have dst: "look (mem_table m1) (?p + i) = Some (fs ! i, range_flags True)" if "i < n" for i
    using mapped_to_nth [of "[?p..<?p + n]" fs i "range_flags True"] fs(1, 2) that by simp
  have src: "look (mem_table m1) (?b + i) = look (mem_table m) (?b + i)" if "i < n" for i
  proof -
    have "?b + i \<notin> set [?p..<?p + n]"
    proof
      assume "?b + i \<in> set [?p..<?p + n]"
      then have "?p \<le> ?b + i" "?b + i - ?p < n" by auto
      with unm [of "?b + i - ?p"] m0(1) [OF own [OF that]] own [OF that] show False by simp
    qed
    then show ?thesis using m0(1) [OF own [OF that]] fs(2) by (simp add: map_add_def mapped_to_notin)
  qed
  show ?thesis
    using fs(1, 4) dist avail slots pb pa m0(2) dst src own by (intro exI [of _ fs]) simp
qed

text \<open>
  C8: When the search of \<open>vfork\<close> for a place ends with one, \<open>vfork\<close> returns a stack of the same
  length at the same offset of another slot, mapped to frames that were free, whose every byte
  is that of the parent's stack; the parent keeps its pages and their bytes.
\<close>

lemma vfork_copies:
  assumes laws: "mapper_laws x look" and ok: "stack_ok look s m" and free: "frames_ok m"
    and used: "\<forall>p f fl. look (mem_table m) p = Some (f, fl) \<longrightarrow>
      4096 dvd unat f \<and> f \<notin># fa_avail (mem_frames m)"
    and found: "vfork_place x (sk_usage s) (page_addr (sk_start s) - c * STACK_MAX_SIZE) m = Some (Ok base, m1)"
  shows "\<exists>s' m'. stack_vfork x off s c m = (Ok s', m') \<and>
    sk_usage s' = sk_usage s \<and> sk_end s' - sk_start s' = sk_end s - sk_start s \<and>
    slot (sk_start s') \<noteq> slot (sk_start s) \<and> sk_start s' mod 0x100000 = sk_start s mod 0x100000 \<and>
    (\<forall>i < sk_end s - sk_start s. \<exists>f fl g.
       look (mem_table m) (sk_start s + i) = Some (f, fl) \<and> look (mem_table m') (sk_start s + i) = Some (f, fl) \<and>
       look (mem_table m') (sk_start s' + i) = Some (g, range_flags True) \<and> g \<in># fa_avail (mem_frames m) \<and>
       (\<forall>k<4096. mem_bytes m' (g + off + of_nat k) = mem_bytes m (f + off + of_nat k) \<and>
         mem_bytes m' (f + off + of_nat k) = mem_bytes m (f + off + of_nat k)))"
proof -
  let ?b = "sk_start s" and ?p = "page_of base"
  define n where "n = sk_end s - ?b"
  have usage: "unat (sk_usage s) = n" using ok by (auto simp: stack_ok_def n_def)
  from vfork_place_frames [OF laws ok free n_def found] obtain fs where fs: "length fs = n" "distinct fs"
      "\<And>f. f \<in> set fs \<Longrightarrow> f \<in># fa_avail (mem_frames m)" and slots: "slot ?p \<noteq> slot ?b"
    and pb: "?p mod 0x100000 = ?b mod 0x100000" and pa: "page_add x ?p n = (Ok (?p + n) :: (unit, page) res)"
    and bytes: "mem_bytes m1 = mem_bytes m"
    and dst: "\<And>i. i < n \<Longrightarrow> look (mem_table m1) (?p + i) = Some (fs ! i, range_flags True)"
    and own: "\<And>i. i < n \<Longrightarrow> look (mem_table m) (?b + i) \<noteq> None"
    and src: "\<And>i. i < n \<Longrightarrow> look (mem_table m1) (?b + i) = look (mem_table m) (?b + i)"
    by blast
  define fr where "fr q = fst (the (look (mem_table m1) q))" for q
  have frs: "fr (?p + i) = fs ! i" "\<exists>fl. look (mem_table m) (?b + i) = Some (fr (?b + i), fl)"
    if "i < n" for i
    using dst [OF that] src [OF that] own [OF that] by (auto simp: fr_def)
  have own_frame: "4096 dvd unat (fr (?b + i)) \<and> fr (?b + i) \<notin># fa_avail (mem_frames m)" if "i < n" for i
    using used frs(2) [OF that] by blast
  have new_frame: "4096 dvd unat (fr (?p + i)) \<and> fr (?p + i) \<in># fa_avail (mem_frames m)" if "i < n" for i
    using fs(3) [of "fs ! i"] free frs(1) [OF that] fs(1) that by (simp add: frames_ok_def)
  have diff: "fr (?b + i) \<noteq> fr (?p + j)" if "i < n" "j < n" for i j
    using own_frame [OF that(1)] new_frame [OF that(2)] by auto
  have trans: "x_translate x (mem_table m1) (?b + i) = Some (fr (?b + i))"
    "x_translate x (mem_table m1) (?p + i) = Some (fr (?p + i))" if "i < n" for i
    using src [OF that] frs [OF that] dst [OF that] by (auto simp: translate_look [OF laws])
  obtain bs where bs: "copy_pages x off ?b ?p n m1 = (Ok (), m1\<lparr>mem_bytes := bs\<rparr>)"
    "\<And>i k. i < n \<Longrightarrow> k < 4096 \<Longrightarrow> bs (fr (?p + i) + off + of_nat k) = mem_bytes m1 (fr (?b + i) + off + of_nat k)"
    "\<And>a. (\<forall>i<n. 4096 \<le> unat (a - (fr (?p + i) + off))) \<Longrightarrow> bs a = mem_bytes m1 a"
  proof -
    have "\<forall>i<n. \<forall>j<n. fr (?b + i) \<noteq> fr (?p + j) \<and> (i \<noteq> j \<longrightarrow> fr (?p + i) \<noteq> fr (?p + j))"
      using diff frs(1) fs(1, 2) by (simp add: nth_eq_iff_index_eq)
    from copy_pages_spec [OF _ this, of x m1 off] trans own_frame new_frame that show thesis by blast
  qed
  let ?s = "\<lparr>sk_start = ?p, sk_end = ?p + n, sk_usage = sk_usage s\<rparr>"
  have "stack_vfork x off s c m = (Ok ?s, m1\<lparr>mem_bytes := bs\<rparr>)"
    using found bs(1) pa usage by (simp add: stack_vfork_def)
  moreover have "\<exists>f fl g. look (mem_table m) (?b + i) = Some (f, fl) \<and>
      look (mem_table (m1\<lparr>mem_bytes := bs\<rparr>)) (?b + i) = Some (f, fl) \<and>
      look (mem_table (m1\<lparr>mem_bytes := bs\<rparr>)) (?p + i) = Some (g, range_flags True) \<and>
      g \<in># fa_avail (mem_frames m) \<and>
      (\<forall>k<4096. bs (g + off + of_nat k) = mem_bytes m (f + off + of_nat k) \<and>
        bs (f + off + of_nat k) = mem_bytes m (f + off + of_nat k))" if i: "i < n" for i
  proof -
    have "bs (fr (?b + i) + off + of_nat k) = mem_bytes m (fr (?b + i) + off + of_nat k)" if "k < 4096" for k
      using bs(3) aligned_blocks own_frame [OF i] new_frame diff [OF i] that bytes by metis
    moreover have "bs (fr (?p + i) + off + of_nat k) = mem_bytes m (fr (?b + i) + off + of_nat k)" if "k < 4096" for k
      using bs(2) [OF i that] bytes by simp
    moreover obtain fl where "look (mem_table m) (?b + i) = Some (fr (?b + i), fl)" using frs(2) [OF i] by blast
    moreover have "look (mem_table m1) (?p + i) = Some (fr (?p + i), range_flags True)"
      using dst [OF i] frs(1) [OF i] by simp
    ultimately show ?thesis using src [OF i] new_frame [OF i] by auto
  qed
  ultimately show ?thesis using slots pb by (intro exI [of _ ?s] exI [of _ "m1\<lparr>mem_bytes := bs\<rparr>"]) (simp add: n_def)
qed

lemma vfork_copies_witness:
  "\<exists>s' m'. stack_vfork flat_x86 0xFFFF800000000000 sample_stack 1 (stack_mem [0x1000, 0x2000]) = (Ok s', m') \<and>
    sk_usage s' = sk_usage sample_stack \<and> sk_end s' - sk_start s' = sk_end sample_stack - sk_start sample_stack \<and>
    slot (sk_start s') \<noteq> slot (sk_start sample_stack) \<and>
    sk_start s' mod 0x100000 = sk_start sample_stack mod 0x100000 \<and>
    (\<forall>i < sk_end sample_stack - sk_start sample_stack. \<exists>f fl g.
       flat_look (mem_table (stack_mem [0x1000, 0x2000])) (sk_start sample_stack + i) = Some (f, fl) \<and>
       flat_look (mem_table m') (sk_start sample_stack + i) = Some (f, fl) \<and>
       flat_look (mem_table m') (sk_start s' + i) = Some (g, range_flags True) \<and>
       g \<in># fa_avail (mem_frames (stack_mem [0x1000, 0x2000])) \<and>
       (\<forall>k<4096. mem_bytes m' (g + 0xFFFF800000000000 + of_nat k) =
           mem_bytes (stack_mem [0x1000, 0x2000]) (f + 0xFFFF800000000000 + of_nat k) \<and>
         mem_bytes m' (f + 0xFFFF800000000000 + of_nat k) =
           mem_bytes (stack_mem [0x1000, 0x2000]) (f + 0xFFFF800000000000 + of_nat k)))"
proof (rule vfork_copies [OF flat_laws sample_stack_ok])
  show "frames_ok (stack_mem [0x1000, 0x2000])"
    by (simp add: frames_ok_def stack_mem_def flat_mem_def fa_avail_def)
  show "\<forall>p f fl. flat_look (mem_table (stack_mem [0x1000, 0x2000])) p = Some (f, fl) \<longrightarrow>
      4096 dvd unat f \<and> f \<notin># fa_avail (mem_frames (stack_mem [0x1000, 0x2000]))"
    by (simp add: stack_mem_def flat_mem_def flat_look_def fa_avail_def)
  show "vfork_place flat_x86 (sk_usage sample_stack) (page_addr (sk_start sample_stack) - 1 * STACK_MAX_SIZE)
      (stack_mem [0x1000, 0x2000]) = Some (Ok 0x3FFEFFFFF000,
        snd (map_pages flat_x86 0x3FFEFFFFF000 1 True (stack_mem [0x1000, 0x2000])))"
    by (subst vfork_place.simps) (simp add: stack_run_simps)
qed

end
