(* ===== verification/Procs.thy ===== *)
theory Procs
  imports ProcVm Semaphores Resources
begin

text \<open>
  Processes and the process manager: \<open>pkg/kernel/src/proc/\<close> with \<open>context.rs\<close>, \<open>pid.rs\<close>,
  \<open>data.rs\<close>, \<open>process.rs\<close>, \<open>manager.rs\<close>, \<open>processor.rs\<close> and \<open>mod.rs\<close>. Every operation runs
  without interrupts on one processor: a definition is one uninterrupted run, on the state of
  the kernel and, where the code gets it, the context of the interrupt being handled.
\<close>

section \<open>Contexts\<close>

record registers =
  rg_r15 :: u64
  rg_r14 :: u64
  rg_r13 :: u64
  rg_r12 :: u64
  rg_r11 :: u64
  rg_r10 :: u64
  rg_r9 :: u64
  rg_r8 :: u64
  rg_rdi :: u64
  rg_rsi :: u64
  rg_rdx :: u64
  rg_rcx :: u64
  rg_rbx :: u64
  rg_rax :: u64
  rg_rbp :: u64

text \<open>The \<open>InterruptStackFrameValue\<close> of the crate.\<close>

record stack_frame =
  sf_ip :: u64
  sf_cs :: u16
  sf_flags :: u64
  sf_sp :: u64
  sf_ss :: u16

record proc_context =
  cx_regs :: registers
  cx_frame :: stack_frame

definition registers_default :: registers where
  "registers_default =
     \<lparr>rg_r15 = 0, rg_r14 = 0, rg_r13 = 0, rg_r12 = 0, rg_r11 = 0, rg_r10 = 0, rg_r9 = 0, rg_r8 = 0,
      rg_rdi = 0, rg_rsi = 0, rg_rdx = 0, rg_rcx = 0, rg_rbx = 0, rg_rax = 0, rg_rbp = 0\<rparr>"

definition context_default :: proc_context where
  "context_default =
     \<lparr>cx_regs = registers_default,
      cx_frame = \<lparr>sf_ip = 0x1000, sf_cs = 0, sf_flags = 0, sf_sp = 0x2000, sf_ss = 0\<rparr>\<rparr>"

definition set_rax :: "u64 \<Rightarrow> proc_context \<Rightarrow> proc_context" where
  "set_rax value cx = cx\<lparr>cx_regs := (cx_regs cx)\<lparr>rg_rax := value\<rparr>\<rparr>"

definition context_save :: "proc_context \<Rightarrow> proc_context \<Rightarrow> proc_context" where
  "context_save self live = live"

definition context_restore :: "proc_context \<Rightarrow> proc_context \<Rightarrow> proc_context" where
  "context_restore self live = self"

text \<open>
  \<open>kp_user_cs\<close>, \<open>kp_user_ss\<close>: \<open>get_user_selector()\<close>; \<open>kp_truncate\<close>: \<open>VirtAddr::new_truncate\<close>;
  \<open>kp_apps\<close>: the programs the boot loader has loaded.
\<close>

record 'm kparams =
  kp_machine :: "'m machine"
  kp_user_cs :: u16
  kp_user_ss :: u16
  kp_truncate :: "u64 \<Rightarrow> u64"
  kp_apps :: "(u8 list \<times> elf_file) list option"

text \<open>\<open>IOPL_HIGH | IOPL_LOW | INTERRUPT_FLAG\<close> are bits 13, 12 and 9.\<close>

definition init_stack_frame :: "'m kparams \<Rightarrow> u64 \<Rightarrow> u64 \<Rightarrow> proc_context \<Rightarrow> proc_context" where
  "init_stack_frame kp entry stack_top cx =
     cx\<lparr>cx_frame := (cx_frame cx)\<lparr>sf_sp := stack_top, sf_ip := entry, sf_flags := 0x3200,
        sf_cs := kp_user_cs kp, sf_ss := kp_user_ss kp\<rparr>\<rparr>"

definition set_stack_offset :: "'m x86 \<Rightarrow> u64 \<Rightarrow> proc_context \<Rightarrow> (unit, proc_context) res" where
  "set_stack_offset x offset cx =
     andThen (addr_plus (x_checked x) (x_virt_ok x) (sf_sp (cx_frame cx)) offset) (\<lambda>sp.
       Ok (cx\<lparr>cx_frame := (cx_frame cx)\<lparr>sf_sp := sp\<rparr>\<rparr>))"

section \<open>Processes\<close>

datatype status = Running | Ready | Blocked | Dead

text \<open>The data that the processes of one fork family share.\<close>

record 'h proc_data =
  pd_env :: "u8 list \<rightharpoonup> u8 list"
  pd_resources :: "'h resource_set"
  pd_semaphores :: semaphore_set

definition proc_data_default :: "'h proc_data" where
  "proc_data_default = \<lparr>pd_env = Map.empty, pd_resources = rs_default, pd_semaphores = Map.empty\<rparr>"

definition pd_set_env :: "'h proc_data \<Rightarrow> u8 list \<Rightarrow> u8 list \<Rightarrow> 'h proc_data" where
  "pd_set_env d key val = d\<lparr>pd_env := (pd_env d)(key \<mapsto> val)\<rparr>"

text \<open>
  A \<open>ProcessInner\<close>. Parents and children are named by their pids, \<open>pr_data\<close> is the number of
  the shared data, an exit code is the 64-bit pattern of an \<open>isize\<close>.
\<close>

record process =
  pr_name :: "u8 list"
  pr_parent :: "pid option"
  pr_children :: "pid list"
  pr_ticks :: u64
  pr_status :: status
  pr_context :: proc_context
  pr_exit_code :: "u64 option"
  pr_data :: "nat option"
  pr_vm :: "proc_vm option"

text \<open>
  The state of the kernel. \<open>k_cur\<close> is the cell of the processor, 0 when it is free; the sets of
  \<open>wait_queue\<close> are lists in the ascending order in which a \<open>BTreeSet\<close> is walked.
\<close>

record ('m, 'h) kernel =
  k_procs :: "pid \<rightharpoonup> process"
  k_ready :: "pid list"
  k_wait :: "pid \<rightharpoonup> pid list"
  k_cur :: pid
  k_next_pid :: pid
  k_datas :: "nat \<Rightarrow> 'h proc_data"
  k_next_data :: nat
  k_vm :: "'m vmem"
  k_keys :: "u8 list"
  k_console :: "console_event list"

definition KERNEL_PID :: pid where "KERNEL_PID = 1"

definition ascii_lower :: "u8 \<Rightarrow> u8" where
  "ascii_lower b = (if 0x41 \<le> b \<and> b \<le> 0x5A then b + 0x20 else b)"

definition pid_new :: "('m, 'h) kernel \<Rightarrow> pid \<times> ('m, 'h) kernel" where
  "pid_new k = (k_next_pid k, k\<lparr>k_next_pid := k_next_pid k + 1\<rparr>)"

definition data_new :: "('m, 'h) kernel \<Rightarrow> nat \<times> ('m, 'h) kernel" where
  "data_new k =
     (k_next_data k,
      k\<lparr>k_datas := (k_datas k)(k_next_data k := proc_data_default), k_next_data := Suc (k_next_data k)\<rparr>)"

definition proc_new ::
  "u8 list \<Rightarrow> pid option \<Rightarrow> proc_vm option \<Rightarrow> nat option \<Rightarrow> ('m, 'h) kernel
    \<Rightarrow> (pid \<times> process) \<times> ('m, 'h) kernel" where
  "proc_new name parent vm data k =
     (case pid_new k of (pid, k) \<Rightarrow>
        case (case vm of
                Some vm \<Rightarrow> (vm, k)
              | None \<Rightarrow> (case pt_new (k_vm k) of (pt, v) \<Rightarrow>
                          case proc_vm_new pt v of (vm, v) \<Rightarrow> (vm, k\<lparr>k_vm := v\<rparr>))) of
          (vm, k) \<Rightarrow>
            case (case data of Some d \<Rightarrow> (d, k) | None \<Rightarrow> data_new k) of
              (d, k) \<Rightarrow>
                ((pid, \<lparr>pr_name = map ascii_lower name, pr_parent = parent, pr_children = [], pr_ticks = 0,
                        pr_status = Ready, pr_context = context_default, pr_exit_code = None,
                        pr_data = Some d, pr_vm = Some vm\<rparr>), k))"

text \<open>Changing a process that is in the map.\<close>

definition upd_proc :: "pid \<Rightarrow> (process \<Rightarrow> process) \<Rightarrow> ('m, 'h) kernel \<Rightarrow> ('m, 'h) kernel" where
  "upd_proc p f k = k\<lparr>k_procs := (k_procs k)(p := map_option f (k_procs k p))\<rparr>"

definition pr_remove_child :: "pid \<Rightarrow> process \<Rightarrow> process" where
  "pr_remove_child c p = p\<lparr>pr_children := filter (\<lambda>d. d \<noteq> c) (pr_children p)\<rparr>"

definition pr_tick :: "process \<Rightarrow> process" where
  "pr_tick p = p\<lparr>pr_ticks := pr_ticks p + 1\<rparr>"

definition pr_pause :: "process \<Rightarrow> process" where "pr_pause p = p\<lparr>pr_status := Ready\<rparr>"

definition pr_resume :: "process \<Rightarrow> process" where "pr_resume p = p\<lparr>pr_status := Running\<rparr>"

definition pr_block :: "process \<Rightarrow> process" where "pr_block p = p\<lparr>pr_status := Blocked\<rparr>"

definition pr_set_return :: "u64 \<Rightarrow> process \<Rightarrow> process" where
  "pr_set_return ret p = p\<lparr>pr_context := set_rax ret (pr_context p)\<rparr>"

definition pr_save :: "proc_context \<Rightarrow> process \<Rightarrow> process" where
  "pr_save cx p = p\<lparr>pr_context := context_save (pr_context p) cx, pr_status := Ready\<rparr>"

text \<open>
  \<open>ProcessInner::kill\<close>: a live parent loses the child and gets its children; the memory is
  dropped, then the data.
\<close>

definition proc_kill ::
  "'m machine \<Rightarrow> pid \<Rightarrow> process \<Rightarrow> u64 \<Rightarrow> ('m, 'h) kernel \<Rightarrow> (unit, unit) res \<times> ('m, 'h) kernel" where
  "proc_kill mc pid p ret k =
     (let k = (case Option.bind (pr_parent p) (\<lambda>pp. map_option (Pair pp) (k_procs k pp)) of
                 None \<Rightarrow> k
               | Some (pp, parent) \<Rightarrow>
                   if pr_exit_code parent = None then
                     fold (\<lambda>c. upd_proc c (\<lambda>q. q\<lparr>pr_parent := Some pp\<rparr>)) (pr_children p)
                       (upd_proc pp (pr_remove_child pid) k)
                   else fold (\<lambda>c. upd_proc c (\<lambda>q. q\<lparr>pr_parent := None\<rparr>)) (pr_children p) k) in
      thenS (case pr_vm p of None \<Rightarrow> (Ok (), k_vm k) | Some vm \<Rightarrow> proc_vm_drop mc vm (k_vm k))
        (\<lambda>_ v. (Ok (), upd_proc pid (\<lambda>q. q\<lparr>pr_vm := None, pr_data := None, pr_exit_code := Some ret,
                   pr_status := Dead\<rparr>) (k\<lparr>k_vm := v\<rparr>)))
        (\<lambda>v. k\<lparr>k_vm := v\<rparr>))"

section \<open>The manager\<close>

definition push_ready :: "pid \<Rightarrow> ('m, 'h) kernel \<Rightarrow> ('m, 'h) kernel" where
  "push_ready p k = k\<lparr>k_ready := k_ready k @ [p]\<rparr>"

definition add_proc :: "pid \<Rightarrow> process \<Rightarrow> ('m, 'h) kernel \<Rightarrow> ('m, 'h) kernel" where
  "add_proc p pr k = k\<lparr>k_procs := (k_procs k)(p \<mapsto> pr)\<rparr>"

definition get_exit_code :: "('m, 'h) kernel \<Rightarrow> pid \<Rightarrow> u64 option" where
  "get_exit_code k p = Option.bind (k_procs k p) pr_exit_code"

text \<open>\<open>processor::get_pid\<close> and \<open>ProcessManager::current\<close> panic when there is none.\<close>

definition current_pid :: "('m, 'h) kernel \<Rightarrow> (unit, pid) res" where
  "current_pid k = (if k_cur k = 0 then Panic else Ok (k_cur k))"

definition current :: "('m, 'h) kernel \<Rightarrow> (unit, pid \<times> process) res" where
  "current k = andThen (current_pid k) (\<lambda>p. andThen (of_option (k_procs k p)) (\<lambda>pr. Ok (p, pr)))"

definition manager_wait_pid :: "pid \<Rightarrow> ('m, 'h) kernel \<Rightarrow> (unit, unit) res \<times> ('m, 'h) kernel" where
  "manager_wait_pid p k =
     andThenS (current_pid k) k (\<lambda>me.
       (Ok (), k\<lparr>k_wait := (k_wait k)(p \<mapsto> insort_insert me (case k_wait k p of None \<Rightarrow> [] | Some s \<Rightarrow> s))\<rparr>))"

definition manager_block :: "pid \<Rightarrow> ('m, 'h) kernel \<Rightarrow> ('m, 'h) kernel" where
  "manager_block p k = upd_proc p pr_block k"

definition save_current :: "proc_context \<Rightarrow> ('m, 'h) kernel \<Rightarrow> (unit, pid) res \<times> ('m, 'h) kernel" where
  "save_current cx k =
     andThenS (current k) k (\<lambda>(p, pr). (Ok p, upd_proc p (\<lambda>q. pr_save cx (pr_tick q)) k))"

text \<open>The loop of \<open>switch_next\<close> on the ready queue; a process that has no memory panics.\<close>

fun switch_loop ::
  "pid \<Rightarrow> pid list \<Rightarrow> proc_context \<Rightarrow> ('m, 'h) kernel \<Rightarrow> (unit, pid) res \<times> proc_context \<times> ('m, 'h) kernel" where
  "switch_loop pid [] cx k = (Ok pid, cx, k\<lparr>k_ready := []\<rparr>)"
| "switch_loop pid (next # q) cx k =
     (case k_procs k next of
        None \<Rightarrow> (Panic, cx, k\<lparr>k_ready := q\<rparr>)
      | Some pr \<Rightarrow>
          if pr_status pr \<noteq> Ready then switch_loop pid q cx k
          else if pid \<noteq> next then
            (case pr_vm pr of
               None \<Rightarrow> (Panic, context_restore (pr_context pr) cx, k\<lparr>k_ready := q\<rparr>)
             | Some vm \<Rightarrow>
                 (Ok next, context_restore (pr_context pr) cx,
                  (upd_proc next pr_resume k)\<lparr>k_ready := q, k_cur := next, k_vm := pt_load (pv_table vm) (k_vm k)\<rparr>))
          else (Ok pid, cx, k\<lparr>k_ready := q\<rparr>))"

definition switch_next ::
  "proc_context \<Rightarrow> ('m, 'h) kernel \<Rightarrow> (unit, pid) res \<times> proc_context \<times> ('m, 'h) kernel" where
  "switch_next cx k = andThenS (current_pid k) (cx, k) (\<lambda>pid. switch_loop pid (k_ready k) cx k)"

definition wake_up :: "pid \<Rightarrow> u64 option \<Rightarrow> ('m, 'h) kernel \<Rightarrow> ('m, 'h) kernel" where
  "wake_up p ret k =
     (case k_procs k p of
        None \<Rightarrow> k
      | Some pr \<Rightarrow>
          push_ready p (upd_proc p (\<lambda>q. pr_pause (case ret of None \<Rightarrow> q | Some r \<Rightarrow> pr_set_return r q)) k))"

definition manager_kill ::
  "'m machine \<Rightarrow> pid \<Rightarrow> u64 \<Rightarrow> ('m, 'h) kernel \<Rightarrow> (unit, unit) res \<times> ('m, 'h) kernel" where
  "manager_kill mc p ret k =
     (case k_procs k p of
        None \<Rightarrow> (Ok (), k)
      | Some pr \<Rightarrow>
          doS (proc_kill mc p pr ret k) (\<lambda>_ k.
            (Ok (),
             case k_wait k p of
               None \<Rightarrow> k
             | Some waiters \<Rightarrow> fold (\<lambda>w. wake_up w (Some ret)) waiters (k\<lparr>k_wait := (k_wait k)(p := None)\<rparr>))))"

definition kill_self :: "'m machine \<Rightarrow> u64 \<Rightarrow> ('m, 'h) kernel \<Rightarrow> (unit, unit) res \<times> ('m, 'h) kernel" where
  "kill_self mc ret k = andThenS (current_pid k) k (\<lambda>p. manager_kill mc p ret k)"

text \<open>
  \<open>ProcessManager::spawn\<close>: the address space starts as a copy of the kernel's level-4 table.
\<close>

definition manager_spawn ::
  "'m kparams \<Rightarrow> elf_file \<Rightarrow> u8 list \<Rightarrow> pid option \<Rightarrow> nat option \<Rightarrow> ('m, 'h) kernel
    \<Rightarrow> (unit, pid) res \<times> ('m, 'h) kernel" where
  "manager_spawn kp elf name parent data k =
     andThenS (of_option (k_procs k KERNEL_PID)) k (\<lambda>kproc.
     andThenS (of_option (pr_vm kproc)) k (\<lambda>kvm.
     thenS (pt_clone_level_4 (kp_machine kp) (pv_table kvm) (k_vm k))
       (\<lambda>pt v. case proc_vm_new pt v of (vm, v) \<Rightarrow>
         case proc_new name parent (Some vm) data (k\<lparr>k_vm := v\<rparr>) of
           ((pid, pr), k) \<Rightarrow>
             thenS (proc_vm_load_elf (kp_machine kp) elf vm (k_vm k))
               (\<lambda>vm v.
                  (Ok pid,
                   push_ready pid (add_proc pid
                     ((pr_pause pr)\<lparr>pr_vm := Some vm,
                        pr_context := init_stack_frame kp (kp_truncate kp (elf_entry elf))
                          (kp_truncate kp STACK_INIT_TOP) (pr_context pr)\<rparr>) (k\<lparr>k_vm := v\<rparr>))))
               (\<lambda>v. k\<lparr>k_vm := v\<rparr>))
       (\<lambda>v. k\<lparr>k_vm := v\<rparr>)))"

text \<open>
  \<open>ProcessInner::vfork\<close>: the child shares the page table, the heap and the data, and has a
  stack of its own.
\<close>

definition pr_vfork ::
  "'m machine \<Rightarrow> pid \<Rightarrow> process \<Rightarrow> 'm vmem \<Rightarrow> (unit, process) res \<times> 'm vmem" where
  "pr_vfork mc parent pr v =
     andThenS (of_option (pr_vm pr)) v (\<lambda>vm.
     doS (proc_vm_fork mc vm (of_nat (length (pr_children pr)) + 1) v) (\<lambda>vm' v.
     andThenS (set_stack_offset (pt_mapper mc (pv_table vm))
         (stack_offset (pv_stack vm') (pv_stack vm)) (pr_context pr)) v (\<lambda>cx.
       (Ok \<lparr>pr_name = pr_name pr, pr_parent = Some parent, pr_children = [], pr_ticks = 0,
            pr_status = Ready, pr_context = set_rax 0 cx, pr_exit_code = None,
            pr_data = pr_data pr, pr_vm = Some vm'\<rparr>, v))))"

text \<open>\<open>Process::vfork\<close> on the process in the map, and adding the child.\<close>

definition proc_vfork ::
  "'m machine \<Rightarrow> pid \<Rightarrow> process \<Rightarrow> ('m, 'h) kernel \<Rightarrow> (unit, pid \<times> process) res \<times> ('m, 'h) kernel" where
  "proc_vfork mc me pr k =
     thenS (pr_vfork mc me pr (k_vm k))
       (\<lambda>child v.
          case pid_new (k\<lparr>k_vm := v\<rparr>) of (pid, k) \<Rightarrow>
            (Ok (pid, child),
             upd_proc me (\<lambda>q. pr_pause ((pr_set_return (ucast pid) q)\<lparr>pr_children := pr_children q @ [pid]\<rparr>)) k))
       (\<lambda>v. k\<lparr>k_vm := v\<rparr>)"

definition manager_vfork :: "'m machine \<Rightarrow> ('m, 'h) kernel \<Rightarrow> (unit, unit) res \<times> ('m, 'h) kernel" where
  "manager_vfork mc k =
     andThenS (current k) k (\<lambda>(me, pr).
     doS (proc_vfork mc me pr k) (\<lambda>(pid, child) k. (Ok (), push_ready pid (add_proc pid child k))))"

definition manager_handle_page_fault ::
  "'m machine \<Rightarrow> u64 \<Rightarrow> bool \<Rightarrow> ('m, 'h) kernel \<Rightarrow> (unit, bool) res \<times> ('m, 'h) kernel" where
  "manager_handle_page_fault mc addr protection_violation k =
     (if protection_violation then (Ok False, k)
      else
        andThenS (current k) k (\<lambda>(me, pr).
        andThenS (of_option (pr_vm pr)) k (\<lambda>vm.
          case proc_vm_handle_page_fault mc (me \<noteq> KERNEL_PID) vm addr (k_vm k) of
            (r, vm, v) \<Rightarrow> (r, upd_proc me (\<lambda>q. q\<lparr>pr_vm := Some vm\<rparr>) (k\<lparr>k_vm := v\<rparr>)))))"

lemmas vfork_defs = manager_vfork_def proc_vfork_def pr_vfork_def

end
