(* ===== verification/ProcOps.thy ===== *)
theory ProcOps
  imports Procs
begin

text \<open>
  What the interrupt handlers call of the process manager: \<open>pkg/kernel/src/proc/mod.rs\<close>, with
  the timer (\<open>interrupt/clock.rs\<close>) and the page-fault handler (\<open>interrupt/exceptions.rs\<close>). An
  operation that gets the context of the interrupt returns the one to resume.
\<close>

type_synonym ('m, 'h, 'a) op = "proc_context \<Rightarrow> ('m, 'h) kernel \<Rightarrow> (unit, 'a) res \<times> proc_context \<times> ('m, 'h) kernel"

text \<open>A call that does not touch the context of the interrupt, inside an operation that does.\<close>

definition quiet :: "(unit, 'a) res \<times> ('m, 'h) kernel \<Rightarrow> proc_context \<Rightarrow> (unit, 'a) res \<times> proc_context \<times> ('m, 'h) kernel" where
  "quiet r cx = (case r of (a, k) \<Rightarrow> (a, cx, k))"

section \<open>Starting\<close>

text \<open>The kernel process, before any other: its pid is the first, its page table the one loaded.\<close>

definition proc_init :: "(page \<times> page) list \<Rightarrow> ('m, 'h) kernel \<Rightarrow> ('m, 'h) kernel" where
  "proc_init pages k =
     (case pt_new (k_vm k) of (pt, v) \<Rightarrow>
      case proc_vm_new pt v of (vm, v) \<Rightarrow>
      case proc_new [0x6B, 0x65, 0x72, 0x6E, 0x65, 0x6C] None (Some (init_kernel_vm pages vm)) None (k\<lparr>k_vm := v\<rparr>) of
        ((pid, pr), k) \<Rightarrow>
          k\<lparr>k_procs := [pid \<mapsto> pr_resume pr], k_ready := [], k_wait := Map.empty, k_cur := pid\<rparr>)"

section \<open>Switching, exit and waiting\<close>

text \<open>The timer interrupt.\<close>

definition switch :: "('m, 'h, unit) op" where
  "switch cx k =
     doS (quiet (save_current cx k) cx) (\<lambda>pid (cx, k).
     doS (switch_next cx (push_ready pid k)) (\<lambda>_ s. (Ok (), s)))"

definition process_exit :: "'m machine \<Rightarrow> u64 \<Rightarrow> ('m, 'h, unit) op" where
  "process_exit mc ret cx k =
     doS (quiet (kill_self mc ret k) cx) (\<lambda>_ (cx, k). doS (switch_next cx k) (\<lambda>_ s. (Ok (), s)))"

definition wait_pid :: "pid \<Rightarrow> ('m, 'h, unit) op" where
  "wait_pid pid cx k =
     (case get_exit_code k pid of
        Some ret \<Rightarrow> (Ok (), set_rax ret cx, k)
      | None \<Rightarrow>
          doS (quiet (manager_wait_pid pid k) cx) (\<lambda>_ (cx, k).
          doS (quiet (save_current cx k) cx) (\<lambda>_ (cx, k).
          andThenS (current k) (cx, k) (\<lambda>(me, pr).
          doS (switch_next cx (manager_block me k)) (\<lambda>_ s. (Ok (), s))))))"

definition wait_no_block :: "('m, 'h) kernel \<Rightarrow> pid \<Rightarrow> u64 option" where
  "wait_no_block k pid = get_exit_code k pid"

definition kill :: "'m machine \<Rightarrow> pid \<Rightarrow> ('m, 'h, unit) op" where
  "kill mc pid cx k =
     andThenS (current_pid k) (cx, k) (\<lambda>me.
       if pid = me then
         doS (quiet (kill_self mc 0xDEAD k) cx) (\<lambda>_ (cx, k). doS (switch_next cx k) (\<lambda>_ s. (Ok (), s)))
       else quiet (manager_kill mc pid 0xDEAD k) cx)"

section \<open>Making processes\<close>

definition elf_spawn :: "'m kparams \<Rightarrow> u8 list \<Rightarrow> elf_file \<Rightarrow> ('m, 'h) kernel \<Rightarrow> (unit, pid) res \<times> ('m, 'h) kernel" where
  "elf_spawn kp name elf k =
     andThenS (current k) k (\<lambda>(me, pr). manager_spawn kp elf name (Some me) None k)"

text \<open>\<open>None\<close> is the error \<open>App not found\<close>.\<close>

definition spawn :: "'m kparams \<Rightarrow> u8 list \<Rightarrow> ('m, 'h) kernel \<Rightarrow> (unit, pid option) res \<times> ('m, 'h) kernel" where
  "spawn kp name k =
     (case Option.bind (kp_apps kp) (find (\<lambda>app. fst app = name)) of
        None \<Rightarrow> (Ok None, k)
      | Some app \<Rightarrow> doS (elf_spawn kp name (snd app) k) (\<lambda>pid k. (Ok (Some pid), k)))"

definition vfork :: "'m machine \<Rightarrow> ('m, 'h, unit) op" where
  "vfork mc cx k =
     doS (quiet (save_current cx k) cx) (\<lambda>pid (cx, k).
     doS (quiet (manager_vfork mc k) cx) (\<lambda>_ (cx, k).
     doS (switch_next cx (push_ready pid k)) (\<lambda>_ s. (Ok (), s))))"

section \<open>The data of the current process\<close>

text \<open>The data of a process that has been killed cannot be reached: the access panics.\<close>

definition current_data :: "('m, 'h) kernel \<Rightarrow> (unit, nat) res" where
  "current_data k = andThen (current k) (\<lambda>(me, pr). of_option (pr_data pr))"

definition set_data :: "nat \<Rightarrow> 'h proc_data \<Rightarrow> ('m, 'h) kernel \<Rightarrow> ('m, 'h) kernel" where
  "set_data d pd k = k\<lparr>k_datas := (k_datas k)(d := pd)\<rparr>"

definition proc_env :: "u8 list \<Rightarrow> ('m, 'h) kernel \<Rightarrow> (unit, u8 list option) res" where
  "proc_env key k = andThen (current_data k) (\<lambda>d. Ok (pd_env (k_datas k d) key))"

text \<open>An error of a file is one only of the value; a panic in a reader is one of the kernel.\<close>

definition proc_read ::
  "'h reader \<Rightarrow> u8 \<Rightarrow> u8 list \<Rightarrow> ('m, 'h) kernel \<Rightarrow> (unit, int \<times> u8 list) res \<times> ('m, 'h) kernel" where
  "proc_read rd fd buf k =
     andThenS (current_data k) k (\<lambda>d.
       case rs_read rd (pd_resources (k_datas k d)) fd buf (k_keys k) of
         (r, buf, rs, keys) \<Rightarrow>
           let k = (set_data d ((k_datas k d)\<lparr>pd_resources := rs\<rparr>) k)\<lparr>k_keys := keys\<rparr> in
           (case r of Ok n \<Rightarrow> (Ok (n, buf), k) | Err e \<Rightarrow> (Panic, k) | Panic \<Rightarrow> (Panic, k) | Diverge \<Rightarrow> (Diverge, k)))"

definition proc_write :: "u8 \<Rightarrow> u8 list \<Rightarrow> ('m, 'h) kernel \<Rightarrow> (unit, int) res \<times> ('m, 'h) kernel" where
  "proc_write fd buf k =
     andThenS (current_data k) k (\<lambda>d.
       case rs_write (pd_resources (k_datas k d)) fd buf of
         (n, es) \<Rightarrow> (Ok n, k\<lparr>k_console := k_console k @ es\<rparr>))"

definition open_resource :: "'h resource \<Rightarrow> ('m, 'h) kernel \<Rightarrow> (unit, u8) res \<times> ('m, 'h) kernel" where
  "open_resource r k =
     andThenS (current_data k) k (\<lambda>d.
       case rs_open (pd_resources (k_datas k d)) r of
         (fd, rs) \<Rightarrow> (Ok fd, set_data d ((k_datas k d)\<lparr>pd_resources := rs\<rparr>) k))"

definition close_resource :: "u8 \<Rightarrow> ('m, 'h) kernel \<Rightarrow> (unit, bool) res \<times> ('m, 'h) kernel" where
  "close_resource fd k =
     andThenS (current_data k) k (\<lambda>d.
       case rs_close (pd_resources (k_datas k d)) fd of
         (b, rs) \<Rightarrow> (Ok b, set_data d ((k_datas k d)\<lparr>pd_resources := rs\<rparr>) k))"

section \<open>Semaphores\<close>

definition set_sems :: "nat \<Rightarrow> semaphore_set \<Rightarrow> ('m, 'h) kernel \<Rightarrow> ('m, 'h) kernel" where
  "set_sems d s k = set_data d ((k_datas k d)\<lparr>pd_semaphores := s\<rparr>) k"

definition sem_new :: "u32 \<Rightarrow> u64 \<Rightarrow> ('m, 'h) kernel \<Rightarrow> (unit, u64) res \<times> ('m, 'h) kernel" where
  "sem_new key value k =
     andThenS (current_data k) k (\<lambda>d.
       case set_insert (pd_semaphores (k_datas k d)) key value of
         (b, s) \<Rightarrow> (Ok (if b then 0 else 1), set_sems d s k))"

definition remove_sem :: "u32 \<Rightarrow> ('m, 'h) kernel \<Rightarrow> (unit, u64) res \<times> ('m, 'h) kernel" where
  "remove_sem key k =
     andThenS (current_data k) k (\<lambda>d.
       case set_remove (pd_semaphores (k_datas k d)) key of
         (b, s) \<Rightarrow> (Ok (if b then 0 else 1), set_sems d s k))"

definition sem_wait :: "u32 \<Rightarrow> ('m, 'h, unit) op" where
  "sem_wait key cx k =
     andThenS (current k) (cx, k) (\<lambda>(me, pr).
     andThenS (current_data k) (cx, k) (\<lambda>d.
       case set_wait (pd_semaphores (k_datas k d)) key me of
         (r, s) \<Rightarrow>
           let k = set_sems d s k in
           (case r of
              SemOk \<Rightarrow> (Ok (), set_rax 0 cx, k)
            | Block p \<Rightarrow>
                doS (quiet (save_current cx k) cx) (\<lambda>_ (cx, k).
                doS (switch_next cx (manager_block p k)) (\<lambda>_ s. (Ok (), s)))
            | NotExist \<Rightarrow> (Ok (), set_rax 1 cx, k)
            | WakeUp p \<Rightarrow> (Panic, cx, k))))"

definition sem_signal :: "u32 \<Rightarrow> ('m, 'h, unit) op" where
  "sem_signal key cx k =
     andThenS (current_data k) (cx, k) (\<lambda>d.
       case set_signal (pd_semaphores (k_datas k d)) key of
         (r, s) \<Rightarrow>
           let k = set_sems d s k in
           (case r of
              SemOk \<Rightarrow> (Ok (), set_rax 0 cx, k)
            | WakeUp p \<Rightarrow> (Ok (), cx, wake_up p None k)
            | NotExist \<Rightarrow> (Ok (), set_rax 1 cx, k)
            | Block p \<Rightarrow> (Panic, cx, k)))"

section \<open>Memory\<close>

definition proc_brk :: "'m machine \<Rightarrow> u64 option \<Rightarrow> ('m, 'h) kernel \<Rightarrow> (unit, u64 option) res \<times> ('m, 'h) kernel" where
  "proc_brk mc addr k =
     andThenS (current k) k (\<lambda>(me, pr).
     andThenS (of_option (pr_vm pr)) k (\<lambda>vm.
       case proc_vm_brk mc vm addr (k_vm k) of (r, v) \<Rightarrow> (r, k\<lparr>k_vm := v\<rparr>)))"

text \<open>The page-fault handler: a fault that is not handled, of whatever process, panics the kernel.\<close>

definition page_fault :: "'m machine \<Rightarrow> u64 \<Rightarrow> bool \<Rightarrow> ('m, 'h) kernel \<Rightarrow> (unit, unit) res \<times> ('m, 'h) kernel" where
  "page_fault mc addr protection_violation k =
     doS (manager_handle_page_fault mc addr protection_violation k) (\<lambda>handled k.
       (if handled then Ok () else Panic, k))"

end
