(* ===== verification/Syscalls.thy ===== *)
theory Syscalls
  imports ProcOps Text Storage
begin

text \<open>
  System calls: their numbers (\<open>pkg/syscall/src/lib.rs\<close>), the dispatcher and the services of
  \<open>pkg/kernel/src/interrupt/syscall/\<close>, the access to user memory of \<open>memory/address.rs\<close>, and
  what the wrappers of \<open>pkg/lib/src/syscall.rs\<close> make of the values returned.
\<close>

section \<open>Numbers\<close>

datatype syscall =
  SysRead | SysWrite | SysOpen | SysClose | SysListDir | SysGetPid | SysVFork | SysSpawn | SysExit
  | SysWaitPid | SysKill | SysSem | SysBrk | SysListApp | SysStat | SysAllocate | SysDeallocate | SysUnknown

fun syscall_number :: "syscall \<Rightarrow> u64" where
  "syscall_number SysRead = 0"
| "syscall_number SysWrite = 1"
| "syscall_number SysOpen = 14"
| "syscall_number SysClose = 15"
| "syscall_number SysListDir = 16"
| "syscall_number SysGetPid = 39"
| "syscall_number SysVFork = 40"
| "syscall_number SysSpawn = 59"
| "syscall_number SysExit = 60"
| "syscall_number SysWaitPid = 61"
| "syscall_number SysKill = 62"
| "syscall_number SysSem = 66"
| "syscall_number SysBrk = 67"
| "syscall_number SysListApp = 65529"
| "syscall_number SysStat = 65530"
| "syscall_number SysAllocate = 65533"
| "syscall_number SysDeallocate = 65534"
| "syscall_number SysUnknown = 65535"

definition syscalls :: "syscall list" where
  "syscalls =
     [SysRead, SysWrite, SysOpen, SysClose, SysListDir, SysGetPid, SysVFork, SysSpawn, SysExit, SysWaitPid,
      SysKill, SysSem, SysBrk, SysListApp, SysStat, SysAllocate, SysDeallocate]"

text \<open>The derived \<open>FromPrimitive\<close>: the variant with the number, or the default.\<close>

definition syscall_from :: "u64 \<Rightarrow> syscall" where
  "syscall_from n = (case find (\<lambda>s. syscall_number s = n) syscalls of None \<Rightarrow> SysUnknown | Some s \<Rightarrow> s)"

section \<open>User memory\<close>

text \<open>
  What the services use of outside code: \<open>sv_user\<close>, whether the mapper over the table in a frame
  translates an address to a mapping with \<open>USER_ACCESSIBLE\<close>; \<open>sv_store_ok\<close>, whether the
  processor lets the kernel write there; the file system, as reader of open files, \<open>open_file\<close>
  and the lines \<open>ls\<close> logs; the text of \<open>print_process_list\<close>; and the user allocator, whose state
  lies in memory, with the layout at an address.
\<close>

record ('m, 'h) services =
  sv_params :: "'m kparams"
  sv_user :: "frame \<Rightarrow> 'm \<Rightarrow> u64 \<Rightarrow> bool"
  sv_store_ok :: "frame \<Rightarrow> 'm \<Rightarrow> u64 \<Rightarrow> bool"
  sv_reader :: "'h reader"
  sv_open :: "u8 list \<Rightarrow> 'h fs_result"
  sv_ls :: "u8 list \<Rightarrow> console_event list"
  sv_stat :: "('m, 'h) kernel \<Rightarrow> u8 list"
  sv_layout_size :: "u64 \<Rightarrow> 'm vmem \<Rightarrow> u64"
  sv_allocate :: "u64 \<Rightarrow> 'm vmem \<Rightarrow> u64 option \<times> 'm vmem"
  sv_deallocate :: "u64 \<Rightarrow> u64 \<Rightarrow> 'm vmem \<Rightarrow> 'm vmem"

abbreviation sv_mc :: "('m, 'h) services \<Rightarrow> 'm machine" where
  "sv_mc sv \<equiv> kp_machine (sv_params sv)"

definition is_user_accessable :: "('m, 'h) services \<Rightarrow> u64 \<Rightarrow> ('m, 'h) kernel \<Rightarrow> bool" where
  "is_user_accessable sv a k =
     sv_user sv (fst (vs_cr3 (k_vm k))) (mem_table (vs_mem (k_vm k))) (kp_truncate (sv_params sv) a)"

text \<open>
  Where the kernel finds the byte of an address: through the page table loaded, after a page
  fault that has been handled when the page is not mapped.
\<close>

definition byte_at :: "('m, 'h) services \<Rightarrow> u64 \<Rightarrow> ('m, 'h) kernel \<Rightarrow> u64 option" where
  "byte_at sv a k =
     map_option (\<lambda>f. f + mc_offset (sv_mc sv) + (a AND 0xFFF))
       (x_translate (mc_mapper (sv_mc sv) (fst (vs_cr3 (k_vm k)))) (mem_table (vs_mem (k_vm k))) (page_of a))"

definition touch :: "('m, 'h) services \<Rightarrow> u64 \<Rightarrow> ('m, 'h) kernel \<Rightarrow> (unit, u64) res \<times> ('m, 'h) kernel" where
  "touch sv a k =
     (case byte_at sv a k of
        Some b \<Rightarrow> (Ok b, k)
      | None \<Rightarrow> doS (page_fault (sv_mc sv) a False k) (\<lambda>_ k. (of_option (byte_at sv a k), k)))"

primrec load_bytes ::
  "('m, 'h) services \<Rightarrow> u64 \<Rightarrow> nat \<Rightarrow> ('m, 'h) kernel \<Rightarrow> (unit, u8 list) res \<times> ('m, 'h) kernel" where
  "load_bytes sv a 0 k = (Ok [], k)"
| "load_bytes sv a (Suc n) k =
     doS (touch sv a k) (\<lambda>b k. doS (load_bytes sv (a + 1) n k) (\<lambda>bs k. (Ok (mem_bytes (vs_mem (k_vm k)) b # bs), k)))"

primrec store_bytes ::
  "('m, 'h) services \<Rightarrow> u64 \<Rightarrow> u8 list \<Rightarrow> ('m, 'h) kernel \<Rightarrow> (unit, unit) res \<times> ('m, 'h) kernel" where
  "store_bytes sv a [] k = (Ok (), k)"
| "store_bytes sv a (v # vs) k =
     doS (touch sv a k) (\<lambda>b k.
       if sv_store_ok sv (fst (vs_cr3 (k_vm k))) (mem_table (vs_mem (k_vm k))) a then
         store_bytes sv (a + 1) vs
           (k\<lparr>k_vm := (k_vm k)\<lparr>vs_mem := (vs_mem (k_vm k))\<lparr>mem_bytes := (mem_bytes (vs_mem (k_vm k)))(b := v)\<rparr>\<rparr>\<rparr>)
       else doS (page_fault (sv_mc sv) a True k) (\<lambda>_ k. (Panic, k)))"

section \<open>Services\<close>

text \<open>The result of a service that returns \<open>usize\<close>; \<open>-1\<close> and \<open>!0\<close> are \<open>usize::MAX\<close>.\<close>

type_synonym ('m, 'h) service = "('m, 'h) kernel \<Rightarrow> (unit, u64) res \<times> ('m, 'h) kernel"

text \<open>
  Of the buffer given only the first byte is checked. The bytes are read when the resource
  uses them; the length of a slice is at most \<open>isize::MAX\<close>.
\<close>

definition wants_bytes :: "'h resource option \<Rightarrow> bool" where
  "wants_bytes r \<longleftrightarrow> r = Some (Console Stdout) \<or> r = Some (Console Stderr)"

definition sys_write :: "('m, 'h) services \<Rightarrow> u64 \<Rightarrow> u64 \<Rightarrow> u64 \<Rightarrow> ('m, 'h) service" where
  "sys_write sv fd ptr n k =
     (if \<not> is_user_accessable sv ptr k then (Ok (- 1), k)
      else
        andThenS (current_data k) k (\<lambda>d.
        doS (if wants_bytes (rs_handles (pd_resources (k_datas k d)) (ucast fd))
             then load_bytes sv ptr (unat n) k else (Ok (replicate (unat n) 0), k)) (\<lambda>buf k.
        doS (proc_write (ucast fd) buf k) (\<lambda>c k. (Ok (of_int c), k)))))"

definition sys_read :: "('m, 'h) services \<Rightarrow> u64 \<Rightarrow> u64 \<Rightarrow> u64 \<Rightarrow> ('m, 'h) service" where
  "sys_read sv fd ptr n k =
     (if \<not> is_user_accessable sv ptr k then (Ok (- 1), k)
      else
        doS (proc_read (sv_reader sv) (ucast fd) (replicate (unat n) 0) k) (\<lambda>(c, buf) k.
        doS (store_bytes sv ptr (take (nat c) buf) k) (\<lambda>_ k. (Ok (of_int c), k))))"

definition spawn_process :: "('m, 'h) services \<Rightarrow> u64 \<Rightarrow> u64 \<Rightarrow> ('m, 'h) service" where
  "spawn_process sv ptr n k =
     doS (load_bytes sv ptr (unat n) k) (\<lambda>name k.
     doS (spawn (sv_params sv) name k) (\<lambda>r k.
       (Ok (case r of None \<Rightarrow> 0 | Some pid \<Rightarrow> ucast pid), k)))"

text \<open>The check compares the whole argument, the pid is its low 16 bits.\<close>

definition sys_kill :: "'m machine \<Rightarrow> u64 \<Rightarrow> ('m, 'h, unit) op" where
  "sys_kill mc a cx k = (if a = 1 then (Ok (), cx, k) else kill mc (ucast a) cx k)"

definition sys_sem :: "u64 \<Rightarrow> u64 \<Rightarrow> u64 \<Rightarrow> ('m, 'h, unit) op" where
  "sys_sem opn key value cx k =
     (if opn = 0 then doS (quiet (sem_new (ucast key) value k) cx) (\<lambda>r (cx, k). (Ok (), set_rax r cx, k))
      else if opn = 1 then sem_wait (ucast key) cx k
      else if opn = 2 then sem_signal (ucast key) cx k
      else if opn = 3 then doS (quiet (remove_sem (ucast key) k) cx) (\<lambda>r (cx, k). (Ok (), set_rax r cx, k))
      else (Ok (), set_rax (- 1) cx, k))"

text \<open>The path argument of \<open>list_dir\<close> and \<open>sys_open\<close>: the number of the check that fails, or the path.\<close>

definition user_path :: "('m, 'h) services \<Rightarrow> u64 \<Rightarrow> u64 \<Rightarrow> ('m, 'h) kernel \<Rightarrow> (unit, u64 + u8 list) res \<times> ('m, 'h) kernel" where
  "user_path sv ptr n k =
     (if ptr = 0 \<or> n = 0 then (Ok (Inl 1), k)
      else if n > 4096 then (Ok (Inl 2), k)
      else doS (load_bytes sv ptr (unat n) k) (\<lambda>path k. (Ok (if utf8_valid path then Inr path else Inl 3), k)))"

definition list_dir :: "('m, 'h) services \<Rightarrow> u64 \<Rightarrow> u64 \<Rightarrow> ('m, 'h) service" where
  "list_dir sv ptr n k =
     doS (user_path sv ptr n k) (\<lambda>r k.
       case r of
         Inl code \<Rightarrow> (Ok code, k)
       | Inr path \<Rightarrow> (Ok 0, k\<lparr>k_console := k_console k @ sv_ls sv path\<rparr>))"

definition sys_open :: "('m, 'h) services \<Rightarrow> u64 \<Rightarrow> u64 \<Rightarrow> ('m, 'h) service" where
  "sys_open sv ptr n k =
     doS (user_path sv ptr n k) (\<lambda>r k.
       case r of
         Inl code \<Rightarrow> (Ok (- 1), k)
       | Inr path \<Rightarrow>
           andThenS (current k) k (\<lambda>_.
             case sv_open sv path of
               Ok h \<Rightarrow> doS (open_resource (FileR h) k) (\<lambda>fd k. (Ok (ucast fd), k))
             | Err e \<Rightarrow> (Ok (- 1), k)
             | Panic \<Rightarrow> (Panic, k)
             | Diverge \<Rightarrow> (Diverge, k)))"

definition sys_close :: "u64 \<Rightarrow> ('m, 'h) service" where
  "sys_close fd k = doS (close_resource (ucast fd) k) (\<lambda>b k. (Ok (if b then 0 else - 1), k))"

text \<open>\<open>VirtAddr::new\<close> panics on an address that is not canonical.\<close>

definition sys_brk :: "'m machine \<Rightarrow> u64 \<Rightarrow> ('m, 'h) service" where
  "sys_brk mc a k =
     (if a = 0 then doS (proc_brk mc None k) (\<lambda>r k. (Ok (case r of Some e \<Rightarrow> e | None \<Rightarrow> - 1), k))
      else
        andThenS (virt_addr (mc_mapper mc (fst (vs_cr3 (k_vm k)))) a) k (\<lambda>a.
        doS (proc_brk mc (Some a) k) (\<lambda>r k. (Ok (case r of Some e \<Rightarrow> e | None \<Rightarrow> - 1), k))))"

definition sys_allocate :: "('m, 'h) services \<Rightarrow> u64 \<Rightarrow> ('m, 'h) service" where
  "sys_allocate sv layout k =
     (if layout = 0 then (Panic, k)
      else if sv_layout_size sv layout (k_vm k) = 0 then (Ok 0, k)
      else case sv_allocate sv layout (k_vm k) of
        (r, v) \<Rightarrow> (Ok (case r of Some ptr \<Rightarrow> ptr | None \<Rightarrow> 0), k\<lparr>k_vm := v\<rparr>))"

definition sys_deallocate :: "('m, 'h) services \<Rightarrow> u64 \<Rightarrow> u64 \<Rightarrow> ('m, 'h) kernel \<Rightarrow> (unit, unit) res \<times> ('m, 'h) kernel" where
  "sys_deallocate sv ptr layout k =
     (if ptr = 0 then (Ok (), k)
      else if \<not> is_user_accessable sv ptr k then (Ok (), k)
      else if \<not> is_user_accessable sv layout k then (Ok (), k)
      else if layout = 0 then (Panic, k)
      else if sv_layout_size sv layout (k_vm k) = 0 then (Ok (), k)
      else if \<not> is_user_accessable sv (ptr + sv_layout_size sv layout (k_vm k) - 1) k then (Ok (), k)
      else (Ok (), k\<lparr>k_vm := sv_deallocate sv ptr layout (k_vm k)\<rparr>))"

text \<open>\<open>>>> App list: \<dots>\<close> and \<open>>>> No app found in list!\<close>, with the end of line of \<open>println!\<close>.\<close>

definition comma_separated :: "u8 list list \<Rightarrow> u8 list" where
  "comma_separated names = concat (case names of [] \<Rightarrow> [] | n # ns \<Rightarrow> n # map (\<lambda>m. [0x2C, 0x20] @ m) ns)"

definition list_app :: "'m kparams \<Rightarrow> ('m, 'h) kernel \<Rightarrow> ('m, 'h) kernel" where
  "list_app kp k =
     k\<lparr>k_console := k_console k @
        [Printed (case kp_apps kp of
           None \<Rightarrow> [0x3E, 0x3E, 0x3E, 0x20, 0x4E, 0x6F, 0x20, 0x61, 0x70, 0x70, 0x20, 0x66, 0x6F, 0x75,
             0x6E, 0x64, 0x20, 0x69, 0x6E, 0x20, 0x6C, 0x69, 0x73, 0x74, 0x21, 0x0A, 0x0D]
         | Some apps \<Rightarrow> [0x3E, 0x3E, 0x3E, 0x20, 0x41, 0x70, 0x70, 0x20, 0x6C, 0x69, 0x73, 0x74, 0x3A, 0x20] @
             comma_separated (map fst apps) @ [0x0A, 0x0D])]\<rparr>"

section \<open>The dispatcher\<close>

text \<open>\<open>context.set_rax(service(\<dots>))\<close>\<close>

definition returning :: "(unit, u64) res \<times> ('m, 'h) kernel \<Rightarrow> proc_context \<Rightarrow> (unit, unit) res \<times> proc_context \<times> ('m, 'h) kernel" where
  "returning r cx = doS (quiet r cx) (\<lambda>v (cx, k). (Ok (), set_rax v cx, k))"

definition dispatcher :: "('m, 'h) services \<Rightarrow> ('m, 'h, unit) op" where
  "dispatcher sv cx k =
     (let mc = sv_mc sv; arg0 = rg_rdi (cx_regs cx); arg1 = rg_rsi (cx_regs cx); arg2 = rg_rdx (cx_regs cx) in
      case syscall_from (rg_rax (cx_regs cx)) of
        SysRead \<Rightarrow> returning (sys_read sv arg0 arg1 arg2 k) cx
      | SysWrite \<Rightarrow> returning (sys_write sv arg0 arg1 arg2 k) cx
      | SysGetPid \<Rightarrow> returning (andThen (current_pid k) (\<lambda>p. Ok (ucast p)), k) cx
      | SysSpawn \<Rightarrow> returning (spawn_process sv arg0 arg1 k) cx
      | SysExit \<Rightarrow> process_exit mc arg0 cx k
      | SysWaitPid \<Rightarrow> wait_pid (ucast arg0) cx k
      | SysKill \<Rightarrow> sys_kill mc arg0 cx k
      | SysStat \<Rightarrow> (Ok (), cx, k\<lparr>k_console := k_console k @ [Printed (sv_stat sv k)]\<rparr>)
      | SysListApp \<Rightarrow> (Ok (), cx, list_app (sv_params sv) k)
      | SysVFork \<Rightarrow> vfork mc cx k
      | SysSem \<Rightarrow> sys_sem arg0 arg1 arg2 cx k
      | SysListDir \<Rightarrow> returning (list_dir sv arg0 arg1 k) cx
      | SysOpen \<Rightarrow> returning (sys_open sv arg0 arg1 k) cx
      | SysClose \<Rightarrow> returning (sys_close arg0 k) cx
      | SysBrk \<Rightarrow> returning (sys_brk mc arg0 k) cx
      | SysAllocate \<Rightarrow> returning (sys_allocate sv arg0 k) cx
      | SysDeallocate \<Rightarrow> quiet (sys_deallocate sv arg0 arg1 k) cx
      | SysUnknown \<Rightarrow> (Ok (), cx, k))"

section \<open>The wrappers of the user library\<close>

text \<open>\<open>sys_read\<close> and \<open>sys_write\<close>: a negative \<open>isize\<close> is \<open>None\<close>.\<close>

definition lib_count :: "u64 \<Rightarrow> u64 option" where
  "lib_count ret = (if ret <s 0 then None else Some ret)"

text \<open>\<open>sys_new_sem\<close>, \<open>sys_sem_wait\<close>, \<open>sys_sem_signal\<close>, \<open>sys_sem_free\<close>\<close>

definition lib_sem :: "u64 \<Rightarrow> bool" where "lib_sem ret \<longleftrightarrow> ret = 0"

datatype dir_error = NullPointer | EmptyPath | PathTooLong | BadUtf8 | EmptyString | UnknownError

definition lib_list_dir :: "u64 \<Rightarrow> dir_error option" where
  "lib_list_dir ret =
     (if ret = 0 then None else if ret = 1 then Some NullPointer else if ret = 2 then Some EmptyPath
      else if ret = 3 then Some PathTooLong else if ret = 4 then Some BadUtf8
      else if ret = 5 then Some EmptyString else Some UnknownError)"

definition lib_open :: "u64 \<Rightarrow> u8 option" where
  "lib_open ret = (if ret = - 1 then None else Some (ucast ret))"

definition lib_close :: "u64 \<Rightarrow> bool" where "lib_close ret \<longleftrightarrow> ret = 0"

definition lib_brk :: "u64 \<Rightarrow> u64 option" where
  "lib_brk ret = (if ret = NOT 0 then None else Some ret)"

end
