(* ===== verification/ProcFacts.thy ===== *)
theory ProcFacts
  imports Syscalls
begin

text \<open>
  The invariant of the scheduler and of the waiting queues, and that every operation of the
  process manager keeps it.
\<close>

section \<open>Where processes wait\<close>

text \<open>A process waits for another's exit, or on a semaphore of a set of shared data.\<close>

datatype place = OnExit pid | OnSem nat u32

fun queue_at :: "('m, 'h) kernel \<Rightarrow> place \<Rightarrow> pid list" where
  "queue_at k (OnExit p) = (case k_wait k p of None \<Rightarrow> [] | Some ws \<Rightarrow> ws)"
| "queue_at k (OnSem d key) = (case pd_semaphores (k_datas k d) key of None \<Rightarrow> [] | Some s \<Rightarrow> sem_queue s)"

definition st :: "('m, 'h) kernel \<Rightarrow> pid \<Rightarrow> status option" where
  "st k p = map_option pr_status (k_procs k p)"

text \<open>Exactly the dead have no memory, no data, and an exit code.\<close>

definition proc_ok :: "process \<Rightarrow> bool" where
  "proc_ok pr \<longleftrightarrow>
     (pr_status pr = Dead \<longleftrightarrow> pr_vm pr = None) \<and> (pr_status pr = Dead \<longleftrightarrow> pr_data pr = None) \<and>
     (pr_status pr = Dead \<longleftrightarrow> pr_exit_code pr \<noteq> None)"

definition procs_ok :: "('m, 'h) kernel \<Rightarrow> bool" where
  "procs_ok k \<longleftrightarrow> (\<forall>p pr. k_procs k p = Some pr \<longrightarrow> proc_ok pr)"

text \<open>Whoever is in a queue is blocked, is in one place only, and is there once.\<close>

definition queues_ok :: "(pid \<Rightarrow> status option) \<Rightarrow> (place \<Rightarrow> pid list) \<Rightarrow> bool" where
  "queues_ok s q \<longleftrightarrow>
     (\<forall>pl. distinct (q pl) \<and> (\<forall>p\<in>set (q pl). s p = Some Blocked)) \<and>
     (\<forall>pl pl' p. p \<in> set (q pl) \<and> p \<in> set (q pl') \<longrightarrow> pl = pl')"

text \<open>
  Between operations: a current process that can run, the kernel's process alive and never
  blocked, and every process that is ready either current or in the ready queue.
\<close>

definition sched_ok :: "(pid \<Rightarrow> status option) \<Rightarrow> pid list \<Rightarrow> pid \<Rightarrow> (place \<Rightarrow> pid list) \<Rightarrow> bool" where
  "sched_ok s rq cur q \<longleftrightarrow>
     s 0 = None \<and> (s cur = Some Running \<or> s cur = Some Ready) \<and>
     (s KERNEL_PID = Some Running \<or> s KERNEL_PID = Some Ready) \<and>
     (\<forall>p\<in>set rq. s p \<noteq> None) \<and> (\<forall>p. s p = Some Ready \<longrightarrow> p = cur \<or> p \<in> set rq) \<and>
     (\<forall>p. s p = Some Running \<longrightarrow> p = cur) \<and> queues_ok s q"

definition kernel_ok :: "('m, 'h) kernel \<Rightarrow> bool" where
  "kernel_ok k \<longleftrightarrow> procs_ok k \<and> sched_ok (st k) (k_ready k) (k_cur k) (queue_at k)"

text \<open>When \<open>switch_next\<close> is called: nobody is running.\<close>

definition leave_ok :: "(pid \<Rightarrow> status option) \<Rightarrow> pid list \<Rightarrow> pid \<Rightarrow> (place \<Rightarrow> pid list) \<Rightarrow> bool" where
  "leave_ok s rq cur q \<longleftrightarrow>
     s 0 = None \<and> s cur \<noteq> None \<and> s KERNEL_PID = Some Ready \<and> (\<forall>p\<in>set rq. s p \<noteq> None) \<and>
     (\<forall>p. s p = Some Ready \<longrightarrow> p \<in> set rq) \<and> (\<forall>p. s p \<noteq> Some Running) \<and> queues_ok s q"

lemma sched_okD:
  assumes "sched_ok s rq cur q"
  shows "s 0 = None" "s cur = Some Running \<or> s cur = Some Ready" "s cur \<noteq> Some Blocked" "s cur \<noteq> None"
    "s KERNEL_PID = Some Running \<or> s KERNEL_PID = Some Ready" "p \<in> set rq \<Longrightarrow> s p \<noteq> None"
    "s p = Some Ready \<Longrightarrow> p = cur \<or> p \<in> set rq" "s p = Some Running \<Longrightarrow> p = cur" "queues_ok s q"
    "cur \<noteq> 0" "cur \<noteq> KERNEL_PID \<Longrightarrow> s KERNEL_PID = Some Ready \<and> KERNEL_PID \<in> set rq"
proof -
  show "s 0 = None" "s cur = Some Running \<or> s cur = Some Ready" "s KERNEL_PID = Some Running \<or> s KERNEL_PID = Some Ready"
    "p \<in> set rq \<Longrightarrow> s p \<noteq> None" "s p = Some Ready \<Longrightarrow> p = cur \<or> p \<in> set rq" "s p = Some Running \<Longrightarrow> p = cur"
    "queues_ok s q" using assms unfolding sched_ok_def by blast+
  then show "s cur \<noteq> Some Blocked" "s cur \<noteq> None" "cur \<noteq> 0" by auto
  show "cur \<noteq> KERNEL_PID \<Longrightarrow> s KERNEL_PID = Some Ready \<and> KERNEL_PID \<in> set rq"
    using assms unfolding sched_ok_def by metis
qed

lemma queues_okD:
  assumes "queues_ok s q"
  shows "distinct (q pl)" "p \<in> set (q pl) \<Longrightarrow> s p = Some Blocked"
    "p \<in> set (q pl) \<Longrightarrow> p \<in> set (q pl') \<Longrightarrow> pl = pl'"
  using assms unfolding queues_ok_def by blast+

lemma leave_okI:
  assumes "s 0 = None" "s cur \<noteq> None" "s KERNEL_PID = Some Ready" "\<And>p. p \<in> set rq \<Longrightarrow> s p \<noteq> None"
    "\<And>p. s p = Some Ready \<Longrightarrow> p \<in> set rq" "\<And>p. s p \<noteq> Some Running" "queues_ok s q"
  shows "leave_ok s rq cur q"
  using assms unfolding leave_ok_def by blast

lemma sched_okI:
  assumes "s 0 = None" "s cur = Some Running \<or> s cur = Some Ready"
    "s KERNEL_PID = Some Running \<or> s KERNEL_PID = Some Ready" "\<And>p. p \<in> set rq \<Longrightarrow> s p \<noteq> None"
    "\<And>p. s p = Some Ready \<Longrightarrow> p = cur \<or> p \<in> set rq" "\<And>p. s p = Some Running \<Longrightarrow> p = cur" "queues_ok s q"
  shows "sched_ok s rq cur q"
  using assms unfolding sched_ok_def by blast

section \<open>Switching\<close>

lemma switch_loop_skip:
  "\<forall>p\<in>set ds. \<exists>pr. k_procs k p = Some pr \<and> pr_status pr \<noteq> Ready \<Longrightarrow>
    switch_loop pid (ds @ q) cx k = switch_loop pid q cx k"
  by (induction ds) auto

lemma st_upd [simp]:
  "st (upd_proc p f k) = (st k)(p := map_option (\<lambda>pr. pr_status (f pr)) (k_procs k p))"
  by (auto simp: st_def upd_proc_def fun_eq_iff option.map_comp comp_def)

lemma queue_upd [simp]: "queue_at (upd_proc p f k) = queue_at k"
proof
  fix pl show "queue_at (upd_proc p f k) pl = queue_at k pl" by (cases pl) (simp_all add: upd_proc_def)
qed

lemma upd_fields [simp]:
  "k_ready (upd_proc p f k) = k_ready k" "k_cur (upd_proc p f k) = k_cur k" "k_vm (upd_proc p f k) = k_vm k"
  "k_wait (upd_proc p f k) = k_wait k" "k_datas (upd_proc p f k) = k_datas k"
  "k_next_pid (upd_proc p f k) = k_next_pid k" "k_procs (upd_proc p f k) q =
    (if q = p then map_option f (k_procs k p) else k_procs k q)"
  by (simp_all add: upd_proc_def)

lemma procs_okD: "procs_ok k \<Longrightarrow> k_procs k p = Some pr \<Longrightarrow> proc_ok pr"
  by (simp add: procs_ok_def)

lemma procs_ok_upd:
  "procs_ok k \<Longrightarrow> (\<And>pr. k_procs k p = Some pr \<Longrightarrow> proc_ok pr \<Longrightarrow> proc_ok (f pr)) \<Longrightarrow> procs_ok (upd_proc p f k)"
  by (auto simp: procs_ok_def split: if_splits)

text \<open>The first ready process of the queue runs next.\<close>

lemma first_ready:
  assumes "s p = Some Ready" "p \<in> set rq"
  shows "\<exists>ds next rest. rq = ds @ next # rest \<and> s next = Some Ready \<and> (\<forall>d\<in>set ds. s d \<noteq> Some Ready)"
  using split_list_first_prop [of rq "\<lambda>p. s p = Some Ready"] assms by blast

definition switched :: "proc_context \<Rightarrow> pid \<Rightarrow> pid list \<Rightarrow> ('m, 'h) kernel \<Rightarrow> (unit, pid) res \<times> proc_context \<times> ('m, 'h) kernel" where
  "switched cx nxt rest k =
     (if nxt = k_cur k then (Ok nxt, cx, k\<lparr>k_ready := rest\<rparr>)
      else (Ok nxt, pr_context (the (k_procs k nxt)),
        (upd_proc nxt pr_resume k)\<lparr>k_ready := rest, k_cur := nxt,
           k_vm := pt_load (pv_table (the (pr_vm (the (k_procs k nxt))))) (k_vm k)\<rparr>))"

lemma switch_next_first:
  assumes procs: "procs_ok k" and q: "k_ready k = ds @ nxt # rest" "st k nxt = Some Ready"
    and skip: "\<forall>d\<in>set ds. st k d \<noteq> Some Ready" "\<forall>d\<in>set ds. st k d \<noteq> None" and cur: "k_cur k \<noteq> 0"
  shows "switch_next cx k = switched cx nxt rest k"
proof -
  have "\<forall>p\<in>set ds. \<exists>pr. k_procs k p = Some pr \<and> pr_status pr \<noteq> Ready"
    using skip by (fastforce simp: st_def)
  then have "switch_next cx k = switch_loop (k_cur k) (nxt # rest) cx k"
    using cur q(1) by (simp add: switch_next_def current_pid_def switch_loop_skip)
  moreover obtain pr where pr: "k_procs k nxt = Some pr" "pr_status pr = Ready" using q(2) by (auto simp: st_def)
  moreover obtain vm where "pr_vm pr = Some vm"
    using procs_okD [OF procs pr(1)] pr(2) by (auto simp: proc_ok_def)
  ultimately show ?thesis by (auto simp: switched_def context_restore_def)
qed

lemma queue_same:
  assumes "k_wait k' = k_wait k" "k_datas k' = k_datas k"
  shows "queue_at k' = queue_at k"
proof
  fix pl show "queue_at k' pl = queue_at k pl" using assms by (cases pl) simp_all
qed

lemma kernel_fields_queue [simp]:
  "queue_at (k\<lparr>k_ready := rq\<rparr>) = queue_at k" "queue_at (k\<lparr>k_cur := c\<rparr>) = queue_at k"
  "queue_at (k\<lparr>k_vm := v\<rparr>) = queue_at k" "queue_at (k\<lparr>k_keys := ks\<rparr>) = queue_at k"
  "queue_at (k\<lparr>k_console := es\<rparr>) = queue_at k" "queue_at (k\<lparr>k_procs := ps\<rparr>) = queue_at k"
  "queue_at (k\<lparr>k_next_pid := n\<rparr>) = queue_at k" "queue_at (k\<lparr>k_next_data := d\<rparr>) = queue_at k"
  by (rule queue_same; simp)+

lemma kernel_fields_st [simp]:
  "st (k\<lparr>k_ready := rq\<rparr>) = st k" "st (k\<lparr>k_cur := c\<rparr>) = st k" "st (k\<lparr>k_vm := v\<rparr>) = st k"
  "st (k\<lparr>k_keys := ks\<rparr>) = st k" "st (k\<lparr>k_console := es\<rparr>) = st k" "st (k\<lparr>k_next_pid := n\<rparr>) = st k"
  "st (k\<lparr>k_next_data := d\<rparr>) = st k" "st (k\<lparr>k_wait := w\<rparr>) = st k" "st (k\<lparr>k_datas := ds\<rparr>) = st k"
  by (simp_all add: st_def fun_eq_iff)

lemma kernel_fields_procs [simp]:
  "procs_ok (k\<lparr>k_ready := rq\<rparr>) = procs_ok k" "procs_ok (k\<lparr>k_cur := c\<rparr>) = procs_ok k"
  "procs_ok (k\<lparr>k_vm := v\<rparr>) = procs_ok k" "procs_ok (k\<lparr>k_keys := ks\<rparr>) = procs_ok k"
  "procs_ok (k\<lparr>k_console := es\<rparr>) = procs_ok k" "procs_ok (k\<lparr>k_next_pid := n\<rparr>) = procs_ok k"
  "procs_ok (k\<lparr>k_next_data := d\<rparr>) = procs_ok k" "procs_ok (k\<lparr>k_wait := w\<rparr>) = procs_ok k"
  "procs_ok (k\<lparr>k_datas := ds\<rparr>) = procs_ok k"
  by (simp_all add: procs_ok_def)

lemma queues_ok_status:
  "queues_ok s q \<Longrightarrow> (\<And>p. s p = Some Blocked \<Longrightarrow> s' p = Some Blocked) \<Longrightarrow> queues_ok s' q"
  by (auto simp: queues_ok_def)

lemma switched_ok:
  assumes procs: "procs_ok k" and q: "k_ready k = ds @ nxt # rest" "st k nxt = Some Ready"
    and skip: "\<forall>d\<in>set ds. st k d \<noteq> Some Ready" and ok: "leave_ok (st k) (k_ready k) (k_cur k) (queue_at k)"
  shows "\<exists>cx' k'. switched cx nxt rest k = (Ok nxt, cx', k') \<and> kernel_ok k' \<and> k_cur k' = nxt \<and> k_ready k' = rest"
proof (cases "nxt = k_cur k")
  case True
  have "sched_ok (st k) rest nxt (queue_at k)"
    using ok q skip unfolding leave_ok_def sched_ok_def by auto
  then show ?thesis using True procs by (simp add: switched_def kernel_ok_def)
next
  case False
  obtain pr where pr: "k_procs k nxt = Some pr" "pr_status pr = Ready" using q(2) by (auto simp: st_def)
  let ?s = "(st k)(nxt := Some Running)"
  have "queues_ok ?s (queue_at k)"
    by (rule queues_ok_status [of "st k"]) (use ok q(2) in \<open>auto simp: leave_ok_def\<close>)
  then have "sched_ok ?s rest nxt (queue_at k)"
    using ok q skip unfolding leave_ok_def sched_ok_def by (auto split: if_splits)
  moreover have "procs_ok (upd_proc nxt pr_resume k)"
    using procs by (rule procs_ok_upd) (use pr in \<open>auto simp: proc_ok_def pr_resume_def\<close>)
  ultimately show ?thesis using False pr by (simp add: switched_def kernel_ok_def pr_resume_def)
qed

lemma switch_next_ok:
  assumes procs: "procs_ok k" and ok: "leave_ok (st k) (k_ready k) (k_cur k) (queue_at k)"
  shows "\<exists>p cx' k'. switch_next cx k = (Ok p, cx', k') \<and> kernel_ok k'"
proof -
  have "st k KERNEL_PID = Some Ready" "KERNEL_PID \<in> set (k_ready k)" using ok by (auto simp: leave_ok_def)
  from first_ready [of "st k", OF this] obtain ds nxt rest where
    q: "k_ready k = ds @ nxt # rest" "st k nxt = Some Ready" "\<forall>d\<in>set ds. st k d \<noteq> Some Ready" by blast
  have "k_cur k \<noteq> 0" "\<forall>d\<in>set ds. st k d \<noteq> None" using ok q(1) by (auto simp: leave_ok_def)
  then have "switch_next cx k = switched cx nxt rest k" using switch_next_first [OF procs q(1, 2, 3)] by blast
  with switched_ok [OF procs q ok, of cx] show ?thesis by auto
qed

section \<open>Leaving the current process\<close>

lemma kernel_okD:
  assumes "kernel_ok k"
  shows "procs_ok k" "sched_ok (st k) (k_ready k) (k_cur k) (queue_at k)" "k_cur k \<noteq> 0"
    and "\<exists>pr. k_procs k (k_cur k) = Some pr \<and> (pr_status pr = Running \<or> pr_status pr = Ready) \<and> proc_ok pr"
  using assms by (auto simp: kernel_ok_def sched_ok_def st_def procs_ok_def)

lemma current_eq:
  assumes "kernel_ok k"
  obtains pr vm d where "k_procs k (k_cur k) = Some pr" "current k = Ok (k_cur k, pr)" "current_pid k = Ok (k_cur k)"
    "pr_vm pr = Some vm" "pr_data pr = Some d" "pr_exit_code pr = None" "current_data k = Ok d"
    "pr_status pr \<noteq> Dead" "pr_status pr \<noteq> Blocked"
proof -
  obtain pr where "k_procs k (k_cur k) = Some pr" "pr_status pr = Running \<or> pr_status pr = Ready" "proc_ok pr"
    using kernel_okD [OF assms] by blast
  with kernel_okD(3) [OF assms] that [of pr] show thesis
    by (auto simp: current_def current_pid_def current_data_def proc_ok_def)
qed

text \<open>What saving the current process needs.\<close>

definition cur_ok :: "('m, 'h) kernel \<Rightarrow> bool" where
  "cur_ok k \<longleftrightarrow> procs_ok k \<and> k_cur k \<noteq> 0 \<and> (\<exists>pr. k_procs k (k_cur k) = Some pr \<and> pr_status pr \<noteq> Dead)"

lemma kernel_cur_ok: "kernel_ok k \<Longrightarrow> cur_ok k"
  by (rule current_eq) (auto simp: cur_ok_def dest: kernel_okD)

definition saved :: "proc_context \<Rightarrow> ('m, 'h) kernel \<Rightarrow> ('m, 'h) kernel" where
  "saved cx k = upd_proc (k_cur k) (\<lambda>q. pr_save cx (pr_tick q)) k"

lemma save_current_eq: "cur_ok k \<Longrightarrow> save_current cx k = (Ok (k_cur k), saved cx k)"
  by (auto simp: cur_ok_def save_current_def current_def current_pid_def saved_def)

lemma saved_facts:
  assumes "cur_ok k"
  shows "st (saved cx k) = (st k)(k_cur k \<mapsto> Ready)" "procs_ok (saved cx k)" "k_ready (saved cx k) = k_ready k"
    "k_cur (saved cx k) = k_cur k" "queue_at (saved cx k) = queue_at k" "k_next_pid (saved cx k) = k_next_pid k"
    "k_wait (saved cx k) = k_wait k" "k_datas (saved cx k) = k_datas k" "k_vm (saved cx k) = k_vm k"
proof -
  obtain pr where pr: "k_procs k (k_cur k) = Some pr" "pr_status pr \<noteq> Dead" using assms by (auto simp: cur_ok_def)
  then show "st (saved cx k) = (st k)(k_cur k \<mapsto> Ready)"
    by (simp add: saved_def pr_save_def pr_tick_def)
  have "procs_ok k" using assms by (simp add: cur_ok_def)
  then show "procs_ok (saved cx k)"
    unfolding saved_def by (rule procs_ok_upd) (use pr in \<open>auto simp: proc_ok_def pr_save_def pr_tick_def\<close>)
qed (simp_all add: saved_def)

lemma saved_leave_ok:
  assumes "kernel_ok k"
  shows "leave_ok (st (saved cx k)) (k_ready k @ [k_cur k]) (k_cur k) (queue_at k)"
proof -
  note ok = sched_okD [OF kernel_okD(2) [OF assms]]
  show ?thesis
    unfolding saved_facts(1) [OF kernel_cur_ok [OF assms]]
  proof (rule leave_okI)
    show "queues_ok ((st k)(k_cur k \<mapsto> Ready)) (queue_at k)"
      by (rule queues_ok_status [OF ok(9)]) (use ok(3) in auto)
    show "((st k)(k_cur k \<mapsto> Ready)) KERNEL_PID = Some Ready" using ok(11) by auto
    show "((st k)(k_cur k \<mapsto> Ready)) p \<noteq> Some Running" for p using ok(8) [of p] by auto
    show "p \<in> set (k_ready k @ [k_cur k])" if "((st k)(k_cur k \<mapsto> Ready)) p = Some Ready" for p
      using that ok(7) [of p] by (auto split: if_splits)
    show "((st k)(k_cur k \<mapsto> Ready)) p \<noteq> None" if "p \<in> set (k_ready k @ [k_cur k])" for p
      using that ok(6) [of p] by auto
  qed (use ok(1, 10) in auto)
qed

lemma push_fields [simp]:
  "st (push_ready p k) = st k" "procs_ok (push_ready p k) = procs_ok k" "queue_at (push_ready p k) = queue_at k"
  "k_ready (push_ready p k) = k_ready k @ [p]" "k_cur (push_ready p k) = k_cur k"
  "k_procs (push_ready p k) = k_procs k" "k_next_pid (push_ready p k) = k_next_pid k"
  "k_vm (push_ready p k) = k_vm k" "k_wait (push_ready p k) = k_wait k" "k_datas (push_ready p k) = k_datas k"
  by (simp_all add: push_ready_def)

lemma switch_eq:
  assumes "kernel_ok k"
  shows "switch cx k = (case switch_next cx (push_ready (k_cur k) (saved cx k)) of
    (r, s) \<Rightarrow> (andThen r (\<lambda>_. Ok ()), s))"
proof -
  obtain r s where rs: "switch_next cx (push_ready (k_cur k) (saved cx k)) = (r, s)"
    by (cases "switch_next cx (push_ready (k_cur k) (saved cx k))")
  then show ?thesis
    by (cases r) (simp_all add: switch_def quiet_def save_current_eq [OF kernel_cur_ok [OF assms]])
qed

lemma switch_keeps:
  assumes "kernel_ok k"
  shows "\<exists>cx' k'. switch cx k = (Ok (), cx', k') \<and> kernel_ok k'"
proof -
  have "\<exists>p cx' k'. switch_next cx (push_ready (k_cur k) (saved cx k)) = (Ok p, cx', k') \<and> kernel_ok k'"
    by (rule switch_next_ok) (use saved_facts [OF kernel_cur_ok [OF assms]] saved_leave_ok [OF assms] in \<open>simp_all\<close>)
  then show ?thesis by (auto simp: switch_eq [OF assms])
qed

section \<open>Blocking\<close>

text \<open>The current process goes to the end of a queue and another runs.\<close>

lemma blocked_leave_ok:
  assumes k: "kernel_ok k" "k_cur k \<noteq> KERNEL_PID"
    and q: "\<And>pl'. pl' \<noteq> pl \<Longrightarrow> q pl' = queue_at k pl'" "distinct (q pl)" "set (q pl) = insert (k_cur k) (set (queue_at k pl))"
  shows "leave_ok ((st k)(k_cur k \<mapsto> Blocked)) (k_ready k) (k_cur k) q"
proof -
  note ok = sched_okD [OF kernel_okD(2) [OF k(1)]]
  note qok = queues_okD [OF ok(9)]
  have notin: "k_cur k \<notin> set (queue_at k pl')" for pl' using qok(2) ok(3) by blast
  have mem: "p \<in> set (q pl') \<longleftrightarrow> p = k_cur k \<and> pl' = pl \<or> p \<in> set (queue_at k pl')" for p pl'
    using q(1) [of pl'] q(3) by (cases "pl' = pl") simp_all
  show ?thesis
  proof (rule leave_okI)
    show "queues_ok ((st k)(k_cur k \<mapsto> Blocked)) q"
      unfolding queues_ok_def
    proof (intro conjI allI ballI impI)
      fix pl' show "distinct (q pl')"
        using q(1) [of pl'] q(2) qok(1) [of pl'] by (cases "pl' = pl") simp_all
      fix p assume "p \<in> set (q pl')"
      then show "((st k)(k_cur k \<mapsto> Blocked)) p = Some Blocked"
        using qok(2) [of p pl'] unfolding mem by auto
    next
      fix pl1 pl2 p assume "p \<in> set (q pl1) \<and> p \<in> set (q pl2)"
      then show "pl1 = pl2" using notin qok(3) [of p pl1 pl2] unfolding mem by blast
    qed
    show "((st k)(k_cur k \<mapsto> Blocked)) KERNEL_PID = Some Ready" using ok(11) k(2) by auto
    show "((st k)(k_cur k \<mapsto> Blocked)) p \<noteq> Some Running" for p using ok(8) [of p] by auto
    show "p \<in> set (k_ready k)" if "((st k)(k_cur k \<mapsto> Blocked)) p = Some Ready" for p
      using that ok(7) [of p] by (auto split: if_splits)
    show "((st k)(k_cur k \<mapsto> Blocked)) p \<noteq> None" if "p \<in> set (k_ready k)" for p
      using that ok(6) [of p] by auto
  qed (use ok(1, 10) in auto)
qed

lemma block_saved:
  assumes "cur_ok k"
  shows "st (manager_block (k_cur k) (saved cx k)) = (st k)(k_cur k \<mapsto> Blocked)"
    "procs_ok (manager_block (k_cur k) (saved cx k))" "k_ready (manager_block (k_cur k) (saved cx k)) = k_ready k"
    "k_cur (manager_block (k_cur k) (saved cx k)) = k_cur k"
    "queue_at (manager_block (k_cur k) (saved cx k)) = queue_at k"
proof -
  obtain pr where pr: "k_procs k (k_cur k) = Some pr" "pr_status pr \<noteq> Dead" using assms by (auto simp: cur_ok_def)
  then show "st (manager_block (k_cur k) (saved cx k)) = (st k)(k_cur k \<mapsto> Blocked)"
    by (simp add: manager_block_def saved_facts(1) [OF assms] pr_block_def) (simp add: saved_def)
  show "procs_ok (manager_block (k_cur k) (saved cx k))"
    unfolding manager_block_def using saved_facts(2) [OF assms]
    by (rule procs_ok_upd) (use pr in \<open>auto simp: proc_ok_def pr_block_def saved_def pr_save_def pr_tick_def\<close>)
qed (simp_all add: manager_block_def saved_facts [OF assms])

end
