(* ===== verification/ProcKeeps.thy ===== *)
theory ProcKeeps
  imports ProcFacts
begin

text \<open>
  Every operation of the kernel keeps the invariant of the scheduler: what does not touch it,
  waking and killing, blocking, new processes, and the dispatcher of the system calls.
\<close>

section \<open>Operations that do not touch the scheduler\<close>

definition keeps :: "('m, 'h) kernel \<Rightarrow> ('m, 'h) kernel \<Rightarrow> bool" where
  "keeps k k' \<longleftrightarrow>
     st k' = st k \<and> k_ready k' = k_ready k \<and> k_cur k' = k_cur k \<and> queue_at k' = queue_at k \<and>
     k_next_pid k' = k_next_pid k \<and> k_wait k' = k_wait k \<and> (procs_ok k \<longrightarrow> procs_ok k')"

lemma keeps_refl [simp]: "keeps k k"
  by (simp add: keeps_def)

lemma keeps_trans: "keeps k1 k2 \<Longrightarrow> keeps k2 k3 \<Longrightarrow> keeps k1 k3"
  by (simp add: keeps_def)

lemma keeps_ok: "keeps k k' \<Longrightarrow> kernel_ok k \<Longrightarrow> kernel_ok k'"
  by (simp add: keeps_def kernel_ok_def)

lemma keeps_upd:
  assumes "\<And>pr. k_procs k p = Some pr \<Longrightarrow> pr_status (f pr) = pr_status pr \<and> (proc_ok pr \<longrightarrow> proc_ok (f pr))"
  shows "keeps k (upd_proc p f k)"
proof -
  have "st (upd_proc p f k) = st k" using assms by (cases "k_procs k p") (auto simp: st_def fun_eq_iff)
  moreover have "procs_ok k \<longrightarrow> procs_ok (upd_proc p f k)" using assms by (auto intro: procs_ok_upd)
  ultimately show ?thesis by (simp add: keeps_def)
qed

lemma keeps_fields [simp]:
  "keeps k (k\<lparr>k_vm := v\<rparr>)" "keeps k (k\<lparr>k_keys := ks\<rparr>)" "keeps k (k\<lparr>k_console := es\<rparr>)"
  by (simp_all add: keeps_def)

lemma keeps_then:
  assumes "keeps k k1" "\<And>a. r = Ok a \<Longrightarrow> keeps k1 (snd (f a k1))"
  shows "keeps k (snd (doS (r, k1) f))"
  using assms by (cases r) (auto intro: keeps_trans)

lemma keeps_doS:
  assumes "keeps k (snd m)" "\<And>a k1. m = (Ok a, k1) \<Longrightarrow> keeps k1 (snd (f a k1))"
  shows "keeps k (snd (doS m f))"
proof -
  obtain r k1 where m: "m = (r, k1)" by (cases m)
  show ?thesis using keeps_then [of k k1 r f] assms unfolding m by simp
qed

lemma keeps_andThenS:
  assumes "\<And>a. r = Ok a \<Longrightarrow> keeps k (snd (f a))"
  shows "keeps k (snd (andThenS r k f))"
  using assms by (cases r) auto

lemma queue_set_data:
  "queue_at (set_data d pd k) pl =
    (case pl of OnExit p \<Rightarrow> queue_at k pl
     | OnSem d' key \<Rightarrow> if d' = d then (case pd_semaphores pd key of None \<Rightarrow> [] | Some s \<Rightarrow> sem_queue s) else queue_at k pl)"
  by (cases pl) (simp_all add: set_data_def)

lemma set_data_fields [simp]:
  "st (set_data d pd k) = st k" "procs_ok (set_data d pd k) = procs_ok k" "k_ready (set_data d pd k) = k_ready k"
  "k_cur (set_data d pd k) = k_cur k" "k_next_pid (set_data d pd k) = k_next_pid k"
  "k_wait (set_data d pd k) = k_wait k" "k_procs (set_data d pd k) = k_procs k" "k_vm (set_data d pd k) = k_vm k"
  by (simp_all add: set_data_def)

lemma keeps_resources: "keeps k (set_data d ((k_datas k d)\<lparr>pd_resources := rs\<rparr>) k)"
proof -
  have "queue_at (set_data d ((k_datas k d)\<lparr>pd_resources := rs\<rparr>) k) = queue_at k"
    by (rule ext) (simp add: queue_set_data split: place.split)
  then show ?thesis by (simp add: keeps_def)
qed

lemma current_Ok: "current k = Ok (me, pr) \<longleftrightarrow> me = k_cur k \<and> k_cur k \<noteq> 0 \<and> k_procs k me = Some pr"
  by (auto simp: current_def current_pid_def andThen_eq_Ok of_option_eq_Ok)

lemma manager_page_fault_keeps: "keeps k (snd (manager_handle_page_fault mc addr prot k))"
proof -
  have "keeps k (snd (andThenS (current k) k (\<lambda>(me, pr). andThenS (of_option (pr_vm pr)) k (\<lambda>vm.
          case proc_vm_handle_page_fault mc (me \<noteq> KERNEL_PID) vm addr (k_vm k) of
            (r, vm, v) \<Rightarrow> (r, upd_proc me (\<lambda>q. q\<lparr>pr_vm := Some vm\<rparr>) (k\<lparr>k_vm := v\<rparr>))))))"
  proof (rule keeps_andThenS)
    fix a assume a: "current k = Ok a"
    obtain me pr where mp: "a = (me, pr)" by (cases a)
    show "keeps k (snd (case a of (me, pr) \<Rightarrow> andThenS (of_option (pr_vm pr)) k (\<lambda>vm.
          case proc_vm_handle_page_fault mc (me \<noteq> KERNEL_PID) vm addr (k_vm k) of
            (r, vm, v) \<Rightarrow> (r, upd_proc me (\<lambda>q. q\<lparr>pr_vm := Some vm\<rparr>) (k\<lparr>k_vm := v\<rparr>)))))"
      unfolding mp prod.case
    proof (rule keeps_andThenS)
      fix vm assume "of_option (pr_vm pr) = (Ok vm :: (unit, proc_vm) res)"
      then have "pr_vm pr = Some vm" "k_procs k me = Some pr" using a mp by (auto simp: current_Ok of_option_eq_Ok)
      then have "keeps (k\<lparr>k_vm := v\<rparr>) (upd_proc me (\<lambda>q. q\<lparr>pr_vm := Some vm'\<rparr>) (k\<lparr>k_vm := v\<rparr>))" for v vm'
        by (intro keeps_upd) (auto simp: proc_ok_def)
      then have "keeps k (upd_proc me (\<lambda>q. q\<lparr>pr_vm := Some vm'\<rparr>) (k\<lparr>k_vm := v\<rparr>))" for v vm'
        by (rule keeps_trans [OF keeps_fields(1)])
      then show "keeps k (snd (case proc_vm_handle_page_fault mc (me \<noteq> KERNEL_PID) vm addr (k_vm k) of
            (r, vm, v) \<Rightarrow> (r, upd_proc me (\<lambda>q. q\<lparr>pr_vm := Some vm\<rparr>) (k\<lparr>k_vm := v\<rparr>))))"
        by (simp split: prod.split)
    qed
  qed
  then show ?thesis by (simp add: manager_handle_page_fault_def)
qed

lemma page_fault_keeps: "keeps k (snd (page_fault mc addr prot k))"
  unfolding page_fault_def by (rule keeps_doS) (simp_all add: manager_page_fault_keeps)

lemma touch_keeps: "keeps k (snd (touch sv a k))"
  unfolding touch_def by (auto intro!: keeps_doS page_fault_keeps split: option.split)

lemma load_bytes_keeps: "keeps k (snd (load_bytes sv a n k))"
  by (induction n arbitrary: a k) (auto intro!: keeps_doS touch_keeps)

lemma store_bytes_keeps: "keeps k (snd (store_bytes sv a vs k))"
proof (induction vs arbitrary: a k)
  case (Cons v vs)
  show ?case
    unfolding store_bytes.simps
  proof (rule keeps_doS [OF touch_keeps])
    fix b k1
    have "keeps k1 (snd (store_bytes sv (a + 1) vs (k1\<lparr>k_vm := v'\<rparr>)))" for v'
      using keeps_trans [OF keeps_fields(1) Cons.IH] .
    moreover have "keeps k1 (snd (doS (page_fault (sv_mc sv) a True k1) (\<lambda>_ k. (Panic :: (unit, unit) res, k))))"
      by (rule keeps_doS [OF page_fault_keeps]) simp
    ultimately show "keeps k1 (snd (if sv_store_ok sv (fst (vs_cr3 (k_vm k1))) (mem_table (vs_mem (k_vm k1))) a then
         store_bytes sv (a + 1) vs
           (k1\<lparr>k_vm := (k_vm k1)\<lparr>vs_mem := (vs_mem (k_vm k1))\<lparr>mem_bytes := (mem_bytes (vs_mem (k_vm k1)))(b := v)\<rparr>\<rparr>\<rparr>)
       else doS (page_fault (sv_mc sv) a True k1) (\<lambda>_ k. (Panic, k))))" by simp
  qed
qed simp

lemma proc_read_keeps: "keeps k (snd (proc_read rd fd buf k))"
  unfolding proc_read_def
proof (rule keeps_andThenS)
  fix d
  have "keeps k ((set_data d ((k_datas k d)\<lparr>pd_resources := rs\<rparr>) k)\<lparr>k_keys := keys\<rparr>)" for rs keys
    using keeps_trans [OF keeps_resources keeps_fields(2)] .
  then show "keeps k (snd (case rs_read rd (pd_resources (k_datas k d)) fd buf (k_keys k) of
         (r, buf, rs, keys) \<Rightarrow>
           let k = (set_data d ((k_datas k d)\<lparr>pd_resources := rs\<rparr>) k)\<lparr>k_keys := keys\<rparr> in
           (case r of Ok n \<Rightarrow> (Ok (n, buf), k) | Err e \<Rightarrow> (Panic, k) | Panic \<Rightarrow> (Panic, k) | Diverge \<Rightarrow> (Diverge, k))))"
    by (simp add: Let_def split: prod.split res.split)
qed

lemma proc_write_keeps: "keeps k (snd (proc_write fd buf k))"
  unfolding proc_write_def by (rule keeps_andThenS) (simp split: prod.split)

lemma open_resource_keeps: "keeps k (snd (open_resource r k))"
  unfolding open_resource_def by (rule keeps_andThenS) (simp add: keeps_resources split: prod.split)

lemma close_resource_keeps: "keeps k (snd (close_resource fd k))"
  unfolding close_resource_def by (rule keeps_andThenS) (simp add: keeps_resources split: prod.split)

lemma proc_brk_keeps: "keeps k (snd (proc_brk mc a k))"
  unfolding proc_brk_def by (auto intro!: keeps_andThenS split: prod.split)

lemma user_path_keeps: "keeps k (snd (user_path sv ptr n k))"
  unfolding user_path_def by (auto intro!: keeps_doS load_bytes_keeps)

lemma service_keeps:
  "keeps k (snd (sys_write sv fd ptr n k))" "keeps k (snd (sys_read sv fd ptr n k))"
  "keeps k (snd (list_dir sv ptr n k))" "keeps k (snd (sys_open sv ptr n k))" "keeps k (snd (sys_close fd k))"
  "keeps k (snd (sys_brk mc a k))" "keeps k (snd (sys_allocate sv a k))" "keeps k (snd (sys_deallocate sv ptr a k))"
proof -
  show "keeps k (snd (sys_write sv fd ptr n k))"
    unfolding sys_write_def
    by (auto intro!: keeps_doS keeps_andThenS load_bytes_keeps proc_write_keeps)
  show "keeps k (snd (sys_read sv fd ptr n k))"
    unfolding sys_read_def by (auto intro!: keeps_doS proc_read_keeps store_bytes_keeps)
  show "keeps k (snd (list_dir sv ptr n k))"
    unfolding list_dir_def by (auto intro!: keeps_doS user_path_keeps split: sum.split)
  show "keeps k (snd (sys_open sv ptr n k))"
    unfolding sys_open_def
    by (auto intro!: keeps_doS keeps_andThenS user_path_keeps open_resource_keeps split: sum.split res.split)
  show "keeps k (snd (sys_close fd k))"
    unfolding sys_close_def by (auto intro!: keeps_doS close_resource_keeps)
  show "keeps k (snd (sys_brk mc a k))"
    unfolding sys_brk_def by (auto intro!: keeps_doS keeps_andThenS proc_brk_keeps)
qed (simp_all add: sys_allocate_def sys_deallocate_def split: prod.split)

section \<open>Waking\<close>

lemma wake_up_facts:
  assumes "k_procs k w = Some pr" "pr_status pr \<noteq> Dead"
  shows "st (wake_up w r k) = (st k)(w \<mapsto> Ready)" "k_ready (wake_up w r k) = k_ready k @ [w]"
    "k_cur (wake_up w r k) = k_cur k" "queue_at (wake_up w r k) = queue_at k"
    "procs_ok k \<Longrightarrow> procs_ok (wake_up w r k)"
proof -
  show "procs_ok (wake_up w r k)" if "procs_ok k"
    using that assms by (auto simp: wake_up_def proc_ok_def pr_pause_def pr_set_return_def
        intro!: procs_ok_upd split: option.split)
qed (use assms in \<open>simp_all add: wake_up_def pr_pause_def\<close>)

definition wake_all :: "pid list \<Rightarrow> u64 option \<Rightarrow> ('m, 'h) kernel \<Rightarrow> ('m, 'h) kernel" where
  "wake_all ws r k = fold (\<lambda>w. wake_up w r) ws k"

lemma wake_all_facts:
  "\<forall>w\<in>set ws. st k w = Some Blocked \<or> st k w = Some Ready \<Longrightarrow>
    st (wake_all ws r k) = (\<lambda>q. if q \<in> set ws then Some Ready else st k q) \<and>
    k_ready (wake_all ws r k) = k_ready k @ ws \<and> k_cur (wake_all ws r k) = k_cur k \<and>
    queue_at (wake_all ws r k) = queue_at k \<and> (procs_ok k \<longrightarrow> procs_ok (wake_all ws r k))"
proof (induction ws arbitrary: k)
  case (Cons w ws)
  obtain pr where pr: "k_procs k w = Some pr" "pr_status pr \<noteq> Dead" using Cons.prems by (auto simp: st_def)
  note f = wake_up_facts [OF pr, of r]
  have "\<forall>v\<in>set ws. st (wake_up w r k) v = Some Blocked \<or> st (wake_up w r k) v = Some Ready"
    using Cons.prems unfolding f(1) by auto
  from Cons.IH [OF this] show ?case unfolding f using f(5) by (auto simp: wake_all_def fun_eq_iff)
qed (simp add: wake_all_def)

text \<open>Taking everyone out of a queue and making them ready.\<close>

lemma woken_ok:
  assumes ok: "sched_ok s rq cur q" and ws: "set ws \<subseteq> set (q pl)"
    and q': "\<And>pl'. pl' \<noteq> pl \<Longrightarrow> q' pl' = q pl'" "distinct (q' pl)" "set (q' pl) \<subseteq> set (q pl) - set ws"
  shows "sched_ok (\<lambda>p. if p \<in> set ws then Some Ready else s p) (rq @ ws) cur q'"
proof -
  note o = sched_okD [OF ok]
  note qo = queues_okD [OF o(9)]
  have b: "s p = Some Blocked" if "p \<in> set ws" for p using ws qo(2) that by blast
  have cur: "cur \<notin> set ws" "KERNEL_PID \<notin> set ws" "0 \<notin> set ws" using b o(1, 3, 5) by fastforce+
  have sub: "set (q' pl') \<subseteq> set (q pl')" for pl' using q'(1) [of pl'] q'(3) by (cases "pl' = pl") auto
  show ?thesis
  proof (rule sched_okI)
    show "queues_ok (\<lambda>p. if p \<in> set ws then Some Ready else s p) q'"
      unfolding queues_ok_def
    proof (intro conjI allI ballI impI)
      fix pl' show "distinct (q' pl')" using q'(1, 2) qo(1) by (cases "pl' = pl") simp_all
      fix p assume p: "p \<in> set (q' pl')"
      have "p \<notin> set ws"
      proof
        assume "p \<in> set ws"
        then have "p \<in> set (q pl)" using ws by blast
        moreover have "p \<in> set (q pl')" using p sub by blast
        ultimately have "pl' = pl" using qo(3) by blast
        then show False using p q'(3) \<open>p \<in> set ws\<close> by blast
      qed
      then show "(if p \<in> set ws then Some Ready else s p) = Some Blocked" using qo(2) sub p by auto
    next
      fix pl1 pl2 p assume "p \<in> set (q' pl1) \<and> p \<in> set (q' pl2)"
      then show "pl1 = pl2" using qo(3) sub by blast
    qed
    show "(if p \<in> set ws then Some Ready else s p) \<noteq> None" if "p \<in> set (rq @ ws)" for p using that o(6) by auto
    show "p = cur \<or> p \<in> set (rq @ ws)" if "(if p \<in> set ws then Some Ready else s p) = Some Ready" for p
      using that o(7) by (auto split: if_splits)
    show "p = cur" if "(if p \<in> set ws then Some Ready else s p) = Some Running" for p
      using that o(8) by (auto split: if_splits)
  qed (use o(1, 2, 5) cur in simp_all)
qed

section \<open>Killing\<close>

lemma relatives_keep:
  assumes "\<And>pr. pr_status (f pr) = pr_status pr \<and> proc_ok (f pr) = proc_ok pr"
  shows "keeps k (fold (\<lambda>c. upd_proc c f) cs k)"
proof (induction cs arbitrary: k)
  case (Cons c cs)
  have "keeps k (upd_proc c f k)" using assms by (intro keeps_upd) simp
  then show ?case using Cons.IH [of "upd_proc c f k"] keeps_trans by simp blast
qed simp

lemma parents_keep: "keeps k (fold (\<lambda>c. upd_proc c (\<lambda>q. q\<lparr>pr_parent := pp\<rparr>)) cs k)"
  by (rule relatives_keep) (simp add: proc_ok_def)

lemma proc_kill_facts:
  assumes pr: "k_procs k p = Some pr" and run: "proc_kill mc p pr ret k = (Ok (), k')"
  shows "st k' = (st k)(p \<mapsto> Dead)" "k_ready k' = k_ready k" "k_cur k' = k_cur k" "queue_at k' = queue_at k"
    "k_wait k' = k_wait k" "procs_ok k \<Longrightarrow> procs_ok k'"
proof -
  define k1 where "k1 = (case Option.bind (pr_parent pr) (\<lambda>pp. map_option (Pair pp) (k_procs k pp)) of
                 None \<Rightarrow> k
               | Some (pp, parent) \<Rightarrow>
                   if pr_exit_code parent = None then
                     fold (\<lambda>c. upd_proc c (\<lambda>q. q\<lparr>pr_parent := Some pp\<rparr>)) (pr_children pr)
                       (upd_proc pp (pr_remove_child p) k)
                   else fold (\<lambda>c. upd_proc c (\<lambda>q. q\<lparr>pr_parent := None\<rparr>)) (pr_children pr) k)"
  have rc: "keeps k (upd_proc pp (pr_remove_child p) k)" for pp
    by (rule keeps_upd) (auto simp: proc_ok_def pr_remove_child_def)
  have k1: "keeps k k1"
    unfolding k1_def using parents_keep keeps_trans [OF rc parents_keep] by (auto split: option.split)
  then have "st k1 p \<noteq> None" using pr by (simp add: keeps_def st_def)
  then obtain pr1 where pr1: "k_procs k1 p = Some pr1" by (auto simp: st_def)
  obtain v where "k' = upd_proc p (\<lambda>q. q\<lparr>pr_vm := None, pr_data := None, pr_exit_code := Some ret,
                   pr_status := Dead\<rparr>) (k1\<lparr>k_vm := v\<rparr>)"
    using run unfolding proc_kill_def Let_def k1_def [symmetric]
    by (auto simp: thenS_eq_Ok)
  then have k': "k' = upd_proc p (\<lambda>q. q\<lparr>pr_vm := None, pr_data := None, pr_exit_code := Some ret,
                   pr_status := Dead\<rparr>) (k1\<lparr>k_vm := v\<rparr>)" .
  show "st k' = (st k)(p \<mapsto> Dead)" using k1 pr1 by (simp add: k' keeps_def)
  show "procs_ok k'" if "procs_ok k"
    using that k1 unfolding k' by (intro procs_ok_upd) (auto simp: keeps_def proc_ok_def)
  show "k_ready k' = k_ready k" "k_cur k' = k_cur k" "queue_at k' = queue_at k" "k_wait k' = k_wait k"
    using k1 by (simp_all add: k' keeps_def)
qed

text \<open>A process that is not in a queue dies.\<close>

lemma dead_queues_ok: "queues_ok s q \<Longrightarrow> s p \<noteq> Some Blocked \<Longrightarrow> queues_ok (s(p \<mapsto> Dead)) q"
  by (erule queues_ok_status) auto

lemma queue_wait_removed:
  "queue_at (k\<lparr>k_wait := (k_wait k)(p := None)\<rparr>) = (queue_at k)(OnExit p := [])"
proof
  fix pl show "queue_at (k\<lparr>k_wait := (k_wait k)(p := None)\<rparr>) pl = ((queue_at k)(OnExit p := [])) pl"
    by (cases pl) simp_all
qed

lemma manager_kill_eq:
  assumes "k_procs k p = Some pr" "manager_kill mc p ret k = (Ok (), k')"
  obtains k1 where "proc_kill mc p pr ret k = (Ok (), k1)"
    "k' = wake_all (queue_at k (OnExit p)) (Some ret) (k1\<lparr>k_wait := (k_wait k1)(p := None)\<rparr>)"
proof -
  from assms obtain k1 where k1: "proc_kill mc p pr ret k = (Ok (), k1)"
    and k': "k' = (case k_wait k1 p of None \<Rightarrow> k1
      | Some waiters \<Rightarrow> fold (\<lambda>w. wake_up w (Some ret)) waiters (k1\<lparr>k_wait := (k_wait k1)(p := None)\<rparr>))"
    by (auto simp: manager_kill_def thenS_eq_Ok)
  have w: "k_wait k1 = k_wait k" by (rule proc_kill_facts(5) [OF assms(1) k1])
  have "k1\<lparr>k_wait := (k_wait k1)(p := None)\<rparr> = k1" if "k_wait k1 p = None"
    using that by (simp add: fun_upd_idem)
  then show thesis using that [OF k1] k' w by (cases "k_wait k p") (simp_all add: wake_all_def)
qed

text \<open>What a kill does to the scheduler, given the state of the process killed.\<close>

lemma manager_kill_facts:
  assumes pr: "k_procs k p = Some pr" "pr_status pr \<noteq> Blocked" and q: "queues_ok (st k) (queue_at k)"
    and run: "manager_kill mc p ret k = (Ok (), k')"
  shows "st k' = (\<lambda>w. if w \<in> set (queue_at k (OnExit p)) then Some Ready else ((st k)(p \<mapsto> Dead)) w)"
    "k_ready k' = k_ready k @ queue_at k (OnExit p)" "k_cur k' = k_cur k"
    "queue_at k' = (queue_at k)(OnExit p := [])" "procs_ok k \<Longrightarrow> procs_ok k'"
proof -
  obtain k1 where k1: "proc_kill mc p pr ret k = (Ok (), k1)"
    and k': "k' = wake_all (queue_at k (OnExit p)) (Some ret) (k1\<lparr>k_wait := (k_wait k1)(p := None)\<rparr>)"
    by (rule manager_kill_eq [OF pr(1) run])
  note f = proc_kill_facts [OF pr(1) k1]
  define ws where "ws = queue_at k (OnExit p)"
  define k2 where "k2 = k1\<lparr>k_wait := (k_wait k1)(p := None)\<rparr>"
  have k2: "st k2 = (st k)(p \<mapsto> Dead)" "queue_at k2 = (queue_at k)(OnExit p := [])" "k_ready k2 = k_ready k"
    "k_cur k2 = k_cur k" "procs_ok k \<Longrightarrow> procs_ok k2"
  proof -
    have "queue_at k2 = (queue_at k1)(OnExit p := [])" unfolding k2_def by (rule queue_wait_removed)
    then show "queue_at k2 = (queue_at k)(OnExit p := [])" by (simp only: f)
  qed (simp_all add: k2_def f)
  have "\<forall>w\<in>set ws. st k2 w = Some Blocked \<or> st k2 w = Some Ready"
  proof
    fix w assume "w \<in> set ws"
    then have "st k w = Some Blocked" unfolding ws_def by (rule queues_okD(2) [OF q])
    moreover from this have "w \<noteq> p" using pr by (auto simp: st_def)
    ultimately show "st k2 w = Some Blocked \<or> st k2 w = Some Ready" by (simp add: k2)
  qed
  note w = wake_all_facts [OF this, of "Some ret", unfolded k2]
  have k': "k' = wake_all ws (Some ret) k2" unfolding k' ws_def k2_def ..
  show "st k' = (\<lambda>w. if w \<in> set (queue_at k (OnExit p)) then Some Ready else ((st k)(p \<mapsto> Dead)) w)"
    "k_ready k' = k_ready k @ queue_at k (OnExit p)" "k_cur k' = k_cur k"
    "queue_at k' = (queue_at k)(OnExit p := [])"
    unfolding k' ws_def [symmetric] using w by blast+
  show "procs_ok k'" if "procs_ok k" unfolding k' using w k2(5) [OF that] by blast
qed

lemma kill_other_ok:
  assumes ok: "kernel_ok k" and p: "p \<noteq> k_cur k" "p \<noteq> KERNEL_PID" "st k p \<noteq> Some Blocked"
    and run: "manager_kill mc p ret k = (Ok (), k')"
  shows "kernel_ok k'"
proof (cases "k_procs k p")
  case None
  then have "k' = k" using run by (simp add: manager_kill_def)
  then show ?thesis using ok by simp
next
  case (Some pr)
  note o = sched_okD [OF kernel_okD(2) [OF ok]]
  have nb: "pr_status pr \<noteq> Blocked" using p(3) Some by (simp add: st_def)
  note f = manager_kill_facts [OF Some nb o(9) run]
  have "sched_ok ((st k)(p \<mapsto> Dead)) (k_ready k) (k_cur k) (queue_at k)"
  proof (rule sched_okI)
    show "((st k)(p \<mapsto> Dead)) 0 = None" using o(1) Some by (auto simp: st_def)
    show "((st k)(p \<mapsto> Dead)) w \<noteq> None" if "w \<in> set (k_ready k)" for w using o(6) [OF that] by auto
    show "w = k_cur k \<or> w \<in> set (k_ready k)" if "((st k)(p \<mapsto> Dead)) w = Some Ready" for w
      using that o(7) [of w] by (auto split: if_splits)
    show "w = k_cur k" if "((st k)(p \<mapsto> Dead)) w = Some Running" for w
      using that o(8) [of w] by (auto split: if_splits)
  qed (use o(2, 5) p dead_queues_ok [OF o(9) p(3)] in auto)
  from woken_ok [OF this, of "queue_at k (OnExit p)" "OnExit p" "(queue_at k)(OnExit p := [])"]
  show ?thesis using f(5) [OF kernel_okD(1) [OF ok]] by (simp add: kernel_ok_def f(1-4))
qed

lemma kill_current_leave_ok:
  assumes ok: "kernel_ok k" and p: "k_cur k \<noteq> KERNEL_PID"
    and run: "manager_kill mc (k_cur k) ret k = (Ok (), k')"
  shows "procs_ok k' \<and> leave_ok (st k') (k_ready k') (k_cur k') (queue_at k')"
proof -
  note o = sched_okD [OF kernel_okD(2) [OF ok]]
  note qo = queues_okD [OF o(9)]
  obtain pr where pr: "k_procs k (k_cur k) = Some pr" "pr_status pr \<noteq> Blocked" by (rule current_eq [OF ok])
  note f = manager_kill_facts [OF pr o(9) run]
  let ?ws = "queue_at k (OnExit (k_cur k))"
  have ws: "st k w = Some Blocked" if "w \<in> set ?ws" for w using qo(2) that .
  have special: "k_cur k \<notin> set ?ws" "KERNEL_PID \<notin> set ?ws" "0 \<notin> set ?ws" using ws o(1, 3, 5) by fastforce+
  have "leave_ok (\<lambda>w. if w \<in> set ?ws then Some Ready else ((st k)(k_cur k \<mapsto> Dead)) w) (k_ready k @ ?ws) (k_cur k)
      ((queue_at k)(OnExit (k_cur k) := []))"
  proof (rule leave_okI)
    show "queues_ok (\<lambda>w. if w \<in> set ?ws then Some Ready else ((st k)(k_cur k \<mapsto> Dead)) w)
        ((queue_at k)(OnExit (k_cur k) := []))"
      unfolding queues_ok_def
    proof (intro conjI allI ballI impI)
      fix pl show "distinct (((queue_at k)(OnExit (k_cur k) := [])) pl)" using qo(1) by simp
      fix w assume w: "w \<in> set (((queue_at k)(OnExit (k_cur k) := [])) pl)"
      then have "pl \<noteq> OnExit (k_cur k)" "w \<in> set (queue_at k pl)" by (auto split: if_splits)
      then have "w \<notin> set ?ws" "st k w = Some Blocked" "w \<noteq> k_cur k" using qo(2, 3) o(3) by blast+
      then show "(if w \<in> set ?ws then Some Ready else ((st k)(k_cur k \<mapsto> Dead)) w) = Some Blocked" by simp
    next
      fix pl pl' w assume "w \<in> set (((queue_at k)(OnExit (k_cur k) := [])) pl) \<and>
        w \<in> set (((queue_at k)(OnExit (k_cur k) := [])) pl')"
      then show "pl = pl'" using qo(3) [of w pl pl'] by (auto split: if_splits)
    qed
    show "w \<in> set (k_ready k @ ?ws)"
      if "(if w \<in> set ?ws then Some Ready else ((st k)(k_cur k \<mapsto> Dead)) w) = Some Ready" for w
      using that o(7) [of w] by (auto split: if_splits)
    show "(if w \<in> set ?ws then Some Ready else ((st k)(k_cur k \<mapsto> Dead)) w) \<noteq> Some Running" for w
      using o(8) [of w] by auto
    show "(if w \<in> set ?ws then Some Ready else ((st k)(k_cur k \<mapsto> Dead)) w) \<noteq> None"
      if "w \<in> set (k_ready k @ ?ws)" for w using that o(6) [of w] by auto
  qed (use o(1, 10) o(11) [OF p] special p in auto)
  then show ?thesis using f(5) [OF kernel_okD(1) [OF ok]] by (simp add: f(1-4))
qed

section \<open>The operations\<close>

text \<open>
  An operation that succeeds keeps the invariant. (It may also panic, where it works on memory;
  then there is no state after it.)
\<close>

definition op_ok :: "(unit, unit) res \<times> proc_context \<times> ('m, 'h) kernel \<Rightarrow> bool" where
  "op_ok r \<longleftrightarrow> (\<forall>cx' k'. r = (Ok (), cx', k') \<longrightarrow> kernel_ok k')"

lemma then_switch_ok:
  assumes "procs_ok k" "leave_ok (st k) (k_ready k) (k_cur k) (queue_at k)"
  shows "op_ok (doS (switch_next cx k) (\<lambda>_ s. (Ok (), s)))"
  using switch_next_ok [OF assms, of cx] by (auto simp: op_ok_def)

lemma quiet_Ok: "quiet r cx = (Ok a, cx', k') \<longleftrightarrow> r = (Ok a, k') \<and> cx' = cx"
  by (auto simp: quiet_def split: prod.splits)

lemma op_ok_doS:
  assumes "\<And>a cx' k'. m = (Ok a, cx', k') \<Longrightarrow> op_ok (f a (cx', k'))"
  shows "op_ok (doS m f)"
proof -
  obtain r cx' k' where m: "m = (r, cx', k')" by (cases m)
  show ?thesis using assms unfolding m by (cases r) (auto simp: op_ok_def)
qed

lemma op_ok_andThenS:
  assumes "\<And>a. r = Ok a \<Longrightarrow> op_ok (f a)"
  shows "op_ok (andThenS r (cx, k) f)"
  using assms by (cases r) (auto simp: op_ok_def)

lemma op_ok_here: "kernel_ok k \<Longrightarrow> op_ok (r, cx, k)"
  by (simp add: op_ok_def)

lemma exit_keeps:
  assumes ok: "kernel_ok k" and p: "k_cur k \<noteq> KERNEL_PID"
  shows "op_ok (process_exit mc ret cx k)"
  unfolding process_exit_def
proof (rule op_ok_doS)
  fix u cx' k' assume "quiet (kill_self mc ret k) cx = (Ok u, cx', k')"
  moreover have "current_pid k = Ok (k_cur k)" by (rule current_eq [OF ok])
  ultimately have "manager_kill mc (k_cur k) ret k = (Ok (), k')" by (simp add: quiet_Ok kill_self_def)
  then show "op_ok (case (cx', k') of (cx, k) \<Rightarrow> doS (switch_next cx k) (\<lambda>_ s. (Ok (), s)))"
    using kill_current_leave_ok [OF ok p] by (simp add: then_switch_ok)
qed

lemma kill_keeps:
  assumes ok: "kernel_ok k" and p: "pid \<noteq> KERNEL_PID" "st k pid \<noteq> Some Blocked"
  shows "op_ok (kill mc pid cx k)"
  unfolding kill_def
proof (rule op_ok_andThenS)
  fix me assume "current_pid k = (Ok me :: (unit, pid) res)"
  moreover have "current_pid k = Ok (k_cur k)" by (rule current_eq [OF ok])
  ultimately have me: "me = k_cur k" by simp
  show "op_ok (if pid = me then
         doS (quiet (kill_self mc 0xDEAD k) cx) (\<lambda>_ (cx, k). doS (switch_next cx k) (\<lambda>_ s. (Ok (), s)))
       else quiet (manager_kill mc pid 0xDEAD k) cx)"
  proof (cases "pid = me")
    case True
    then show ?thesis
      using exit_keeps [OF ok, of mc "0xDEAD" cx] p(1) me by (simp add: process_exit_def)
  next
    case False
    have "kernel_ok k'" if "manager_kill mc pid 0xDEAD k = (Ok (), k')" for k'
      by (rule kill_other_ok [OF ok _ p that]) (use False me in simp)
    with False show ?thesis by (auto simp: op_ok_def quiet_Ok)
  qed
qed

text \<open>The last part of blocking: the context is saved in a kernel \<open>k1\<close> where the queue has grown.\<close>

lemma block_and_switch:
  assumes ok: "kernel_ok k" "k_cur k \<noteq> KERNEL_PID"
    and k1: "st k1 = st k" "k_ready k1 = k_ready k" "k_cur k1 = k_cur k" "cur_ok k1"
    and q: "\<And>pl'. pl' \<noteq> pl \<Longrightarrow> queue_at k1 pl' = queue_at k pl'" "distinct (queue_at k1 pl)"
      "set (queue_at k1 pl) = insert (k_cur k) (set (queue_at k pl))"
  shows "op_ok (doS (switch_next cx' (manager_block (k_cur k) (saved cx k1))) (\<lambda>_ s. (Ok (), s)))"
proof (rule then_switch_ok)
  note b = block_saved [OF k1(4), of cx, unfolded k1]
  show "procs_ok (manager_block (k_cur k) (saved cx k1))" by (rule b)
  show "leave_ok (st (manager_block (k_cur k) (saved cx k1))) (k_ready (manager_block (k_cur k) (saved cx k1)))
      (k_cur (manager_block (k_cur k) (saved cx k1))) (queue_at (manager_block (k_cur k) (saved cx k1)))"
    unfolding b by (rule blocked_leave_ok [OF ok q])
qed

lemma wait_keeps:
  assumes ok: "kernel_ok k" and p: "k_cur k \<noteq> KERNEL_PID"
  shows "op_ok (wait_pid pid cx k)"
proof (cases "get_exit_code k pid")
  case (Some ret)
  then show ?thesis using ok by (simp add: wait_pid_def op_ok_def)
next
  case None
  let ?ws = "case k_wait k pid of None \<Rightarrow> [] | Some s \<Rightarrow> s"
  define k1 where "k1 = k\<lparr>k_wait := (k_wait k)(pid \<mapsto> insort_insert (k_cur k) ?ws)\<rparr>"
  note o = sched_okD [OF kernel_okD(2) [OF ok]]
  have cur1: "cur_ok k1" using kernel_cur_ok [OF ok] by (simp add: cur_ok_def k1_def)
  have notin: "k_cur k \<notin> set (queue_at k (OnExit pid))" using queues_okD(2) [OF o(9)] o(3) by blast
  then have ins: "insort_insert (k_cur k) ?ws = insort (k_cur k) ?ws" by (simp add: insort_insert_insort)
  have run: "wait_pid pid cx k = doS (switch_next cx (manager_block (k_cur k) (saved cx k1))) (\<lambda>_ s. (Ok (), s))"
  proof -
    have m: "manager_wait_pid pid k = (Ok (), k1)"
      using kernel_okD(3) [OF ok] by (simp add: manager_wait_pid_def current_pid_def k1_def)
    have "\<exists>pr. current (saved cx k1) = Ok (k_cur k, pr)"
      using cur1 by (auto simp: cur_ok_def current_def current_pid_def saved_def k1_def)
    then show ?thesis
      using None by (auto simp: wait_pid_def quiet_def m save_current_eq [OF cur1])
  qed
  show ?thesis
    unfolding run
  proof (rule block_and_switch [OF ok p, where pl = "OnExit pid"])
    show "queue_at k1 pl' = queue_at k pl'" if "pl' \<noteq> OnExit pid" for pl'
      using that by (cases pl') (simp_all add: k1_def)
    show "distinct (queue_at k1 (OnExit pid))" "set (queue_at k1 (OnExit pid)) = insert (k_cur k) (set (queue_at k (OnExit pid)))"
      using notin queues_okD(1) [OF o(9), of "OnExit pid"] by (simp_all add: k1_def ins distinct_insort set_insort_key)
  qed (use cur1 in \<open>simp_all add: k1_def\<close>)
qed

section \<open>Semaphores\<close>

lemma queue_sems:
  "queue_at (set_sems d s k) pl =
    (case pl of OnExit p \<Rightarrow> queue_at k pl
     | OnSem d' key \<Rightarrow> if d' = d then (case s key of None \<Rightarrow> [] | Some x \<Rightarrow> sem_queue x) else queue_at k pl)"
  by (cases pl) (simp_all add: set_sems_def set_data_def)

lemma set_sems_fields [simp]:
  "st (set_sems d s k) = st k" "procs_ok (set_sems d s k) = procs_ok k" "k_ready (set_sems d s k) = k_ready k"
  "k_cur (set_sems d s k) = k_cur k" "k_procs (set_sems d s k) = k_procs k"
  by (simp_all add: set_sems_def)

text \<open>A change of one semaphore of a set changes one queue.\<close>

lemma queue_sem_upd:
  "pl \<noteq> OnSem d key \<Longrightarrow> queue_at (set_sems d ((pd_semaphores (k_datas k d))(key := x)) k) pl = queue_at k pl"
  by (cases pl) (auto simp: set_sems_def set_data_def)

lemma queue_sem_upd_here:
  "queue_at (set_sems d ((pd_semaphores (k_datas k d))(key := x)) k) (OnSem d key) =
    (case x of None \<Rightarrow> [] | Some s \<Rightarrow> sem_queue s)"
  by (simp add: queue_sems del: queue_at.simps)

lemma sem_upd_same:
  assumes ok: "kernel_ok k" and x: "(case x of None \<Rightarrow> [] | Some s \<Rightarrow> sem_queue s) = [] \<or>
      (case x of None \<Rightarrow> [] | Some s \<Rightarrow> sem_queue s) = queue_at k (OnSem d key)"
  shows "kernel_ok (set_sems d ((pd_semaphores (k_datas k d))(key := x)) k)"
proof -
  let ?k = "set_sems d ((pd_semaphores (k_datas k d))(key := x)) k"
  note o = kernel_okD(2) [OF ok]
  have "sched_ok (st k) (k_ready k) (k_cur k) (queue_at ?k)"
  proof -
    have sub: "queue_at ?k pl = queue_at k pl \<or> queue_at ?k pl = []" for pl
      using x by (cases "pl = OnSem d key") (auto simp: queue_sem_upd queue_sem_upd_here simp del: queue_at.simps)
    have "queues_ok (st k) (queue_at ?k)"
      unfolding queues_ok_def
    proof (intro conjI allI ballI impI)
      fix pl show "distinct (queue_at ?k pl)" using sub [of pl] queues_okD(1) [OF sched_okD(9) [OF o], of pl] by auto
      fix p assume "p \<in> set (queue_at ?k pl)"
      then show "st k p = Some Blocked" using sub [of pl] queues_okD(2) [OF sched_okD(9) [OF o], of p pl] by auto
    next
      fix pl pl' p assume "p \<in> set (queue_at ?k pl) \<and> p \<in> set (queue_at ?k pl')"
      then show "pl = pl'"
        using sub [of pl] sub [of pl'] queues_okD(3) [OF sched_okD(9) [OF o], of p pl pl'] by auto
    qed
    with o show ?thesis by (simp add: sched_ok_def)
  qed
  then show ?thesis using kernel_okD(1) [OF ok] by (simp add: kernel_ok_def)
qed

lemma sem_new_ok:
  assumes "kernel_ok k" "sem_new key value k = (r, k')"
  shows "kernel_ok k'"
proof -
  obtain d where "current_data k = Ok d" by (rule current_eq [OF assms(1)])
  then have "k' = set_sems d ((pd_semaphores (k_datas k d))(key := Some (semaphore_new value))) k"
    using assms(2) by (auto simp: sem_new_def set_insert_def)
  then show ?thesis by (simp add: sem_upd_same [OF assms(1)] semaphore_new_def)
qed

lemma remove_sem_ok:
  assumes "kernel_ok k" "remove_sem key k = (r, k')"
  shows "kernel_ok k'"
proof -
  obtain d where "current_data k = Ok d" by (rule current_eq [OF assms(1)])
  then have "k' = set_sems d ((pd_semaphores (k_datas k d))(key := None)) k"
    using assms(2) by (auto simp: remove_sem_def set_remove_def)
  then show ?thesis by (simp add: sem_upd_same [OF assms(1)])
qed

lemma sem_wait_keeps:
  assumes ok: "kernel_ok k" and p: "k_cur k \<noteq> KERNEL_PID"
  shows "op_ok (sem_wait key cx k)"
proof -
  obtain pr d where cur: "current k = Ok (k_cur k, pr)" "current_data k = Ok d" by (rule current_eq [OF ok])
  let ?sems = "pd_semaphores (k_datas k d)"
  show ?thesis
  proof (cases "?sems key")
    case None
    have "?sems(key := None) = ?sems" using None by auto
    then have "kernel_ok (set_sems d ?sems k)" using sem_upd_same [OF ok, of None d key] by simp
    then show ?thesis using cur None by (simp add: sem_wait_def set_wait_def op_ok_def)
  next
    case (Some s)
    show ?thesis
    proof (cases "sem_count s = 0")
      case False
      have "kernel_ok (set_sems d (?sems(key \<mapsto> s\<lparr>sem_count := sem_count s - 1\<rparr>)) k)"
        by (rule sem_upd_same [OF ok]) (use Some in simp)
      then show ?thesis using cur Some False by (simp add: sem_wait_def set_wait_def semaphore_wait_def op_ok_def)
    next
      case True
      define k1 where "k1 = set_sems d (?sems(key \<mapsto> s\<lparr>sem_queue := sem_queue s @ [k_cur k]\<rparr>)) k"
      have cur1: "cur_ok k1" using kernel_cur_ok [OF ok] by (simp add: cur_ok_def k1_def)
      have c: "k_cur k1 = k_cur k" by (simp add: k1_def)
      have run: "sem_wait key cx k = doS (switch_next cx (manager_block (k_cur k) (saved cx k1))) (\<lambda>_ s. (Ok (), s))"
        using cur Some True
        by (simp add: sem_wait_def set_wait_def semaphore_wait_def k1_def [symmetric] save_current_eq [OF cur1] quiet_def c)
      have q: "queue_at k (OnSem d key) = sem_queue s" using Some by simp
      note o = sched_okD [OF kernel_okD(2) [OF ok]]
      have notin: "k_cur k \<notin> set (sem_queue s)" using queues_okD(2) [OF o(9), of "k_cur k" "OnSem d key"] o(3) unfolding q by blast
      show ?thesis
        unfolding run
      proof (rule block_and_switch [OF ok p, where pl = "OnSem d key"])
        show "queue_at k1 pl' = queue_at k pl'" if "pl' \<noteq> OnSem d key" for pl'
          unfolding k1_def by (rule queue_sem_upd [OF that])
        have "queue_at k1 (OnSem d key) = sem_queue s @ [k_cur k]" unfolding k1_def queue_sem_upd_here by simp
        then show "distinct (queue_at k1 (OnSem d key))"
          "set (queue_at k1 (OnSem d key)) = insert (k_cur k) (set (queue_at k (OnSem d key)))"
          using notin queues_okD(1) [OF o(9), of "OnSem d key"] unfolding q by simp_all
      qed (use cur1 in \<open>simp_all add: k1_def\<close>)
    qed
  qed
qed

lemma sem_signal_keeps:
  assumes ok: "kernel_ok k"
  shows "op_ok (sem_signal key cx k)"
proof -
  obtain d where cur: "current_data k = Ok d" by (rule current_eq [OF ok])
  let ?sems = "pd_semaphores (k_datas k d)"
  show ?thesis
  proof (cases "?sems key")
    case None
    have "?sems(key := None) = ?sems" using None by auto
    then have "kernel_ok (set_sems d ?sems k)" using sem_upd_same [OF ok, of None d key] by simp
    then show ?thesis using cur None by (simp add: sem_signal_def set_signal_def op_ok_def)
  next
    case (Some s)
    note o = kernel_okD [OF ok]
    show ?thesis
    proof (cases "sem_queue s")
      case Nil
      have "kernel_ok (set_sems d (?sems(key \<mapsto> s\<lparr>sem_count := sem_count s + 1\<rparr>)) k)"
        by (rule sem_upd_same [OF ok]) (use Nil in simp)
      then show ?thesis using cur Some Nil by (simp add: sem_signal_def set_signal_def semaphore_signal_def op_ok_def)
    next
      case (Cons w rest)
      define k1 where "k1 = set_sems d (?sems(key \<mapsto> s\<lparr>sem_queue := rest\<rparr>)) k"
      have q: "queue_at k (OnSem d key) = w # rest" using Some Cons by simp
      have "st k w = Some Blocked" using queues_okD(2) [OF sched_okD(9) [OF o(2)], of w "OnSem d key"] unfolding q by simp
      then obtain pr where pr: "k_procs k1 w = Some pr" "pr_status pr \<noteq> Dead" by (auto simp: st_def k1_def)
      note f = wake_up_facts [OF pr, of None]
      have q1: "queue_at k1 (OnSem d key) = rest" unfolding k1_def queue_sem_upd_here by simp
      have dq: "distinct (w # rest)" using queues_okD(1) [OF sched_okD(9) [OF o(2)], of "OnSem d key"] unfolding q .
      have "sched_ok (\<lambda>p. if p \<in> set [w] then Some Ready else st k p) (k_ready k @ [w]) (k_cur k) (queue_at k1)"
      proof (rule woken_ok [OF o(2), where pl = "OnSem d key"])
        show "queue_at k1 pl' = queue_at k pl'" if "pl' \<noteq> OnSem d key" for pl'
          unfolding k1_def by (rule queue_sem_upd [OF that])
        show "distinct (queue_at k1 (OnSem d key))"
          "set (queue_at k1 (OnSem d key)) \<subseteq> set (queue_at k (OnSem d key)) - set [w]"
          "set [w] \<subseteq> set (queue_at k (OnSem d key))"
          unfolding q1 q using dq by auto
      qed
      moreover have "(\<lambda>p. if p \<in> set [w] then Some Ready else st k p) = (st k)(w \<mapsto> Ready)" by auto
      ultimately have "kernel_ok (wake_up w None k1)"
        using f o(1) by (simp add: kernel_ok_def) (simp add: k1_def)
      then show ?thesis
        using cur Some Cons by (simp add: sem_signal_def set_signal_def semaphore_signal_def k1_def [symmetric] op_ok_def)
    qed
  qed
qed

section \<open>New processes\<close>

text \<open>The next pid has not been given out: fewer than \<open>2 ^ 16\<close> processes have been made.\<close>

definition fresh_pid :: "('m, 'h) kernel \<Rightarrow> bool" where
  "fresh_pid k \<longleftrightarrow> k_procs k (k_next_pid k) = None \<and> k_next_pid k \<noteq> 0"

lemma add_fields [simp]:
  "st (add_proc p pr k) = (st k)(p \<mapsto> pr_status pr)" "k_ready (add_proc p pr k) = k_ready k"
  "k_cur (add_proc p pr k) = k_cur k" "queue_at (add_proc p pr k) = queue_at k" "k_vm (add_proc p pr k) = k_vm k"
  by (simp_all add: add_proc_def st_def fun_eq_iff)

lemma add_procs_ok: "procs_ok k \<Longrightarrow> proc_ok pr \<Longrightarrow> procs_ok (add_proc p pr k)"
  by (simp add: procs_ok_def add_proc_def)

lemma queues_ok_new: "queues_ok s q \<Longrightarrow> s p = None \<Longrightarrow> queues_ok (s(p \<mapsto> Ready)) q"
  by (erule queues_ok_status) auto

lemma queues_ok_sub:
  assumes "queues_ok s q" "\<And>pl. q' pl = q pl \<or> q' pl = []"
  shows "queues_ok s q'"
  unfolding queues_ok_def
proof (intro conjI allI ballI impI)
  note qo = queues_okD [OF assms(1)]
  fix pl show "distinct (q' pl)" using assms(2) [of pl] qo(1) [of pl] by auto
  fix p assume "p \<in> set (q' pl)"
  then show "s p = Some Blocked" using assms(2) [of pl] qo(2) [of p pl] by auto
next
  note qo = queues_okD [OF assms(1)]
  fix pl pl' p assume "p \<in> set (q' pl) \<and> p \<in> set (q' pl')"
  then show "pl = pl'" using assms(2) [of pl] assms(2) [of pl'] qo(3) [of p pl pl'] by auto
qed

lemma new_sched_ok:
  assumes "sched_ok s rq cur q" "s p = None" "p \<noteq> 0"
  shows "sched_ok (s(p \<mapsto> Ready)) (rq @ [p]) cur q"
proof -
  note o = sched_okD [OF assms(1)]
  have "p \<noteq> cur" "p \<noteq> KERNEL_PID" using o(4, 5) assms(2) by auto
  then show ?thesis
    using o(1-5) queues_ok_new [OF o(9) assms(2)] assms(3) o(6, 7, 8) by (intro sched_okI) (auto split: if_splits)
qed

lemma vfork_keeps:
  assumes ok: "kernel_ok k" and fresh: "fresh_pid k"
  shows "op_ok (vfork mc cx k)"
  unfolding vfork_def
proof (rule op_ok_doS)
  fix pid cx1 k1 assume "quiet (save_current cx k) cx = (Ok pid, cx1, k1)"
  then have k1: "pid = k_cur k" "k1 = saved cx k" "cx1 = cx"
    by (auto simp: quiet_Ok save_current_eq [OF kernel_cur_ok [OF ok]])
  note sv = saved_facts [OF kernel_cur_ok [OF ok], of cx]
  note lv = saved_leave_ok [OF ok, of cx]
  show "op_ok (case (cx1, k1) of (cx, k) \<Rightarrow> doS (quiet (manager_vfork mc k) cx) (\<lambda>_ (cx, k).
     doS (switch_next cx (push_ready pid k)) (\<lambda>_ s. (Ok (), s))))"
    unfolding prod.case
  proof (rule op_ok_doS)
    fix u cx2 k2 assume "quiet (manager_vfork mc k1) cx1 = (Ok u, cx2, k2)"
    then have run: "manager_vfork mc (saved cx k) = (Ok (), k2)" by (simp add: quiet_Ok k1)
    let ?c = "k_next_pid k"
    obtain pr vm vm' v ctx where pr: "k_procs (saved cx k) (k_cur k) = Some pr" "pr_vm pr = Some vm"
      and k2: "k2 = push_ready ?c (add_proc ?c
                 \<lparr>pr_name = pr_name pr, pr_parent = Some (k_cur k), pr_children = [], pr_ticks = 0,
                  pr_status = Ready, pr_context = set_rax 0 ctx, pr_exit_code = None,
                  pr_data = pr_data pr, pr_vm = Some vm'\<rparr>
                 (upd_proc (k_cur k) (\<lambda>q. pr_pause ((pr_set_return (ucast ?c) q)\<lparr>pr_children := pr_children q @ [?c]\<rparr>))
                   (saved cx k\<lparr>k_vm := v, k_next_pid := ?c + 1\<rparr>)))"
      using run by (auto simp: vfork_defs andThenS_eq_Ok thenS_eq_Ok Let_def current_Ok pid_new_def sv
          of_option_eq_Ok split: prod.splits)
    have pok: "proc_ok pr" using procs_okD [OF sv(2) pr(1)] .
    have st2: "st k2 = (st (saved cx k))(k_next_pid k \<mapsto> Ready)"
      using pr(1) by (simp add: k2 pr_pause_def sv(1))
    have "procs_ok (upd_proc (k_cur k) (\<lambda>q. pr_pause ((pr_set_return (ucast ?c) q)\<lparr>pr_children := pr_children q @ [?c]\<rparr>))
        (saved cx k\<lparr>k_vm := v, k_next_pid := ?c + 1\<rparr>))"
      by (rule procs_ok_upd) (use sv(2) pr in \<open>auto simp: proc_ok_def pr_pause_def pr_set_return_def\<close>)
    moreover have "proc_ok \<lparr>pr_name = pr_name pr, pr_parent = Some (k_cur k), pr_children = [], pr_ticks = 0,
        pr_status = Ready, pr_context = set_rax 0 ctx, pr_exit_code = None, pr_data = pr_data pr, pr_vm = Some vm'\<rparr>"
      using pok pr(2) by (auto simp: proc_ok_def)
    ultimately have procs2: "procs_ok k2" unfolding k2 by (simp add: add_procs_ok)
    have c: "st (saved cx k) ?c = None" "?c \<noteq> 0" "?c \<noteq> k_cur k" "?c \<noteq> KERNEL_PID"
      using fresh sched_okD(4, 5) [OF kernel_okD(2) [OF ok]]
      by (auto simp: fresh_pid_def sv(1) st_def)
    have "leave_ok ((st (saved cx k))(k_next_pid k \<mapsto> Ready)) (k_ready k @ [?c, k_cur k]) (k_cur k) (queue_at k)"
      using lv c queues_ok_new [of "st (saved cx k)" "queue_at k" ?c]
      unfolding leave_ok_def by (auto simp: sv(5) split: if_splits)
    then have "leave_ok (st (push_ready pid k2)) (k_ready (push_ready pid k2)) (k_cur (push_ready pid k2))
        (queue_at (push_ready pid k2))"
      using st2 by (simp add: k1 k2 sv)
    then show "op_ok (case (cx2, k2) of (cx, k) \<Rightarrow> doS (switch_next cx (push_ready pid k)) (\<lambda>_ s. (Ok (), s)))"
      using procs2 by (simp add: then_switch_ok)
  qed
qed

lemma elf_spawn_keeps:
  assumes ok: "kernel_ok k" and fresh: "fresh_pid k" and run: "elf_spawn kp name elf k = (Ok pid, k')"
  shows "kernel_ok k'"
proof -
  let ?c = "k_next_pid k" and ?d = "k_next_data k"
  define kd where "kd = k\<lparr>k_next_pid := ?c + 1, k_datas := (k_datas k)(?d := proc_data_default), k_next_data := Suc ?d\<rparr>"
  obtain pr v where k': "k' = push_ready ?c (add_proc ?c pr (kd\<lparr>k_vm := v\<rparr>))" and pr: "pr_status pr = Ready" "proc_ok pr"
  proof -
    from run have "manager_spawn kp elf name (Some (k_cur k)) None k = (Ok pid, k')"
      by (auto simp: elf_spawn_def andThenS_eq_Ok current_Ok)
    then obtain pt v0 where spawn: "(case proc_vm_new pt v0 of (vm, v) \<Rightarrow>
         case proc_new name (Some (k_cur k)) (Some vm) None (k\<lparr>k_vm := v\<rparr>) of
           ((pid, pr), k) \<Rightarrow>
             thenS (proc_vm_load_elf (kp_machine kp) elf vm (k_vm k))
               (\<lambda>vm v.
                  (Ok pid,
                   push_ready pid (add_proc pid
                     ((pr_pause pr)\<lparr>pr_vm := Some vm,
                        pr_context := init_stack_frame kp (kp_truncate kp (elf_entry elf))
                          (kp_truncate kp STACK_INIT_TOP) (pr_context pr)\<rparr>) (k\<lparr>k_vm := v\<rparr>))))
               (\<lambda>v. k\<lparr>k_vm := v\<rparr>)) = (Ok pid, k')"
      by (auto simp: manager_spawn_def andThenS_eq_Ok thenS_eq_Ok of_option_eq_Ok)
    obtain vm v1 where vm: "proc_vm_new pt v0 = (vm, v1)" by (cases "proc_vm_new pt v0")
    show thesis
      using spawn that
      by (auto simp: vm proc_new_def pid_new_def data_new_def thenS_eq_Ok kd_def pr_pause_def proc_ok_def)
  qed
  have "queue_at kd pl = queue_at k pl \<or> queue_at kd pl = []" for pl
    by (cases pl) (simp_all add: kd_def proc_data_default_def)
  then have "queues_ok (st k) (queue_at kd)"
    by (rule queues_ok_sub [OF sched_okD(9) [OF kernel_okD(2) [OF ok]]])
  then have "sched_ok (st k) (k_ready k) (k_cur k) (queue_at kd)"
    using kernel_okD(2) [OF ok] by (simp add: sched_ok_def)
  moreover have "st k ?c = None" "?c \<noteq> 0" using fresh by (simp_all add: fresh_pid_def st_def)
  ultimately have "sched_ok ((st k)(?c \<mapsto> Ready)) (k_ready k @ [?c]) (k_cur k) (queue_at kd)" by (rule new_sched_ok)
  moreover have "st kd = st k" "k_ready kd = k_ready k" "k_cur kd = k_cur k" "procs_ok kd = procs_ok k"
    by (simp_all add: kd_def)
  ultimately show ?thesis
    using kernel_okD(1) [OF ok] pr unfolding kernel_ok_def k' by (simp add: add_procs_ok)
qed

section \<open>System calls\<close>

text \<open>
  The calls the invariant is proved for: a killed process is not waiting and is not the
  kernel's, and new processes get pids not in use.
\<close>

definition allowed :: "proc_context \<Rightarrow> ('m, 'h) kernel \<Rightarrow> bool" where
  "allowed cx k \<longleftrightarrow>
     (case syscall_from (rg_rax (cx_regs cx)) of
        SysKill \<Rightarrow> ucast (rg_rdi (cx_regs cx)) \<noteq> KERNEL_PID \<and> st k (ucast (rg_rdi (cx_regs cx))) \<noteq> Some Blocked
      | SysVFork \<Rightarrow> fresh_pid k
      | SysSpawn \<Rightarrow> fresh_pid k
      | _ \<Rightarrow> True)"

lemma returning_keeps: "kernel_ok k \<Longrightarrow> keeps k (snd r) \<Longrightarrow> op_ok (returning r cx)"
  unfolding returning_def by (rule op_ok_doS) (auto simp: quiet_Ok op_ok_def keeps_ok)

lemma spawn_keeps:
  assumes ok: "kernel_ok k" and fresh: "fresh_pid k" and run: "spawn kp name k = (Ok pid, k')"
  shows "kernel_ok k'"
proof (cases "Option.bind (kp_apps kp) (find (\<lambda>app. fst app = name))")
  case None
  then show ?thesis using run ok by (simp add: spawn_def)
next
  case (Some app)
  then obtain q where "elf_spawn kp name (snd app) k = (Ok q, k')"
    using run by (auto simp: spawn_def thenS_eq_Ok)
  then show ?thesis by (rule elf_spawn_keeps [OF ok fresh])
qed

lemma spawn_process_keeps:
  assumes ok: "kernel_ok k" and fresh: "fresh_pid k"
  shows "op_ok (returning (spawn_process sv ptr n k) cx)"
  unfolding returning_def
proof (rule op_ok_doS)
  fix r cx' k' assume "quiet (spawn_process sv ptr n k) cx = (Ok r, cx', k')"
  then obtain name k1 pid where load: "load_bytes sv ptr (unat n) k = (Ok name, k1)"
    and sp: "spawn (sv_params sv) name k1 = (Ok pid, k')"
    by (auto simp: quiet_Ok spawn_process_def thenS_eq_Ok)
  have keep: "keeps k k1" using load_bytes_keeps [of k sv ptr "unat n"] load by simp
  have ok1: "kernel_ok k1" by (rule keeps_ok [OF keep ok])
  have "st k1 (k_next_pid k1) = None" "k_next_pid k1 \<noteq> 0"
    using keep fresh by (simp_all add: keeps_def fresh_pid_def st_def)
  then have fresh1: "fresh_pid k1" by (simp add: fresh_pid_def st_def)
  have "kernel_ok k'" by (rule spawn_keeps [OF ok1 fresh1 sp])
  then show "op_ok (case (cx', k') of (cx, k) \<Rightarrow> (Ok (), set_rax r cx, k))" by (simp add: op_ok_def)
qed

lemma sys_sem_keeps:
  assumes ok: "kernel_ok k" and p: "k_cur k \<noteq> KERNEL_PID"
  shows "op_ok (sys_sem opn key value cx k)"
proof -
  have "op_ok (doS (quiet m cx) (\<lambda>r (cx, k). (Ok (), set_rax r cx, k)))"
    if "\<And>r k'. m = (r, k') \<Longrightarrow> kernel_ok k'" for m :: "(unit, u64) res \<times> ('a, 'b) kernel"
    by (rule op_ok_doS) (use that in \<open>auto simp: quiet_Ok op_ok_def\<close>)
  then show ?thesis
    using sem_new_ok [OF ok] remove_sem_ok [OF ok] sem_wait_keeps [OF ok p] sem_signal_keeps [OF ok] ok
    by (auto simp: sys_sem_def op_ok_here)
qed

lemma dispatcher_keeps:
  assumes ok: "kernel_ok k" and p: "k_cur k \<noteq> KERNEL_PID" and allow: "allowed cx k"
  shows "op_ok (dispatcher sv cx k)"
proof -
  have console: "kernel_ok (k\<lparr>k_console := es\<rparr>)" for es by (rule keeps_ok [OF _ ok]) simp
  note simps = dispatcher_def Let_def
  show ?thesis
  proof (cases "syscall_from (rg_rax (cx_regs cx))")
    case SysKill
    then have "op_ok (sys_kill (sv_mc sv) (rg_rdi (cx_regs cx)) cx k)"
      using allow kill_keeps [OF ok] ok by (simp add: allowed_def sys_kill_def op_ok_here)
    with SysKill show ?thesis by (simp add: simps)
  next
    case SysSpawn
    with allow spawn_process_keeps [OF ok] show ?thesis by (simp add: simps allowed_def)
  next
    case SysVFork
    with allow vfork_keeps [OF ok] show ?thesis by (simp add: simps allowed_def)
  next
    case SysDeallocate
    have "kernel_ok k'" if "sys_deallocate sv a b k = (r, k')" for a b r k'
      using service_keeps(8) [of k sv a b] keeps_ok [OF _ ok] that by simp
    with SysDeallocate show ?thesis by (auto simp: simps op_ok_def quiet_Ok)
  qed (use ok p console in \<open>simp_all add: simps returning_keeps service_keeps exit_keeps wait_keeps sys_sem_keeps
      op_ok_here list_app_def\<close>)
qed

end
