(* ===== verification/ProcSpec.thy ===== *)
theory ProcSpec
  imports ProcKeeps VmSpec Input
begin

text \<open>
  The properties of the process manager and the system calls: the invariant over every run of
  the kernel, fairness of the timer, the delivery of exit codes, and what goes wrong when a
  process that waits is killed.
\<close>

section \<open>Runs of the kernel\<close>

text \<open>
  What happens to the machine when nothing panics: the kernel starts a program itself, as
  \<open>spawn_init\<close> of \<open>main.rs\<close> does for the shell; the timer, page faults, system calls under the
  conditions of \<open>allowed\<close>, a byte at the serial port, and user code, which changes the registers.
\<close>

inductive kstep :: "('m, 'h) services \<Rightarrow> proc_context \<times> ('m, 'h) kernel \<Rightarrow> proc_context \<times> ('m, 'h) kernel \<Rightarrow> bool"
  for sv :: "('m, 'h) services" where
  launch: "fresh_pid k \<Longrightarrow> spawn (sv_params sv) name k = (Ok pid, k') \<Longrightarrow> kstep sv (cx, k) (cx, k')"
| timer: "switch cx k = (Ok (), cx', k') \<Longrightarrow> kstep sv (cx, k) (cx', k')"
| fault: "page_fault (sv_mc sv) addr prot k = (Ok (), k') \<Longrightarrow> kstep sv (cx, k) (cx, k')"
| call: "k_cur k \<noteq> KERNEL_PID \<Longrightarrow> allowed cx k \<Longrightarrow> dispatcher sv cx k = (Ok (), cx', k') \<Longrightarrow>
    kstep sv (cx, k) (cx', k')"
| key: "kstep sv (cx, k) (cx, k\<lparr>k_keys := push_key (k_keys k) b\<rparr>)"
| user: "kstep sv (cx, k) (cx', k)"

inductive_cases kstep_cases: "kstep sv (cx, k) (cx', k')"

lemma kstep_keeps: "kstep sv (cx, k) (cx', k') \<Longrightarrow> kernel_ok k \<Longrightarrow> kernel_ok k'"
proof (erule kstep_cases)
  fix name pid assume "kernel_ok k" "fresh_pid k" "spawn (sv_params sv) name k = (Ok pid, k')"
  then show "kernel_ok k'" by (rule spawn_keeps)
next
  assume "kernel_ok k" "switch cx k = (Ok (), cx', k')"
  then show "kernel_ok k'" using switch_keeps [of k cx] by auto
next
  fix addr prot assume "kernel_ok k" "page_fault (sv_mc sv) addr prot k = (Ok (), k')"
  then show "kernel_ok k'" using page_fault_keeps [of k "sv_mc sv" addr prot] keeps_ok by simp blast
next
  assume "kernel_ok k" "k_cur k \<noteq> KERNEL_PID" "allowed cx k" "dispatcher sv cx k = (Ok (), cx', k')"
  then show "kernel_ok k'" using dispatcher_keeps [of k cx sv] by (simp add: op_ok_def)
next
  fix b assume "kernel_ok k" "k' = k\<lparr>k_keys := push_key (k_keys k) b\<rparr>"
  then show "kernel_ok k'" using keeps_ok [of k k'] by simp
qed simp

lemma kstep_star_keeps: "(kstep sv)\<^sup>*\<^sup>* s s' \<Longrightarrow> kernel_ok (snd s) \<Longrightarrow> kernel_ok (snd s')"
  by (induction rule: rtranclp_induct) (auto dest: kstep_keeps)

text \<open>The kernel before the process manager is initialised, with memory \<open>v\<close>.\<close>

definition boot_kernel :: "'m vmem \<Rightarrow> ('m, 'h) kernel" where
  "boot_kernel v =
     \<lparr>k_procs = Map.empty, k_ready = [], k_wait = Map.empty, k_cur = 0, k_next_pid = 1,
      k_datas = (\<lambda>d. proc_data_default), k_next_data = 0, k_vm = v, k_keys = [], k_console = []\<rparr>"

lemma boot_ok: "kernel_ok (proc_init pages (boot_kernel v) :: ('m, 'h) kernel)"
proof -
  let ?k = "proc_init pages (boot_kernel v) :: ('m, 'h) kernel"
  obtain pr where pr: "k_procs ?k = [1 \<mapsto> pr]" "pr_status pr = Running" "proc_ok pr" "k_cur ?k = 1" "k_ready ?k = []"
    "\<And>pl. queue_at ?k pl = []"
  proof -
    have q: "queue_at ?k pl = []" for pl
      by (cases pl) (simp_all add: proc_init_def pt_new_def pt_share_def proc_vm_new_def proc_new_def pid_new_def
          data_new_def boot_kernel_def proc_data_default_def)
    show thesis
      by (rule that [OF _ _ _ _ _ q])
        (auto simp: proc_init_def pt_new_def pt_share_def proc_vm_new_def proc_new_def pid_new_def
          data_new_def boot_kernel_def pr_resume_def proc_ok_def)
  qed
  have st: "st ?k = [1 \<mapsto> Running]"
  proof
    fix p show "st ?k p = [1 \<mapsto> Running] p" using pr(1, 2) by (simp add: st_def)
  qed
  have "sched_ok [1 \<mapsto> Running] [] 1 (\<lambda>pl. [])"
    by (rule sched_okI) (auto simp: KERNEL_PID_def queues_ok_def split: if_splits)
  moreover have "queue_at ?k = (\<lambda>pl. [])" using pr(6) by auto
  ultimately show ?thesis using pr st by (simp add: kernel_ok_def procs_ok_def)
qed

text \<open>
  C2: Take any run from the state after \<open>proc::init\<close> in which every step returns without a panic,
  whatever the order of its steps: the kernel starts programs, timer interrupts, page faults,
  system calls of user processes, bytes at the serial port and user code. On one condition, that
  a killed process neither waits in a queue nor is the kernel's own and that new processes get
  pids not in use, the state reached keeps the invariant: the current process can run, a process is dead exactly
  when its memory and data are gone and it has an exit code, every ready process is current or
  in the ready queue, a process in a waiting queue is blocked and waits in one place; and the
  next timer interrupt does not panic. Killing a process that waits breaks this, see C39.
\<close>

lemma scheduler_safe:
  assumes "(kstep sv)\<^sup>*\<^sup>* (cx, proc_init pages (boot_kernel v)) (cx', k')"
  shows "kernel_ok k' \<and> (\<exists>cx'' k''. switch cx' k' = (Ok (), cx'', k''))"
  using kstep_star_keeps [OF assms] boot_ok switch_keeps by fastforce

section \<open>A concrete machine\<close>

definition flat_machine :: "flat machine" where
  "flat_machine =
     \<lparr>mc_mapper = (\<lambda>f. flat_x86), mc_copy_table = (\<lambda>f g tab. tab), mc_clean_up = (\<lambda>f tab fa. (tab, fa)),
      mc_offset = 0xFFFF800000000000\<rparr>"

definition flat_vmem :: "flat \<Rightarrow> frame list \<Rightarrow> flat vmem" where
  "flat_vmem tab fs =
     \<lparr>vs_mem = flat_mem tab fs, vs_count = (\<lambda>i. 0), vs_end = (\<lambda>i. 0), vs_next = 0, vs_cr3 = (0x100000, 0)\<rparr>"

definition flat_services :: "(flat, unit) services" where
  "flat_services =
     \<lparr>sv_params = \<lparr>kp_machine = flat_machine, kp_user_cs = 0x2B, kp_user_ss = 0x23, kp_truncate = (\<lambda>a. a),
        kp_apps = None\<rparr>,
      sv_user = (\<lambda>f tab a. tab (page_of a) \<noteq> None), sv_store_ok = (\<lambda>f tab a. True),
      sv_reader = (\<lambda>h buf. (Ok 0, buf, h)), sv_open = (\<lambda>path. Err FileNotFound), sv_ls = (\<lambda>path. []),
      sv_stat = (\<lambda>k. []), sv_layout_size = (\<lambda>a v. 0), sv_allocate = (\<lambda>a v. (None, v)),
      sv_deallocate = (\<lambda>a b v. v)\<rparr>"

section \<open>Fairness\<close>

text \<open>Timer interrupts one after the other; between them the registers change in any way.\<close>

fun ticks :: "proc_context list \<Rightarrow> ('m, 'h) kernel \<Rightarrow> (unit, unit) res \<times> ('m, 'h) kernel" where
  "ticks [] k = (Ok (), k)"
| "ticks (cx # cxs) k =
     (case switch cx k of
        (Ok u, cx', k') \<Rightarrow> ticks cxs k'
      | (r, cx', k') \<Rightarrow> (r, k'))"

text \<open>One tick: the first ready process of the queue is next, and what was before it is gone.\<close>

lemma tick_first:
  assumes ok: "kernel_ok k" and p: "i < length (k_ready k)" "k_ready k ! i = p" "st k p = Some Ready"
  shows "\<exists>cx' k'. switch cx k = (Ok (), cx', k') \<and> kernel_ok k' \<and>
    (k_cur k' = p \<or> (\<exists>j<i. j < length (k_ready k') \<and> k_ready k' ! j = p \<and> st k' p = Some Ready))"
proof -
  note sv = saved_facts [OF kernel_cur_ok [OF ok], of cx]
  note lv = saved_leave_ok [OF ok, of cx]
  let ?k = "push_ready (k_cur k) (saved cx k)" and ?rq = "k_ready k @ [k_cur k]"
  have rq: "k_ready ?k = ?rq" by (simp add: sv)
  have pr: "st ?k p = Some Ready" using p(3) by (simp add: sv)
  have lvk: "leave_ok (st ?k) (k_ready ?k) (k_cur ?k) (queue_at ?k)" using lv by (simp add: sv)
  have procs: "procs_ok ?k" using sv by simp
  have "p \<in> set ?rq" using p(1, 2) by auto
  from first_ready [of "st ?k", OF pr this] obtain ds nxt rest where
    q: "?rq = ds @ nxt # rest" "st ?k nxt = Some Ready" "\<forall>d\<in>set ds. st ?k d \<noteq> Some Ready" by blast
  have "length ds \<le> i"
  proof (rule ccontr)
    assume "\<not> length ds \<le> i"
    then have "?rq ! i = ds ! i" unfolding q(1) by (simp add: nth_append)
    moreover have "?rq ! i = p" using p(1, 2) by (simp add: nth_append)
    ultimately have "p \<in> set ds" using \<open>\<not> length ds \<le> i\<close> by (metis not_le nth_mem)
    then show False using q(3) pr by blast
  qed
  have c0: "k_cur ?k \<noteq> 0" and dn: "\<forall>d\<in>set ds. st ?k d \<noteq> None"
    using lvk q(1) rq sched_okD(10) [OF kernel_okD(2) [OF ok]] by (auto simp: leave_ok_def sv)
  have q': "k_ready ?k = ds @ nxt # rest" using q(1) rq by simp
  have sw: "switch_next cx ?k = switched cx nxt rest ?k"
    by (rule switch_next_first [OF procs q' q(2, 3) dn c0])
  from switched_ok [OF procs q' q(2, 3) lvk, of cx] obtain cx' k' where
    k': "switched cx nxt rest ?k = (Ok nxt, cx', k')" "kernel_ok k'" "k_cur k' = nxt" "k_ready k' = rest" by blast
  have run: "switch cx k = (Ok (), cx', k')" using sw k'(1) by (simp add: switch_eq [OF ok])
  have "\<exists>j<i. j < length (k_ready k') \<and> k_ready k' ! j = p \<and> st k' p = Some Ready" if np: "nxt \<noteq> p"
  proof -
    have at: "(ds @ nxt # rest) ! i = p" using p(1, 2) q(1) by (metis nth_append)
    have "length ds \<noteq> i" using at np by (metis nth_append_length)
    then have i: "length ds < i" using \<open>length ds \<le> i\<close> by simp
    then have at': "rest ! (i - length ds - 1) = p" using at by (simp add: nth_append nth_Cons')
    have "i < length (ds @ nxt # rest)" using p(1) q(1) by (metis le_imp_less_Suc length_append_singleton less_imp_le)
    then have "i - length ds - 1 < length rest" using i by auto
    moreover have "st k' p = Some Ready"
      using k'(1) pr np by (auto simp: switched_def split: if_splits)
    ultimately show ?thesis using at' i k'(4) by (intro exI [of _ "i - length ds - 1"]) simp
  qed
  then show ?thesis using run k'(2, 3) by blast
qed

text \<open>
  C5: A ready process at place \<open>i\<close> of the ready queue runs after at most \<open>i + 1\<close> timer
  interrupts, whatever the processes before it do with their registers.
\<close>

lemma round_robin:
  assumes "kernel_ok k" "i < length (k_ready k)" "k_ready k ! i = p" "st k p = Some Ready" "i < length cxs"
  shows "\<exists>n k'. n \<le> Suc i \<and> ticks (take n cxs) k = (Ok (), k') \<and> k_cur k' = p"
  using assms
proof (induction i arbitrary: k cxs rule: less_induct)
  case (less i)
  from less.prems(5) obtain cx cxs' where cxs: "cxs = cx # cxs'" by (cases cxs) auto
  from tick_first [OF less.prems(1-4), of cx] obtain cx' k' where
    k': "switch cx k = (Ok (), cx', k')" "kernel_ok k'"
      "k_cur k' = p \<or> (\<exists>j<i. j < length (k_ready k') \<and> k_ready k' ! j = p \<and> st k' p = Some Ready)" by blast
  from k'(3) show ?case
  proof (elim disjE exE conjE)
    assume "k_cur k' = p"
    then have "ticks (take 1 cxs) k = (Ok (), k')" using k'(1) cxs by simp
    then show ?thesis using \<open>k_cur k' = p\<close> by (intro exI [of _ 1]) auto
  next
    fix j assume j: "j < i" "j < length (k_ready k')" "k_ready k' ! j = p" "st k' p = Some Ready"
    have "j < length cxs'" using j(1) less.prems(5) cxs by simp
    from less.IH [OF j(1) k'(2) j(2-4) this] obtain n k2 where
      "n \<le> Suc j" "ticks (take n cxs') k' = (Ok (), k2)" "k_cur k2 = p" by blast
    then have "Suc n \<le> Suc i" "ticks (take (Suc n) cxs) k = (Ok (), k2)" "k_cur k2 = p"
      using k'(1) cxs j(1) by simp_all
    then show ?thesis by blast
  qed
qed

text \<open>
  The kernel's process and two others, of which process 3 runs and process 2 waits for its exit.
\<close>

definition sample_vm :: proc_vm where
  "sample_vm =
     \<lparr>pv_table = \<lparr>pt_id = 0, pt_reg = (0x200000, 0)\<rparr>, pv_stack = sample_stack, pv_heap_base = HEAP_START,
      pv_code = [], pv_code_usage = 0\<rparr>"

definition sample_proc :: "status \<Rightarrow> process" where
  "sample_proc s =
     \<lparr>pr_name = [], pr_parent = Some 1, pr_children = [], pr_ticks = 0, pr_status = s,
      pr_context = context_default, pr_exit_code = None, pr_data = Some 0, pr_vm = Some sample_vm\<rparr>"

definition sample_kernel :: "(flat, unit) kernel" where
  "sample_kernel =
     \<lparr>k_procs = [1 \<mapsto> sample_proc Ready, 2 \<mapsto> sample_proc Blocked, 3 \<mapsto> sample_proc Running],
      k_ready = [1], k_wait = [3 \<mapsto> [2]], k_cur = 3, k_next_pid = 4,
      k_datas = (\<lambda>d. proc_data_default\<lparr>pd_semaphores := [7 \<mapsto> semaphore_new 0]\<rparr>), k_next_data = 1,
      k_vm = (flat_vmem [0x3FFFFFFFF \<mapsto> (0x9000, range_flags True)] [0x1000, 0x2000])\<lparr>vs_count := (\<lambda>i. 3)\<rparr>,
      k_keys = [], k_console = []\<rparr>"

lemma sample_st: "st sample_kernel = [1 \<mapsto> Ready, 2 \<mapsto> Blocked, 3 \<mapsto> Running]"
  by (auto simp: st_def sample_kernel_def sample_proc_def fun_eq_iff)

lemma sample_queue: "queue_at sample_kernel pl = (if pl = OnExit 3 then [2] else [])"
  by (cases pl) (auto simp: sample_kernel_def proc_data_default_def semaphore_new_def)

lemma sample_ok: "kernel_ok sample_kernel"
proof -
  have "queues_ok [1 \<mapsto> Ready, 2 \<mapsto> Blocked, 3 \<mapsto> Running] (queue_at sample_kernel)"
    by (auto simp: queues_ok_def sample_queue split: if_splits)
  then have "sched_ok (st sample_kernel) [1] 3 (queue_at sample_kernel)"
    unfolding sample_st by (intro sched_okI) (auto simp: KERNEL_PID_def split: if_splits)
  moreover have "procs_ok sample_kernel"
    by (auto simp: procs_ok_def proc_ok_def sample_kernel_def sample_proc_def split: if_splits)
  ultimately show ?thesis by (simp add: kernel_ok_def) (simp add: sample_kernel_def)
qed

lemma round_robin_witness:
  "\<exists>n k'. n \<le> Suc 0 \<and> ticks (take n [context_default, context_default]) sample_kernel = (Ok (), k') \<and> k_cur k' = 1"
  by (rule round_robin [OF sample_ok]) (simp_all add: sample_st, simp_all add: sample_kernel_def)

section \<open>Exit codes\<close>

text \<open>What waking many does to a process.\<close>

lemma wake_all_other: "w \<notin> set ws \<Longrightarrow> k_procs (wake_all ws r k) w = k_procs k w"
proof (induction ws arbitrary: k)
  case (Cons v ws)
  then have "k_procs (wake_up v r k) w = k_procs k w" by (auto simp: wake_up_def split: option.split)
  with Cons show ?case by (simp add: wake_all_def)
qed (simp add: wake_all_def)

lemma wake_all_ready_mono: "set (k_ready k) \<subseteq> set (k_ready (wake_all ws r k))"
proof (induction ws arbitrary: k)
  case (Cons v ws)
  have "set (k_ready k) \<subseteq> set (k_ready (wake_up v r k))" by (auto simp: wake_up_def split: option.split)
  with Cons [of "wake_up v r k"] show ?case by (simp add: wake_all_def)
qed (simp add: wake_all_def)

definition woken :: "u64 \<Rightarrow> process \<Rightarrow> process" where
  "woken ret pr = pr\<lparr>pr_context := set_rax ret (pr_context pr), pr_status := Ready\<rparr>"

lemma woken_woken [simp]: "woken ret (woken ret pr) = woken ret pr"
  by (simp add: woken_def set_rax_def)

lemma wake_all_mem:
  "w \<in> set ws \<Longrightarrow> k_procs k w = Some pr \<Longrightarrow>
    k_procs (wake_all ws (Some ret) k) w = Some (woken ret pr) \<and> w \<in> set (k_ready (wake_all ws (Some ret) k))"
proof (induction ws arbitrary: k pr)
  case (Cons v ws)
  have step: "wake_all (v # ws) (Some ret) k = wake_all ws (Some ret) (wake_up v (Some ret) k)"
    by (simp add: wake_all_def)
  show ?case
  proof (cases "v = w")
    case True
    then have v: "k_procs (wake_up v (Some ret) k) w = Some (woken ret pr)" "w \<in> set (k_ready (wake_up v (Some ret) k))"
      using Cons.prems(2) by (simp_all add: wake_up_def woken_def pr_pause_def pr_set_return_def)
    show ?thesis
    proof (cases "w \<in> set ws")
      case True
      with Cons.IH [OF True v(1)] show ?thesis unfolding step by simp
    next
      case False
      then show ?thesis unfolding step using v wake_all_ready_mono [of "wake_up v (Some ret) k" ws "Some ret"]
        by (auto simp: wake_all_other)
    qed
  next
    case False
    then have "k_procs (wake_up v (Some ret) k) w = Some pr" using Cons.prems(2) by (auto simp: wake_up_def split: option.split)
    with Cons.IH [of "wake_up v (Some ret) k"] Cons.prems(1) False show ?thesis unfolding step by simp
  qed
qed simp

text \<open>A kill changes of other processes only who their relatives are.\<close>

lemma fold_parent:
  assumes "k_procs k w = Some pr"
  shows "\<exists>pr'. k_procs (fold (\<lambda>c. upd_proc c (\<lambda>q. q\<lparr>pr_parent := pp\<rparr>)) cs k) w = Some pr' \<and>
    pr_context pr' = pr_context pr \<and> pr_status pr' = pr_status pr \<and> pr_vm pr' = pr_vm pr \<and>
    pr_exit_code pr' = pr_exit_code pr"
  using assms
proof (induction cs arbitrary: k pr)
  case (Cons c cs)
  have "k_procs (upd_proc c (\<lambda>q. q\<lparr>pr_parent := pp\<rparr>) k) w = Some (if w = c then pr\<lparr>pr_parent := pp\<rparr> else pr)"
    using Cons.prems by auto
  from Cons.IH [OF this] show ?case by (auto split: if_splits)
qed simp

lemma proc_kill_other:
  assumes w: "k_procs k w = Some prw" "w \<noteq> p" and run: "proc_kill mc p pr ret k = (Ok (), k')"
  shows "\<exists>pr'. k_procs k' w = Some pr' \<and> pr_context pr' = pr_context prw \<and> pr_status pr' = pr_status prw \<and>
    pr_vm pr' = pr_vm prw \<and> pr_exit_code pr' = pr_exit_code prw"
proof -
  define k1 where "k1 = (case Option.bind (pr_parent pr) (\<lambda>pp. map_option (Pair pp) (k_procs k pp)) of
                 None \<Rightarrow> k
               | Some (pp, parent) \<Rightarrow>
                   if pr_exit_code parent = None then
                     fold (\<lambda>c. upd_proc c (\<lambda>q. q\<lparr>pr_parent := Some pp\<rparr>)) (pr_children pr)
                       (upd_proc pp (pr_remove_child p) k)
                   else fold (\<lambda>c. upd_proc c (\<lambda>q. q\<lparr>pr_parent := None\<rparr>)) (pr_children pr) k)"
  let ?same = "\<lambda>pr'. pr_context pr' = pr_context prw \<and> pr_status pr' = pr_status prw \<and>
    pr_vm pr' = pr_vm prw \<and> pr_exit_code pr' = pr_exit_code prw"
  have "\<exists>pr'. k_procs (fold (\<lambda>c. upd_proc c (\<lambda>q. q\<lparr>pr_parent := pp\<rparr>)) cs (upd_proc pq (pr_remove_child p) k)) w = Some pr' \<and>
      ?same pr'" for pp pq cs
  proof -
    obtain pr0 where "k_procs (upd_proc pq (pr_remove_child p) k) w = Some pr0" "?same pr0"
      using w(1) by (cases "w = pq") (simp_all add: pr_remove_child_def)
    from fold_parent [OF this(1), of pp cs] this(2) show ?thesis by auto
  qed
  then have "\<exists>pr'. k_procs k1 w = Some pr' \<and> ?same pr'"
    unfolding k1_def using fold_parent [OF w(1)] w(1) by (auto split: option.split)
  moreover obtain v where "k' = upd_proc p (\<lambda>q. q\<lparr>pr_vm := None, pr_data := None, pr_exit_code := Some ret,
                   pr_status := Dead\<rparr>) (k1\<lparr>k_vm := v\<rparr>)"
    using run unfolding proc_kill_def Let_def k1_def [symmetric] by (auto simp: thenS_eq_Ok)
  ultimately show ?thesis using w(2) by auto
qed

lemma manager_kill_exit_code:
  assumes pr: "k_procs k p = Some pr" and run: "manager_kill mc p ret k = (Ok (), k')"
    and notin: "p \<notin> set (queue_at k (OnExit p))"
  shows "get_exit_code k' p = Some ret"
proof -
  obtain k1 where k1: "proc_kill mc p pr ret k = (Ok (), k1)"
    and k': "k' = wake_all (queue_at k (OnExit p)) (Some ret) (k1\<lparr>k_wait := (k_wait k1)(p := None)\<rparr>)"
    by (rule manager_kill_eq [OF pr run])
  have "st k1 p = Some Dead" using proc_kill_facts(1) [OF pr k1] by simp
  then obtain pr1 where pr1: "k_procs k1 p = Some pr1" by (auto simp: st_def)
  have "pr_exit_code pr1 = Some ret"
    using k1 pr1 unfolding proc_kill_def by (auto simp: Let_def thenS_eq_Ok)
  then show ?thesis using pr1 by (simp add: k' get_exit_code_def wake_all_other [OF notin] del: queue_at.simps)
qed

text \<open>
  C4: When a process that is not waiting is ended with code \<open>ret\<close>, each process that waits for
  it becomes ready, is in the ready queue and finds \<open>ret\<close> in \<open>rax\<close> when it goes on; nobody
  waits for the dead process any more, whoever asks later gets the code, and every other process
  keeps its status and its registers.
\<close>

lemma exit_wakes_waiters:
  assumes ok: "kernel_ok k" and pr: "k_procs k p = Some pr" "pr_status pr \<noteq> Blocked"
    and run: "manager_kill mc p ret k = (Ok (), k')"
  shows "(\<forall>w\<in>set (queue_at k (OnExit p)). \<exists>a b. k_procs k w = Some a \<and> k_procs k' w = Some b \<and>
      pr_status b = Ready \<and> pr_context b = set_rax ret (pr_context a) \<and> w \<in> set (k_ready k')) \<and>
    queue_at k' (OnExit p) = [] \<and> get_exit_code k' p = Some ret \<and>
    (\<forall>w a. k_procs k w = Some a \<and> w \<noteq> p \<and> w \<notin> set (queue_at k (OnExit p)) \<longrightarrow>
      (\<exists>b. k_procs k' w = Some b \<and> pr_status b = pr_status a \<and> pr_context b = pr_context a))"
proof -
  note q = sched_okD(9) [OF kernel_okD(2) [OF ok]]
  obtain k1 where k1: "proc_kill mc p pr ret k = (Ok (), k1)"
    and k': "k' = wake_all (queue_at k (OnExit p)) (Some ret) (k1\<lparr>k_wait := (k_wait k1)(p := None)\<rparr>)"
    by (rule manager_kill_eq [OF pr(1) run])
  have waits: "st k w = Some Blocked" if "w \<in> set (queue_at k (OnExit p))" for w
    using queues_okD(2) [OF q that] .
  have notin: "p \<notin> set (queue_at k (OnExit p))" using waits [of p] pr by (auto simp: st_def)
  have "\<exists>a b. k_procs k w = Some a \<and> k_procs k' w = Some b \<and>
      pr_status b = Ready \<and> pr_context b = set_rax ret (pr_context a) \<and> w \<in> set (k_ready k')"
    if w: "w \<in> set (queue_at k (OnExit p))" for w
  proof -
    obtain a where a: "k_procs k w = Some a" using waits [OF w] by (auto simp: st_def)
    have "w \<noteq> p" using w notin by auto
    from proc_kill_other [OF a this k1] obtain b where b: "k_procs k1 w = Some b" "pr_context b = pr_context a" by blast
    then have "k_procs (k1\<lparr>k_wait := (k_wait k1)(p := None)\<rparr>) w = Some b" by simp
    from wake_all_mem [OF w this, of ret] a b(2) show ?thesis by (simp add: k' woken_def)
  qed
  moreover have "\<exists>b. k_procs k' w = Some b \<and> pr_status b = pr_status a \<and> pr_context b = pr_context a"
    if "k_procs k w = Some a" "w \<noteq> p" "w \<notin> set (queue_at k (OnExit p))" for w a
    using proc_kill_other [OF that(1, 2) k1] by (auto simp: k' wake_all_other [OF that(3)] simp del: queue_at.simps)
  moreover have "queue_at k' (OnExit p) = []" using manager_kill_facts(4) [OF pr q run] by simp
  ultimately show ?thesis using manager_kill_exit_code [OF pr(1) run notin] by blast
qed

lemmas kill_run_simps = manager_kill_def proc_kill_def proc_vm_drop_def proc_vm_clean_up_def stack_clean_up_def
  unmap_pages_def unmap_range_def pt_using_count_def pt_mapper_def pt_drop_def sample_kernel_def sample_proc_def
  sample_vm_def flat_machine_def flat_vmem_def sample_stack_def flat_simps page_of_def page_addr_def addr_plus_def

lemma sample_kill: "manager_kill flat_machine 3 ret sample_kernel = (Ok (), snd (manager_kill flat_machine 3 ret sample_kernel))"
  by (simp add: kill_run_simps upd_proc_def Let_def)

lemma exit_wakes_waiters_witness:
  "\<exists>k' a b c. manager_kill flat_machine 3 42 sample_kernel = (Ok (), k') \<and>
    k_procs sample_kernel 2 = Some a \<and> k_procs k' 2 = Some b \<and> pr_status b = Ready \<and>
    pr_context b = set_rax 42 (pr_context a) \<and> 2 \<in> set (k_ready k') \<and>
    queue_at k' (OnExit 3) = [] \<and> get_exit_code k' 3 = Some 42 \<and> k_procs k' 1 = Some c \<and> pr_status c = Ready"
proof -
  obtain k' where run: "manager_kill flat_machine 3 42 sample_kernel = (Ok (), k')" using sample_kill by blast
  have pr: "k_procs sample_kernel 3 = Some (sample_proc Running)" "pr_status (sample_proc Running) \<noteq> Blocked"
    by (simp_all add: sample_kernel_def sample_proc_def)
  note res = exit_wakes_waiters [OF sample_ok pr run]
  have q: "queue_at sample_kernel (OnExit 3) = [2]" by (simp add: sample_kernel_def)
  obtain a b where "k_procs sample_kernel 2 = Some a" "k_procs k' 2 = Some b" "pr_status b = Ready"
    "pr_context b = set_rax 42 (pr_context a)" "2 \<in> set (k_ready k')"
    using conjunct1 [OF res] unfolding q by auto
  moreover obtain c where "k_procs k' 1 = Some c" "pr_status c = Ready"
    using conjunct2 [OF conjunct2 [OF conjunct2 [OF res]], THEN spec, of 1] unfolding q
    by (auto simp: sample_kernel_def sample_proc_def)
  moreover have "queue_at k' (OnExit 3) = []" "get_exit_code k' 3 = Some 42" using conjunct2 [OF res] by blast+
  ultimately show ?thesis using run by blast
qed

section \<open>Killing a process that waits\<close>

lemma queue_wake_all: "queue_at (wake_all ws r k) = queue_at k"
proof (induction ws arbitrary: k)
  case (Cons w ws)
  have "queue_at (wake_up w r k) = queue_at k" by (simp add: wake_up_def split: option.split)
  with Cons show ?case by (simp add: wake_all_def)
qed (simp add: wake_all_def)

text \<open>
  C39: A process that is killed while it waits for the exit of another is made ready again when
  that one ends, without memory; \<open>switch_next\<close> panics, and with it the kernel, when it comes to
  it in the ready queue.
\<close>

lemma killed_waiter_panics:
  assumes ok: "kernel_ok k" and w: "w \<in> set (queue_at k (OnExit p))" "w \<noteq> p"
    and run1: "manager_kill mc w code k = (Ok (), k1)"
    and pr: "k_procs k1 p = Some pr" and run2: "manager_kill mc p ret k1 = (Ok (), k2)"
  shows "\<exists>b. k_procs k2 w = Some b \<and> pr_status b = Ready \<and> pr_vm b = None \<and> w \<in> set (k_ready k2) \<and>
    (\<forall>cx k3 q. k_procs k3 w = Some b \<and> k_ready k3 = w # q \<and> k_cur k3 \<noteq> 0 \<and> k_cur k3 \<noteq> w \<longrightarrow>
      fst (switch_next cx k3) = Panic)"
proof -
  note q = queues_okD [OF sched_okD(9) [OF kernel_okD(2) [OF ok]]]
  obtain a where a: "k_procs k w = Some a" using q(2) [OF w(1)] by (auto simp: st_def)
  obtain k0 where k0: "proc_kill mc w a code k = (Ok (), k0)"
    and k1: "k1 = wake_all (queue_at k (OnExit w)) (Some code) (k0\<lparr>k_wait := (k_wait k0)(w := None)\<rparr>)"
    by (rule manager_kill_eq [OF a run1])
  have notin: "w \<notin> set (queue_at k (OnExit w))" using q(3) [OF w(1), of "OnExit w"] w(2) by blast
  have "st k0 w = Some Dead" using proc_kill_facts(1) [OF a k0] by simp
  then obtain a0 where a0: "k_procs k0 w = Some a0" by (auto simp: st_def)
  have "pr_vm a0 = None" using k0 a0 unfolding proc_kill_def by (auto simp: Let_def thenS_eq_Ok)
  moreover have "k_procs k1 w = Some a0" unfolding k1 using a0 by (simp add: wake_all_other [OF notin] del: queue_at.simps)
  ultimately obtain a1 where a1: "k_procs k1 w = Some a1" "pr_vm a1 = None" by blast
  have "queue_at k1 (OnExit p) = queue_at k (OnExit p)"
    unfolding k1 queue_wake_all queue_wait_removed proc_kill_facts(4) [OF a k0] using w(2) by simp
  then have w1: "w \<in> set (queue_at k1 (OnExit p))" using w(1) by simp
  obtain k4 where k4: "proc_kill mc p pr ret k1 = (Ok (), k4)"
    and k2: "k2 = wake_all (queue_at k1 (OnExit p)) (Some ret) (k4\<lparr>k_wait := (k_wait k4)(p := None)\<rparr>)"
    by (rule manager_kill_eq [OF pr run2])
  from proc_kill_other [OF a1(1) w(2) k4] a1(2) obtain a4 where
    a4: "k_procs (k4\<lparr>k_wait := (k_wait k4)(p := None)\<rparr>) w = Some a4" "pr_vm a4 = None" by auto
  from wake_all_mem [OF w1 a4(1), of ret] have
    b: "k_procs k2 w = Some (woken ret a4)" "w \<in> set (k_ready k2)" unfolding k2 by blast+
  have "pr_status (woken ret a4) = Ready" "pr_vm (woken ret a4) = None" using a4(2) by (simp_all add: woken_def)
  with b show ?thesis
    by (intro exI [of _ "woken ret a4"]) (auto simp: switch_next_def current_pid_def)
qed

text \<open>Process 2 of the sample waits for process 3; both are killed, 2 first.\<close>

lemma sample_kill2:
  "manager_kill flat_machine 2 0xDEAD sample_kernel = (Ok (), snd (manager_kill flat_machine 2 0xDEAD sample_kernel))"
  by (simp add: kill_run_simps upd_proc_def Let_def)

lemma killed_waiter_panics_witness:
  "\<exists>b. k_procs (snd (manager_kill flat_machine 3 0 (snd (manager_kill flat_machine 2 0xDEAD sample_kernel)))) 2 = Some b \<and>
    pr_status b = Ready \<and> pr_vm b = None \<and>
    2 \<in> set (k_ready (snd (manager_kill flat_machine 3 0 (snd (manager_kill flat_machine 2 0xDEAD sample_kernel))))) \<and>
    (\<forall>cx (k3 :: (flat, unit) kernel) q. k_procs k3 2 = Some b \<and> k_ready k3 = 2 # q \<and> k_cur k3 \<noteq> 0 \<and> k_cur k3 \<noteq> 2 \<longrightarrow>
      fst (switch_next cx k3) = Panic)"
proof (rule killed_waiter_panics [OF sample_ok _ _ sample_kill2])
  show "2 \<in> set (queue_at sample_kernel (OnExit 3))" by (simp add: sample_queue del: queue_at.simps)
  show "k_procs (snd (manager_kill flat_machine 2 0xDEAD sample_kernel)) 3 = Some (sample_proc Running)"
    by (simp add: kill_run_simps upd_proc_def Let_def)
  show "manager_kill flat_machine 3 0 (snd (manager_kill flat_machine 2 0xDEAD sample_kernel)) =
    (Ok (), snd (manager_kill flat_machine 3 0 (snd (manager_kill flat_machine 2 0xDEAD sample_kernel))))"
    by (simp add: kill_run_simps upd_proc_def Let_def)
qed simp

section \<open>System calls\<close>

text \<open>
  The system call \<open>Kill\<close> refuses the argument 1, but any other argument whose low 16 bits
  are 1 kills the process of the kernel.
\<close>

lemma sys_kill_kernel:
  assumes ok: "kernel_ok k" and cur: "k_cur k \<noteq> KERNEL_PID" and a: "a \<noteq> 1" "(ucast a :: pid) = KERNEL_PID"
    and run: "sys_kill mc a cx k = (Ok (), cx', k')"
  shows "st k' KERNEL_PID = Some Dead \<and> (\<forall>pr. k_procs k' KERNEL_PID = Some pr \<longrightarrow> pr_vm pr = None)"
proof -
  note o = sched_okD [OF kernel_okD(2) [OF ok]]
  have "st k KERNEL_PID = Some Ready" using o(11) [OF cur] by simp
  then obtain pr where pr: "k_procs k KERNEL_PID = Some pr" "pr_status pr = Ready" by (auto simp: st_def)
  have "current_pid k = Ok (k_cur k)" by (rule current_eq [OF ok])
  then have kill: "manager_kill mc KERNEL_PID 0xDEAD k = (Ok (), k')"
    using run a cur by (simp add: sys_kill_def kill_def quiet_Ok)
  have nb: "pr_status pr \<noteq> Blocked" using pr(2) by simp
  note f = manager_kill_facts [OF pr(1) nb o(9) kill]
  have "KERNEL_PID \<notin> set (queue_at k (OnExit KERNEL_PID))"
    using queues_okD(2) [OF o(9)] o(5) by fastforce
  then have dead: "st k' KERNEL_PID = Some Dead" unfolding f(1) by (simp del: queue_at.simps)
  moreover have "procs_ok k'" by (rule f(5) [OF kernel_okD(1) [OF ok]])
  ultimately show ?thesis by (auto simp: procs_ok_def proc_ok_def st_def)
qed

lemma sys_kill_kernel_witness:
  "\<exists>cx k pr. sys_kill flat_machine 0x10001 context_default sample_kernel = (Ok (), cx, k) \<and>
    k_procs k KERNEL_PID = Some pr \<and> pr_status pr = Dead \<and> pr_vm pr = None"
proof -
  obtain cx k where run: "sys_kill flat_machine 0x10001 context_default sample_kernel = (Ok (), cx, k)"
    by (simp add: sys_kill_def kill_def current_pid_def quiet_def kill_run_simps upd_proc_def Let_def)
  have "st k KERNEL_PID = Some Dead \<and> (\<forall>pr. k_procs k KERNEL_PID = Some pr \<longrightarrow> pr_vm pr = None)"
    by (rule sys_kill_kernel [OF sample_ok _ _ _ run]) (simp_all add: sample_kernel_def KERNEL_PID_def)
  then show ?thesis using run by (auto simp: st_def)
qed

text \<open>Switching leaves a process that is not ready as it is, and of any changes only the status.\<close>

lemma switch_loop_blocked:
  "switch_loop pid q cx k = (r, cx', k') \<Longrightarrow> k_procs k w = Some b \<Longrightarrow> pr_status b \<noteq> Ready \<Longrightarrow> k_procs k' w = Some b"
  by (induction q) (auto split: option.splits if_splits)

lemma switch_loop_status:
  "switch_loop pid q cx k = (r, cx', k') \<Longrightarrow> k_procs k w = Some b \<Longrightarrow> \<exists>s. k_procs k' w = Some (b\<lparr>pr_status := s\<rparr>)"
proof (induction q)
  case Nil
  then have "k_procs k' w = Some (b\<lparr>pr_status := pr_status b\<rparr>)" by auto
  then show ?case by blast
next
  case (Cons n q)
  have same: "b = b\<lparr>pr_status := pr_status b\<rparr>" by simp
  show ?case
  proof (cases "k_procs k n")
    case None
    with Cons.prems have "k_procs k' w = Some (b\<lparr>pr_status := pr_status b\<rparr>)" by auto
    then show ?thesis by blast
  next
    case (Some pr)
    show ?thesis
    proof (cases "pr_status pr \<noteq> Ready")
      case True
      with Cons.IH Cons.prems Some show ?thesis by simp
    next
      case False
      have "k_procs k' w = Some b \<or> k_procs k' w = Some (b\<lparr>pr_status := Running\<rparr>)"
        using False Cons.prems Some by (auto simp: pr_resume_def split: option.splits if_splits)
      then show ?thesis using same by metis
    qed
  qed
qed

text \<open>
  C40: A process that has to wait on a semaphore keeps the number of the system call in \<open>rax\<close>,
  and waking it changes none of its registers: when it goes on, the user library's \<open>wait\<close>
  returns \<open>false\<close>, the value for a semaphore that does not exist, though it has passed.
\<close>

lemma woken_waiter_result:
  assumes ok: "kernel_ok k" and cur: "k_cur k \<noteq> KERNEL_PID"
    and args: "rg_rax (cx_regs cx) = syscall_number SysSem" "rg_rdi (cx_regs cx) = 1"
    and sem: "current_data k = Ok d" "pd_semaphores (k_datas k d) (ucast (rg_rsi (cx_regs cx))) = Some s" "sem_count s = 0"
    and run: "dispatcher sv cx k = (Ok (), cx', k')"
  shows "\<exists>b. k_procs k' (k_cur k) = Some b \<and> pr_status b = Blocked \<and> pr_context b = cx \<and>
    \<not> lib_sem (rg_rax (cx_regs (pr_context b))) \<and>
    (\<exists>c. k_procs (wake_up (k_cur k) None k') (k_cur k) = Some c \<and> pr_status c = Ready \<and> pr_context c = cx)"
proof -
  let ?key = "ucast (rg_rsi (cx_regs cx))" and ?sems = "pd_semaphores (k_datas k d)"
  define k1 where "k1 = set_sems d (?sems(?key \<mapsto> s\<lparr>sem_queue := sem_queue s @ [k_cur k]\<rparr>)) k"
  obtain pr where pr: "current k = Ok (k_cur k, pr)" "k_procs k (k_cur k) = Some pr" by (rule current_eq [OF ok])
  have cur1: "cur_ok k1" using kernel_cur_ok [OF ok] by (simp add: cur_ok_def k1_def)
  have c: "k_cur k1 = k_cur k" by (simp add: k1_def)
  let ?k2 = "manager_block (k_cur k) (saved cx k1)"
  have "syscall_from (rg_rax (cx_regs cx)) = SysSem" unfolding args(1) by (simp add: syscall_from_def syscalls_def)
  then have "sem_wait ?key cx k = (Ok (), cx', k')" using run args(2) by (simp add: dispatcher_def sys_sem_def)
  then obtain p where sw: "switch_next cx ?k2 = (Ok p, cx', k')"
    using pr(1) sem
    by (auto simp: sem_wait_def set_wait_def semaphore_wait_def k1_def [symmetric] save_current_eq [OF cur1] quiet_def c thenS_eq_Ok)
  have b: "k_procs ?k2 (k_cur k) = Some (pr_block (pr_save cx (pr_tick pr)))"
    using pr(2) by (simp add: manager_block_def saved_def k1_def)
  have "k_procs k' (k_cur k) = Some (pr_block (pr_save cx (pr_tick pr)))"
  proof (rule switch_loop_blocked [OF _ b])
    show "switch_loop (k_cur ?k2) (k_ready ?k2) cx ?k2 = (Ok p, cx', k')"
      using sw by (auto simp: switch_next_def andThenS_eq_Ok current_pid_def split: if_splits)
  qed (simp add: pr_block_def)
  then show ?thesis
    using args(1) by (auto simp: pr_block_def pr_save_def context_save_def lib_sem_def wake_up_def pr_pause_def)
qed

definition sem_call :: "u64 \<Rightarrow> proc_context" where
  "sem_call key = context_default\<lparr>cx_regs := registers_default\<lparr>rg_rax := 66, rg_rdi := 1, rg_rsi := key\<rparr>\<rparr>"

lemma woken_waiter_result_witness:
  "\<exists>b. k_procs (snd (snd (dispatcher flat_services (sem_call 7) sample_kernel))) 3 = Some b \<and> pr_status b = Blocked \<and>
    pr_context b = sem_call 7 \<and> \<not> lib_sem (rg_rax (cx_regs (pr_context b))) \<and>
    (\<exists>c. k_procs (wake_up 3 None (snd (snd (dispatcher flat_services (sem_call 7) sample_kernel)))) 3 = Some c \<and>
      pr_status c = Ready \<and> pr_context c = sem_call 7)"
proof -
  have cur: "k_cur sample_kernel = 3" by (simp add: sample_kernel_def)
  show ?thesis
  proof (rule woken_waiter_result [OF sample_ok, where d = 0 and s = "semaphore_new 0", unfolded cur])
    show "dispatcher flat_services (sem_call 7) sample_kernel =
      (Ok (), fst (snd (dispatcher flat_services (sem_call 7) sample_kernel)),
       snd (snd (dispatcher flat_services (sem_call 7) sample_kernel)))"
      by (simp add: dispatcher_def syscall_from_def syscalls_def sem_call_def Let_def sys_sem_def sem_wait_def current_def
          current_pid_def current_data_def sample_kernel_def sample_proc_def set_wait_def semaphore_wait_def semaphore_new_def
          set_sems_def set_data_def save_current_def quiet_def switch_next_def manager_block_def upd_proc_def
          pr_save_def pr_tick_def pr_block_def sample_vm_def)
  qed (simp_all add: sem_call_def sample_kernel_def KERNEL_PID_def current_data_def current_def current_pid_def
      sample_proc_def semaphore_new_def)
qed

section \<open>Forking\<close>

lemma switch_next_status:
  assumes "switch_next cx k = (Ok p, cx', k')" "k_procs k w = Some b"
  shows "\<exists>s. k_procs k' w = Some (b\<lparr>pr_status := s\<rparr>)"
  using assms(1) switch_loop_status [OF _ assms(2)]
  by (auto simp: switch_next_def andThenS_eq_Ok current_pid_def split: if_splits)

text \<open>
  C15: \<open>vfork\<close> makes one process with the next pid, and both go on from the same point: the
  parent with the pid of the child in \<open>rax\<close>, the child with 0 and with its stack pointer as far
  into its own stack as the parent's is into the parent's; they share their data and all other
  registers are equal, and the child knows its parent and the parent its child.
\<close>

lemma vfork_twice:
  assumes ok: "kernel_ok k" and fresh: "fresh_pid k" and run: "vfork mc cx k = (Ok (), cx', k')"
  shows "\<exists>a b va vb. k_procs k' (k_cur k) = Some a \<and> k_procs k' (k_next_pid k) = Some b \<and>
    pr_vm a = Some va \<and> pr_vm b = Some vb \<and>
    pr_context a = set_rax (ucast (k_next_pid k)) cx \<and>
    cx_regs (pr_context b) = cx_regs (set_rax 0 cx) \<and>
    sf_sp (cx_frame (pr_context b)) - page_addr (sk_start (pv_stack vb)) =
      sf_sp (cx_frame cx) - page_addr (sk_start (pv_stack va)) \<and>
    cx_frame (pr_context b) = (cx_frame cx)\<lparr>sf_sp := sf_sp (cx_frame (pr_context b))\<rparr> \<and>
    pr_data b = pr_data a \<and> pv_table vb = pv_table va \<and>
    pr_parent b = Some (k_cur k) \<and> k_next_pid k \<in> set (pr_children a)"
proof -
  let ?c = "k_next_pid k" and ?me = "k_cur k"
  note sv = saved_facts [OF kernel_cur_ok [OF ok], of cx]
  obtain pr0 where pr0: "k_procs k ?me = Some pr0" by (rule current_eq [OF ok])
  define pr where "pr = pr_save cx (pr_tick pr0)"
  have pr: "k_procs (saved cx k) ?me = Some pr" using pr0 by (simp add: saved_def pr_def)
  from run obtain k2 p where vf: "manager_vfork mc (saved cx k) = (Ok (), k2)"
    and sw: "switch_next cx (push_ready ?me k2) = (Ok p, cx', k')"
    by (auto simp: vfork_def thenS_eq_Ok quiet_Ok save_current_eq [OF kernel_cur_ok [OF ok]])
  from vf obtain va vb v v' ctx where vm: "pr_vm pr = Some va"
    and fork: "proc_vm_fork mc va (of_nat (length (pr_children pr)) + 1) v = (Ok vb, v')"
    and ctx: "set_stack_offset (pt_mapper mc (pv_table va)) (stack_offset (pv_stack vb) (pv_stack va)) (pr_context pr) = Ok ctx"
    and k2: "k2 = push_ready ?c (add_proc ?c
                 \<lparr>pr_name = pr_name pr, pr_parent = Some ?me, pr_children = [], pr_ticks = 0,
                  pr_status = Ready, pr_context = set_rax 0 ctx, pr_exit_code = None,
                  pr_data = pr_data pr, pr_vm = Some vb\<rparr>
                 (upd_proc ?me (\<lambda>q. pr_pause ((pr_set_return (ucast ?c) q)\<lparr>pr_children := pr_children q @ [?c]\<rparr>))
                   (saved cx k\<lparr>k_vm := v', k_next_pid := ?c + 1\<rparr>)))"
    using pr by (auto simp: vfork_defs andThenS_eq_Ok thenS_eq_Ok Let_def current_Ok pid_new_def sv
          of_option_eq_Ok split: prod.splits)
  have ne: "?c \<noteq> ?me" using fresh pr0 by (auto simp: fresh_pid_def)
  have a: "k_procs (push_ready ?me k2) ?me =
      Some (pr_pause ((pr_set_return (ucast ?c) pr)\<lparr>pr_children := pr_children pr @ [?c]\<rparr>))"
    using pr ne by (simp add: k2 add_proc_def)
  have b: "k_procs (push_ready ?me k2) ?c = Some \<lparr>pr_name = pr_name pr, pr_parent = Some ?me, pr_children = [], pr_ticks = 0,
                  pr_status = Ready, pr_context = set_rax 0 ctx, pr_exit_code = None,
                  pr_data = pr_data pr, pr_vm = Some vb\<rparr>" by (simp add: k2 add_proc_def)
  have tab: "pv_table vb = pv_table va"
    using fork by (auto simp: proc_vm_fork_def pt_fork_def andThen_eq_Ok split: prod.splits)
  have live: "pr_context pr = cx" by (simp add: pr_def pr_save_def context_save_def)
  have ctx': "ctx = cx\<lparr>cx_frame := (cx_frame cx)\<lparr>sf_sp := sf_sp (cx_frame cx) + stack_offset (pv_stack vb) (pv_stack va)\<rparr>\<rparr>"
    using ctx by (auto simp: set_stack_offset_def addr_plus_def andThen_eq_Ok live split: if_splits)
  show ?thesis
    using switch_next_status [OF sw a] switch_next_status [OF sw b] vm tab live
    by (auto simp: ctx' set_rax_def pr_pause_def pr_set_return_def stack_offset_def)
qed

text \<open>The concrete machine with the addresses of a crate that wraps around.\<close>

definition wrap_x86 :: "flat x86" where "wrap_x86 = flat_x86\<lparr>x_checked := False\<rparr>"

definition wrap_machine :: "flat machine" where
  "wrap_machine = flat_machine\<lparr>mc_mapper := (\<lambda>f. wrap_x86)\<rparr>"

definition fork_context :: proc_context where
  "fork_context = context_default\<lparr>cx_frame := (cx_frame context_default)\<lparr>sf_sp := 0x3FFFFFFFFFF0\<rparr>\<rparr>"

lemma sample_fork_place:
  "vfork_place wrap_x86 1 0x3FFEFFFFF000 (flat_mem [0x3FFFFFFFF \<mapsto> (0x9000, range_flags True)] [0x1000, 0x2000]) =
    Some (Ok 0x3FFEFFFFF000, snd (map_pages wrap_x86 0x3FFEFFFFF000 1 True
      (flat_mem [0x3FFFFFFFF \<mapsto> (0x9000, range_flags True)] [0x1000, 0x2000])))"
  by (subst vfork_place.simps) (simp add: wrap_x86_def map_pages_def map_range_def upt_rec page_of_def page_addr_def
      addr_plus_def flat_simps)

lemma sample_stack_fork:
  "stack_vfork wrap_x86 off sample_stack 1 (flat_mem [0x3FFFFFFFF \<mapsto> (0x9000, range_flags True)] [0x1000, 0x2000]) =
    (Ok \<lparr>sk_start = 0x3FFEFFFFF, sk_end = 0x3FFF00000, sk_usage = 1\<rparr>,
     snd (stack_vfork wrap_x86 off sample_stack 1 (flat_mem [0x3FFFFFFFF \<mapsto> (0x9000, range_flags True)] [0x1000, 0x2000])))"
proof -
  have place: "page_addr 0x3FFFFFFFF - 1 * STACK_MAX_SIZE = 0x3FFEFFFFF000"
    by (simp add: page_addr_def STACK_MAX_SIZE_def STACK_MAX_PAGES_def)
  show ?thesis
    unfolding stack_vfork_def sample_stack_def stack.simps place sample_fork_place
    by (simp add: wrap_x86_def map_pages_def map_range_def upt_rec page_of_def page_addr_def
      addr_plus_def flat_simps numeral_eq_Suc [of "num.One"])
qed

lemma sample_fork: "fst (vfork wrap_machine fork_context sample_kernel) = Ok ()"
proof -
  obtain m' where "stack_vfork wrap_x86 0xFFFF800000000000 sample_stack 1
      (flat_mem [0x3FFFFFFFF \<mapsto> (0x9000, range_flags True)] [0x1000, 0x2000]) =
    (Ok \<lparr>sk_start = 0x3FFEFFFFF, sk_end = 0x3FFF00000, sk_usage = 1\<rparr>, m')" using sample_stack_fork by blast
  then show ?thesis
    by (simp add: vfork_def save_current_def current_def current_pid_def sample_kernel_def sample_proc_def upd_proc_def
      quiet_def vfork_defs sample_vm_def proc_vm_fork_def pt_fork_def pr_save_def pr_tick_def context_save_def
      wrap_machine_def flat_machine_def pt_mapper_def flat_vmem_def set_stack_offset_def stack_offset_def sample_stack_def
      page_addr_def addr_plus_def wrap_x86_def fork_context_def context_default_def flat_x86_def pid_new_def
      add_proc_def push_ready_def switch_next_def Let_def)
qed

lemma vfork_twice_witness:
  "\<exists>a b va vb. k_procs (snd (snd (vfork wrap_machine fork_context sample_kernel))) (k_cur sample_kernel) = Some a \<and>
    k_procs (snd (snd (vfork wrap_machine fork_context sample_kernel))) (k_next_pid sample_kernel) = Some b \<and>
    pr_vm a = Some va \<and> pr_vm b = Some vb \<and>
    pr_context a = set_rax (ucast (k_next_pid sample_kernel)) fork_context \<and>
    cx_regs (pr_context b) = cx_regs (set_rax 0 fork_context) \<and>
    sf_sp (cx_frame (pr_context b)) - page_addr (sk_start (pv_stack vb)) =
      sf_sp (cx_frame fork_context) - page_addr (sk_start (pv_stack va)) \<and>
    cx_frame (pr_context b) = (cx_frame fork_context)\<lparr>sf_sp := sf_sp (cx_frame (pr_context b))\<rparr> \<and>
    pr_data b = pr_data a \<and> pv_table vb = pv_table va \<and>
    pr_parent b = Some (k_cur sample_kernel) \<and> k_next_pid sample_kernel \<in> set (pr_children a)"
proof (rule vfork_twice [OF sample_ok])
  show "fresh_pid sample_kernel" by (simp add: fresh_pid_def sample_kernel_def)
  show "vfork wrap_machine fork_context sample_kernel =
    (Ok (), fst (snd (vfork wrap_machine fork_context sample_kernel)),
     snd (snd (vfork wrap_machine fork_context sample_kernel)))"
    using sample_fork by (simp add: prod_eq_iff)
qed

section \<open>A run of the kernel\<close>

text \<open>
  From boot: the kernel starts a program named \<open>sh\<close>, the timer switches to it, it calls \<open>exit\<close>,
  and the kernel runs again with the program dead.
\<close>

definition run_services :: "(flat, unit) services" where
  "run_services = flat_services\<lparr>sv_params := (sv_params flat_services)\<lparr>kp_apps :=
     Some [([0x73, 0x68], \<lparr>elf_input = (\<lambda>a. 0), elf_ptr = 0, elf_segments = [], elf_entry = 0x1111000\<rparr>)]\<rparr>\<rparr>"

definition run_boot :: "(flat, unit) kernel" where
  "run_boot = proc_init [] (boot_kernel (flat_vmem Map.empty [0x1000, 0x2000, 0x3000]))"

definition run_launched :: "(flat, unit) kernel" where
  "run_launched = snd (spawn (sv_params run_services) [0x73, 0x68] run_boot)"

definition run_user :: "proc_context \<times> (flat, unit) kernel" where
  "run_user = snd (switch context_default run_launched)"

definition run_exited :: "proc_context \<times> (flat, unit) kernel" where
  "run_exited = snd (dispatcher run_services (set_rax 60 (fst run_user)) (snd run_user))"

lemmas run_simps = run_boot_def run_services_def proc_init_def boot_kernel_def flat_services_def
  pt_new_def pt_share_def proc_vm_new_def proc_new_def pid_new_def data_new_def spawn_def elf_spawn_def
  manager_spawn_def flat_machine_def flat_vmem_def current_def current_pid_def pt_clone_level_4_def KERNEL_PID_def
  pr_resume_def pr_pause_def proc_vm_load_elf_def load_elf_code_def load_elf_def stack_init_def map_pages_def map_range_def
  flat_simps STACK_INIT_BOT_def STACK_MAX_def STACK_DEF_SIZE_def STACK_DEF_PAGE_def page_of_def page_addr_def upt_rec
  addr_plus_def pt_mapper_def init_stack_frame_def STACK_INIT_TOP_def Let_def push_ready_def add_proc_def 

lemma run_launch: "fresh_pid run_boot \<and>
    (\<exists>pid. spawn (sv_params run_services) [0x73, 0x68] run_boot = (Ok pid, run_launched))"
  unfolding run_launched_def by (simp add: run_simps fresh_pid_def)

lemmas run_more = run_simps switch_def quiet_def save_current_def switch_next_def upd_proc_def pr_save_def pr_tick_def
  context_save_def context_restore_def pt_load_def run_launched_def

lemma run_switch: "switch context_default run_launched = (Ok (), run_user) \<and> k_cur (snd run_user) = 2"
  unfolding run_user_def by (simp add: run_more)

lemma run_exit:
  "dispatcher run_services (set_rax 60 (fst run_user)) (snd run_user) = (Ok (), run_exited) \<and>
    k_cur (snd run_exited) = 1 \<and> st (snd run_exited) 2 = Some Dead"
  unfolding run_exited_def
  by (simp add: run_user_def run_more dispatcher_def syscall_from_def syscalls_def set_rax_def process_exit_def
      kill_self_def kill_run_simps st_def heap_clean_up_def pv_heap_def store_heap_def heap_empty_def
      pr_remove_child_def init_kernel_vm_def HEAP_START_def heap_memory_usage_def)
lemma scheduler_safe_witness:
  "k_cur (snd run_user) = 2 \<and> st (snd run_exited) 2 = Some Dead \<and> kernel_ok (snd run_exited) \<and>
    (\<exists>cx'' k''. switch (fst run_exited) (snd run_exited) = (Ok (), cx'', k''))"
proof -
  let ?cx = "set_rax 60 (fst run_user)"
  obtain pid where "spawn (sv_params run_services) [0x73, 0x68] run_boot = (Ok pid, run_launched)" "fresh_pid run_boot"
    using run_launch by blast
  then have "kstep run_services (context_default, run_boot) (context_default, run_launched)" by (rule kstep.launch [rotated])
  moreover have "kstep run_services (context_default, run_launched) (fst run_user, snd run_user)"
    by (rule kstep.timer) (simp add: run_switch)
  moreover have "kstep run_services (fst run_user, snd run_user) (?cx, snd run_user)" by (rule kstep.user)
  moreover have "kstep run_services (?cx, snd run_user) (fst run_exited, snd run_exited)"
  proof (rule kstep.call)
    show "allowed ?cx (snd run_user)" by (simp add: allowed_def syscall_from_def syscalls_def set_rax_def)
  qed (simp_all add: run_switch run_exit KERNEL_PID_def)
  ultimately have "(kstep run_services)\<^sup>*\<^sup>* (context_default, run_boot) (fst run_exited, snd run_exited)"
    by (meson converse_rtranclp_into_rtranclp rtranclp.rtrancl_refl)
  from scheduler_safe [OF this [unfolded run_boot_def]] show ?thesis by (simp add: run_switch run_exit)
qed

end
