(* ===== verification/Ata.thy ===== *)
theory Ata
  imports Storage Text Units
begin

text \<open>
  The ATA driver: \<open>pkg/kernel/src/drivers/ata/\<close> with \<open>consts.rs\<close>, \<open>bus.rs\<close> and \<open>mod.rs\<close>. The
  hardware behind the ports is a parameter: a state of any type, with the effect of reading and
  writing a port. Polling is a loop that the hardware may keep going for ever.
\<close>

section \<open>Registers and commands\<close>

text \<open>The flags of \<open>AtaStatus\<close>; they fill the byte, so \<open>from_bits_truncate\<close> drops nothing.\<close>

definition STATUS_BUSY :: u8 where "STATUS_BUSY = 0x80"

definition STATUS_DRQ :: u8 where "STATUS_DRQ = 0x08"

definition STATUS_ERROR :: u8 where "STATUS_ERROR = 0x01"

datatype ata_command =
  ReadPio | ReadPioExt | ReadDma | ReadDmaExt | WritePio | WritePioExt | WriteDma | WriteDmaExt
  | CacheFlush | CacheFlushExt | Packet | IdentifyPacket | IdentifyDevice

fun command_byte :: "ata_command \<Rightarrow> u8" where
  "command_byte ReadPio = 0x20"
| "command_byte ReadPioExt = 0x24"
| "command_byte ReadDma = 0xC8"
| "command_byte ReadDmaExt = 0x25"
| "command_byte WritePio = 0x30"
| "command_byte WritePioExt = 0x34"
| "command_byte WriteDma = 0xCA"
| "command_byte WriteDmaExt = 0x35"
| "command_byte CacheFlush = 0xE7"
| "command_byte CacheFlushExt = 0xEA"
| "command_byte Packet = 0xA0"
| "command_byte IdentifyPacket = 0xA1"
| "command_byte IdentifyDevice = 0xEC"

datatype device_type = Pata "u16 list" | PataPi | Sata | SataPi | NoDevice

text \<open>Reading and writing a port by its number.\<close>

record 'p port_io =
  io_in8 :: "u16 \<Rightarrow> 'p \<Rightarrow> u8 \<times> 'p"
  io_in16 :: "u16 \<Rightarrow> 'p \<Rightarrow> u16 \<times> 'p"
  io_out8 :: "u16 \<Rightarrow> u8 \<Rightarrow> 'p \<Rightarrow> 'p"
  io_out16 :: "u16 \<Rightarrow> u16 \<Rightarrow> 'p \<Rightarrow> 'p"

record ata_bus =
  ab_id :: u8
  ab_irq :: u8
  ab_io_base :: u16
  ab_ctrl_base :: u16
  ab_data :: u16
  ab_error :: u16
  ab_features :: u16
  ab_sector_count :: u16
  ab_lba_low :: u16
  ab_lba_mid :: u16
  ab_lba_high :: u16
  ab_drive :: u16
  ab_status :: u16
  ab_command :: u16
  ab_alternate_status :: u16
  ab_control :: u16
  ab_drive_blockess :: u16

definition ata_bus_new :: "u8 \<Rightarrow> u8 \<Rightarrow> u16 \<Rightarrow> u16 \<Rightarrow> ata_bus" where
  "ata_bus_new num irq io_base ctrl_base =
     \<lparr>ab_id = num, ab_irq = irq, ab_io_base = io_base, ab_ctrl_base = ctrl_base, ab_data = io_base,
      ab_error = io_base + 1, ab_features = io_base + 1, ab_sector_count = io_base + 2,
      ab_lba_low = io_base + 3, ab_lba_mid = io_base + 4, ab_lba_high = io_base + 5,
      ab_drive = io_base + 6, ab_status = io_base + 7, ab_command = io_base + 7,
      ab_alternate_status = ctrl_base, ab_control = ctrl_base, ab_drive_blockess = ctrl_base + 1\<rparr>"

section \<open>The bus\<close>

definition bus_read_data :: "'p port_io \<Rightarrow> ata_bus \<Rightarrow> 'p \<Rightarrow> u16 \<times> 'p" where
  "bus_read_data io b p = io_in16 io (ab_data b) p"

definition bus_write_data :: "'p port_io \<Rightarrow> ata_bus \<Rightarrow> u16 \<Rightarrow> 'p \<Rightarrow> 'p" where
  "bus_write_data io b w p = io_out16 io (ab_data b) w p"

definition cylinder_low :: "'p port_io \<Rightarrow> ata_bus \<Rightarrow> 'p \<Rightarrow> u8 \<times> 'p" where
  "cylinder_low io b p = io_in8 io (ab_lba_mid b) p"

definition cylinder_high :: "'p port_io \<Rightarrow> ata_bus \<Rightarrow> 'p \<Rightarrow> u8 \<times> 'p" where
  "cylinder_high io b p = io_in8 io (ab_lba_high b) p"

text \<open>The alternate status is read four times, for the delay, before the status.\<close>

definition bus_status :: "'p port_io \<Rightarrow> ata_bus \<Rightarrow> 'p \<Rightarrow> u8 \<times> 'p" where
  "bus_status io b p =
     io_in8 io (ab_status b) (((\<lambda>p. snd (io_in8 io (ab_alternate_status b) p)) ^^ 4) p)"

definition bus_error :: "'p port_io \<Rightarrow> ata_bus \<Rightarrow> 'p \<Rightarrow> u8 \<times> 'p" where
  "bus_error io b p = io_in8 io (ab_error b) p"

definition bus_is_error :: "'p port_io \<Rightarrow> ata_bus \<Rightarrow> 'p \<Rightarrow> bool \<times> 'p" where
  "bus_is_error io b p = (case bus_status io b p of (s, p) \<Rightarrow> (s AND STATUS_ERROR = STATUS_ERROR, p))"

definition bus_debug :: "'p port_io \<Rightarrow> ata_bus \<Rightarrow> 'p \<Rightarrow> 'p" where
  "bus_debug io b p = snd (bus_status io b (snd (bus_error io b p)))"

text \<open>\<open>val\<close> is whether a flag of \<open>flag\<close> has to be set.\<close>

partial_function (option) poll_loop :: "'p port_io \<Rightarrow> ata_bus \<Rightarrow> u8 \<Rightarrow> bool \<Rightarrow> u8 \<Rightarrow> 'p \<Rightarrow> 'p option" where
  "poll_loop io b flag val s p =
     (if (s AND flag \<noteq> 0) \<noteq> val then
        (case bus_status io b (if s AND STATUS_ERROR = STATUS_ERROR then bus_debug io b p else p) of
           (s, p) \<Rightarrow> poll_loop io b flag val s p)
      else Some p)"

definition poll :: "'p port_io \<Rightarrow> ata_bus \<Rightarrow> u8 \<Rightarrow> bool \<Rightarrow> 'p \<Rightarrow> unit fs_result \<times> 'p" where
  "poll io b flag val p =
     (case bus_status io b p of
        (s, p) \<Rightarrow> (case poll_loop io b flag val s p of None \<Rightarrow> (Diverge, p) | Some p \<Rightarrow> (Ok (), p)))"

definition write_command ::
  "'p port_io \<Rightarrow> ata_bus \<Rightarrow> u8 \<Rightarrow> u32 \<Rightarrow> ata_command \<Rightarrow> 'p \<Rightarrow> unit fs_result \<times> 'p" where
  "write_command io b drive block cmd p =
     (let bytes = u32_to_le block;
          p = io_out8 io (ab_sector_count b) 1 p;
          p = io_out8 io (ab_lba_low b) (bytes ! 0) p;
          p = io_out8 io (ab_lba_mid b) (bytes ! 1) p;
          p = io_out8 io (ab_lba_high b) (bytes ! 2) p;
          p = io_out8 io (ab_drive b) (0xE0 OR push_bit 4 (drive AND 1) OR (bytes ! 3 AND 0x0F)) p;
          p = io_out8 io (ab_command b) (command_byte cmd) p
      in case bus_status io b p of
           (s, p) \<Rightarrow>
             if s = 0 then (Err (DeviceError UnknownDevice), p)
             else
               doS (poll io b STATUS_BUSY False p) (\<lambda>_ p.
               case bus_is_error io b p of
                 (e, p) \<Rightarrow>
                   if e then (Err (DeviceError DevInvalidOperation), bus_debug io b p)
                   else
                     doS (poll io b STATUS_BUSY False p) (\<lambda>_ p.
                     doS (poll io b STATUS_DRQ True p) (\<lambda>_ p. (Ok (), p)))))"

text \<open>\<open>[0u16; n].map(|_| self.read_data())\<close>\<close>

fun read_words :: "'p port_io \<Rightarrow> ata_bus \<Rightarrow> nat \<Rightarrow> 'p \<Rightarrow> u16 list \<times> 'p" where
  "read_words io b 0 p = ([], p)"
| "read_words io b (Suc n) p =
     (case bus_read_data io b p of
        (w, p) \<Rightarrow> (case read_words io b n p of (ws, p) \<Rightarrow> (w # ws, p)))"

definition identify_drive :: "'p port_io \<Rightarrow> ata_bus \<Rightarrow> u8 \<Rightarrow> 'p \<Rightarrow> device_type fs_result \<times> 'p" where
  "identify_drive io b drive p =
     (case write_command io b drive 0 IdentifyDevice p of
        (Ok _, p) \<Rightarrow>
          doS (poll io b STATUS_BUSY False p) (\<lambda>_ p.
          case cylinder_low io b p of
            (lo, p) \<Rightarrow>
              (case cylinder_high io b p of
                 (hi, p) \<Rightarrow>
                   if lo = 0x00 \<and> hi = 0x00 then
                     (case read_words io b 256 p of (ws, p) \<Rightarrow> (Ok (Pata ws), p))
                   else if lo = 0x14 \<and> hi = 0xEB then (Ok PataPi, p)
                   else if lo = 0x3C \<and> hi = 0xC3 then (Ok Sata, p)
                   else if lo = 0x69 \<and> hi = 0x96 then (Ok SataPi, p)
                   else (Ok NoDevice, p)))
      | (Err e, p) \<Rightarrow>
          (case bus_status io b p of
             (s, p) \<Rightarrow> if s = 0 then (Ok NoDevice, p) else (Err (DeviceError UnknownDevice), p))
      | (Panic, p) \<Rightarrow> (Panic, p)
      | (Diverge, p) \<Rightarrow> (Diverge, p))"

text \<open>The loops over the two-byte chunks of a buffer; a last chunk may have one byte.\<close>

fun read_chunks :: "'p port_io \<Rightarrow> ata_bus \<Rightarrow> u8 list \<Rightarrow> 'p \<Rightarrow> u8 list \<times> 'p" where
  "read_chunks io b [] p = ([], p)"
| "read_chunks io b [_] p = (case bus_read_data io b p of (w, p) \<Rightarrow> ([u16_to_le w ! 0], p))"
| "read_chunks io b (_ # _ # rest) p =
     (case bus_read_data io b p of
        (w, p) \<Rightarrow> (case read_chunks io b rest p of (bs, p) \<Rightarrow> (u16_to_le w ! 0 # u16_to_le w ! 1 # bs, p)))"

definition read_pio ::
  "'p port_io \<Rightarrow> ata_bus \<Rightarrow> u8 \<Rightarrow> u32 \<Rightarrow> u8 list \<Rightarrow> 'p \<Rightarrow> unit fs_result \<times> u8 list \<times> 'p" where
  "read_pio io b drive block buf p =
     thenS (write_command io b drive block ReadPio p)
       (\<lambda>_ p.
          case read_chunks io b buf p of
            (buf, p) \<Rightarrow>
              (case bus_is_error io b p of
                 (e, p) \<Rightarrow>
                   if e then (Err (DeviceError ReadError), buf, bus_debug io b p) else (Ok (), buf, p)))
       (\<lambda>p. (buf, p))"

fun write_chunks :: "'p port_io \<Rightarrow> ata_bus \<Rightarrow> u8 list \<Rightarrow> 'p \<Rightarrow> 'p" where
  "write_chunks io b [] p = p"
| "write_chunks io b [x] p = bus_write_data io b (u16_le x 0) p"
| "write_chunks io b (x # y # rest) p = write_chunks io b rest (bus_write_data io b (u16_le x y) p)"

definition write_pio ::
  "'p port_io \<Rightarrow> ata_bus \<Rightarrow> u8 \<Rightarrow> u32 \<Rightarrow> u8 list \<Rightarrow> 'p \<Rightarrow> unit fs_result \<times> 'p" where
  "write_pio io b drive block buf p =
     doS (write_command io b drive block WritePio p) (\<lambda>_ p.
     case bus_is_error io b (write_chunks io b buf p) of
       (e, p) \<Rightarrow> if e then (Err (DeviceError WriteError), bus_debug io b p) else (Ok (), p))"

section \<open>The drive\<close>

text \<open>\<open>io\<close> reaches the ports of both buses; the buses are numbered 0 and 1.\<close>

definition BUSES :: "ata_bus list" where
  "BUSES = [ata_bus_new 0 14 0x1F0 0x3F6, ata_bus_new 1 15 0x170 0x376]"

record ata_drive =
  ad_bus :: u8
  ad_drive :: u8
  ad_blocks :: u32
  ad_model :: "u8 list"
  ad_serial :: "u8 list"

definition u16_to_be :: "u16 \<Rightarrow> u8 list" where
  "u16_to_be w = [ucast (drop_bit 8 w), ucast w]"

text \<open>The drive of 256 words of identification.\<close>

definition identified :: "u8 \<Rightarrow> u8 \<Rightarrow> u16 list \<Rightarrow> ata_drive fs_result" where
  "identified bus drive res =
     (let buf = concat (map u16_to_be res) in
      andThen (slice buf 20 40) (\<lambda>serial.
      andThen (slice buf 54 94) (\<lambda>model.
      andThen (index_at buf 120) (\<lambda>b0.
      andThen (index_at buf 121) (\<lambda>b1.
      andThen (index_at buf 122) (\<lambda>b2.
      andThen (index_at buf 123) (\<lambda>b3.
        Ok \<lparr>ad_bus = bus, ad_drive = drive, ad_blocks = u32_le b0 b1 b2 b3,
            ad_model = trim (utf8_lossy model), ad_serial = trim (utf8_lossy serial)\<rparr>)))))))"

definition drive_block_count :: "ata_drive \<Rightarrow> nat fs_result" where
  "drive_block_count d = Ok (unat (ad_blocks d))"

definition drive_humanized_size :: "ata_drive \<Rightarrow> ('e, (nat \<times> nat) \<times> u8 list) res" where
  "drive_humanized_size d = humanized_size (of_nat (512 * unat (ad_blocks d)))"

text \<open>
  \<open>AtaDrive::open\<close>. The line it logs, which the log level of the boot configuration lets
  through, shows the size of the drive.
\<close>

definition drive_open :: "'p port_io \<Rightarrow> u8 \<Rightarrow> u8 \<Rightarrow> 'p \<Rightarrow> ata_drive option fs_result \<times> 'p" where
  "drive_open io bus drive p =
     andThenS (index_at BUSES (unat bus)) p (\<lambda>b.
       case identify_drive io b drive p of
         (Ok (Pata res), p) \<Rightarrow>
           andThenS (identified bus drive res) p (\<lambda>d.
           andThenS (drive_humanized_size d) p (\<lambda>_. (Ok (Some d), p)))
       | (Ok _, p) \<Rightarrow> (Ok None, p)
       | (Err e, p) \<Rightarrow> (Ok None, p)
       | (Panic, p) \<Rightarrow> (Panic, p)
       | (Diverge, p) \<Rightarrow> (Diverge, p))"

text \<open>\<open>offset as u32\<close> keeps the low 32 bits.\<close>

definition drive_read_block ::
  "'p port_io \<Rightarrow> ata_drive \<Rightarrow> nat \<Rightarrow> u8 list \<Rightarrow> 'p \<Rightarrow> unit fs_result \<times> u8 list \<times> 'p" where
  "drive_read_block io d off block p =
     andThenS (index_at BUSES (unat (ad_bus d))) (block, p) (\<lambda>b.
       read_pio io b (ad_drive d) (of_nat off) block p)"

definition drive_write_block ::
  "'p port_io \<Rightarrow> ata_drive \<Rightarrow> nat \<Rightarrow> u8 list \<Rightarrow> 'p \<Rightarrow> unit fs_result \<times> 'p" where
  "drive_write_block io d off block p =
     andThenS (index_at BUSES (unat (ad_bus d))) p (\<lambda>b.
       write_pio io b (ad_drive d) (of_nat off) block p)"

end
