(* ===== verification/AtaFacts.thy ===== *)
theory AtaFacts
  imports Ata
begin

text \<open>
  A drive as the standard describes it, seen through a view of the state behind the ports, and
  what the driver does with such a drive.
\<close>

section \<open>The view of a drive\<close>

text \<open>
  A transfer: none, words still to be sent to the host, or words received so far for a sector.
  \<open>av_busy\<close> is the number of times the status will still read as busy. \<open>av_bad\<close> are the sectors the
  drive cannot transfer, which it finds out when the words are through; \<open>av_flaw\<close> says whether
  the words being sent are those of such a sector.
\<close>

datatype transfer = Quiet | Sending "u16 list" | Receiving nat "u16 list"

record ata_view =
  av_disk :: "nat \<Rightarrow> u8 list"
  av_sectors :: nat
  av_bad :: "nat set"
  av_ident :: "u16 list"
  av_count :: u8
  av_low :: u8
  av_mid :: u8
  av_high :: u8
  av_select :: u8
  av_busy :: nat
  av_fail :: bool
  av_flaw :: bool
  av_transfer :: transfer

fun words_of :: "u8 list \<Rightarrow> u16 list" where
  "words_of (x # y # bs) = u16_le x y # words_of bs"
| "words_of bs = []"

definition bytes_of :: "u16 list \<Rightarrow> u8 list" where "bytes_of ws = concat (map u16_to_le ws)"

definition sending :: "u16 list \<Rightarrow> transfer" where
  "sending ws = (if ws = [] then Quiet else Sending ws)"

definition av_lba :: "ata_view \<Rightarrow> nat" where
  "av_lba v = unat (av_low v) + 256 * unat (av_mid v) + 65536 * unat (av_high v) +
     16777216 * unat (av_select v AND 0x0F)"

definition quiet_view :: "ata_view \<Rightarrow> bool" where
  "quiet_view v \<longleftrightarrow> av_busy v = 0 \<and> av_transfer v = Quiet"

text \<open>What selects drive \<open>dn\<close>, with the highest four bits of a block number.\<close>

definition select_reg :: "u8 \<Rightarrow> u8 \<Rightarrow> u8" where
  "select_reg dn h = 0xE0 OR push_bit 4 (dn AND 1) OR (h AND 0x0F)"

text \<open>A command for one sector on the sectors the drive has; beyond them it fails.\<close>

definition obey :: "u8 \<Rightarrow> ata_view \<Rightarrow> ata_view" where
  "obey c v =
     (if c = 0xEC then v\<lparr>av_fail := False, av_flaw := False, av_mid := 0, av_high := 0, av_transfer := sending (av_ident v)\<rparr>
      else if av_sectors v \<le> av_lba v then v\<lparr>av_fail := True\<rparr>
      else if c = 0x20 then v\<lparr>av_fail := False, av_flaw := (av_lba v \<in> av_bad v),
        av_transfer := sending (words_of (av_disk v (av_lba v)))\<rparr>
      else v\<lparr>av_fail := False, av_transfer := Receiving (av_lba v) []\<rparr>)"

text \<open>After the last word of a sector the error flag is set if the sector is bad; a bad sector is not stored.\<close>

definition sent :: "u16 list \<Rightarrow> ata_view \<Rightarrow> ata_view" where
  "sent ws v = (if ws = [] then v\<lparr>av_transfer := Quiet, av_fail := av_flaw v\<rparr> else v\<lparr>av_transfer := Sending ws\<rparr>)"

fun receive :: "u16 \<Rightarrow> ata_view \<Rightarrow> transfer \<Rightarrow> ata_view" where
  "receive w v (Receiving n ws) =
     (if length ws < 255 then v\<lparr>av_transfer := Receiving n (ws @ [w])\<rparr>
      else v\<lparr>av_transfer := Quiet, av_fail := (n \<in> av_bad v),
        av_disk := (if n \<in> av_bad v then av_disk v else (av_disk v)(n := bytes_of (ws @ [w])))\<rparr>)"
| "receive w v t = v"

text \<open>
  The standard's behaviour of drive \<open>dn\<close> on a bus. Reading a status register takes one unit of
  the time the drive is busy; while it is busy the other flags mean nothing.
\<close>

definition ata_laws :: "'p port_io \<Rightarrow> ata_bus \<Rightarrow> u8 \<Rightarrow> ('p \<Rightarrow> ata_view) \<Rightarrow> bool" where
  "ata_laws io b dn view \<longleftrightarrow>
     (\<forall>p. \<forall>port\<in>{ab_status b, ab_alternate_status b}.
        view (snd (io_in8 io port p)) = (view p)\<lparr>av_busy := av_busy (view p) - 1\<rparr> \<and>
        fst (io_in8 io port p) \<noteq> 0 \<and>
        (fst (io_in8 io port p) AND 0x80 \<noteq> 0 \<longleftrightarrow> 0 < av_busy (view p)) \<and>
        (av_busy (view p) = 0 \<longrightarrow>
           (fst (io_in8 io port p) AND 0x01 = 0x01 \<longleftrightarrow> av_fail (view p)) \<and>
           (fst (io_in8 io port p) AND 0x08 \<noteq> 0 \<longleftrightarrow> av_transfer (view p) \<noteq> Quiet))) \<and>
     (\<forall>p. view (snd (io_in8 io (ab_error b) p)) = view p) \<and>
     (\<forall>p. av_busy (view p) = 0 \<longrightarrow>
        io_in8 io (ab_lba_mid b) p = (av_mid (view p), snd (io_in8 io (ab_lba_mid b) p)) \<and>
        view (snd (io_in8 io (ab_lba_mid b) p)) = view p \<and>
        io_in8 io (ab_lba_high b) p = (av_high (view p), snd (io_in8 io (ab_lba_high b) p)) \<and>
        view (snd (io_in8 io (ab_lba_high b) p)) = view p) \<and>
     (\<forall>p x. quiet_view (view p) \<longrightarrow>
        view (io_out8 io (ab_sector_count b) x p) = (view p)\<lparr>av_count := x\<rparr> \<and>
        view (io_out8 io (ab_lba_low b) x p) = (view p)\<lparr>av_low := x\<rparr> \<and>
        view (io_out8 io (ab_lba_mid b) x p) = (view p)\<lparr>av_mid := x\<rparr> \<and>
        view (io_out8 io (ab_lba_high b) x p) = (view p)\<lparr>av_high := x\<rparr> \<and>
        view (io_out8 io (ab_drive b) x p) = (view p)\<lparr>av_select := x\<rparr>) \<and>
     (\<forall>p. \<forall>c\<in>{0x20, 0x30, 0xEC}. quiet_view (view p) \<and> av_count (view p) = 1 \<and>
        av_select (view p) AND 0xF0 = select_reg dn 0 \<longrightarrow>
        (\<exists>d. view (io_out8 io (ab_command b) c p) = (obey c (view p))\<lparr>av_busy := d\<rparr>)) \<and>
     (\<forall>p w ws. av_busy (view p) = 0 \<and> av_transfer (view p) = Sending (w # ws) \<longrightarrow>
        fst (io_in16 io (ab_data b) p) = w \<and>
        view (snd (io_in16 io (ab_data b) p)) = sent ws (view p)) \<and>
     (\<forall>p w n ws. av_busy (view p) = 0 \<and> av_transfer (view p) = Receiving n ws \<longrightarrow>
        (\<exists>d. view (io_out16 io (ab_data b) w p) = (receive w (view p) (Receiving n ws))\<lparr>av_busy := d\<rparr> \<and>
          (length ws < 255 \<longrightarrow> d = 0)))"

lemma ata_lawsD:
  assumes "ata_laws io b dn view"
  shows "port \<in> {ab_status b, ab_alternate_status b} \<Longrightarrow>
      view (snd (io_in8 io port p)) = (view p)\<lparr>av_busy := av_busy (view p) - 1\<rparr>"
    and "port \<in> {ab_status b, ab_alternate_status b} \<Longrightarrow> fst (io_in8 io port p) \<noteq> 0 \<and>
      (fst (io_in8 io port p) AND 0x80 \<noteq> 0 \<longleftrightarrow> 0 < av_busy (view p)) \<and>
      (av_busy (view p) = 0 \<longrightarrow> (fst (io_in8 io port p) AND 0x01 = 0x01 \<longleftrightarrow> av_fail (view p)) \<and>
         (fst (io_in8 io port p) AND 0x08 \<noteq> 0 \<longleftrightarrow> av_transfer (view p) \<noteq> Quiet))"
    and "view (snd (io_in8 io (ab_error b) p)) = view p"
  using assms unfolding ata_laws_def by blast+

section \<open>Words and bytes\<close>

lemma bytes_of_words: "even (length bs) \<Longrightarrow> bytes_of (words_of bs) = bs"
proof (induction bs rule: words_of.induct)
  case (1 x y bs)
  have "u16_to_le (u16_le x y) = [x, y]"
    unfolding u16_to_le_def u16_le_def
    by (simp, intro conjI; rule bit_word_eqI; auto simp: bit_simps dest: bit_imp_le_length)
  then show ?case using 1 by (simp add: bytes_of_def)
qed (simp_all add: bytes_of_def)

lemma length_words_of: "length (words_of bs) = length bs div 2"
  by (induction bs rule: words_of.induct) simp_all

text \<open>The registers after a command is written hold the low 28 bits of the block number.\<close>

definition addressed :: "u8 \<Rightarrow> u32 \<Rightarrow> ata_view \<Rightarrow> ata_view" where
  "addressed dn block v =
     v\<lparr>av_count := 1, av_low := u32_to_le block ! 0, av_mid := u32_to_le block ! 1,
       av_high := u32_to_le block ! 2,
       av_select := select_reg dn (u32_to_le block ! 3)\<rparr>"

lemma bits_8: "n < 8 \<longleftrightarrow> n = 0 \<or> n = 1 \<or> n = 2 \<or> n = 3 \<or> n = 4 \<or> n = 5 \<or> n = 6 \<or> n = (7::nat)"
  by auto

lemma select_low: "select_reg dn h AND 0x0F = h AND 0x0F"
  unfolding select_reg_def by (rule bit_word_eqI) (auto simp: bit_simps bits_8)

lemma select_high: "select_reg dn h AND 0xF0 = select_reg dn 0"
  unfolding select_reg_def by (rule bit_word_eqI) (auto simp: bit_simps bits_8)

lemma lba_addressed: "av_lba (addressed dn block v) = unat block mod 2 ^ 28"
proof -
  have "unat block = unat (u32_to_le block ! 0) + 256 * unat (u32_to_le block ! 1) +
      65536 * unat (u32_to_le block ! 2) + 16777216 * unat (u32_to_le block ! 3)"
    using u32_le_ucast [of block] unat_u32_le by (metis (no_types, lifting) nth_Cons_0 nth_Cons_Suc numeral_2_eq_2
      numeral_3_eq_3 One_nat_def u32_to_le_def)
  moreover have "unat (u32_to_le block ! 3 AND 0x0F) = unat (u32_to_le block ! 3) mod 16"
  proof -
    have "unat (u32_to_le block ! 3 AND 0x0F) = unat (u32_to_le block ! 3) AND mask 4"
      by (simp add: unsigned_and_eq mask_eq_exp_minus_1)
    then show ?thesis by (simp only: take_bit_eq_mask [symmetric]) (simp add: take_bit_eq_mod)
  qed
  moreover have "(a + 256 * b + 65536 * c + 16777216 * d) mod 2 ^ 28 = a + 256 * b + 65536 * c + 16777216 * (d mod 16)"
    if "a < 256" "b < 256" "c < 256" for a b c d :: nat
  proof -
    let ?r = "a + 256 * b + 65536 * c + 16777216 * (d mod 16)"
    have "?r < 268435456" using that mod_less_divisor [of 16 d] by simp
    moreover have "a + 256 * b + 65536 * c + 16777216 * d = ?r + (d div 16) * 268435456"
      using mult_div_mod_eq [of 16 d] by linarith
    ultimately show ?thesis by (simp only: mod_mult_self1 mod_less) simp
  qed
  ultimately show ?thesis by (simp add: av_lba_def addressed_def select_low)
qed

section \<open>Status and polling\<close>

lemma status_view:
  assumes laws: "ata_laws io b dn view"
  obtains s p' where "bus_status io b p = (s, p')" "view p' = (view p)\<lparr>av_busy := av_busy (view p) - 5\<rparr>"
    "s \<noteq> 0" "s AND 0x80 \<noteq> 0 \<longleftrightarrow> 4 < av_busy (view p)"
    "av_busy (view p) \<le> 4 \<Longrightarrow> s AND 0x01 = 0x01 \<longleftrightarrow> av_fail (view p)"
    "av_busy (view p) \<le> 4 \<Longrightarrow> s AND 0x08 \<noteq> 0 \<longleftrightarrow> av_transfer (view p) \<noteq> Quiet"
proof -
  let ?q = "((\<lambda>p. snd (io_in8 io (ab_alternate_status b) p)) ^^ 4) p"
  have q: "view ?q = (view p)\<lparr>av_busy := av_busy (view p) - 4\<rparr>"
    by (simp add: numeral_eq_Suc ata_lawsD(1) [OF laws])
  show thesis
  proof (rule that)
    show "bus_status io b p = (fst (io_in8 io (ab_status b) ?q), snd (io_in8 io (ab_status b) ?q))"
      by (simp add: bus_status_def)
  qed (use q ata_lawsD(1) [OF laws, of "ab_status b" ?q] ata_lawsD(2) [OF laws, of "ab_status b" ?q] in auto)
qed

lemma debug_view:
  assumes "ata_laws io b dn view"
  shows "view (bus_debug io b p) = (view p)\<lparr>av_busy := av_busy (view p) - 5\<rparr>"
  using status_view [OF assms, of "snd (bus_error io b p)"] ata_lawsD(3) [OF assms, of p]
  by (metis bus_debug_def bus_error_def snd_conv)

text \<open>The loop: as many turns as the drive is busy.\<close>

lemma poll_loop_busy:
  assumes laws: "ata_laws io b dn view"
  shows "view p = v\<lparr>av_busy := n\<rparr> \<Longrightarrow> (s AND 0x80 = 0 \<Longrightarrow> n = 0) \<Longrightarrow>
    \<exists>p'. poll_loop io b STATUS_BUSY False s p = Some p' \<and> view p' = v\<lparr>av_busy := 0\<rparr>"
proof (induction n arbitrary: s p rule: less_induct)
  case (less n)
  show ?case
  proof (cases "s AND 0x80 = 0")
    case True
    then show ?thesis using less.prems by (subst poll_loop.simps) (simp add: STATUS_BUSY_def)
  next
    case False
    let ?q = "if s AND STATUS_ERROR = STATUS_ERROR then bus_debug io b p else p"
    obtain m where m: "view ?q = v\<lparr>av_busy := m\<rparr>" "m \<le> n"
      using less.prems(1) debug_view [OF laws, of p] by (cases "s AND STATUS_ERROR = STATUS_ERROR") auto
    obtain t p' where t: "bus_status io b ?q = (t, p')" "view p' = v\<lparr>av_busy := m - 5\<rparr>" "t AND 0x80 \<noteq> 0 \<longleftrightarrow> 4 < m"
      using status_view [OF laws, of ?q] unfolding m(1) by simp metis
    have eq: "poll_loop io b STATUS_BUSY False s p = poll_loop io b STATUS_BUSY False t p'"
      using False t(1) by (subst poll_loop.simps) (simp add: STATUS_BUSY_def)
    show ?thesis
    proof (cases "4 < m")
      case True
      then show ?thesis unfolding eq using t m(2) by (intro less.IH [of "m - 5"]) auto
    next
      case False
      then show ?thesis using t unfolding eq by (subst poll_loop.simps) (simp add: STATUS_BUSY_def)
    qed
  qed
qed

lemma poll_busy:
  assumes laws: "ata_laws io b dn view"
  obtains p' where "poll io b STATUS_BUSY False p = (Ok (), p')" "view p' = (view p)\<lparr>av_busy := 0\<rparr>"
proof -
  obtain s q where s: "bus_status io b p = (s, q)" "view q = (view p)\<lparr>av_busy := av_busy (view p) - 5\<rparr>"
    "s AND 0x80 \<noteq> 0 \<longleftrightarrow> 4 < av_busy (view p)"
    using status_view [OF laws, of p] by metis
  have "s AND 0x80 = 0 \<Longrightarrow> av_busy (view p) - 5 = 0" using s(3) by simp
  from poll_loop_busy [OF laws s(2) this] obtain p' where
    "poll_loop io b STATUS_BUSY False s q = Some p'" "view p' = (view p)\<lparr>av_busy := 0\<rparr>" by auto
  with s(1) show thesis by (intro that [of p']) (simp_all add: poll_def)
qed

text \<open>When the drive is ready the status is what the transfer says, and polling ends at once.\<close>

lemma busy_0: "av_busy v = 0 \<Longrightarrow> v\<lparr>av_busy := 0\<rparr> = v"
  by (cases v) simp

lemma status_ready:
  assumes laws: "ata_laws io b dn view" and ready: "av_busy (view p) = 0"
  obtains s p' where "bus_status io b p = (s, p')" "view p' = view p" "s \<noteq> 0" "s AND 0x80 = 0"
    "s AND 0x01 = 0x01 \<longleftrightarrow> av_fail (view p)" "s AND 0x08 \<noteq> 0 \<longleftrightarrow> av_transfer (view p) \<noteq> Quiet"
proof (rule status_view [OF laws, of p])
  fix s p' assume "bus_status io b p = (s, p')" "view p' = (view p)\<lparr>av_busy := av_busy (view p) - 5\<rparr>" "s \<noteq> 0"
    "s AND 0x80 \<noteq> 0 \<longleftrightarrow> 4 < av_busy (view p)"
    "av_busy (view p) \<le> 4 \<Longrightarrow> s AND 0x01 = 0x01 \<longleftrightarrow> av_fail (view p)"
    "av_busy (view p) \<le> 4 \<Longrightarrow> s AND 0x08 \<noteq> 0 \<longleftrightarrow> av_transfer (view p) \<noteq> Quiet"
  with ready show thesis by (intro that [of s p']) (simp_all add: busy_0)
qed

lemma is_error_ready:
  assumes laws: "ata_laws io b dn view" and ready: "av_busy (view p) = 0"
  obtains p' where "bus_is_error io b p = (av_fail (view p), p')" "view p' = view p"
proof (rule status_ready [OF assms])
  fix s p' assume "bus_status io b p = (s, p')" "view p' = view p" "s AND 0x01 = 0x01 \<longleftrightarrow> av_fail (view p)"
  then show thesis by (intro that [of p']) (simp_all add: bus_is_error_def STATUS_ERROR_def)
qed

text \<open>The error flag is what it says as soon as the four delays are over.\<close>

lemma is_error_soon:
  assumes laws: "ata_laws io b dn view" and soon: "av_busy (view p) \<le> 4"
  obtains p' where "bus_is_error io b p = (av_fail (view p), p')" "view p' = (view p)\<lparr>av_busy := 0\<rparr>"
proof (rule status_view [OF laws, of p])
  fix s p' assume "bus_status io b p = (s, p')" "view p' = (view p)\<lparr>av_busy := av_busy (view p) - 5\<rparr>"
    "av_busy (view p) \<le> 4 \<Longrightarrow> s AND 0x01 = 0x01 \<longleftrightarrow> av_fail (view p)"
  with soon show thesis by (intro that [of p']) (simp_all add: bus_is_error_def STATUS_ERROR_def)
qed

lemma poll_ready:
  assumes laws: "ata_laws io b dn view" and ready: "av_busy (view p) = 0" "av_transfer (view p) \<noteq> Quiet"
  obtains p' where "poll io b STATUS_DRQ True p = (Ok (), p')" "view p' = view p"
proof -
  obtain s q where "bus_status io b p = (s, q)" "view q = view p" "s AND 0x08 \<noteq> 0"
    by (rule status_ready [OF laws ready(1)]) (use ready(2) in auto)
  then show thesis by (intro that [of q]) (simp_all add: poll_def poll_loop.simps [of _ _ _ _ s] STATUS_DRQ_def)
qed

section \<open>Commands\<close>

lemma ata_laws_registers:
  assumes "ata_laws io b dn view" "quiet_view (view p)"
  shows "view (io_out8 io (ab_sector_count b) x p) = (view p)\<lparr>av_count := x\<rparr>"
    and "view (io_out8 io (ab_lba_low b) x p) = (view p)\<lparr>av_low := x\<rparr>"
    and "view (io_out8 io (ab_lba_mid b) x p) = (view p)\<lparr>av_mid := x\<rparr>"
    and "view (io_out8 io (ab_lba_high b) x p) = (view p)\<lparr>av_high := x\<rparr>"
    and "view (io_out8 io (ab_drive b) x p) = (view p)\<lparr>av_select := x\<rparr>"
  using assms unfolding ata_laws_def by blast+

lemma ata_laws_command:
  assumes "ata_laws io b dn view" "c \<in> {0x20, 0x30, 0xEC}" "quiet_view (view p)" "av_count (view p) = 1"
    "av_select (view p) AND 0xF0 = select_reg dn 0"
  shows "\<exists>d. view (io_out8 io (ab_command b) c p) = (obey c (view p))\<lparr>av_busy := d\<rparr>"
  using assms unfolding ata_laws_def by blast

lemma quiet_view_simps [simp]:
  "quiet_view (v\<lparr>av_count := x\<rparr>) = quiet_view v" "quiet_view (v\<lparr>av_low := x\<rparr>) = quiet_view v"
  "quiet_view (v\<lparr>av_mid := x\<rparr>) = quiet_view v" "quiet_view (v\<lparr>av_high := x\<rparr>) = quiet_view v"
  "quiet_view (v\<lparr>av_select := x\<rparr>) = quiet_view v"
  by (simp_all add: quiet_view_def)

text \<open>The view when the command has been carried out, and the result of \<open>write_command\<close>.\<close>

definition obeyed :: "u8 \<Rightarrow> u32 \<Rightarrow> ata_command \<Rightarrow> ata_view \<Rightarrow> ata_view" where
  "obeyed dn block c v = obey (command_byte c) (addressed dn block v)"

lemma obeyed_busy: "quiet_view v \<Longrightarrow> av_busy (obeyed dn block c v) = 0"
  by (simp add: obeyed_def obey_def addressed_def quiet_view_def)

lemma obeyed_fail: "quiet_view v \<Longrightarrow> av_fail (obeyed dn block c v) \<Longrightarrow> av_transfer (obeyed dn block c v) = Quiet"
  by (auto simp: obeyed_def obey_def addressed_def quiet_view_def split: if_splits)

lemma write_command_spec:
  assumes laws: "ata_laws io b dn view" and quiet: "quiet_view (view p)"
    and c: "c \<in> {ReadPio, WritePio, IdentifyDevice}"
    and transfer: "\<not> av_fail (obeyed dn block c (view p)) \<Longrightarrow> av_transfer (obeyed dn block c (view p)) \<noteq> Quiet"
  obtains p' where "view p' = obeyed dn block c (view p)"
    "write_command io b dn block c p =
       (if av_fail (obeyed dn block c (view p)) then Err (DeviceError DevInvalidOperation) else Ok (), p')"
proof -
  let ?v = "obeyed dn block c (view p)"
  let ?d = "select_reg dn (u32_to_le block ! 3)"
  let ?p1 = "io_out8 io (ab_sector_count b) 1 p"
  let ?p2 = "io_out8 io (ab_lba_low b) (u32_to_le block ! 0) ?p1"
  let ?p3 = "io_out8 io (ab_lba_mid b) (u32_to_le block ! 1) ?p2"
  let ?p4 = "io_out8 io (ab_lba_high b) (u32_to_le block ! 2) ?p3"
  let ?p5 = "io_out8 io (ab_drive b) ?d ?p4"
  let ?p6 = "io_out8 io (ab_command b) (command_byte c) ?p5"
  have p5: "view ?p5 = addressed dn block (view p)"
    using quiet by (simp add: ata_laws_registers [OF laws] addressed_def)
  have "command_byte c \<in> {0x20, 0x30, 0xEC}" using c by auto
  moreover have "quiet_view (view ?p5)" "av_count (view ?p5) = 1" "av_select (view ?p5) AND 0xF0 = select_reg dn 0"
    using quiet unfolding p5 by (simp_all add: addressed_def select_high)
  ultimately obtain d where p6: "view ?p6 = ?v\<lparr>av_busy := d\<rparr>"
    using ata_laws_command [OF laws, of "command_byte c" ?p5] unfolding p5 obeyed_def by blast
  obtain s q1 where s: "bus_status io b ?p6 = (s, q1)" "view q1 = (view ?p6)\<lparr>av_busy := av_busy (view ?p6) - 5\<rparr>" "s \<noteq> 0"
    by (rule status_view [OF laws])
  obtain q2 where q2: "poll io b STATUS_BUSY False q1 = (Ok (), q2)" "view q2 = (view q1)\<lparr>av_busy := 0\<rparr>"
    by (rule poll_busy [OF laws])
  have v2: "view q2 = ?v" using q2(2) s(2) p6 obeyed_busy [OF quiet] busy_0 [of ?v] by simp
  obtain q3 where q3: "bus_is_error io b q2 = (av_fail ?v, q3)" "view q3 = ?v"
    using is_error_ready [OF laws, of q2] obeyed_busy [OF quiet] unfolding v2 by metis
  have start: "write_command io b dn block c p =
    (if av_fail ?v then (Err (DeviceError DevInvalidOperation), bus_debug io b q3)
     else doS (poll io b STATUS_BUSY False q3) (\<lambda>_ p. doS (poll io b STATUS_DRQ True p) (\<lambda>_ p. (Ok (), p))))"
    unfolding write_command_def Let_def select_reg_def [symmetric] using s(1, 3) q2(1) q3(1) by simp
  show thesis
  proof (cases "av_fail ?v")
    case True
    have "view (bus_debug io b q3) = ?v"
      using debug_view [OF laws, of q3] obeyed_busy [OF quiet] by (simp add: q3(2) busy_0)
    then show ?thesis using True by (intro that) (simp_all add: start)
  next
    case False
    obtain q4 where q4: "poll io b STATUS_BUSY False q3 = (Ok (), q4)" "view q4 = (view q3)\<lparr>av_busy := 0\<rparr>"
      by (rule poll_busy [OF laws])
    have v4: "view q4 = ?v" using q4(2) obeyed_busy [OF quiet] by (simp add: q3(2) busy_0)
    obtain q5 where "poll io b STATUS_DRQ True q4 = (Ok (), q5)" "view q5 = ?v"
      using poll_ready [OF laws, of q4] obeyed_busy [OF quiet] transfer [OF False] unfolding v4 by metis
    then show ?thesis using False q4(1) by (intro that [of q5]) (simp_all add: start)
  qed
qed

section \<open>Transfers\<close>

lemma read_data_view:
  assumes "ata_laws io b dn view" "av_busy (view p) = 0" "av_transfer (view p) = Sending (w # ws)"
  obtains p' where "bus_read_data io b p = (w, p')" "view p' = sent ws (view p)"
proof -
  have "fst (io_in16 io (ab_data b) p) = w \<and> view (snd (io_in16 io (ab_data b) p)) = sent ws (view p)"
    using assms unfolding ata_laws_def by blast
  then show thesis by (intro that [of "snd (io_in16 io (ab_data b) p)"]) (auto simp: bus_read_data_def prod_eq_iff)
qed

text \<open>The view after all the words: the error flag says whether the sector was bad.\<close>

definition all_sent :: "ata_view \<Rightarrow> ata_view" where
  "all_sent v = v\<lparr>av_transfer := Quiet, av_fail := av_flaw v\<rparr>"

lemma sent_parts [simp]:
  "av_busy (sent ws v) = av_busy v" "all_sent (sent ws v) = all_sent v" "sent [] v = all_sent v"
  "ws \<noteq> [] \<Longrightarrow> av_transfer (sent ws v) = Sending ws"
  by (simp_all add: sent_def all_sent_def)

lemma read_words_view:
  assumes laws: "ata_laws io b dn view"
  shows "av_busy (view p) = 0 \<Longrightarrow> av_transfer (view p) = Sending ws \<Longrightarrow> ws \<noteq> [] \<Longrightarrow>
    \<exists>p'. read_words io b (length ws) p = (ws, p') \<and> view p' = all_sent (view p)"
proof (induction ws arbitrary: p)
  case (Cons w ws)
  obtain q where q: "bus_read_data io b p = (w, q)" "view q = sent ws (view p)"
    by (rule read_data_view [OF laws Cons.prems(1, 2)])
  show ?case
  proof (cases "ws = []")
    case True
    with q show ?thesis by simp
  next
    case False
    with Cons.IH [of q] Cons.prems(1) q show ?thesis by auto
  qed
qed simp

lemma read_chunks_view:
  assumes laws: "ata_laws io b dn view"
  shows "av_busy (view p) = 0 \<Longrightarrow> av_transfer (view p) = Sending ws \<Longrightarrow> ws \<noteq> [] \<Longrightarrow> length buf = 2 * length ws \<Longrightarrow>
    \<exists>p'. read_chunks io b buf p = (bytes_of ws, p') \<and> view p' = all_sent (view p)"
proof (induction ws arbitrary: p buf)
  case (Cons w ws)
  obtain x y rest where buf: "buf = x # y # rest" using Cons.prems(4)
    by (cases buf; cases "tl buf") auto
  obtain q where q: "bus_read_data io b p = (w, q)" "view q = sent ws (view p)"
    by (rule read_data_view [OF laws Cons.prems(1, 2)])
  show ?case
  proof (cases "ws = []")
    case True
    with q buf Cons.prems(4) show ?thesis by (simp add: bytes_of_def u16_to_le_def)
  next
    case False
    with Cons.IH [of q rest] Cons.prems(1, 4) q show ?thesis by (auto simp: buf bytes_of_def u16_to_le_def)
  qed
qed simp

lemma ata_laws_cylinders:
  assumes "ata_laws io b dn view" "av_busy (view p) = 0"
  shows "\<exists>q. io_in8 io (ab_lba_mid b) p = (av_mid (view p), q) \<and> view q = view p"
    and "\<exists>q. io_in8 io (ab_lba_high b) p = (av_high (view p), q) \<and> view q = view p"
  using assms unfolding ata_laws_def by blast+

lemma ata_laws_data_out:
  assumes "ata_laws io b dn view" "av_busy (view p) = 0" "av_transfer (view p) = Receiving n ws"
  shows "\<exists>d. view (io_out16 io (ab_data b) w p) = (receive w (view p) (Receiving n ws))\<lparr>av_busy := d\<rparr> \<and>
    (length ws < 255 \<longrightarrow> d = 0)"
  using assms unfolding ata_laws_def by blast

text \<open>
  A drive that is done with a sector by the time its status is read after the last word. No drive
  has to be: the driver reads the status once, after four readings of the alternate status, and does not
  wait for the drive to be ready.
\<close>

definition stores_at_once :: "'p port_io \<Rightarrow> ata_bus \<Rightarrow> ('p \<Rightarrow> ata_view) \<Rightarrow> bool" where
  "stores_at_once io b view \<longleftrightarrow>
     (\<forall>p w n ws. av_busy (view p) = 0 \<and> av_transfer (view p) = Receiving n ws \<longrightarrow>
        av_busy (view (io_out16 io (ab_data b) w p)) \<le> 4)"

lemma write_chunks_view:
  assumes laws: "ata_laws io b dn view"
  shows "view p = v\<lparr>av_transfer := Receiving n ws, av_busy := 0\<rparr> \<Longrightarrow> length bs = 2 * k \<Longrightarrow>
    length ws + k = 256 \<Longrightarrow> 0 < k \<Longrightarrow>
    \<exists>d q w. write_chunks io b bs p = io_out16 io (ab_data b) w q \<and> av_busy (view q) = 0 \<and>
      (\<exists>us. av_transfer (view q) = Receiving n us \<and> length us = 255) \<and>
      view (write_chunks io b bs p) =
        v\<lparr>av_transfer := Quiet, av_fail := (n \<in> av_bad v),
          av_disk := (if n \<in> av_bad v then av_disk v else (av_disk v)(n := bytes_of (ws @ words_of bs))), av_busy := d\<rparr>"
proof (induction k arbitrary: p ws bs)
  case (Suc k)
  obtain x y rest where bs: "bs = x # y # rest" using Suc.prems(2) by (cases bs; cases "tl bs") auto
  let ?q = "bus_write_data io b (u16_le x y) p"
  obtain d where q: "view ?q = (receive (u16_le x y) (view p) (Receiving n ws))\<lparr>av_busy := d\<rparr>" "length ws < 255 \<Longrightarrow> d = 0"
    using ata_laws_data_out [OF laws, of p n ws "u16_le x y"] Suc.prems(1) by (auto simp: bus_write_data_def)
  show ?case
  proof (cases "k = 0")
    case True
    then have k: "rest = []" "length ws = 255" using Suc.prems(2, 3) by (auto simp: bs)
    then have eq: "write_chunks io b bs p = io_out16 io (ab_data b) (u16_le x y) p"
      by (simp add: bs bus_write_data_def)
    show ?thesis
      using q(1) Suc.prems(1) k
      by (intro exI [of _ d] exI [of _ p] exI [of _ "u16_le x y"] conjI)
        (simp_all add: eq bus_write_data_def bs fun_upd_def)
  next
    case False
    then have "view ?q = v\<lparr>av_transfer := Receiving n (ws @ [u16_le x y]), av_busy := 0\<rparr>"
      using q Suc.prems by simp
    note IH = Suc.IH [OF this, of rest]
    have "write_chunks io b bs p = write_chunks io b rest ?q" "ws @ words_of bs = (ws @ [u16_le x y]) @ words_of rest"
      by (simp_all add: bs)
    then show ?thesis using IH False Suc.prems(2, 3) by (simp only:) (simp add: bs)
  qed
qed simp

end
