(* ===== verification/AtaSpec.thy ===== *)
theory AtaSpec
  imports AtaFacts
begin

text \<open>
  The driver as a block device, and what \<open>AtaDrive::open\<close> finds out.
\<close>

section \<open>The disk behind the driver\<close>

text \<open>
  What the driver is to the storage library: sectors by their number, of which 28 bits count;
  a sector of \<open>bad\<close> can be neither read nor written.
\<close>

definition disk_device :: "nat \<Rightarrow> nat set \<Rightarrow> nat \<Rightarrow> (nat \<Rightarrow> u8 list) block_device" where
  "disk_device sectors bad blocks =
     \<lparr>bd_count = (\<lambda>d. Ok blocks),
      bd_read = (\<lambda>d off. let n = off mod 2 ^ 28 in
        if sectors \<le> n then Err (DeviceError DevInvalidOperation)
        else if n \<in> bad then Err (DeviceError ReadError)
        else Ok (d n)),
      bd_write = (\<lambda>d off bs. let n = off mod 2 ^ 28 in
        if sectors \<le> n then Err (DeviceError DevInvalidOperation)
        else if n \<in> bad then Err (DeviceError WriteError)
        else Ok (d(n := bs)))\<rparr>"

definition sectors_ok :: "ata_view \<Rightarrow> bool" where
  "sectors_ok v \<longleftrightarrow> (\<forall>n. length (av_disk v n) = 512)"

lemma block_number: "unat (of_nat off :: u32) mod 2 ^ 28 = off mod 2 ^ 28"
  by (simp add: unsigned_of_nat take_bit_eq_mod mod_mod_cancel)

lemma obeyed_read:
  "obeyed dn block ReadPio v =
     (if unat block mod 2 ^ 28 < av_sectors v
      then (addressed dn block v)\<lparr>av_fail := False, av_flaw := (unat block mod 2 ^ 28 \<in> av_bad v),
        av_transfer := sending (words_of (av_disk v (unat block mod 2 ^ 28)))\<rparr>
      else (addressed dn block v)\<lparr>av_fail := True\<rparr>)"
  using lba_addressed [of dn block v] by (auto simp: obeyed_def obey_def) (simp_all add: addressed_def)

lemma obeyed_write:
  "obeyed dn block WritePio v =
     (if unat block mod 2 ^ 28 < av_sectors v
      then (addressed dn block v)\<lparr>av_fail := False, av_transfer := Receiving (unat block mod 2 ^ 28) []\<rparr>
      else (addressed dn block v)\<lparr>av_fail := True\<rparr>)"
  using lba_addressed [of dn block v] by (auto simp: obeyed_def obey_def) (simp_all add: addressed_def)

lemma addressed_parts [simp]:
  "av_disk (addressed dn block v) = av_disk v" "av_bad (addressed dn block v) = av_bad v" "av_sectors (addressed dn block v) = av_sectors v"
  "av_busy (addressed dn block v) = av_busy v" "av_transfer (addressed dn block v) = av_transfer v"
  by (simp_all add: addressed_def)

text \<open>Reading a sector: of a bad one the words are there, but the error is seen after them.\<close>

lemma read_pio_spec:
  assumes laws: "ata_laws io b dn view" and quiet: "quiet_view (view p)" and ok: "sectors_ok (view p)"
    and buf: "length buf = 512"
  obtains p' where
    "read_pio io b dn block buf p =
       (if av_sectors (view p) \<le> unat block mod 2 ^ 28 then (Err (DeviceError DevInvalidOperation), buf, p')
        else (if unat block mod 2 ^ 28 \<in> av_bad (view p) then Err (DeviceError ReadError) else Ok (),
              av_disk (view p) (unat block mod 2 ^ 28), p'))"
    "quiet_view (view p')" "av_disk (view p') = av_disk (view p)" "av_sectors (view p') = av_sectors (view p)"
    "av_bad (view p') = av_bad (view p)"
proof -
  let ?n = "unat block mod 2 ^ 28"
  let ?v = "obeyed dn block ReadPio (view p)"
  let ?s = "av_disk (view p) ?n"
  have len: "length ?s = 512" using ok by (simp add: sectors_ok_def)
  then have ws: "words_of ?s \<noteq> []" using length_words_of [of ?s] by auto
  obtain q where q: "view q = ?v" "write_command io b dn block ReadPio p =
      (if av_fail ?v then Err (DeviceError DevInvalidOperation) else Ok (), q)"
    by (rule write_command_spec [OF laws quiet, where c = ReadPio and block = block])
      (use ws in \<open>auto simp: obeyed_read sending_def split: if_splits\<close>)
  show thesis
  proof (cases "?n < av_sectors (view p)")
    case False
    then show ?thesis using q quiet by (intro that [of q]) (auto simp: read_pio_def obeyed_read quiet_view_def)
  next
    case True
    have busy: "av_busy ?v = 0" using quiet by (rule obeyed_busy)
    have v: "av_transfer ?v = Sending (words_of ?s)" using True ws by (simp add: obeyed_read sending_def)
    have "length buf = 2 * length (words_of ?s)" using buf len by (simp add: length_words_of)
    from read_chunks_view [OF laws _ _ ws this, of q] busy v obtain q2 where q2:
      "read_chunks io b buf q = (?s, q2)" "view q2 = all_sent ?v"
      using len unfolding q(1) by (auto simp: bytes_of_words)
    have flaw: "av_fail (view q2) \<longleftrightarrow> ?n \<in> av_bad (view p)" using True by (simp add: q2(2) all_sent_def obeyed_read)
    have "av_busy (view q2) = 0" using busy by (simp add: q2(2) all_sent_def)
    then obtain q3 where q3: "bus_is_error io b q2 = (av_fail (view q2), q3)" "view q3 = view q2"
      using is_error_ready [OF laws, of q2] by metis
    have parts: "quiet_view (view q2)" "av_disk (view q2) = av_disk (view p)" "av_sectors (view q2) = av_sectors (view p)"
      "av_bad (view q2) = av_bad (view p)"
      using True busy by (simp_all add: q2(2) all_sent_def quiet_view_def obeyed_read)
    have "view (bus_debug io b q3) = view q2"
      using debug_view [OF laws, of q3] \<open>av_busy (view q2) = 0\<close> by (simp add: q3(2) busy_0)
    moreover have "read_pio io b dn block buf p =
        (if ?n \<in> av_bad (view p) then (Err (DeviceError ReadError), ?s, bus_debug io b q3) else (Ok (), ?s, q3))"
      using q(2) True q2(1) q3(1) flaw by (simp add: read_pio_def obeyed_read)
    ultimately show ?thesis using True q3(2) parts
      by (intro that [of "if ?n \<in> av_bad (view p) then bus_debug io b q3 else q3"]) simp_all
  qed
qed

text \<open>
  Writing a sector: the words reach the disk unless the sector is bad. Whether the error is seen
  depends on the drive being done when its status is read.
\<close>

lemma write_pio_spec:
  assumes laws: "ata_laws io b dn view" and quiet: "quiet_view (view p)" and data: "length data = 512"
  obtains r p' where "write_pio io b dn block data p = (r, p')"
    "av_disk (view p') = (if unat block mod 2 ^ 28 < av_sectors (view p) \<and> unat block mod 2 ^ 28 \<notin> av_bad (view p)
       then (av_disk (view p))(unat block mod 2 ^ 28 := data) else av_disk (view p))"
    "av_transfer (view p') = Quiet" "av_sectors (view p') = av_sectors (view p)" "av_bad (view p') = av_bad (view p)"
    "stores_at_once io b view \<or> av_sectors (view p) \<le> unat block mod 2 ^ 28 \<Longrightarrow> quiet_view (view p') \<and>
       r = (if av_sectors (view p) \<le> unat block mod 2 ^ 28 then Err (DeviceError DevInvalidOperation)
            else if unat block mod 2 ^ 28 \<in> av_bad (view p) then Err (DeviceError WriteError) else Ok ())"
    "unat block mod 2 ^ 28 < av_sectors (view p) \<Longrightarrow> \<exists>q w n ws e. av_busy (view q) = 0 \<and> av_transfer (view q) = Receiving n ws \<and>
       length ws = 255 \<and> bus_is_error io b (io_out16 io (ab_data b) w q) = e \<and>
       r = (if fst e then Err (DeviceError WriteError) else Ok ())"
proof -
  let ?n = "unat block mod 2 ^ 28"
  let ?v = "obeyed dn block WritePio (view p)"
  obtain q where q: "view q = ?v" "write_command io b dn block WritePio p =
      (if av_fail ?v then Err (DeviceError DevInvalidOperation) else Ok (), q)"
    by (rule write_command_spec [OF laws quiet, where c = WritePio and block = block])
      (auto simp: obeyed_write split: if_splits)
  show thesis
  proof (cases "?n < av_sectors (view p)")
    case False
    then show ?thesis using q quiet
      by (intro that [of "Err (DeviceError DevInvalidOperation)" q]) (auto simp: write_pio_def obeyed_write quiet_view_def)
  next
    case True
    let ?w = "(addressed dn block (view p))\<lparr>av_fail := False\<rparr>"
    let ?q = "write_chunks io b data q"
    have busy: "av_busy ?w = 0" using quiet by (simp add: quiet_view_def)
    have w: "view q = ?w\<lparr>av_transfer := Receiving ?n [], av_busy := 0\<rparr>"
      using q(1) True busy by (simp add: obeyed_write)
    have all: "bytes_of ([] @ words_of data) = data" using data by (simp add: bytes_of_words)
    have "length data = 2 * 256" "length ([] :: u16 list) + 256 = 256" "0 < (256 :: nat)" using data by simp_all
    from write_chunks_view [OF laws w this, unfolded all] obtain d q0 x us where
      last: "?q = io_out16 io (ab_data b) x q0" "av_busy (view q0) = 0" "av_transfer (view q0) = Receiving ?n us" "length us = 255"
      and d: "view ?q = ?w\<lparr>av_transfer := Quiet, av_fail := (?n \<in> av_bad ?w),
        av_disk := (if ?n \<in> av_bad ?w then av_disk ?w else (av_disk ?w)(?n := data)), av_busy := d\<rparr>"
      by (elim exE conjE) (rule that; assumption)
    obtain e q3 where e: "bus_is_error io b ?q = (e, q3)" by (cases "bus_is_error io b ?q")
    obtain m where q3: "view q3 = (view ?q)\<lparr>av_busy := m\<rparr>"
      by (rule status_view [OF laws, of ?q]) (use e in \<open>auto simp: bus_is_error_def\<close>)
    obtain m' where dbg: "view (bus_debug io b q3) = (view ?q)\<lparr>av_busy := m'\<rparr>"
      using debug_view [OF laws, of q3] q3 by auto
    let ?r = "if e then Err (DeviceError WriteError) else Ok () :: unit fs_result"
    let ?p = "if e then bus_debug io b q3 else q3"
    have run: "write_pio io b dn block data p = (?r, ?p)"
      using q(2) True e by (simp add: write_pio_def obeyed_write)
    obtain m'' where view: "view ?p = (view ?q)\<lparr>av_busy := m''\<rparr>" using q3 dbg by (cases e) auto
    have exact: "quiet_view (view ?p) \<and> (e \<longleftrightarrow> ?n \<in> av_bad (view p))" if "stores_at_once io b view"
    proof -
      have soon: "av_busy (view ?q) \<le> 4" using that last unfolding stores_at_once_def by metis
      obtain q4 where q4: "bus_is_error io b ?q = (av_fail (view ?q), q4)" "view q4 = (view ?q)\<lparr>av_busy := 0\<rparr>"
        by (rule is_error_soon [OF laws soon])
      then have "q4 = q3" "e = av_fail (view ?q)" using e by simp_all
      moreover have "view (bus_debug io b q3) = (view q3)\<lparr>av_busy := 0\<rparr>" if "q4 = q3"
        using debug_view [OF laws, of q3] q4(2) that by simp
      ultimately show ?thesis using q4(2) by (auto simp: d quiet_view_def)
    qed
    show ?thesis
    proof (rule that [OF run])
      show "\<exists>q w n ws e'. av_busy (view q) = 0 \<and> av_transfer (view q) = Receiving n ws \<and> length ws = 255 \<and>
          bus_is_error io b (io_out16 io (ab_data b) w q) = e' \<and> ?r = (if fst e' then Err (DeviceError WriteError) else Ok ())"
        using last e by (intro exI [of _ q0] exI [of _ x] exI [of _ ?n] exI [of _ us] exI [of _ "(e, q3)"]) simp
      show "quiet_view (view ?p) \<and> ?r = (if av_sectors (view p) \<le> ?n then Err (DeviceError DevInvalidOperation)
          else if ?n \<in> av_bad (view p) then Err (DeviceError WriteError) else Ok ())"
        if "stores_at_once io b view \<or> av_sectors (view p) \<le> ?n"
      proof -
        have "stores_at_once io b view" "\<not> av_sectors (view p) \<le> ?n" using that True by auto
        with exact show ?thesis by (cases e) simp_all
      qed
    qed (use True in \<open>simp_all add: view d\<close>)
  qed
qed

section \<open>A simulated drive\<close>

text \<open>
  Drive 0 on the first bus: the state is the view. A command keeps it busy for the reading of
  seven status registers, storing a sector for that of two, or, in \<open>slow_io\<close>, of nine.
\<close>

definition sim_status :: "ata_view \<Rightarrow> u8" where
  "sim_status v =
     (if 0 < av_busy v then 0x80
      else if av_fail v then if av_transfer v = Quiet then 0x41 else 0x49
      else if av_transfer v = Quiet then 0x40 else 0x48)"

definition sim_in8 :: "u16 \<Rightarrow> ata_view \<Rightarrow> u8 \<times> ata_view" where
  "sim_in8 port v =
     (if port = 0x1F7 \<or> port = 0x3F6 then (sim_status v, v\<lparr>av_busy := av_busy v - 1\<rparr>)
      else if port = 0x1F4 then (av_mid v, v)
      else if port = 0x1F5 then (av_high v, v)
      else (0, v))"

definition sim_in16 :: "u16 \<Rightarrow> ata_view \<Rightarrow> u16 \<times> ata_view" where
  "sim_in16 port v =
     (case av_transfer v of
        Sending ws \<Rightarrow> (case ws of [] \<Rightarrow> (0, v) | w # ws \<Rightarrow> (w, sent ws v))
      | _ \<Rightarrow> (0, v))"

definition sim_out8 :: "u16 \<Rightarrow> u8 \<Rightarrow> ata_view \<Rightarrow> ata_view" where
  "sim_out8 port x v =
     (if port = 0x1F2 then v\<lparr>av_count := x\<rparr>
      else if port = 0x1F3 then v\<lparr>av_low := x\<rparr>
      else if port = 0x1F4 then v\<lparr>av_mid := x\<rparr>
      else if port = 0x1F5 then v\<lparr>av_high := x\<rparr>
      else if port = 0x1F6 then v\<lparr>av_select := x\<rparr>
      else if port = 0x1F7 then (obey x v)\<lparr>av_busy := 7\<rparr>
      else v)"

definition sim_out16 :: "u16 \<Rightarrow> u16 \<Rightarrow> ata_view \<Rightarrow> ata_view" where
  "sim_out16 port w v =
     (case av_transfer v of
        Receiving n ws \<Rightarrow> (receive w v (Receiving n ws))\<lparr>av_busy := (if length ws < 255 then 0 else 2)\<rparr>
      | _ \<Rightarrow> v)"

definition sim_io :: "ata_view port_io" where
  "sim_io = \<lparr>io_in8 = sim_in8, io_in16 = sim_in16, io_out8 = sim_out8, io_out16 = sim_out16\<rparr>"

definition slow_io :: "ata_view port_io" where
  "slow_io = sim_io\<lparr>io_out16 := (\<lambda>port w v.
     case av_transfer v of
       Receiving n ws \<Rightarrow> (receive w v (Receiving n ws))\<lparr>av_busy := (if length ws < 255 then 0 else 9)\<rparr>
     | _ \<Rightarrow> v)\<rparr>"

definition sim_bus :: ata_bus where "sim_bus = ata_bus_new 0 14 0x1F0 0x3F6"

lemma sim_bus_ports [simp]:
  "ab_data sim_bus = 0x1F0" "ab_error sim_bus = 0x1F1" "ab_sector_count sim_bus = 0x1F2" "ab_lba_low sim_bus = 0x1F3"
  "ab_lba_mid sim_bus = 0x1F4" "ab_lba_high sim_bus = 0x1F5" "ab_drive sim_bus = 0x1F6" "ab_status sim_bus = 0x1F7"
  "ab_command sim_bus = 0x1F7" "ab_alternate_status sim_bus = 0x3F6"
  by (simp_all add: sim_bus_def ata_bus_new_def)

lemma sim_laws: "ata_laws sim_io sim_bus 0 (\<lambda>v. v)"
  unfolding ata_laws_def
  by (intro conjI allI ballI impI)
    (auto simp: sim_io_def sim_in8_def sim_in16_def sim_out8_def sim_out16_def sim_status_def obey_def
      sending_def sent_def split: transfer.splits)

lemma slow_laws: "ata_laws slow_io sim_bus 0 (\<lambda>v. v)"
  unfolding ata_laws_def
  by (intro conjI allI ballI impI)
    (auto simp: slow_io_def sim_io_def sim_in8_def sim_in16_def sim_out8_def sim_out16_def sim_status_def obey_def
      sending_def sent_def split: transfer.splits)

lemma sim_stores: "stores_at_once sim_io sim_bus (\<lambda>v. v)"
  unfolding stores_at_once_def by (auto simp: sim_io_def sim_out16_def)

section \<open>The properties\<close>

text \<open>
  C16: Reading or writing a block through the driver is what \<open>disk_device\<close> says, for every block
  number: the sector of its low 28 bits, an error beyond the drive's last sector, and an error for
  a sector the drive cannot transfer. A read leaves the drive ready and the disk as it was. A write
  leaves the disk that \<open>disk_device\<close> gives, whatever the drive's speed; its result is that of
  \<open>disk_device\<close>, with the drive ready, if the drive is done with the sector
  when the driver reads its status after the last word, which \<open>write_pio\<close> does not wait for.
\<close>

lemma ata_implements_disk:
  fixes n :: nat
  assumes laws: "ata_laws io b (ad_drive d) view" and bus: "index_at BUSES (unat (ad_bus d)) = (Ok b :: ata_bus fs_result)"
    and quiet: "quiet_view (view p)" and ok: "sectors_ok (view p)"
    and lengths: "length block = 512" "length data = 512"
  defines "dev \<equiv> disk_device (av_sectors (view p)) (av_bad (view p)) n"
  shows "\<exists>p1 r p2.
    (case bd_read dev (av_disk (view p)) off of
       Ok bs \<Rightarrow> drive_read_block io d off block p = (Ok (), bs, p1)
     | Err e \<Rightarrow> (\<exists>buf. drive_read_block io d off block p = (Err e, buf, p1) \<and> (e \<noteq> DeviceError ReadError \<longrightarrow> buf = block))
     | _ \<Rightarrow> False) \<and>
    quiet_view (view p1) \<and> av_disk (view p1) = av_disk (view p) \<and>
    drive_write_block io d off data p = (r, p2) \<and>
    av_disk (view p2) = (case bd_write dev (av_disk (view p)) off data of Ok disk \<Rightarrow> disk | _ \<Rightarrow> av_disk (view p)) \<and>
    av_transfer (view p2) = Quiet \<and> sectors_ok (view p2) \<and>
    (stores_at_once io b view \<or> av_sectors (view p) \<le> off mod 2 ^ 28 \<longrightarrow>
       quiet_view (view p2) \<and>
       (case bd_write dev (av_disk (view p)) off data of Ok disk \<Rightarrow> r = Ok () | Err e \<Rightarrow> r = Err e | _ \<Rightarrow> False))"
proof -
  let ?n = "off mod 2 ^ 28"
  obtain p1 where p1: "drive_read_block io d off block p =
       (if av_sectors (view p) \<le> ?n then (Err (DeviceError DevInvalidOperation), block, p1)
        else (if ?n \<in> av_bad (view p) then Err (DeviceError ReadError) else Ok (), av_disk (view p) ?n, p1))"
    "quiet_view (view p1)" "av_disk (view p1) = av_disk (view p)"
    using read_pio_spec [OF laws quiet ok lengths(1), of "of_nat off"] bus
    unfolding block_number by (auto simp: drive_read_block_def)
  obtain r p2 where p2: "drive_write_block io d off data p = (r, p2)"
    "av_disk (view p2) = (if ?n < av_sectors (view p) \<and> ?n \<notin> av_bad (view p)
       then (av_disk (view p))(?n := data) else av_disk (view p))" "av_transfer (view p2) = Quiet"
    "stores_at_once io b view \<or> av_sectors (view p) \<le> ?n \<Longrightarrow> quiet_view (view p2) \<and>
       r = (if av_sectors (view p) \<le> ?n then Err (DeviceError DevInvalidOperation)
            else if ?n \<in> av_bad (view p) then Err (DeviceError WriteError) else Ok ())"
    by (rule write_pio_spec [OF laws quiet lengths(2), of "of_nat off", unfolded block_number])
      (use bus in \<open>auto simp: drive_write_block_def\<close>)
  have rd: "bd_read dev (av_disk (view p)) off =
      (if av_sectors (view p) \<le> ?n then Err (DeviceError DevInvalidOperation)
       else if ?n \<in> av_bad (view p) then Err (DeviceError ReadError) else Ok (av_disk (view p) ?n))"
    and wr: "bd_write dev (av_disk (view p)) off data =
      (if av_sectors (view p) \<le> ?n then Err (DeviceError DevInvalidOperation)
       else if ?n \<in> av_bad (view p) then Err (DeviceError WriteError) else Ok ((av_disk (view p))(?n := data)))"
    by (simp_all add: dev_def disk_device_def Let_def)
  have "sectors_ok (view p2)" using ok lengths(2) by (auto simp: p2(2) sectors_ok_def)
  then show ?thesis
    unfolding rd wr using p1 p2 by (intro exI [of _ p1] exI [of _ r] exI [of _ p2]) (auto simp: not_le)
qed

text \<open>
  A drive that is still busy when its status is read, with the error flag not set yet: writing a
  bad sector is reported as done.
\<close>

lemma write_error_unseen:
  assumes laws: "ata_laws io b (ad_drive d) view" and bus: "index_at BUSES (unat (ad_bus d)) = (Ok b :: ata_bus fs_result)"
    and quiet: "quiet_view (view p)" and data: "length data = 512"
    and bad: "off mod 2 ^ 28 < av_sectors (view p)" "off mod 2 ^ 28 \<in> av_bad (view p)"
    and slow: "\<And>q w n ws. av_busy (view q) = 0 \<Longrightarrow> av_transfer (view q) = Receiving n ws \<Longrightarrow> length ws = 255 \<Longrightarrow>
      fst (bus_status io b (io_out16 io (ab_data b) w q)) AND STATUS_ERROR = 0"
  shows "\<exists>p'. drive_write_block io d off data p = (Ok (), p') \<and> av_disk (view p') = av_disk (view p)"
proof -
  obtain r p' where p': "write_pio io b (ad_drive d) (of_nat off) data p = (r, p')" "av_disk (view p') = av_disk (view p)"
    "\<exists>q w n ws e. av_busy (view q) = 0 \<and> av_transfer (view q) = Receiving n ws \<and> length ws = 255 \<and>
       bus_is_error io b (io_out16 io (ab_data b) w q) = e \<and> r = (if fst e then Err (DeviceError WriteError) else Ok ())"
    by (rule write_pio_spec [OF laws quiet data, of "of_nat off", unfolded block_number]) (use bad in auto)
  then obtain q w n ws where q: "av_busy (view q) = 0" "av_transfer (view q) = Receiving n ws" "length ws = 255"
    "r = (if fst (bus_is_error io b (io_out16 io (ab_data b) w q)) then Err (DeviceError WriteError) else Ok ())" by auto
  have "r = Ok ()" using slow [OF q(1-3), of w] q(4) by (simp add: bus_is_error_def STATUS_ERROR_def split_beta)
  then show ?thesis using p'(1, 2) bus by (simp add: drive_write_block_def)
qed

definition sim_view :: ata_view where
  "sim_view =
     \<lparr>av_disk = (\<lambda>n. replicate 512 (of_nat n)), av_sectors = 10, av_bad = {}, av_ident = replicate 256 0, av_count = 0,
      av_low = 0, av_mid = 0, av_high = 0, av_select = 0, av_busy = 0, av_fail = False, av_flaw = False,
      av_transfer = Quiet\<rparr>"

definition sim_drive :: ata_drive where
  "sim_drive = \<lparr>ad_bus = 0, ad_drive = 0, ad_blocks = 10, ad_model = [], ad_serial = []\<rparr>"

lemma sim_drive_bus:
  "ata_laws sim_io sim_bus (ad_drive sim_drive) (\<lambda>v. v)" "ata_laws slow_io sim_bus (ad_drive sim_drive) (\<lambda>v. v)"
  "index_at BUSES (unat (ad_bus sim_drive)) = (Ok sim_bus :: ata_bus fs_result)"
  using sim_laws slow_laws by (simp_all add: sim_drive_def BUSES_def sim_bus_def index_at_def)

lemma ata_implements_disk_witness:
  "\<exists>p1 p2 p3 p4 buf. drive_read_block sim_io sim_drive (2 ^ 28 + 3) (replicate 512 0) (sim_view\<lparr>av_bad := {5}\<rparr>) =
      (Ok (), replicate 512 3, p1) \<and>
    drive_write_block sim_io sim_drive 4 (replicate 512 7) (sim_view\<lparr>av_bad := {5}\<rparr>) = (Ok (), p2) \<and>
    av_disk p2 = (\<lambda>n. replicate 512 (of_nat n))(4 := replicate 512 7) \<and>
    drive_read_block sim_io sim_drive 5 (replicate 512 0) (sim_view\<lparr>av_bad := {5}\<rparr>) = (Err (DeviceError ReadError), buf, p3) \<and>
    drive_write_block sim_io sim_drive 5 (replicate 512 7) (sim_view\<lparr>av_bad := {5}\<rparr>) = (Err (DeviceError WriteError), p4)"
proof -
  have ok: "quiet_view (sim_view\<lparr>av_bad := {5}\<rparr>)" "sectors_ok (sim_view\<lparr>av_bad := {5}\<rparr>)"
    "length (replicate 512 (0 :: u8)) = 512" "length (replicate 512 (7 :: u8)) = 512"
    by (simp_all add: quiet_view_def sim_view_def sectors_ok_def)
  note res = ata_implements_disk [OF sim_drive_bus(1, 3) ok]
  show ?thesis using res [where off = "2 ^ 28 + 3"] res [where off = 4] res [where off = 5] sim_stores
    by (auto simp: disk_device_def sim_view_def)
qed

text \<open>The slow drive: bad sector 4 is written without an error.\<close>

lemma slow_write_unseen:
  "\<exists>p'. drive_write_block slow_io sim_drive 4 (replicate 512 7) (sim_view\<lparr>av_bad := {4}\<rparr>) = (Ok (), p') \<and>
    av_disk p' = av_disk sim_view"
proof -
  have "fst (bus_status slow_io sim_bus (io_out16 slow_io (ab_data sim_bus) w q)) AND STATUS_ERROR = 0"
    if "av_transfer q = Receiving n ws" "length ws = 255" for q w n ws
    using that by (simp add: bus_status_def slow_io_def sim_io_def sim_in8_def sim_status_def numeral_eq_Suc STATUS_ERROR_def)
  from write_error_unseen [OF sim_drive_bus(2, 3), of "sim_view\<lparr>av_bad := {4}\<rparr>" "replicate 512 7" 4] this
  show ?thesis by (auto simp: quiet_view_def sim_view_def)
qed

section \<open>Opening a drive\<close>

lemma be_bytes_nth:
  "i < length ws \<Longrightarrow> concat (map u16_to_be ws) ! (2 * i) = ucast (drop_bit 8 (ws ! i)) \<and>
     concat (map u16_to_be ws) ! Suc (2 * i) = ucast (ws ! i)"
proof (induction ws arbitrary: i)
  case (Cons w ws)
  then show ?case by (cases i) (auto simp: u16_to_be_def)
qed simp

lemma length_be_bytes: "length (concat (map u16_to_be ws)) = 2 * length ws"
  by (induction ws) (simp_all add: u16_to_be_def)

lemma u16_le_halves: "ucast (u16_le x y) = x" "ucast (drop_bit 8 (u16_le x y)) = y"
  unfolding u16_le_def by (rule bit_word_eqI; auto simp: bit_simps dest: bit_imp_le_length)+

lemma identified_ids:
  "identified bus drive ws = Ok d \<Longrightarrow> ad_bus d = bus \<and> ad_drive d = drive"
  by (auto simp: identified_def Let_def outcome_simps)

lemma identified_blocks:
  assumes "length ws = 256" "ws ! 60 = u16_le b0 b1" "ws ! 61 = u16_le b2 b3"
  obtains d where "identified bus drive ws = Ok d" "ad_blocks d = u32_le b1 b0 b3 b2"
proof -
  have "concat (map u16_to_be ws) ! 120 = b1" "concat (map u16_to_be ws) ! 121 = b0"
    "concat (map u16_to_be ws) ! 122 = b3" "concat (map u16_to_be ws) ! 123 = b2"
    using be_bytes_nth [of 60 ws] be_bytes_nth [of 61 ws] assms by (simp_all add: u16_le_halves)
  then have "\<exists>d. identified bus drive ws = Ok d \<and> ad_blocks d = u32_le b1 b0 b3 b2"
    using assms(1) by (simp add: identified_def Let_def slice_def index_at_def length_be_bytes)
  then show thesis using that by blast
qed

lemma identify_drive_spec:
  assumes laws: "ata_laws io b dn view" and quiet: "quiet_view (view p)" and ident: "av_ident (view p) \<noteq> []"
    and n: "length (av_ident (view p)) = 256"
  obtains p' where "identify_drive io b dn p = (Ok (Pata (av_ident (view p))), p')"
    "quiet_view (view p')" "av_disk (view p') = av_disk (view p)" "av_sectors (view p') = av_sectors (view p)"
    "av_bad (view p') = av_bad (view p)"
proof -
  let ?v = "obeyed dn 0 IdentifyDevice (view p)"
  let ?w = "(addressed dn 0 (view p))\<lparr>av_fail := False, av_flaw := False, av_mid := 0, av_high := 0\<rparr>"
  have v: "?v = ?w\<lparr>av_transfer := sending (av_ident (view p))\<rparr>"
    by (simp add: obeyed_def obey_def addressed_def)
  obtain q where q: "view q = ?v" "write_command io b dn 0 IdentifyDevice p =
      (if av_fail ?v then Err (DeviceError DevInvalidOperation) else Ok (), q)"
    by (rule write_command_spec [OF laws quiet, where c = IdentifyDevice and block = 0])
      (use ident in \<open>auto simp: v sending_def\<close>)
  obtain q1 where q1: "poll io b STATUS_BUSY False q = (Ok (), q1)" "view q1 = (view q)\<lparr>av_busy := 0\<rparr>"
    by (rule poll_busy [OF laws])
  have v1: "view q1 = ?v" using q1(2) q(1) obeyed_busy [OF quiet] by (simp add: busy_0)
  have ready: "av_busy ?w = 0" using quiet by (simp add: quiet_view_def)
  obtain q2 where q2: "cylinder_low io b q1 = (0, q2)" "view q2 = ?v"
    using ata_laws_cylinders [OF laws, of q1] ready unfolding v1 cylinder_low_def by (auto simp: v)
  obtain q3 where q3: "cylinder_high io b q2 = (0, q3)" "view q3 = ?v"
    using ata_laws_cylinders [OF laws, of q2] ready unfolding q2(2) cylinder_high_def by (auto simp: v)
  have "av_busy (view q3) = 0" "av_transfer (view q3) = Sending (av_ident (view p))"
    using ident quiet by (simp_all add: q3(2) v sending_def quiet_view_def)
  from read_words_view [OF laws this ident] obtain q4 where
    q4: "read_words io b 256 q3 = (av_ident (view p), q4)" "view q4 = all_sent ?v" using n q3(2) by auto
  have "identify_drive io b dn p = (Ok (Pata (av_ident (view p))), q4)"
    using q(2) q1(1) q2(1) q3(1) q4(1) by (simp add: identify_drive_def v)
  then show thesis using q4(2) ready by (intro that [of q4]) (simp_all add: quiet_view_def all_sent_def v)
qed

text \<open>Opening a drive: the log line fails for a size that \<open>humanized_size\<close> cannot show.\<close>

lemma drive_open_spec:
  assumes laws: "ata_laws io b drive view" and bus: "index_at BUSES (unat bus) = (Ok b :: ata_bus fs_result)"
    and quiet: "quiet_view (view p)" and n: "length (av_ident (view p)) = 256"
    and d: "identified bus drive (av_ident (view p)) = Ok d"
  obtains p' where
    "drive_open io bus drive p = (if 2 ^ 31 - 64 \<le> unat (ad_blocks d) then Panic else Ok (Some d), p')"
    "quiet_view (view p')" "av_disk (view p') = av_disk (view p)" "av_sectors (view p') = av_sectors (view p)"
    "av_bad (view p') = av_bad (view p)"
proof -
  have "av_ident (view p) \<noteq> []" using n by auto
  from identify_drive_spec [OF laws quiet this n] obtain p' where p':
    "identify_drive io b drive p = (Ok (Pata (av_ident (view p))), p')"
    "quiet_view (view p')" "av_disk (view p') = av_disk (view p)" "av_sectors (view p') = av_sectors (view p)"
    "av_bad (view p') = av_bad (view p)" .
  let ?n = "unat (ad_blocks d)"
  have "512 * ?n < 18446744073709551616" using unat_u32_less [of "ad_blocks d"] by linarith
  then have "unat (of_nat (512 * ?n) :: u64) = 512 * ?n"
    by (simp add: unsigned_of_nat take_bit_eq_mod del: of_nat_mult)
  then obtain s where s: "drive_humanized_size d = (if 2 ^ 31 - 64 \<le> ?n then Panic else Ok s :: ((nat \<times> nat) \<times> u8 list) fs_result)"
    unfolding drive_humanized_size_def humanized_size_def humanized_size_impl_eq by simp
  have "drive_open io bus drive p = (if 2 ^ 31 - 64 \<le> ?n then Panic else Ok (Some d), p')"
    using bus p'(1) d by (simp add: drive_open_def s)
  then show thesis using p'(2-) by (rule that)
qed

text \<open>
  The driver takes the number of sectors from words 60 and 61 of the identification with the
  two bytes of each swapped: a drive of \<open>b0 b1 b2 b3\<close> sectors, low byte first, is opened as one
  of \<open>b1 b0 b3 b2\<close>, and when that number is near \<open>2\<^sup>3\<^sup>1\<close> or more, opening it panics.
\<close>

lemma drive_open_blocks:
  assumes laws: "ata_laws io b drive view" and bus: "index_at BUSES (unat bus) = (Ok b :: ata_bus fs_result)"
    and quiet: "quiet_view (view p)" and n: "length (av_ident (view p)) = 256"
    and count: "av_ident (view p) ! 60 = u16_le b0 b1" "av_ident (view p) ! 61 = u16_le b2 b3"
  shows "if 2 ^ 31 - 64 \<le> unat (u32_le b1 b0 b3 b2) then fst (drive_open io bus drive p) = Panic
    else \<exists>d p'. drive_open io bus drive p = (Ok (Some d), p') \<and> drive_block_count d = Ok (unat (u32_le b1 b0 b3 b2))"
proof -
  obtain d where d: "identified bus drive (av_ident (view p)) = Ok d" "ad_blocks d = u32_le b1 b0 b3 b2"
    by (rule identified_blocks [OF n count])
  obtain p' where "drive_open io bus drive p = (if 2 ^ 31 - 64 \<le> unat (ad_blocks d) then Panic else Ok (Some d), p')"
    by (rule drive_open_spec [OF laws bus quiet n d(1)])
  then show ?thesis unfolding d(2) [symmetric] drive_block_count_def by simp
qed

text \<open>A drive of 64512 sectors, 31.5 MiB, is opened as one of 252.\<close>

lemma drive_open_blocks_witness:
  "\<exists>d p'. drive_open sim_io 0 0 (sim_view\<lparr>av_ident := (replicate 256 0)[60 := 0xFC00]\<rparr>) = (Ok (Some d), p') \<and>
    drive_block_count d = Ok 252"
proof -
  let ?v = "sim_view\<lparr>av_ident := (replicate 256 0)[60 := 0xFC00]\<rparr>"
  have "index_at BUSES (unat (0 :: u8)) = (Ok sim_bus :: ata_bus fs_result)"
    by (simp add: BUSES_def sim_bus_def index_at_def)
  moreover have "av_ident ?v ! 60 = u16_le 0x00 0xFC" "av_ident ?v ! 61 = u16_le 0 0"
    by (simp_all add: u16_le_def)
  ultimately show ?thesis
    using drive_open_blocks [OF sim_laws, of 0 ?v "0x00" "0xFC" 0 0] by (simp add: quiet_view_def sim_view_def unat_u32_le)
qed

end
