(* ===== verification/Rootfs.thy ===== *)
theory Rootfs
  imports AtaSpec StorageSpec
begin

text \<open>
  The file system of the kernel, \<open>pkg/kernel/src/drivers/filesystem.rs\<close>: the first partition of
  the first drive, mounted at the root. Reading a block leaves what the drive shows as it is,
  so the driver as a block device keeps the state behind the ports when it reads.
\<close>

section \<open>The drive as a block device\<close>

definition drive_device :: "'p port_io \<Rightarrow> ata_drive \<Rightarrow> 'p block_device" where
  "drive_device io d =
     \<lparr>bd_count = (\<lambda>p. drive_block_count d),
      bd_read = (\<lambda>p off.
        case drive_read_block io d off block_default p of
          (r, block, q) \<Rightarrow> andThen r (\<lambda>_. Ok block)),
      bd_write = (\<lambda>p off block.
        case drive_write_block io d off block p of (r, q) \<Rightarrow> andThen r (\<lambda>_. Ok q))\<rparr>"

section \<open>Mounting\<close>

text \<open>
  \<open>init\<close>: every \<open>expect\<close> is a panic, as is \<open>remove(0)\<close> of a vector without elements.
  \<open>call_once\<close> runs its function the first time only.
\<close>

definition first_partition :: "'p port_io \<Rightarrow> 'p \<Rightarrow> 'p partition fs_result \<times> 'p" where
  "first_partition io p =
     (case drive_open io 0 0 p of
        (Ok (Some drive), p) \<Rightarrow>
          (case andThen (mbr_table_parse (drive_device io drive) p) mbr_partitions of
             Ok (part # _) \<Rightarrow> (Ok part, p)
           | Diverge \<Rightarrow> (Diverge, p)
           | _ \<Rightarrow> (Panic, p))
      | (Diverge, p) \<Rightarrow> (Diverge, p)
      | (_, p) \<Rightarrow> (Panic, p))"

definition filesystem_init ::
  "'p port_io \<Rightarrow> 't externs \<Rightarrow> (('p, 't) fat_file, 't) mount option \<Rightarrow> 'p \<Rightarrow>
    (('p, 't) fat_file, 't) mount option fs_result \<times> 'p" where
  "filesystem_init io x rootfs p =
     doS (first_partition io p) (\<lambda>part p.
       case rootfs of
         Some m \<Rightarrow> (Ok (Some m), p)
       | None \<Rightarrow>
           andThenS (fat16_new (partition_device part) p) p (\<lambda>fs.
             (Ok (Some \<lparr>mnt_fs = fat16_file_system fs x, mount_point = [0x2F]\<rparr>), p)))"

definition get_rootfs :: "('f, 't) mount option \<Rightarrow> ('f, 't) mount fs_result" where
  "get_rootfs rootfs = (case rootfs of Some m \<Rightarrow> Ok m | None \<Rightarrow> Panic)"

section \<open>Listing a directory\<close>

text \<open>
  A row: the type, the name, the value and unit of the size, and the two times as \<open>chrono\<close>
  formats them. The padding of the columns and the rounding to one digit are left out.
\<close>

record ls_row =
  row_type :: "u8 list"
  row_size :: "((nat \<times> nat) \<times> u8 list) option"
  row_name :: "u8 list"
  row_modified :: "u8 list"
  row_created :: "u8 list"

definition ls_time :: "('t \<Rightarrow> u8 list) \<Rightarrow> 't option \<Rightarrow> u8 list" where
  "ls_time format t = (case t of Some time \<Rightarrow> format time | None \<Rightarrow> [0x4E, 0x2F, 0x41])"

definition ls_line :: "('t \<Rightarrow> u8 list) \<Rightarrow> 't metadata \<Rightarrow> ls_row fs_result" where
  "ls_line format meta =
     andThen (if metadata_is_dir meta then Ok None
              else andThen (humanized_size_short (of_nat (md_len meta))) (\<lambda>s. Ok (Some s))) (\<lambda>sz.
       Ok \<lparr>row_type = (if metadata_is_dir meta then [0x44, 0x49, 0x52] else [0x46, 0x49, 0x4C, 0x45]),
           row_size = sz,
           row_name = (if metadata_is_dir meta then md_name meta @ [0x2F] else md_name meta),
           row_modified = ls_time format (md_modified meta),
           row_created = ls_time format (md_created meta)\<rparr>)"

text \<open>A directory that cannot be read is a warning and no row.\<close>

definition filesystem_ls ::
  "('t \<Rightarrow> u8 list) \<Rightarrow> ('f, 't) mount option \<Rightarrow> u8 list \<Rightarrow> ls_row list fs_result" where
  "filesystem_ls format rootfs root_path =
     andThen (get_rootfs rootfs) (\<lambda>m.
       case mount_read_dir m root_path of
         Ok iter \<Rightarrow> map_res (ls_line format) iter
       | Err e \<Rightarrow> Ok []
       | Panic \<Rightarrow> Panic
       | Diverge \<Rightarrow> Diverge)"

section \<open>What is mounted\<close>

text \<open>The driver reads what \<open>disk_device\<close> says, whatever the block it reads into held before.\<close>

lemma drive_device_read:
  assumes laws: "ata_laws io b (ad_drive d) view" and bus: "index_at BUSES (unat (ad_bus d)) = (Ok b :: ata_bus fs_result)"
    and quiet: "quiet_view (view p)" and ok: "sectors_ok (view p)"
  shows "bd_read (drive_device io d) p = bd_read (disk_device (av_sectors (view p)) (av_bad (view p)) n) (av_disk (view p))"
proof
  fix off
  have "length block_default = 512" by (simp add: block_default_def BLOCK_SIZE_def)
  then obtain q where "read_pio io b (ad_drive d) (of_nat off) block_default p =
       (if av_sectors (view p) \<le> off mod 2 ^ 28 then (Err (DeviceError DevInvalidOperation), block_default, q)
        else (if off mod 2 ^ 28 \<in> av_bad (view p) then Err (DeviceError ReadError) else Ok (),
              av_disk (view p) (off mod 2 ^ 28), q))"
    using read_pio_spec [OF laws quiet ok, of block_default "of_nat off"] unfolding block_number by metis
  then show "bd_read (drive_device io d) p off = bd_read (disk_device (av_sectors (view p)) (av_bad (view p)) n) (av_disk (view p)) off"
    using bus by (simp add: drive_device_def drive_read_block_def disk_device_def Let_def)
qed

text \<open>The partition of the first active entry, on any device.\<close>

definition active_entries :: "u8 list \<Rightarrow> nat list" where
  "active_entries mbr = filter (\<lambda>i. mbr ! (0x1BE + i * 16) = 0x80) [0, 1, 2, 3]"

lemma first_part:
  assumes "bd_read inner p 0 = Ok mbr" "length mbr = BLOCK_SIZE"
  shows "andThen (mbr_table_parse inner p) mbr_partitions =
    Ok (map (\<lambda>i. partition_new inner (unat (field_u32 mbr (0x1BE + i * 16 + 0x08)))
      (unat (field_u32 mbr (0x1BE + i * 16 + 0x0C)))) (active_entries mbr))"
proof -
  have "filter (is_active \<circ> mbr_entry mbr) [0, 1, 2, 3] = active_entries mbr"
    unfolding active_entries_def using assms(2) by (intro filter_cong) (auto simp: mbr_entry_active)
  moreover have "i < 4" if "i \<in> set (active_entries mbr)" for i using that by (auto simp: active_entries_def split: if_splits)
  ultimately show ?thesis
    using assms by (simp only: mbr_table_parse_ok [OF assms] andThen.simps mbr_partitions_def mbr_table.simps
      filter_map map_map comp_def) (simp add: mbr_entry_lba)
qed

text \<open>Opening a volume on a device: what it reads is what the device reads.\<close>

lemma fat16_new_spec:
  assumes "\<And>s. bd_read dev p s \<noteq> Diverge"
  shows "case andThen (bd_read dev p 0) fat16_bpb_new of
      Ok bpb \<Rightarrow>
        (if bps bpb = 0 then fat16_new dev p = Panic
         else \<exists>fs. fat16_new dev p = Ok fs \<and> f_bpb fs = bpb \<and> f_read fs = bd_read dev p)
    | _ \<Rightarrow> fat16_new dev p = Panic"
  using assms [of 0]
  by (auto simp: fat16_new_def f_read_def root_dir_size_def fat16_bpb_new_def Let_def split: res.splits)

lemma drive_open_quiet:
  assumes laws: "ata_laws io b 0 view" and b: "b = hd BUSES"
    and quiet: "quiet_view (view p)" and n: "length (av_ident (view p)) = 256"
    and d: "identified 0 0 (av_ident (view p)) = Ok d" and small: "unat (ad_blocks d) < 2 ^ 31 - 64"
  obtains q where "drive_open io 0 0 p = (Ok (Some d), q)"
    "quiet_view (view q)" "av_disk (view q) = av_disk (view p)" "av_sectors (view q) = av_sectors (view p)"
    "av_bad (view q) = av_bad (view p)"
proof -
  have bus: "index_at BUSES (unat (0 :: u8)) = (Ok b :: ata_bus fs_result)"
    by (simp add: b BUSES_def index_at_def)
  show thesis
    by (rule drive_open_spec [OF laws bus quiet n d]) (use small in \<open>auto intro: that\<close>)
qed

text \<open>
  C30: On a drive that keeps the protocol, \<open>init\<close> mounts the partition of the first active entry
  of the master boot record at the root: a volume with the parameters of the partition's first
  block, whose block \<open>s\<close> is block \<open>s\<close> of the partition on the disk and an error outside of it.
  Without an active entry, or when the boot record or the first block cannot be read, or the first
  block has no signature or a sector size of 0, the kernel panics. The disk is left as it is.
\<close>

theorem rootfs_mounts:
  assumes laws: "ata_laws io (hd BUSES) 0 view" and quiet: "quiet_view (view p)" and ok: "sectors_ok (view p)"
    and n: "length (av_ident (view p)) = 256" and d: "identified 0 0 (av_ident (view p)) = Ok d"
    and small: "unat (ad_blocks d) < 2 ^ 31 - 64"
  defines "disk \<equiv> bd_read (disk_device (av_sectors (view p)) (av_bad (view p)) (unat (ad_blocks d))) (av_disk (view p))"
  shows "\<exists>q. quiet_view (view q) \<and> av_disk (view q) = av_disk (view p) \<and>
    (case disk 0 of
       Ok mbr \<Rightarrow>
         (case active_entries mbr of
            [] \<Rightarrow> filesystem_init io x None p = (Panic, q)
          | i # _ \<Rightarrow>
              let first = unat (field_u32 mbr (0x1BE + i * 16 + 0x08));
                  total = unat (field_u32 mbr (0x1BE + i * 16 + 0x0C));
                  block = (\<lambda>s. if s < total then disk (first + s) else Err InvalidOffset)
              in (case andThen (block 0) fat16_bpb_new of
                   Ok bpb \<Rightarrow>
                     if bps bpb = 0 then filesystem_init io x None p = (Panic, q)
                     else \<exists>fs. filesystem_init io x None p =
                         (Ok (Some \<lparr>mnt_fs = fat16_file_system fs x, mount_point = [0x2F]\<rparr>), q) \<and>
                       f_bpb fs = bpb \<and> f_read fs = block
                 | _ \<Rightarrow> filesystem_init io x None p = (Panic, q)))
     | _ \<Rightarrow> filesystem_init io x None p = (Panic, q))"
proof -
  obtain q where q: "drive_open io 0 0 p = (Ok (Some d), q)"
    "quiet_view (view q)" "av_disk (view q) = av_disk (view p)" "av_sectors (view q) = av_sectors (view p)"
    "av_bad (view q) = av_bad (view p)"
    by (rule drive_open_quiet [OF laws refl quiet n d small])
  let ?dev = "drive_device io d"
  have ids: "ad_bus d = 0" "ad_drive d = 0" using identified_ids [OF d] by simp_all
  have bus: "index_at BUSES (unat (ad_bus d)) = (Ok (hd BUSES) :: ata_bus fs_result)"
    by (simp add: ids BUSES_def index_at_def)
  have read: "bd_read ?dev q = disk"
    using drive_device_read [OF laws [folded ids(2)] bus q(2)] ok q(3-5) by (simp add: sectors_ok_def disk_def)
  have total: "disk s \<noteq> Diverge" for s by (simp add: disk_def disk_device_def Let_def)
  show ?thesis
  proof (cases "disk 0")
    case (Ok mbr)
    then have "length mbr = BLOCK_SIZE"
      using ok by (auto simp: disk_def disk_device_def Let_def sectors_ok_def BLOCK_SIZE_def split: if_splits)
    note parts = first_part [OF Ok [folded read] this]
    show ?thesis
    proof (cases "active_entries mbr")
      case Nil
      then show ?thesis using q parts Ok by (intro exI [of _ q]) (simp add: filesystem_init_def first_partition_def)
    next
      case (Cons i rest)
      let ?first = "unat (field_u32 mbr (0x1BE + i * 16 + 0x08))"
      let ?total = "unat (field_u32 mbr (0x1BE + i * 16 + 0x0C))"
      let ?part = "partition_device (partition_new ?dev ?first ?total)"
      have init: "filesystem_init io x None p = andThenS (fat16_new ?part q) q (\<lambda>fs.
          (Ok (Some \<lparr>mnt_fs = fat16_file_system fs x, mount_point = [0x2F]\<rparr>), q))"
        using q(1) parts Cons by (simp add: filesystem_init_def first_partition_def)
      have block: "bd_read ?part q = (\<lambda>s. if s < ?total then disk (?first + s) else Err InvalidOffset)"
        by (rule ext) (simp add: partition_device_def partition_read_block_def partition_new_def read)
      have "bd_read ?part q s \<noteq> Diverge" for s unfolding block by (simp add: total)
      note vol = fat16_new_spec [OF this, unfolded block]
      show ?thesis
        using vol q(2, 3) unfolding Ok res.case Cons list.case Let_def
        by (intro exI [of _ q]) (auto simp: init split: res.splits if_splits)
    qed
  next
    case (Err e)
    then show ?thesis using q read
      by (intro exI [of _ q]) (simp add: filesystem_init_def first_partition_def mbr_table_parse_def)
  next
    case Panic
    then show ?thesis using q read
      by (intro exI [of _ q]) (simp add: filesystem_init_def first_partition_def mbr_table_parse_def)
  qed (use total in simp)
qed

text \<open>A disk with the sample volume in its first partition, of two blocks.\<close>

definition sample_disk :: ata_view where
  "sample_disk = sim_view\<lparr>av_disk := (\<lambda>n. replicate 512 0)(0 := mbr_sector, 4 := boot_sector, 5 := fat_sector)\<rparr>"

theorem rootfs_mounts_witness:
  "\<exists>fs q. filesystem_init sim_io sample_externs None sample_disk =
      (Ok (Some \<lparr>mnt_fs = fat16_file_system fs sample_externs, mount_point = [0x2F]\<rparr>), q) \<and>
    f_bpb fs = \<lparr>bpb_data = boot_sector\<rparr> \<and> f_read fs 1 = Ok fat_sector \<and> f_read fs 2 = Err InvalidOffset"
proof -
  have bytes: "mbr_sector ! 446 = 0x80" "mbr_sector ! 462 = 0" "mbr_sector ! 478 = 0" "mbr_sector ! 494 = 0"
    "length mbr_sector = 512"
    by (simp_all add: mbr_sector_def nth_append)
  have lba: "field_u32 mbr_sector 454 = 4" "field_u32 mbr_sector 458 = 2"
    using bytes(5) by (simp_all add: field_u32_def) (simp_all add: mbr_sector_def nth_append u32_le_def)
  have bus: "hd BUSES = sim_bus" by (simp add: BUSES_def sim_bus_def)
  have view: "quiet_view sample_disk" "sectors_ok sample_disk" "length (av_ident sample_disk) = 256"
    "av_sectors sample_disk = 10" and bad: "av_bad sample_disk = {}"
    using bytes(5) by (simp_all add: sample_disk_def sim_view_def quiet_view_def sectors_ok_def)
  obtain d where d: "identified 0 0 (av_ident sample_disk) = Ok d" "ad_blocks d = u32_le 0 0 0 0"
    by (rule identified_blocks [OF view(3), where ?b0.0 = 0 and ?b1.0 = 0 and ?b2.0 = 0 and ?b3.0 = 0])
      (simp_all add: sample_disk_def sim_view_def u16_le_def)
  have small: "unat (ad_blocks d) < 2 ^ 31 - 64" by (simp add: d(2) u32_le_def)
  have active: "active_entries (av_disk sample_disk 0) = [0]"
    using bytes by (simp add: active_entries_def sample_disk_def)
  have bpb: "fat16_bpb_new boot_sector = Ok \<lparr>bpb_data = boot_sector\<rparr>" by (simp add: fat16_bpb_new_def)
  have disk: "av_disk sample_disk 0 = mbr_sector" "av_disk sample_disk 4 = boot_sector" "av_disk sample_disk 5 = fat_sector"
    by (simp_all add: sample_disk_def)
  from rootfs_mounts [OF sim_laws [folded bus] view(1-3) d(1) small, of sample_externs]
  show ?thesis
    by (auto simp: view disk lba bpb disk_device_def bps_def bad active [unfolded disk])
qed

section \<open>The rows of a listing\<close>

text \<open>A file of the volume is smaller than what \<open>humanized_size_short\<close> can show: listing never panics.\<close>

lemma ls_line_total:
  assumes "md_len m < 2 ^ 32"
  obtains row where "ls_line format m = Ok row" "row_name row = (if metadata_is_dir m then md_name m @ [0x2F] else md_name m)"
    "row_size row = None \<longleftrightarrow> metadata_is_dir m"
proof -
  have "unat (of_nat (md_len m) :: u64) = md_len m"
    using assms by (simp add: unsigned_of_nat take_bit_eq_mod)
  then obtain sz where sz: "humanized_size_short (of_nat (md_len m)) = (Ok sz :: ((nat \<times> nat) \<times> u8 list) fs_result)"
    using assms by (simp add: humanized_size_short_def humanized_size_impl_eq)
  have "\<exists>row. ls_line format m = Ok row \<and> row_name row = (if metadata_is_dir m then md_name m @ [0x2F] else md_name m) \<and>
      (row_size row = None \<longleftrightarrow> metadata_is_dir m)"
    by (cases sz rule: prod.exhaust; cases "fst sz") (simp add: ls_line_def sz)
  then show thesis by (elim exE conjE) (rule that)
qed

lemma ls_rows:
  assumes "mount_read_dir m path = Ok ms" "\<forall>a\<in>set ms. md_len a < 2 ^ 32"
  obtains rows where "filesystem_ls format (Some m) path = Ok rows"
    "map row_name rows = map (\<lambda>a. if metadata_is_dir a then md_name a @ [0x2F] else md_name a) ms"
proof -
  let ?g = "\<lambda>a. SOME row. ls_line format a = Ok row \<and> row_name row = (if metadata_is_dir a then md_name a @ [0x2F] else md_name a)"
  have g: "ls_line format a = Ok (?g a) \<and> row_name (?g a) = (if metadata_is_dir a then md_name a @ [0x2F] else md_name a)"
    if "a \<in> set ms" for a
    by (rule someI_ex) (use ls_line_total [of a format] assms(2) that in blast)
  then have "map_res (ls_line format) ms = Ok (map ?g ms)" by (intro map_res_Ok) blast
  with g show thesis by (intro that [of "map ?g ms"]) (simp_all add: filesystem_ls_def get_rootfs_def assms(1))
qed

end
