(* ===== verification/Apic.thy ===== *)
theory Apic
  imports Prelude
begin

text \<open>
  The interrupt controllers, \<open>pkg/kernel/src/interrupt/apic/\<close>: the local controller
  (\<open>xapic.rs\<close>) and the one of the devices (\<open>ioapic.rs\<close>), over memory-mapped registers. The
  hardware behind the addresses is a parameter; waiting for it is a loop that may not end.
\<close>

section \<open>Vectors\<close>

text \<open>\<open>consts.rs\<close>, with the numbers of the enums.\<close>

datatype interrupts =
  DivideError | Debug | NonMaskableInterrupt | Breakpoint | Overflow | BoundRangeExceeded | InvalidOpcode
| DeviceNotAvailable | DoubleFault | CoprocessorSegmentOverrun | InvalidTSS | SegmentNotPresent
| StackSegmentFault | GeneralProtectionFault | PageFault | FloatingPointException | AlignmentCheck
| MachineCheck | SIMDFloatingPointException | VirtualizationException | SecurityException | IrqBase | SyscallVector

fun vector :: "interrupts \<Rightarrow> u8" where
  "vector DivideError = 0" | "vector Debug = 1" | "vector NonMaskableInterrupt = 2" | "vector Breakpoint = 3"
| "vector Overflow = 4" | "vector BoundRangeExceeded = 5" | "vector InvalidOpcode = 6"
| "vector DeviceNotAvailable = 7" | "vector DoubleFault = 8" | "vector CoprocessorSegmentOverrun = 9"
| "vector InvalidTSS = 10" | "vector SegmentNotPresent = 11" | "vector StackSegmentFault = 12"
| "vector GeneralProtectionFault = 13" | "vector PageFault = 14" | "vector FloatingPointException = 16"
| "vector AlignmentCheck = 17" | "vector MachineCheck = 18" | "vector SIMDFloatingPointException = 19"
| "vector VirtualizationException = 20" | "vector SecurityException = 30" | "vector IrqBase = 0x20"
| "vector SyscallVector = 0x80"

datatype irq =
  Timer | Keyboard | Serial1 | Serial0 | Floppy | Parallel | RealTimeClock | Ide0 | Ide1 | ErrorIrq | Spurious

fun irq_number :: "irq \<Rightarrow> u8" where
  "irq_number Timer = 0" | "irq_number Keyboard = 1" | "irq_number Serial1 = 3" | "irq_number Serial0 = 4"
| "irq_number Floppy = 6" | "irq_number Parallel = 7" | "irq_number RealTimeClock = 8" | "irq_number Ide0 = 14"
| "irq_number Ide1 = 15" | "irq_number ErrorIrq = 19" | "irq_number Spurious = 31"

section \<open>The local controller\<close>

record 'p mmio =
  mm_read :: "u64 \<Rightarrow> 'p \<Rightarrow> u32 \<times> 'p"
  mm_write :: "u64 \<Rightarrow> u32 \<Rightarrow> 'p \<Rightarrow> 'p"

definition LAPIC_ADDR :: u64 where "LAPIC_ADDR = 0xFEE00000"

datatype lapic_register =
  SVR | TDCR | TICR | LvtTimer | LvtLInt0 | LvtLInt1 | LvtPCINT | LvtError | ESR | ICRLow | ICRHigh | EOI | TPR

fun lapic_offset :: "lapic_register \<Rightarrow> u32" where
  "lapic_offset SVR = 0xF0" | "lapic_offset TDCR = 0x3E0" | "lapic_offset TICR = 0x380"
| "lapic_offset LvtTimer = 0x320" | "lapic_offset LvtLInt0 = 0x350" | "lapic_offset LvtLInt1 = 0x360"
| "lapic_offset LvtPCINT = 0x340" | "lapic_offset LvtError = 0x370" | "lapic_offset ESR = 0x280"
| "lapic_offset ICRLow = 0x300" | "lapic_offset ICRHigh = 0x310" | "lapic_offset EOI = 0xB0"
| "lapic_offset TPR = 0x80"

text \<open>The flags; \<open>remove\<close> clears the bits of a set of flags.\<close>

definition ENABLE :: u32 where "ENABLE = push_bit 8 1"
definition VECTOR_MASK :: u32 where "VECTOR_MASK = 0xFF"
definition MASKED :: u32 where "MASKED = push_bit 16 1"
definition PERIODIC :: u32 where "PERIODIC = push_bit 17 1"

definition svr_truncate :: "u32 \<Rightarrow> u32" where "svr_truncate v = v AND (ENABLE OR VECTOR_MASK)"

definition lvt_timer_truncate :: "u32 \<Rightarrow> u32" where
  "lvt_timer_truncate v = v AND (MASKED OR PERIODIC OR VECTOR_MASK)"

definition lvt_error_truncate :: "u32 \<Rightarrow> u32" where "lvt_error_truncate v = v AND (MASKED OR VECTOR_MASK)"

definition flags_remove :: "u32 \<Rightarrow> u32 \<Rightarrow> u32" where "flags_remove flags other = flags AND NOT other"

text \<open>The values that \<open>cpu_init\<close> makes of what it reads.\<close>

definition svr_value :: "u32 \<Rightarrow> u32" where
  "svr_value spiv_val =
     flags_remove (svr_truncate spiv_val OR ENABLE) VECTOR_MASK
       OR svr_truncate (ucast (vector IrqBase) + ucast (irq_number Spurious))"

definition lvt_timer_value :: "u32 \<Rightarrow> u32" where
  "lvt_timer_value v =
     flags_remove
       (flags_remove (lvt_timer_truncate v) VECTOR_MASK
          OR lvt_timer_truncate (ucast (vector IrqBase) + ucast (irq_number Timer))) MASKED
       OR PERIODIC"

definition lvt_error_value :: "u32 \<Rightarrow> u32" where
  "lvt_error_value v =
     flags_remove
       (flags_remove (lvt_error_truncate v) VECTOR_MASK
          OR lvt_error_truncate (ucast (vector IrqBase) + ucast (irq_number ErrorIrq))) MASKED"

text \<open>\<open>XApic\<close> is its address. A write is followed by a read of the error status.\<close>

definition xapic_read :: "'p mmio \<Rightarrow> u64 \<Rightarrow> lapic_register \<Rightarrow> 'p \<Rightarrow> u32 \<times> 'p" where
  "xapic_read mm addr reg p = mm_read mm (addr + ucast (lapic_offset reg)) p"

definition xapic_write :: "'p mmio \<Rightarrow> u64 \<Rightarrow> lapic_register \<Rightarrow> u32 \<Rightarrow> 'p \<Rightarrow> 'p" where
  "xapic_write mm addr reg value p =
     snd (xapic_read mm addr ESR (mm_write mm (addr + ucast (lapic_offset reg)) value p))"

definition xapic_id :: "'p mmio \<Rightarrow> u64 \<Rightarrow> 'p \<Rightarrow> u32 \<times> 'p" where
  "xapic_id mm addr p = (case xapic_read mm addr ICRHigh p of (v, p) \<Rightarrow> (drop_bit 24 v, p))"

definition xapic_version :: "'p mmio \<Rightarrow> u64 \<Rightarrow> 'p \<Rightarrow> u32 \<times> 'p" where
  "xapic_version mm addr p = xapic_read mm addr ICRLow p"

definition xapic_icr :: "'p mmio \<Rightarrow> u64 \<Rightarrow> 'p \<Rightarrow> u64 \<times> 'p" where
  "xapic_icr mm addr p =
     (case xapic_read mm addr ICRHigh p of
        (hi, p) \<Rightarrow> (case xapic_read mm addr ICRLow p of (lo, p) \<Rightarrow> (push_bit 32 (ucast hi) OR ucast lo, p)))"

partial_function (option) icr_wait :: "'p mmio \<Rightarrow> u64 \<Rightarrow> 'p \<Rightarrow> 'p option" where
  "icr_wait mm addr p =
     (case xapic_read mm addr ICRLow p of (v, p) \<Rightarrow> if bit v 12 then icr_wait mm addr p else Some p)"

definition icr_ready :: "'p mmio \<Rightarrow> u64 \<Rightarrow> 'p \<Rightarrow> (unit, unit) res \<times> 'p" where
  "icr_ready mm addr p = (case icr_wait mm addr p of None \<Rightarrow> (Diverge, p) | Some p \<Rightarrow> (Ok (), p))"

definition set_icr :: "'p mmio \<Rightarrow> u64 \<Rightarrow> u64 \<Rightarrow> 'p \<Rightarrow> (unit, unit) res \<times> 'p" where
  "set_icr mm addr value p =
     doS (icr_ready mm addr p) (\<lambda>_ p.
       icr_ready mm addr
         (xapic_write mm addr ICRLow (ucast value) (xapic_write mm addr ICRHigh (ucast (drop_bit 32 value)) p)))"

definition eoi :: "'p mmio \<Rightarrow> u64 \<Rightarrow> 'p \<Rightarrow> 'p" where
  "eoi mm addr p = xapic_write mm addr EOI 0 p"

definition cpu_init :: "'p mmio \<Rightarrow> u64 \<Rightarrow> 'p \<Rightarrow> (unit, unit) res \<times> 'p" where
  "cpu_init mm addr p =
     (case xapic_read mm addr SVR p of (spiv_val, p) \<Rightarrow>
      let p = xapic_write mm addr SVR (svr_value spiv_val) p;
          p = xapic_write mm addr TDCR 8 p;
          p = xapic_write mm addr TICR 0x20000 p
      in case xapic_read mm addr LvtTimer p of (lvt_timer_val, p) \<Rightarrow>
      let p = xapic_write mm addr LvtTimer (lvt_timer_value lvt_timer_val) p;
          p = xapic_write mm addr LvtLInt0 (push_bit 16 1) p;
          p = xapic_write mm addr LvtLInt1 (push_bit 16 1) p;
          p = xapic_write mm addr LvtPCINT (push_bit 16 1) p
      in case xapic_read mm addr LvtError p of (lvt_error_val, p) \<Rightarrow>
      let p = xapic_write mm addr LvtError (lvt_error_value lvt_error_val) p;
          p = xapic_write mm addr ESR 0 p;
          p = xapic_write mm addr ESR 0 p;
          p = eoi mm addr p
      in doS (set_icr mm addr (push_bit 19 1 OR push_bit 8 5 OR push_bit 15 1) p) (\<lambda>_ p.
           (Ok (), xapic_write mm addr TPR 0 p)))"

section \<open>The controller of the devices\<close>

definition IOAPIC_ADDR :: u64 where "IOAPIC_ADDR = 0xFEC00000"

definition ENTRY_DISABLED :: u32 where "ENTRY_DISABLED = 0x00010000"
definition ENTRY_NONE :: u32 where "ENTRY_NONE = 0"

text \<open>\<open>IoApic\<close> is the address \<open>reg\<close>; \<open>data\<close> is 16 bytes on.\<close>

definition ioapic_read :: "'p mmio \<Rightarrow> u64 \<Rightarrow> u8 \<Rightarrow> 'p \<Rightarrow> u32 \<times> 'p" where
  "ioapic_read mm addr reg p = mm_read mm (addr + 0x10) (mm_write mm addr (ucast reg) p)"

definition ioapic_write :: "'p mmio \<Rightarrow> u64 \<Rightarrow> u8 \<Rightarrow> u32 \<Rightarrow> 'p \<Rightarrow> 'p" where
  "ioapic_write mm addr reg data p = mm_write mm (addr + 0x10) data (mm_write mm addr (ucast reg) p)"

definition write_irq :: "'p mmio \<Rightarrow> u64 \<Rightarrow> u8 \<Rightarrow> u32 \<Rightarrow> u8 \<Rightarrow> 'p \<Rightarrow> 'p" where
  "write_irq mm addr n flags dest p =
     ioapic_write mm addr (0x10 + 2 * n + 1) (push_bit 24 (ucast dest))
       (ioapic_write mm addr (0x10 + 2 * n) (ucast (32 + n) OR flags) p)"

definition ioapic_enable :: "'p mmio \<Rightarrow> u64 \<Rightarrow> u8 \<Rightarrow> u8 \<Rightarrow> 'p \<Rightarrow> 'p" where
  "ioapic_enable mm addr n cpuid p = write_irq mm addr n ENTRY_NONE cpuid p"

definition ioapic_disable :: "'p mmio \<Rightarrow> u64 \<Rightarrow> u8 \<Rightarrow> u8 \<Rightarrow> 'p \<Rightarrow> 'p" where
  "ioapic_disable mm addr n cpuid p = write_irq mm addr n ENTRY_DISABLED cpuid p"

definition ioapic_id :: "'p mmio \<Rightarrow> u64 \<Rightarrow> 'p \<Rightarrow> u8 \<times> 'p" where
  "ioapic_id mm addr p = (case ioapic_read mm addr 0 p of (v, p) \<Rightarrow> (ucast (take_bit 4 (drop_bit 24 v)), p))"

definition ioapic_version :: "'p mmio \<Rightarrow> u64 \<Rightarrow> 'p \<Rightarrow> u8 \<times> 'p" where
  "ioapic_version mm addr p = (case ioapic_read mm addr 1 p of (v, p) \<Rightarrow> (ucast (take_bit 8 v), p))"

definition maxintr :: "'p mmio \<Rightarrow> u64 \<Rightarrow> 'p \<Rightarrow> u8 \<times> 'p" where
  "maxintr mm addr p = (case ioapic_read mm addr 1 p of (v, p) \<Rightarrow> (ucast (take_bit 8 (drop_bit 16 v)), p))"

text \<open>The bound of the range is read once; its last number is included.\<close>

definition disable_all :: "'p mmio \<Rightarrow> u64 \<Rightarrow> 'p \<Rightarrow> 'p" where
  "disable_all mm addr p =
     (case maxintr mm addr p of
        (n, p) \<Rightarrow> fold (\<lambda>i p. write_irq mm addr (of_nat i) ENTRY_DISABLED 0 p) [0..<Suc (unat n)] p)"

end
