(* ===== verification/Serial.thy ===== *)
theory Serial
  imports Ata Input
begin

text \<open>
  The serial port: the UART (\<open>pkg/kernel/src/drivers/uart16550.rs\<close>), its use for the console
  (\<open>drivers/serial.rs\<close>, the printing functions and the panic handler of \<open>utils/macros.rs\<close>) and for
  the keys (\<open>interrupt/serial.rs\<close>). The hardware behind the ports is a parameter, as for the drive.
\<close>

section \<open>The port\<close>

record serial_port =
  sp_data :: u16
  sp_interrupt_enable :: u16
  sp_fifo_control :: u16
  sp_line_control :: u16
  sp_line_status :: u16
  sp_scratch :: u16

definition DLAB :: u8 where "DLAB = 0x80"
definition OneStopBit :: u8 where "OneStopBit = 0"
definition NoneParity :: u8 where "NoneParity = 0"
definition EightCharLength :: u8 where "EightCharLength = 3"

definition serial_port_new :: "u16 \<Rightarrow> serial_port" where
  "serial_port_new port =
     \<lparr>sp_data = port, sp_interrupt_enable = port + 1, sp_fifo_control = port + 2, sp_line_control = port + 3,
      sp_line_status = port + 5, sp_scratch = port + 7\<rparr>"

definition serial_port_init :: "'p port_io \<Rightarrow> serial_port \<Rightarrow> 'p \<Rightarrow> 'p" where
  "serial_port_init io s p =
     (let p = io_out8 io (sp_interrupt_enable s) 0x00 p;
          p = io_out8 io (sp_line_control s) DLAB p;
          p = io_out8 io (sp_data s) 0x03 p;
          p = io_out8 io (sp_interrupt_enable s) 0x00 p;
          p = io_out8 io (sp_line_control s) (EightCharLength OR NoneParity OR OneStopBit) p;
          p = io_out8 io (sp_fifo_control s) 0xC7 p;
          p = io_out8 io (sp_scratch s) 0xAE p
      in io_out8 io (sp_interrupt_enable s) 0x01 p)"

partial_function (option) send_wait :: "'p port_io \<Rightarrow> serial_port \<Rightarrow> 'p \<Rightarrow> 'p option" where
  "send_wait io s p =
     (case io_in8 io (sp_line_status s) p of
        (status, p) \<Rightarrow> if status AND 0x20 = 0 then send_wait io s p else Some p)"

definition serial_send :: "'p port_io \<Rightarrow> serial_port \<Rightarrow> u8 \<Rightarrow> 'p \<Rightarrow> (unit, unit) res \<times> 'p" where
  "serial_send io s data p =
     (case send_wait io s p of None \<Rightarrow> (Diverge, p) | Some p \<Rightarrow> (Ok (), io_out8 io (sp_data s) data p))"

definition serial_receive :: "'p port_io \<Rightarrow> serial_port \<Rightarrow> 'p \<Rightarrow> u8 option \<times> 'p" where
  "serial_receive io s p =
     (case io_in8 io (sp_line_status s) p of
        (status, p) \<Rightarrow>
          if status AND 1 \<noteq> 0 then (case io_in8 io (sp_data s) p of (b, p) \<Rightarrow> (Some b, p)) else (None, p))"

fun serial_write_str :: "'p port_io \<Rightarrow> serial_port \<Rightarrow> u8 list \<Rightarrow> 'p \<Rightarrow> (unit, unit) res \<times> 'p" where
  "serial_write_str io s [] p = (Ok (), p)"
| "serial_write_str io s (b # bs) p = doS (serial_send io s b p) (\<lambda>_ p. serial_write_str io s bs p)"

section \<open>The console\<close>

definition SERIAL_IO_PORT :: u16 where "SERIAL_IO_PORT = 0x3F8"

text \<open>The static \<open>SERIAL\<close>: not yet set, or a port behind a lock.\<close>

record serial_static =
  ss_port :: "serial_port option"
  ss_locked :: bool

definition init_SERIAL :: "serial_port \<Rightarrow> serial_static \<Rightarrow> serial_static" where
  "init_SERIAL s st = (case ss_port st of None \<Rightarrow> st\<lparr>ss_port := Some s, ss_locked := False\<rparr> | Some _ \<Rightarrow> st)"

definition get_serial :: "serial_static \<Rightarrow> serial_port option" where
  "get_serial st = (if ss_locked st then None else ss_port st)"

definition get_serial_for_sure :: "serial_static \<Rightarrow> (unit, serial_port) res" where
  "get_serial_for_sure st = of_option (get_serial st)"

text \<open>What the format arguments of a print come to is given; without the port or its lock nothing is printed.\<close>

definition print_internal :: "'p port_io \<Rightarrow> serial_static \<Rightarrow> u8 list \<Rightarrow> 'p \<Rightarrow> (unit, unit) res \<times> 'p" where
  "print_internal io st text p =
     (case get_serial st of Some s \<Rightarrow> serial_write_str io s text p | None \<Rightarrow> (Ok (), p))"

definition serial_init :: "'p port_io \<Rightarrow> u8 list \<Rightarrow> serial_static \<Rightarrow> 'p \<Rightarrow> (unit, unit) res \<times> serial_static \<times> 'p" where
  "serial_init io header st p =
     (let st = init_SERIAL (serial_port_new SERIAL_IO_PORT) st in
      andThenS (get_serial_for_sure st) (st, p) (\<lambda>s.
        case print_internal io st header (serial_port_init io s p) of (r, p) \<Rightarrow> (r, st, p)))"

definition serial_backspace :: "'p port_io \<Rightarrow> serial_static \<Rightarrow> 'p \<Rightarrow> (unit, unit) res \<times> 'p" where
  "serial_backspace io st p = andThenS (get_serial_for_sure st) p (\<lambda>s. serial_send io s 8 p)"

text \<open>
  The panic handler frees the lock, prints the message, if the log level lets errors through, and
  then loops for ever; an unset \<open>SERIAL\<close> makes it panic in turn.
\<close>

definition panic_handler :: "'p port_io \<Rightarrow> bool \<Rightarrow> u8 list \<Rightarrow> serial_static \<Rightarrow> 'p \<Rightarrow> (unit, unit) res \<times> serial_static \<times> 'p" where
  "panic_handler io logged message st p =
     andThenS (of_option (ss_port st)) (st, p) (\<lambda>_.
       let st = st\<lparr>ss_locked := False\<rparr> in
       case (if logged then print_internal io st message p else (Ok (), p)) of (r, p) \<Rightarrow> (Diverge, st, p))"

section \<open>Received bytes\<close>

definition UART_PORT :: u16 where "UART_PORT = 0x3F8"

definition receive_key :: "'p port_io \<Rightarrow> u8 list \<Rightarrow> 'p \<Rightarrow> u8 list \<times> 'p" where
  "receive_key io keys p =
     (case io_in8 io (UART_PORT + 5) p of
        (status, p) \<Rightarrow>
          if status AND 1 \<noteq> 0 then (case io_in8 io UART_PORT p of (ch, p) \<Rightarrow> (push_key keys ch, p))
          else (keys, p))"

section \<open>A UART\<close>

text \<open>
  The registers that the driver sets, the bytes that have come in and not been read, those that
  have been sent, and how often the status will still say that the last one is on its way.
\<close>

record uart_view =
  uv_divisor :: "u8 \<times> u8"
  uv_line :: u8
  uv_enable :: u8
  uv_fifo :: u8
  uv_in :: "u8 list"
  uv_out :: "u8 list"
  uv_busy :: nat

text \<open>With \<open>DLAB\<close> the first two registers are the divisor.\<close>

definition uart_laws :: "'p port_io \<Rightarrow> serial_port \<Rightarrow> ('p \<Rightarrow> uart_view) \<Rightarrow> bool" where
  "uart_laws io s view \<longleftrightarrow>
     (\<forall>p. view (snd (io_in8 io (sp_line_status s) p)) = (view p)\<lparr>uv_busy := uv_busy (view p) - 1\<rparr> \<and>
        (fst (io_in8 io (sp_line_status s) p) AND 0x20 = 0 \<longleftrightarrow> 0 < uv_busy (view p)) \<and>
        (fst (io_in8 io (sp_line_status s) p) AND 1 \<noteq> 0 \<longleftrightarrow> uv_in (view p) \<noteq> [])) \<and>
     (\<forall>p b bs. uv_line (view p) AND DLAB = 0 \<and> uv_in (view p) = b # bs \<longrightarrow>
        fst (io_in8 io (sp_data s) p) = b \<and> view (snd (io_in8 io (sp_data s) p)) = (view p)\<lparr>uv_in := bs\<rparr>) \<and>
     (\<forall>p b. uv_line (view p) AND DLAB = 0 \<and> uv_busy (view p) = 0 \<longrightarrow>
        (\<exists>n. view (io_out8 io (sp_data s) b p) = (view p)\<lparr>uv_out := uv_out (view p) @ [b], uv_busy := n\<rparr>)) \<and>
     (\<forall>p b. uv_line (view p) AND DLAB \<noteq> 0 \<longrightarrow>
        view (io_out8 io (sp_data s) b p) = (view p)\<lparr>uv_divisor := (b, snd (uv_divisor (view p)))\<rparr> \<and>
        view (io_out8 io (sp_interrupt_enable s) b p) = (view p)\<lparr>uv_divisor := (fst (uv_divisor (view p)), b)\<rparr>) \<and>
     (\<forall>p b. uv_line (view p) AND DLAB = 0 \<longrightarrow>
        view (io_out8 io (sp_interrupt_enable s) b p) = (view p)\<lparr>uv_enable := b\<rparr>) \<and>
     (\<forall>p b. view (io_out8 io (sp_line_control s) b p) = (view p)\<lparr>uv_line := b\<rparr>) \<and>
     (\<forall>p b. view (io_out8 io (sp_fifo_control s) b p) =
        (view p)\<lparr>uv_fifo := b, uv_in := (if bit b 1 then [] else uv_in (view p))\<rparr>) \<and>
     (\<forall>p b. view (io_out8 io (sp_scratch s) b p) = view p)"

lemma uart_lawsD:
  assumes "uart_laws io s view"
  shows "view (snd (io_in8 io (sp_line_status s) p)) = (view p)\<lparr>uv_busy := uv_busy (view p) - 1\<rparr>"
    and "fst (io_in8 io (sp_line_status s) p) AND 0x20 = 0 \<longleftrightarrow> 0 < uv_busy (view p)"
    and "fst (io_in8 io (sp_line_status s) p) AND 1 \<noteq> 0 \<longleftrightarrow> uv_in (view p) \<noteq> []"
    and "uv_line (view p) AND DLAB = 0 \<Longrightarrow> uv_in (view p) = b # bs \<Longrightarrow>
      fst (io_in8 io (sp_data s) p) = b \<and> view (snd (io_in8 io (sp_data s) p)) = (view p)\<lparr>uv_in := bs\<rparr>"
    and "uv_line (view p) AND DLAB = 0 \<Longrightarrow> uv_busy (view p) = 0 \<Longrightarrow>
      \<exists>n. view (io_out8 io (sp_data s) b p) = (view p)\<lparr>uv_out := uv_out (view p) @ [b], uv_busy := n\<rparr>"
    and "uv_line (view p) AND DLAB \<noteq> 0 \<Longrightarrow>
      view (io_out8 io (sp_data s) b p) = (view p)\<lparr>uv_divisor := (b, snd (uv_divisor (view p)))\<rparr> \<and>
      view (io_out8 io (sp_interrupt_enable s) b p) = (view p)\<lparr>uv_divisor := (fst (uv_divisor (view p)), b)\<rparr>"
    and "uv_line (view p) AND DLAB = 0 \<Longrightarrow>
      view (io_out8 io (sp_interrupt_enable s) b p) = (view p)\<lparr>uv_enable := b\<rparr>"
    and "view (io_out8 io (sp_line_control s) b p) = (view p)\<lparr>uv_line := b\<rparr>"
    and "view (io_out8 io (sp_fifo_control s) b p) =
        (view p)\<lparr>uv_fifo := b, uv_in := (if bit b 1 then [] else uv_in (view p))\<rparr>"
    and "view (io_out8 io (sp_scratch s) b p) = view p"
  using assms unfolding uart_laws_def by blast+

lemma send_wait_spec:
  assumes laws: "uart_laws io s view"
  shows "uv_busy (view p) = n \<Longrightarrow> \<exists>q. send_wait io s p = Some q \<and> view q = (view p)\<lparr>uv_busy := 0\<rparr>"
proof (induction n arbitrary: p)
  case 0
  then show ?case using uart_lawsD(1, 2) [OF laws, of p]
    by (subst send_wait.simps) (auto split: prod.splits)
next
  case (Suc n)
  let ?q = "snd (io_in8 io (sp_line_status s) p)"
  have "send_wait io s p = send_wait io s ?q"
    using uart_lawsD(2) [OF laws, of p] Suc.prems by (subst send_wait.simps) (simp add: split_beta)
  then show ?case using Suc.IH [of ?q] uart_lawsD(1) [OF laws, of p] Suc.prems by simp
qed

lemma serial_send_spec:
  assumes laws: "uart_laws io s view" and line: "uv_line (view p) AND DLAB = 0"
  shows "\<exists>q n. serial_send io s b p = (Ok (), q) \<and> view q = (view p)\<lparr>uv_out := uv_out (view p) @ [b], uv_busy := n\<rparr>"
proof -
  obtain q where q: "send_wait io s p = Some q" "view q = (view p)\<lparr>uv_busy := 0\<rparr>"
    using send_wait_spec [OF laws refl] by blast
  then show ?thesis using uart_lawsD(5) [OF laws, of q b] line by (auto simp: serial_send_def)
qed

lemma serial_write_spec:
  assumes laws: "uart_laws io s view"
  shows "uv_line (view p) AND DLAB = 0 \<Longrightarrow> \<exists>q n. serial_write_str io s bs p = (Ok (), q) \<and>
    view q = (view p)\<lparr>uv_out := uv_out (view p) @ bs, uv_busy := n\<rparr>"
proof (induction bs arbitrary: p)
  case Nil
  have "view p = (view p)\<lparr>uv_out := uv_out (view p) @ [], uv_busy := uv_busy (view p)\<rparr>" by simp
  then show ?case by (intro exI [of _ p]) (auto intro!: exI [of _ "uv_busy (view p)"])
next
  case (Cons b bs)
  obtain q n where q: "serial_send io s b p = (Ok (), q)"
    "view q = (view p)\<lparr>uv_out := uv_out (view p) @ [b], uv_busy := n\<rparr>"
    using serial_send_spec [OF laws Cons.prems] by blast
  then obtain q2 n2 where "serial_write_str io s bs q = (Ok (), q2)"
    "view q2 = (view q)\<lparr>uv_out := uv_out (view q) @ bs, uv_busy := n2\<rparr>"
    using Cons.IH [of q] Cons.prems by auto
  then show ?case using q by (intro exI [of _ q2] exI [of _ n2]) simp
qed

text \<open>Whatever the registers held, the port is at 38400 baud with 8 bits and interrupts for received bytes.\<close>

lemma serial_port_init_spec:
  assumes laws: "uart_laws io s view"
  shows "view (serial_port_init io s p) =
    (view p)\<lparr>uv_divisor := (3, 0), uv_line := 3, uv_enable := 1, uv_fifo := 0xC7, uv_in := []\<rparr>"
proof -
  note line = uart_lawsD(8) [OF laws] and fifo = uart_lawsD(9) [OF laws] and scratch = uart_lawsD(10) [OF laws]
  have start: "view (io_out8 io (sp_interrupt_enable s) 0 p) =
      (view p)\<lparr>uv_divisor := d, uv_enable := e\<rparr>"
    if "d = (if uv_line (view p) AND DLAB = 0 then uv_divisor (view p) else (fst (uv_divisor (view p)), 0))"
      "e = (if uv_line (view p) AND DLAB = 0 then 0 else uv_enable (view p))" for d e
    using that uart_lawsD(6, 7) [OF laws, of p 0] by auto
  have set: "uv_line (view q) = DLAB \<Longrightarrow> view (io_out8 io (sp_data s) b q) = (view q)\<lparr>uv_divisor := (b, snd (uv_divisor (view q)))\<rparr>"
    "uv_line (view q) = DLAB \<Longrightarrow> view (io_out8 io (sp_interrupt_enable s) b q) = (view q)\<lparr>uv_divisor := (fst (uv_divisor (view q)), b)\<rparr>"
    for q b using uart_lawsD(6) [OF laws, of q b] by (auto simp: DLAB_def)
  have enable: "uv_line (view q) = 3 \<Longrightarrow> view (io_out8 io (sp_interrupt_enable s) b q) = (view q)\<lparr>uv_enable := b\<rparr>" for q b
    using uart_lawsD(7) [OF laws, of q b] by (simp add: DLAB_def)
  have three: "EightCharLength OR NoneParity OR OneStopBit = 3"
    by (simp add: EightCharLength_def NoneParity_def OneStopBit_def)
  show ?thesis
    unfolding serial_port_init_def Let_def three
    by (simp add: enable scratch fifo line set start [OF refl refl] split del: if_split)
qed

end
