(* ===== verification/Interrupts.thy ===== *)
theory Interrupts
  imports Apic Serial Syscalls
begin

text \<open>
  Interrupts from the processor's table to the handlers: \<open>pkg/kernel/src/interrupt/\<close> with
  \<open>mod.rs\<close>, \<open>exceptions.rs\<close>, \<open>clock.rs\<close>, \<open>serial.rs\<close> and the gate of \<open>syscall/mod.rs\<close>, and the
  stacks of \<open>memory/gdt.rs\<close>. A handler gets the context of the interrupt and returns the one to
  resume; the assembly that saves the registers for it is in \<open>Handler\<close>.
\<close>

section \<open>Stacks\<close>

definition DOUBLE_FAULT_IST_INDEX :: u16 where "DOUBLE_FAULT_IST_INDEX = 0"
definition SYSCALL_IST_INDEX :: u16 where "SYSCALL_IST_INDEX = 1"
definition PAGE_FAULT_IST_INDEX :: u16 where "PAGE_FAULT_IST_INDEX = 2"
definition CONTEXT_SWITCH_IST_INDEX :: u16 where "CONTEXT_SWITCH_IST_INDEX = 0"

definition IST_SIZES :: "nat list" where "IST_SIZES = [0x1000, 0x1000, 0x4000, 0x1000]"

text \<open>The size of the stack of each index; the first size is that of the stack of ring 0.\<close>

definition interrupt_stack_table :: "u16 \<rightharpoonup> nat" where
  "interrupt_stack_table =
     [DOUBLE_FAULT_IST_INDEX \<mapsto> IST_SIZES ! 1, SYSCALL_IST_INDEX \<mapsto> IST_SIZES ! 2, PAGE_FAULT_IST_INDEX \<mapsto> IST_SIZES ! 3]"

section \<open>The table\<close>

text \<open>The handlers of the exceptions but the page fault differ in the message of their panic only.\<close>

datatype handler = PanicHandler interrupts | PageFaultHandler | ClockHandler | SerialHandler | SyscallHandler

record idt_entry =
  ie_handler :: handler
  ie_stack :: "u16 option"
  ie_user :: bool

definition set_handler_fn :: "handler \<Rightarrow> idt_entry" where
  "set_handler_fn h = \<lparr>ie_handler = h, ie_stack = None, ie_user = False\<rparr>"

definition set_stack_index :: "u16 \<Rightarrow> idt_entry \<Rightarrow> idt_entry" where
  "set_stack_index i e = e\<lparr>ie_stack := Some i\<rparr>"

type_synonym idt = "u8 \<rightharpoonup> idt_entry"

definition register_exceptions :: "idt \<Rightarrow> idt" where
  "register_exceptions idt =
     (fold (\<lambda>i t. t(vector i \<mapsto> set_handler_fn (PanicHandler i)))
        [DivideError, Debug, NonMaskableInterrupt, Breakpoint, Overflow, BoundRangeExceeded, InvalidOpcode,
         DeviceNotAvailable, InvalidTSS, SegmentNotPresent, StackSegmentFault, GeneralProtectionFault,
         AlignmentCheck, MachineCheck, SIMDFloatingPointException] idt)
     (vector DoubleFault \<mapsto> set_stack_index DOUBLE_FAULT_IST_INDEX (set_handler_fn (PanicHandler DoubleFault)),
      vector PageFault \<mapsto> set_stack_index PAGE_FAULT_IST_INDEX (set_handler_fn PageFaultHandler))"

definition register_clock :: "idt \<Rightarrow> idt" where
  "register_clock idt =
     idt(vector IrqBase + irq_number Timer \<mapsto> set_stack_index CONTEXT_SWITCH_IST_INDEX (set_handler_fn ClockHandler))"

definition register_serial :: "idt \<Rightarrow> idt" where
  "register_serial idt = idt(vector IrqBase + irq_number Serial0 \<mapsto> set_handler_fn SerialHandler)"

definition register_syscall :: "idt \<Rightarrow> idt" where
  "register_syscall idt =
     idt(vector SyscallVector \<mapsto> (set_stack_index SYSCALL_IST_INDEX (set_handler_fn SyscallHandler))\<lparr>ie_user := True\<rparr>)"

definition IDT :: idt where
  "IDT = register_syscall (register_serial (register_clock (register_exceptions Map.empty)))"

section \<open>The controllers\<close>

text \<open>The hardware: its ports and its registers in memory, and where physical memory is mapped.\<close>

record 'p hardware =
  hw_io :: "'p port_io"
  hw_mm :: "'p mmio"
  hw_offset :: u64

definition physical_to_virtual :: "'p hardware \<Rightarrow> u64 \<Rightarrow> u64" where
  "physical_to_virtual hw addr = addr + hw_offset hw"

definition enable_irq :: "'p hardware \<Rightarrow> u8 \<Rightarrow> u8 \<Rightarrow> 'p \<Rightarrow> 'p" where
  "enable_irq hw n cpuid p = ioapic_enable (hw_mm hw) (physical_to_virtual hw IOAPIC_ADDR) n cpuid p"

definition ack :: "'p hardware \<Rightarrow> 'p \<Rightarrow> 'p" where
  "ack hw p = eoi (hw_mm hw) (physical_to_virtual hw LAPIC_ADDR) p"

definition interrupt_init :: "'p hardware \<Rightarrow> 'p \<Rightarrow> (unit, unit) res \<times> 'p" where
  "interrupt_init hw p =
     doS (cpu_init (hw_mm hw) (physical_to_virtual hw LAPIC_ADDR) p) (\<lambda>_ p.
       (Ok (), enable_irq hw (irq_number Serial0) 0 p))"

section \<open>Handlers\<close>

type_synonym ('m, 'h, 'p) handled = "(unit, unit) res \<times> proc_context \<times> ('m, 'h) kernel \<times> 'p"

definition clock :: "'p hardware \<Rightarrow> proc_context \<Rightarrow> ('m, 'h) kernel \<Rightarrow> 'p \<Rightarrow> ('m, 'h, 'p) handled" where
  "clock hw cx k p =
     thenS (switch cx k) (\<lambda>_ (cx, k). (Ok (), cx, k, ack hw p)) (\<lambda>(cx, k). (cx, k, p))"

definition serial_handler :: "'p hardware \<Rightarrow> proc_context \<Rightarrow> ('m, 'h) kernel \<Rightarrow> 'p \<Rightarrow> ('m, 'h, 'p) handled" where
  "serial_handler hw cx k p =
     (case receive_key (hw_io hw) (k_keys k) p of (keys, p) \<Rightarrow> (Ok (), cx, k\<lparr>k_keys := keys\<rparr>, ack hw p))"

definition syscall :: "('m, 'h) services \<Rightarrow> proc_context \<Rightarrow> ('m, 'h) kernel \<Rightarrow> 'p \<Rightarrow> ('m, 'h, 'p) handled" where
  "syscall sv cx k p =
     thenS (dispatcher sv cx k) (\<lambda>_ (cx, k). (Ok (), cx, k, p)) (\<lambda>(cx, k). (cx, k, p))"

text \<open>\<open>addr\<close> and \<open>prot\<close>: the address and the protection flag of a page fault.\<close>

definition handle ::
  "('m, 'h) services \<Rightarrow> 'p hardware \<Rightarrow> u64 \<Rightarrow> bool \<Rightarrow> handler \<Rightarrow> proc_context \<Rightarrow> ('m, 'h) kernel \<Rightarrow> 'p \<Rightarrow>
    ('m, 'h, 'p) handled" where
  "handle sv hw addr prot h cx k p =
     (case h of
        PanicHandler i \<Rightarrow> (Panic, cx, k, p)
      | PageFaultHandler \<Rightarrow> (case page_fault (sv_mc sv) addr prot k of (r, k) \<Rightarrow> (r, cx, k, p))
      | ClockHandler \<Rightarrow> clock hw cx k p
      | SerialHandler \<Rightarrow> serial_handler hw cx k p
      | SyscallHandler \<Rightarrow> syscall sv cx k p)"

text \<open>
  What the processor does with a vector: the instruction \<open>int\<close> of a user program on an entry that
  is not for user programs, a missing one too, raises \<open>GeneralProtectionFault\<close>; any other
  vector without a present entry raises \<open>SegmentNotPresent\<close>.
\<close>

definition raised :: "bool \<Rightarrow> u8 \<Rightarrow> u8" where
  "raised user_int v =
     (case IDT v of
        None \<Rightarrow> if user_int then vector GeneralProtectionFault else vector SegmentNotPresent
      | Some e \<Rightarrow> if user_int \<and> \<not> ie_user e then vector GeneralProtectionFault else v)"

definition deliver ::
  "('m, 'h) services \<Rightarrow> 'p hardware \<Rightarrow> u64 \<Rightarrow> bool \<Rightarrow> bool \<Rightarrow> u8 \<Rightarrow> proc_context \<Rightarrow> ('m, 'h) kernel \<Rightarrow> 'p \<Rightarrow>
    ('m, 'h, 'p) handled" where
  "deliver sv hw addr prot user_int v = handle sv hw addr prot (ie_handler (the (IDT (raised user_int v))))"

end
