(* ===== verification/ApicFacts.thy ===== *)
theory ApicFacts
  imports Apic
begin

text \<open>
  The interrupt controllers as their manuals describe them, seen through a view of the hardware
  state, and what the kernel's set-up leaves in them.
\<close>

section \<open>The view of the controllers\<close>

text \<open>
  \<open>ap_regs\<close>: what a register was last given; \<open>ap_busy\<close>: how often the command register will
  still read as busy; \<open>ap_service\<close>: the vectors whose interrupts have been delivered and not been
  acknowledged, the most urgent first; \<open>ap_table\<close>: the registers behind the selected number.
\<close>

record apic_view =
  ap_regs :: "lapic_register \<Rightarrow> u32"
  ap_busy :: nat
  ap_service :: "u8 list"
  ap_selected :: u32
  ap_table :: "u8 \<Rightarrow> u32"

abbreviation lapic_at :: "u64 \<Rightarrow> lapic_register \<Rightarrow> u64" where
  "lapic_at addr reg \<equiv> addr + ucast (lapic_offset reg)"

text \<open>
  A register reads as it was written; the error status and the command register have bits of their
  own, and writing \<open>EOI\<close> ends the most urgent interrupt.
\<close>

definition apic_laws :: "'p mmio \<Rightarrow> u64 \<Rightarrow> u64 \<Rightarrow> ('p \<Rightarrow> apic_view) \<Rightarrow> bool" where
  "apic_laws mm la ia view \<longleftrightarrow>
     (\<forall>p r. r \<noteq> ICRLow \<longrightarrow> view (snd (mm_read mm (lapic_at la r) p)) = view p) \<and>
     (\<forall>p. view (snd (mm_read mm (lapic_at la ICRLow) p)) = (view p)\<lparr>ap_busy := ap_busy (view p) - 1\<rparr> \<and>
        (bit (fst (mm_read mm (lapic_at la ICRLow) p)) 12 \<longleftrightarrow> 0 < ap_busy (view p))) \<and>
     (\<forall>p r. r \<notin> {ICRLow, ESR, EOI} \<longrightarrow> fst (mm_read mm (lapic_at la r) p) = ap_regs (view p) r) \<and>
     (\<forall>p r v. r \<notin> {ICRLow, ESR, EOI} \<longrightarrow>
        view (mm_write mm (lapic_at la r) v p) = (view p)\<lparr>ap_regs := (ap_regs (view p))(r := v)\<rparr>) \<and>
     (\<forall>p v. \<exists>e. view (mm_write mm (lapic_at la ESR) v p) = (view p)\<lparr>ap_regs := (ap_regs (view p))(ESR := e)\<rparr>) \<and>
     (\<forall>p v. ap_busy (view p) = 0 \<longrightarrow>
        (\<exists>d. view (mm_write mm (lapic_at la ICRLow) v p) =
          (view p)\<lparr>ap_regs := (ap_regs (view p))(ICRLow := v), ap_busy := d\<rparr>)) \<and>
     (\<forall>p. view (mm_write mm (lapic_at la EOI) 0 p) = (view p)\<lparr>ap_service := tl (ap_service (view p))\<rparr>) \<and>
     (\<forall>p v. view (mm_write mm ia v p) = (view p)\<lparr>ap_selected := v\<rparr>) \<and>
     (\<forall>p v. ap_selected (view p) < 256 \<longrightarrow> view (mm_write mm (ia + 0x10) v p) =
        (view p)\<lparr>ap_table := (ap_table (view p))(ucast (ap_selected (view p)) := v)\<rparr>)"

lemma apic_lawsD:
  assumes "apic_laws mm la ia view"
  shows "r \<noteq> ICRLow \<Longrightarrow> view (snd (mm_read mm (lapic_at la r) p)) = view p"
    and "view (snd (mm_read mm (lapic_at la ICRLow) p)) = (view p)\<lparr>ap_busy := ap_busy (view p) - 1\<rparr>"
    and "bit (fst (mm_read mm (lapic_at la ICRLow) p)) 12 \<longleftrightarrow> 0 < ap_busy (view p)"
    and "r \<notin> {ICRLow, ESR, EOI} \<Longrightarrow> fst (mm_read mm (lapic_at la r) p) = ap_regs (view p) r"
    and "r \<notin> {ICRLow, ESR, EOI} \<Longrightarrow>
      view (mm_write mm (lapic_at la r) v p) = (view p)\<lparr>ap_regs := (ap_regs (view p))(r := v)\<rparr>"
    and "\<exists>e. view (mm_write mm (lapic_at la ESR) v p) = (view p)\<lparr>ap_regs := (ap_regs (view p))(ESR := e)\<rparr>"
    and "ap_busy (view p) = 0 \<Longrightarrow> \<exists>d. view (mm_write mm (lapic_at la ICRLow) v p) =
      (view p)\<lparr>ap_regs := (ap_regs (view p))(ICRLow := v), ap_busy := d\<rparr>"
    and "view (mm_write mm (lapic_at la EOI) 0 p) = (view p)\<lparr>ap_service := tl (ap_service (view p))\<rparr>"
    and "view (mm_write mm ia v p) = (view p)\<lparr>ap_selected := v\<rparr>"
    and "ap_selected (view p) < 256 \<Longrightarrow> view (mm_write mm (ia + 0x10) v p) =
      (view p)\<lparr>ap_table := (ap_table (view p))(ucast (ap_selected (view p)) := v)\<rparr>"
  using assms unfolding apic_laws_def by blast+

section \<open>Registers of the local controller\<close>

lemma xapic_read_view:
  assumes "apic_laws mm la ia view" "r \<notin> {ICRLow, ESR, EOI}"
  shows "fst (xapic_read mm la r p) = ap_regs (view p) r" "view (snd (xapic_read mm la r p)) = view p"
  using apic_lawsD(1, 4) [OF assms(1)] assms(2) by (auto simp: xapic_read_def)

lemma xapic_write_view:
  assumes "apic_laws mm la ia view"
  shows "view (xapic_write mm la r v p) = view (mm_write mm (lapic_at la r) v p)"
  using apic_lawsD(1) [OF assms, of ESR] by (simp add: xapic_write_def xapic_read_def)

lemma xapic_set_view:
  assumes "apic_laws mm la ia view" "r \<notin> {ICRLow, ESR, EOI}"
  shows "view (xapic_write mm la r v p) = (view p)\<lparr>ap_regs := (ap_regs (view p))(r := v)\<rparr>"
  using apic_lawsD(5) [OF assms] by (simp add: xapic_write_view [OF assms(1)])

lemma eoi_view:
  assumes "apic_laws mm la ia view"
  shows "view (eoi mm la p) = (view p)\<lparr>ap_service := tl (ap_service (view p))\<rparr>"
  using apic_lawsD(8) [OF assms] by (simp add: eoi_def xapic_write_view [OF assms])

text \<open>The loop turns as often as the command register is busy.\<close>

lemma icr_wait_spec:
  assumes laws: "apic_laws mm la ia view"
  shows "ap_busy (view p) = n \<Longrightarrow> \<exists>q. icr_wait mm la p = Some q \<and> view q = (view p)\<lparr>ap_busy := 0\<rparr>"
proof (induction n arbitrary: p)
  case 0
  then show ?case using apic_lawsD(2, 3) [OF laws, of p]
    by (subst icr_wait.simps) (auto simp: xapic_read_def split: prod.splits)
next
  case (Suc n)
  let ?q = "snd (xapic_read mm la ICRLow p)"
  have "icr_wait mm la p = icr_wait mm la ?q"
    using apic_lawsD(3) [OF laws, of p] Suc.prems by (subst icr_wait.simps) (simp add: xapic_read_def split_beta)
  then show ?case using Suc.IH [of ?q] apic_lawsD(2) [OF laws, of p] Suc.prems by (simp add: xapic_read_def)
qed

lemma icr_ready_spec:
  assumes "apic_laws mm la ia view"
  obtains q where "icr_ready mm la p = (Ok (), q)" "view q = (view p)\<lparr>ap_busy := 0\<rparr>"
  using icr_wait_spec [OF assms refl, of p] by (auto simp: icr_ready_def)

lemma set_icr_spec:
  assumes laws: "apic_laws mm la ia view"
  obtains q where "set_icr mm la value p = (Ok (), q)"
    "view q = (view p)\<lparr>ap_regs := (ap_regs (view p))(ICRHigh := ucast (drop_bit 32 value), ICRLow := ucast value), ap_busy := 0\<rparr>"
proof -
  obtain q1 where q1: "icr_ready mm la p = (Ok (), q1)" "view q1 = (view p)\<lparr>ap_busy := 0\<rparr>"
    by (rule icr_ready_spec [OF laws])
  let ?q2 = "xapic_write mm la ICRHigh (ucast (drop_bit 32 value)) q1"
  have q2: "view ?q2 = (view p)\<lparr>ap_regs := (ap_regs (view p))(ICRHigh := ucast (drop_bit 32 value)), ap_busy := 0\<rparr>"
    by (simp add: xapic_set_view [OF laws] q1(2))
  let ?q3 = "xapic_write mm la ICRLow (ucast value) ?q2"
  have "ap_busy (view ?q2) = 0" using q2 by simp
  from apic_lawsD(7) [OF laws this] obtain d where d: "view (mm_write mm (lapic_at la ICRLow) (ucast value) ?q2) =
      (view ?q2)\<lparr>ap_regs := (ap_regs (view ?q2))(ICRLow := ucast value), ap_busy := d\<rparr>" by blast
  have q3: "view ?q3 =
      (view p)\<lparr>ap_regs := (ap_regs (view p))(ICRHigh := ucast (drop_bit 32 value), ICRLow := ucast value), ap_busy := d\<rparr>"
    unfolding xapic_write_view [OF laws, where r = ICRLow] d q2 by simp
  obtain q4 where q4: "icr_ready mm la ?q3 = (Ok (), q4)" "view q4 = (view ?q3)\<lparr>ap_busy := 0\<rparr>"
    by (rule icr_ready_spec [OF laws])
  show thesis
    by (rule that [of q4]) (use q1(1) q4 q3 in \<open>simp_all add: set_icr_def\<close>)
qed

section \<open>The set-up\<close>

text \<open>Of what the registers held before, nothing is kept.\<close>

lemma flag_values [simp]: "svr_value v = 0x13F" "lvt_timer_value v = 0x20020" "lvt_error_value v = 0x33"
proof -
  have "(v AND 0x1FF OR 0x100) AND NOT 0xFF = 0x100"
    by (rule bit_word_eqI) (auto simp: bit_simps numeral_eq_Suc less_Suc_eq)
  then show "svr_value v = 0x13F"
    by (simp add: svr_value_def flags_remove_def svr_truncate_def ENABLE_def VECTOR_MASK_def)
  have "((v AND 0x300FF) AND NOT 0xFF OR 0x20) AND NOT 0x10000 OR 0x20000 = 0x20020"
    by (rule bit_word_eqI) (auto simp: bit_simps numeral_eq_Suc less_Suc_eq)
  then show "lvt_timer_value v = 0x20020"
    by (simp add: lvt_timer_value_def flags_remove_def lvt_timer_truncate_def MASKED_def PERIODIC_def VECTOR_MASK_def)
  have "((v AND 0x100FF) AND NOT 0xFF OR 0x33) AND NOT 0x10000 = 0x33"
    by (rule bit_word_eqI) (auto simp: bit_simps numeral_eq_Suc less_Suc_eq)
  then show "lvt_error_value v = 0x33"
    by (simp add: lvt_error_value_def flags_remove_def lvt_error_truncate_def MASKED_def VECTOR_MASK_def)
qed

definition init_regs :: "(lapic_register \<Rightarrow> u32) \<Rightarrow> u32 \<Rightarrow> lapic_register \<Rightarrow> u32" where
  "init_regs f e =
     f(SVR := 0x13F, TDCR := 8, TICR := 0x20000, LvtTimer := 0x20020, LvtLInt0 := 0x10000, LvtLInt1 := 0x10000,
       LvtPCINT := 0x10000, LvtError := 0x33, ESR := e, ICRHigh := 0, ICRLow := 0x88500, TPR := 0)"

lemma cpu_init_spec:
  assumes laws: "apic_laws mm la ia view"
  obtains q e where "cpu_init mm la p = (Ok (), q)"
    "view q = (view p)\<lparr>ap_regs := init_regs (ap_regs (view p)) e, ap_service := tl (ap_service (view p)), ap_busy := 0\<rparr>"
proof -
  note set = xapic_set_view [OF laws] and rd = xapic_read_view [OF laws]
  let ?p1 = "xapic_write mm la TICR 0x20000 (xapic_write mm la TDCR 8 (xapic_write mm la SVR 0x13F (snd (xapic_read mm la SVR p))))"
  let ?p2 = "xapic_write mm la LvtPCINT 0x10000 (xapic_write mm la LvtLInt1 0x10000
    (xapic_write mm la LvtLInt0 0x10000 (xapic_write mm la LvtTimer 0x20020 (snd (xapic_read mm la LvtTimer ?p1)))))"
  let ?p3 = "xapic_write mm la LvtError 0x33 (snd (xapic_read mm la LvtError ?p2))"
  let ?p4 = "xapic_write mm la ESR 0 ?p3"
  let ?p5 = "xapic_write mm la ESR 0 ?p4"
  let ?p6 = "eoi mm la ?p5"
  obtain e1 where e1: "view ?p4 = (view ?p3)\<lparr>ap_regs := (ap_regs (view ?p3))(ESR := e1)\<rparr>"
    using apic_lawsD(6) [OF laws, of 0 ?p3] unfolding xapic_write_view [OF laws, where r = ESR] by blast
  obtain e where e: "view ?p5 = (view ?p4)\<lparr>ap_regs := (ap_regs (view ?p4))(ESR := e)\<rparr>"
    using apic_lawsD(6) [OF laws, of 0 ?p4] unfolding xapic_write_view [OF laws, where r = ESR] by blast
  obtain p7 where p7: "set_icr mm la (push_bit 19 1 OR push_bit 8 5 OR push_bit 15 1) ?p6 = (Ok (), p7)"
    "view p7 = (view ?p6)\<lparr>ap_regs := (ap_regs (view ?p6))(ICRHigh := 0, ICRLow := 0x88500), ap_busy := 0\<rparr>"
    by (rule set_icr_spec [OF laws, of "push_bit 19 1 OR push_bit 8 5 OR push_bit 15 1" ?p6]) (auto simp: push_bit_eq_mult)
  have "cpu_init mm la p = (Ok (), xapic_write mm la TPR 0 p7)"
    using p7(1) by (simp add: cpu_init_def Let_def split_beta)
  moreover have "view (xapic_write mm la TPR 0 p7) =
      (view p)\<lparr>ap_regs := init_regs (ap_regs (view p)) e, ap_service := tl (ap_service (view p)), ap_busy := 0\<rparr>"
    by (simp add: set p7(2) eoi_view [OF laws] e e1 rd init_regs_def fun_upd_twist)
  ultimately show thesis by (rule that)
qed

text \<open>What reading and writing memory does not change is not changed.\<close>

lemma icr_wait_other:
  assumes "icr_wait mm la p = Some q" and same: "\<And>a p. view (snd (mm_read mm a p)) = view p"
  shows "view q = view p"
proof -
  have "(\<forall>a p. view (snd (mm_read mm a p)) = view p) \<longrightarrow> view q = view p"
  proof (rule icr_wait.raw_induct [OF _ assms(1), where P = "\<lambda>mm la p q. (\<forall>a p. view (snd (mm_read mm a p)) = view p) \<longrightarrow> view q = view p"], intro impI)
    fix f mm la p q
    assume IH: "\<And>mm la p q. f mm la p = Some q \<Longrightarrow> (\<forall>a p. view (snd (mm_read mm a p)) = view p) \<longrightarrow> view q = view p"
      and eq: "(case xapic_read mm la ICRLow p of (v, p) \<Rightarrow> if bit v 12 then f mm la p else Some p) = Some q"
      and same: "\<forall>a p. view (snd (mm_read mm a p)) = view p"
    have "view (snd (xapic_read mm la ICRLow p)) = view p" using same by (simp add: xapic_read_def)
    then show "view q = view p"
      using IH [of mm la "snd (xapic_read mm la ICRLow p)" q] eq same by (simp add: split_beta split: if_splits)
  qed
  then show ?thesis using same by simp
qed
lemma xapic_other:
  assumes "\<And>a p. view (snd (mm_read mm a p)) = view p" "\<And>a v p. view (mm_write mm a v p) = view p"
  shows "view (snd (xapic_read mm la r p)) = view p" "view (xapic_write mm la r v p) = view p"
    "icr_ready mm la p = (Ok (), q) \<Longrightarrow> view q = view p"
proof -
  show rd: "view (snd (xapic_read mm la r p)) = view p" for r p using assms by (simp add: xapic_read_def)
  show "view (xapic_write mm la r v p) = view p" using assms rd by (simp add: xapic_write_def)
  have "icr_wait mm la p = Some q \<Longrightarrow> view q = view p" by (rule icr_wait_other [OF _ assms(1)])
  then show "icr_ready mm la p = (Ok (), q) \<Longrightarrow> view q = view p" by (auto simp: icr_ready_def split: option.splits)
qed

lemma cpu_init_other:
  assumes "\<And>a p. view (snd (mm_read mm a p)) = view p" "\<And>a v p. view (mm_write mm a v p) = view p"
    and "cpu_init mm la p = (Ok (), q)"
  shows "view q = view p"
proof -
  note other = xapic_other [where view = view and la = la, OF assms(1, 2)]
  have "set_icr mm la x p = (Ok (), q) \<Longrightarrow> view q = view p" for x p q
    using other(3) by (auto simp: set_icr_def outcome_simps other(2))
  then show ?thesis
    using assms(3) by (auto simp: cpu_init_def Let_def split_beta eoi_def outcome_simps other(1, 2))
qed

section \<open>The redirection table\<close>

lemma write_irq_view:
  assumes laws: "apic_laws mm la ia view"
  shows "\<exists>s. view (write_irq mm ia n flags dest p) = (view p)\<lparr>ap_selected := s,
    ap_table := (ap_table (view p))(0x10 + 2 * n := ucast (32 + n) OR flags, 0x10 + 2 * n + 1 := push_bit 24 (ucast dest))\<rparr>"
proof -
  have small: "ucast (x :: u8) < (256 :: u32)" for x
    using unat_u8_less [of x] by (simp add: word_less_nat_alt unsigned_ucast_eq take_bit_eq_mod less_trans [OF unat_u8_less])
  have low: "ucast (ucast x :: u32) = x" for x :: u8
    by (rule bit_word_eqI) (auto simp: bit_simps dest: bit_imp_le_length)
  have wr: "view (ioapic_write mm ia r v p) =
      (view p)\<lparr>ap_selected := ucast r, ap_table := (ap_table (view p))(r := v)\<rparr>" for r v p
    unfolding ioapic_write_def using apic_lawsD(9, 10) [OF laws] small low by simp
  show ?thesis unfolding write_irq_def by (simp add: wr) blast
qed

end
