(* ===== verification/InterruptSpec.thy ===== *)
theory InterruptSpec
  imports Interrupts ApicFacts ProcSpec
begin

text \<open>
  The properties of the interrupts: what the set-up of the controllers and the table leads to,
  what each vector does, that received bytes become keys, and that output reaches the port.
\<close>

section \<open>The hardware\<close>

text \<open>Controllers and serial port as described, and neither changes when the other is used.\<close>

definition hardware_laws :: "'p hardware \<Rightarrow> ('p \<Rightarrow> apic_view) \<Rightarrow> ('p \<Rightarrow> uart_view) \<Rightarrow> bool" where
  "hardware_laws hw av uv \<longleftrightarrow>
     apic_laws (hw_mm hw) (physical_to_virtual hw LAPIC_ADDR) (physical_to_virtual hw IOAPIC_ADDR) av \<and>
     uart_laws (hw_io hw) (serial_port_new SERIAL_IO_PORT) uv \<and>
     (\<forall>port p. av (snd (io_in8 (hw_io hw) port p)) = av p) \<and>
     (\<forall>a v p. uv (snd (mm_read (hw_mm hw) a p)) = uv p \<and> uv (mm_write (hw_mm hw) a v p) = uv p)"

lemma hardware_lawsD:
  assumes "hardware_laws hw av uv"
  shows "apic_laws (hw_mm hw) (physical_to_virtual hw LAPIC_ADDR) (physical_to_virtual hw IOAPIC_ADDR) av"
    and "uart_laws (hw_io hw) (serial_port_new SERIAL_IO_PORT) uv"
    and "av (snd (io_in8 (hw_io hw) port p)) = av p"
    and "uv (snd (mm_read (hw_mm hw) a p)) = uv p" and "uv (mm_write (hw_mm hw) a v p) = uv p"
  using assms unfolding hardware_laws_def by blast+

lemma ack_view:
  assumes "hardware_laws hw av uv"
  shows "av (ack hw p) = (av p)\<lparr>ap_service := tl (ap_service (av p))\<rparr>" "uv (ack hw p) = uv p"
  using eoi_view [OF hardware_lawsD(1) [OF assms]] hardware_lawsD(4, 5) [OF assms]
  by (simp_all add: ack_def eoi_def xapic_write_def xapic_read_def)

section \<open>Which vectors have a handler\<close>

lemma IDT_eq:
  "IDT v =
     (if v = 0x80 then Some \<lparr>ie_handler = SyscallHandler, ie_stack = Some 1, ie_user = True\<rparr>
      else if v = 0x24 then Some \<lparr>ie_handler = SerialHandler, ie_stack = None, ie_user = False\<rparr>
      else if v = 0x20 then Some \<lparr>ie_handler = ClockHandler, ie_stack = Some 0, ie_user = False\<rparr>
      else if v = 14 then Some \<lparr>ie_handler = PageFaultHandler, ie_stack = Some 2, ie_user = False\<rparr>
      else register_exceptions Map.empty v)"
  by (simp add: IDT_def register_syscall_def register_serial_def register_clock_def set_handler_fn_def
      set_stack_index_def SYSCALL_IST_INDEX_def CONTEXT_SWITCH_IST_INDEX_def register_exceptions_def
      PAGE_FAULT_IST_INDEX_def)

text \<open>Every other entry panics, and is not for user programs.\<close>

lemma exception_entries:
  "v \<noteq> 14 \<Longrightarrow> register_exceptions Map.empty v = Some e \<Longrightarrow> (\<exists>i. ie_handler e = PanicHandler i) \<and> \<not> ie_user e"
  by (auto simp: register_exceptions_def set_handler_fn_def set_stack_index_def split: if_splits)

lemma exception_present:
  "register_exceptions Map.empty 11 = Some (set_handler_fn (PanicHandler SegmentNotPresent))"
  "register_exceptions Map.empty 13 = Some (set_handler_fn (PanicHandler GeneralProtectionFault))"
  by (simp_all add: register_exceptions_def)

lemma handler_panics:
  assumes "v \<notin> {14, 0x20, 0x24, 0x80} \<or> user_int \<and> v \<noteq> 0x80"
  shows "\<exists>i. ie_handler (the (IDT (raised user_int v))) = PanicHandler i"
proof (cases "IDT v")
  case None
  then show ?thesis by (simp add: raised_def) (simp add: IDT_eq exception_present set_handler_fn_def)
next
  case (Some e)
  show ?thesis
  proof (cases "user_int \<and> \<not> ie_user e")
    case True
    then show ?thesis using Some by (simp add: raised_def) (simp add: IDT_eq exception_present set_handler_fn_def)
  next
    case False
    then have "v \<notin> {14, 0x20, 0x24, 0x80}" using assms Some by (auto simp: IDT_eq split: if_splits)
    then have "register_exceptions Map.empty v = Some e" "v \<noteq> 14" using Some by (simp_all add: IDT_eq)
    then show ?thesis using exception_entries Some False by (auto simp: raised_def)
  qed
qed

lemma deliver_device:
  "deliver sv hw a prot False 0x20 cx k p = clock hw cx k p"
  "deliver sv hw a prot False 0x24 cx k p = serial_handler hw cx k p"
  by (simp_all add: deliver_def raised_def IDT_eq handle_def)

lemma deliver_service:
  "deliver sv hw a prot False 14 cx k p = (case page_fault (sv_mc sv) a prot k of (r, k) \<Rightarrow> (r, cx, k, p))"
  "deliver sv hw a prot user 0x80 cx k p = syscall sv cx k p"
  by (simp_all add: deliver_def raised_def IDT_eq handle_def)

text \<open>A byte that waits in the port becomes a key, if there is room for it.\<close>

lemma receive_key_view:
  assumes laws: "hardware_laws hw av uv" and line: "uv_line (uv p) AND DLAB = 0"
  obtains q where "receive_key (hw_io hw) keys p =
      ((case uv_in (uv p) of [] \<Rightarrow> keys | b # bs \<Rightarrow> push_key keys b), q)"
    "uv_in (uv q) = tl (uv_in (uv p))" "uv_line (uv q) = uv_line (uv p)" "av q = av p"
proof -
  note uart = hardware_lawsD(2) [OF laws]
  have ports: "sp_line_status (serial_port_new SERIAL_IO_PORT) = UART_PORT + 5"
    "sp_data (serial_port_new SERIAL_IO_PORT) = UART_PORT"
    by (simp_all add: serial_port_new_def SERIAL_IO_PORT_def UART_PORT_def)
  let ?p1 = "snd (io_in8 (hw_io hw) (UART_PORT + 5) p)"
  note status = uart_lawsD(1, 3) [OF uart, of p, unfolded ports]
  show thesis
  proof (cases "uv_in (uv p)")
    case Nil
    then show ?thesis using status hardware_lawsD(3) [OF laws]
      by (intro that [of ?p1]) (simp_all add: receive_key_def split_beta)
  next
    case (Cons b bs)
    let ?p2 = "snd (io_in8 (hw_io hw) UART_PORT ?p1)"
    have "fst (io_in8 (hw_io hw) UART_PORT ?p1) = b \<and> uv ?p2 = (uv ?p1)\<lparr>uv_in := bs\<rparr>"
      using uart_lawsD(4) [OF uart, of ?p1 b bs, unfolded ports] status(1) line Cons by simp
    then show ?thesis using status hardware_lawsD(3) [OF laws] Cons
      by (intro that [of ?p2]) (simp_all add: receive_key_def split_beta)
  qed
qed

section \<open>A simulated machine\<close>

definition sim_registers :: "lapic_register list" where
  "sim_registers = [SVR, TDCR, TICR, LvtTimer, LvtLInt0, LvtLInt1, LvtPCINT, LvtError, ICRHigh, TPR]"

definition sim_register_at :: "u64 \<Rightarrow> lapic_register option" where
  "sim_register_at a = find (\<lambda>r. lapic_at LAPIC_ADDR r = a) sim_registers"

definition sim_mm_read :: "u64 \<Rightarrow> apic_view \<times> uart_view \<Rightarrow> u32 \<times> apic_view \<times> uart_view" where
  "sim_mm_read a s =
     (case s of (v, u) \<Rightarrow>
        if a = lapic_at LAPIC_ADDR ICRLow
        then (if 0 < ap_busy v then 0x1000 else 0, v\<lparr>ap_busy := ap_busy v - 1\<rparr>, u)
        else (case sim_register_at a of Some r \<Rightarrow> ap_regs v r | None \<Rightarrow> 0, v, u))"

definition sim_mm_write :: "u64 \<Rightarrow> u32 \<Rightarrow> apic_view \<times> uart_view \<Rightarrow> apic_view \<times> uart_view" where
  "sim_mm_write a x s =
     (case s of (v, u) \<Rightarrow>
        (if a = lapic_at LAPIC_ADDR ICRLow then v\<lparr>ap_regs := (ap_regs v)(ICRLow := x), ap_busy := 3\<rparr>
         else if a = lapic_at LAPIC_ADDR ESR then v\<lparr>ap_regs := (ap_regs v)(ESR := 0)\<rparr>
         else if a = lapic_at LAPIC_ADDR EOI then v\<lparr>ap_service := tl (ap_service v)\<rparr>
         else if a = IOAPIC_ADDR then v\<lparr>ap_selected := x\<rparr>
         else if a = IOAPIC_ADDR + 0x10 then v\<lparr>ap_table := (ap_table v)(ucast (ap_selected v) := x)\<rparr>
         else (case sim_register_at a of Some r \<Rightarrow> v\<lparr>ap_regs := (ap_regs v)(r := x)\<rparr> | None \<Rightarrow> v), u))"

definition uart_in8 :: "u16 \<Rightarrow> apic_view \<times> uart_view \<Rightarrow> u8 \<times> apic_view \<times> uart_view" where
  "uart_in8 port s =
     (case s of (v, u) \<Rightarrow>
        if port = 0x3FD
        then ((if 0 < uv_busy u then 0 else 0x20) OR (if uv_in u = [] then 0 else 1), v, u\<lparr>uv_busy := uv_busy u - 1\<rparr>)
        else if port = 0x3F8
        then (case uv_in u of [] \<Rightarrow> (0, v, u) | b # bs \<Rightarrow> (b, v, u\<lparr>uv_in := bs\<rparr>))
        else (0, v, u))"

definition uart_out8 :: "u16 \<Rightarrow> u8 \<Rightarrow> apic_view \<times> uart_view \<Rightarrow> apic_view \<times> uart_view" where
  "uart_out8 port x s =
     (case s of (v, u) \<Rightarrow>
        (v, if port = 0x3F8 then (if uv_line u AND DLAB = 0 then u\<lparr>uv_out := uv_out u @ [x], uv_busy := 2\<rparr>
                                  else u\<lparr>uv_divisor := (x, snd (uv_divisor u))\<rparr>)
            else if port = 0x3F9 then (if uv_line u AND DLAB = 0 then u\<lparr>uv_enable := x\<rparr>
                                       else u\<lparr>uv_divisor := (fst (uv_divisor u), x)\<rparr>)
            else if port = 0x3FA then u\<lparr>uv_fifo := x, uv_in := (if bit x 1 then [] else uv_in u)\<rparr>
            else if port = 0x3FB then u\<lparr>uv_line := x\<rparr>
            else u))"

definition sim_hardware :: "(apic_view \<times> uart_view) hardware" where
  "sim_hardware =
     \<lparr>hw_io = \<lparr>io_in8 = uart_in8, io_in16 = (\<lambda>port s. (0, s)), io_out8 = uart_out8, io_out16 = (\<lambda>port x s. s)\<rparr>,
      hw_mm = \<lparr>mm_read = sim_mm_read, mm_write = sim_mm_write\<rparr>, hw_offset = 0\<rparr>"

lemma sim_register_found: "r \<notin> {ICRLow, ESR, EOI} \<Longrightarrow> sim_register_at (lapic_at LAPIC_ADDR r) = Some r"
  by (cases r) (simp_all add: sim_register_at_def sim_registers_def LAPIC_ADDR_def)

lemma lapic_at_inj: "(ucast (lapic_offset r) :: u64) = ucast (lapic_offset r') \<longleftrightarrow> r = r'"
  by (cases r; cases r'; simp)

lemma lapic_not_io: "lapic_at LAPIC_ADDR r \<noteq> IOAPIC_ADDR" "lapic_at LAPIC_ADDR r \<noteq> IOAPIC_ADDR + 0x10"
  by (cases r; simp add: LAPIC_ADDR_def IOAPIC_ADDR_def)+

lemma sim_apic_laws: "apic_laws (hw_mm sim_hardware) LAPIC_ADDR IOAPIC_ADDR fst"
  unfolding apic_laws_def
  by (intro conjI allI impI)
    (auto simp: sim_hardware_def sim_mm_read_def sim_mm_write_def sim_register_found lapic_at_inj lapic_not_io
      lapic_not_io [symmetric] simp del: lapic_offset.simps split: prod.splits)

lemma sim_uart_laws: "uart_laws (hw_io sim_hardware) (serial_port_new SERIAL_IO_PORT) snd"
  unfolding uart_laws_def
  by (intro conjI allI impI)
    (auto simp: sim_hardware_def uart_in8_def uart_out8_def serial_port_new_def SERIAL_IO_PORT_def DLAB_def
      split: prod.splits list.splits)

lemma sim_hardware_laws: "hardware_laws sim_hardware fst snd"
  using sim_apic_laws sim_uart_laws unfolding hardware_laws_def physical_to_virtual_def
  by (auto simp: sim_hardware_def uart_in8_def sim_mm_read_def sim_mm_write_def split: prod.splits list.splits)

section \<open>The properties\<close>

text \<open>
  C31: After \<open>init\<close> the controllers deliver two interrupts to handlers that exist: the timer's, again
  and again, and that of the first serial port; the other lines of the devices are as they were
  and the local ones masked. The vectors for errors and spurious interrupts are set up as well,
  but have no handler.
\<close>

theorem interrupts_init:
  assumes "hardware_laws hw av uv"
  shows "\<exists>q. interrupt_init hw p = (Ok (), q) \<and> uv q = uv p \<and>
    bit (ap_regs (av q) SVR) 8 \<and> ap_regs (av q) TPR = 0 \<and> ap_busy (av q) = 0 \<and>
    ap_service (av q) = tl (ap_service (av p)) \<and>
    ap_regs (av q) LvtTimer = PERIODIC OR 0x20 \<and> map_option ie_handler (IDT 0x20) = Some ClockHandler \<and>
    ap_table (av q) = (ap_table (av p))(0x18 := 0x24, 0x19 := 0) \<and> map_option ie_handler (IDT 0x24) = Some SerialHandler \<and>
    ap_regs (av q) LvtLInt0 = MASKED \<and> ap_regs (av q) LvtLInt1 = MASKED \<and> ap_regs (av q) LvtPCINT = MASKED \<and>
    ap_regs (av q) LvtError = 0x33 \<and> IDT 0x33 = None \<and> ucast (ap_regs (av q) SVR) = (0x3F :: u8) \<and> IDT 0x3F = None"
proof -
  let ?la = "physical_to_virtual hw LAPIC_ADDR"
  note apic = hardware_lawsD(1) [OF assms]
  obtain q1 e where q1: "cpu_init (hw_mm hw) ?la p = (Ok (), q1)"
    "av q1 = (av p)\<lparr>ap_regs := init_regs (ap_regs (av p)) e, ap_service := tl (ap_service (av p)), ap_busy := 0\<rparr>"
    by (rule cpu_init_spec [OF apic])
  have "uv q1 = uv p" using cpu_init_other [where view = uv, OF hardware_lawsD(4, 5) [OF assms] q1(1)] .
  let ?q = "enable_irq hw (irq_number Serial0) 0 q1"
  obtain s where "av ?q = (av q1)\<lparr>ap_selected := s, ap_table := (ap_table (av q1))(0x18 := 0x24, 0x19 := 0)\<rparr>"
    using write_irq_view [OF apic, of 4 ENTRY_NONE 0 q1]
    by (auto simp: enable_irq_def ioapic_enable_def ENTRY_NONE_def)
  moreover have "uv ?q = uv q1"
    using hardware_lawsD(5) [OF assms] by (simp add: enable_irq_def ioapic_enable_def write_irq_def ioapic_write_def)
  moreover have "interrupt_init hw p = (Ok (), ?q)" using q1(1) by (simp add: interrupt_init_def)
  moreover have "IDT 0x33 = None" "IDT 0x3F = None" by (simp_all add: IDT_eq register_exceptions_def)
  ultimately show ?thesis
    using q1(2) \<open>uv q1 = uv p\<close>
    by (intro exI [of _ ?q]) (simp add: init_regs_def IDT_eq PERIODIC_def MASKED_def)
qed

definition sim_machine :: "apic_view \<times> uart_view" where
  "sim_machine =
     (\<lparr>ap_regs = (\<lambda>r. 0xFFFFFFFF), ap_busy = 5, ap_service = [0x20], ap_selected = 0, ap_table = (\<lambda>i. 0x10000)\<rparr>,
      \<lparr>uv_divisor = (0, 0), uv_line = 3, uv_enable = 0, uv_fifo = 0, uv_in = [0x61, 0x62], uv_out = [], uv_busy = 1\<rparr>)"

theorem interrupts_init_witness:
  "\<exists>q. interrupt_init sim_hardware sim_machine = (Ok (), q) \<and> ap_regs (fst q) LvtTimer = 0x20020 \<and>
    ap_table (fst q) 0x18 = 0x24 \<and> ap_table (fst q) 0x1A = 0x10000"
  using interrupts_init [OF sim_hardware_laws, of sim_machine] by (auto simp: PERIODIC_def sim_machine_def)

text \<open>What a page fault does is what the stack of the current process does with it.\<close>

lemma page_fault_stack:
  assumes ok: "kernel_ok k"
  obtains pr vm r s m k' where "k_procs k (k_cur k) = Some pr" "pr_vm pr = Some vm"
    "stack_handle_page_fault (pt_mapper mc (pv_table vm)) (k_cur k \<noteq> KERNEL_PID) (pv_stack vm) addr (vs_mem (k_vm k)) = (r, s, m)"
    "page_fault mc addr False k = (andThen r (\<lambda>handled. if handled then Ok () else Panic), k')"
    "k_procs k' = (k_procs k)(k_cur k \<mapsto> pr\<lparr>pr_vm := Some (vm\<lparr>pv_stack := s\<rparr>)\<rparr>)" "vs_mem (k_vm k') = m"
proof -
  obtain pr where pr: "k_procs k (k_cur k) = Some pr" "pr_status pr \<noteq> Dead" "proc_ok pr" "k_cur k \<noteq> 0"
    using kernel_okD(3, 4) [OF ok] by auto
  then obtain vm where vm: "pr_vm pr = Some vm" by (auto simp: proc_ok_def)
  obtain r s m where run: "stack_handle_page_fault (pt_mapper mc (pv_table vm)) (k_cur k \<noteq> KERNEL_PID) (pv_stack vm)
      addr (vs_mem (k_vm k)) = (r, s, m)" by (metis prod_cases3)
  let ?k = "k\<lparr>k_vm := (k_vm k)\<lparr>vs_mem := m\<rparr>,
    k_procs := (k_procs k)(k_cur k \<mapsto> pr\<lparr>pr_vm := Some (vm\<lparr>pv_stack := s\<rparr>)\<rparr>)\<rparr>"
  have "page_fault mc addr False k = (andThen r (\<lambda>handled. if handled then Ok () else Panic), ?k)"
    using pr(1, 4) vm run by (cases r) (simp_all add: page_fault_def manager_handle_page_fault_def current_def
      current_pid_def proc_vm_handle_page_fault_def upd_proc_def)
  with pr(1) vm run show thesis by (intro that [of pr vm r s m ?k]) simp_all
qed

text \<open>
  C33: What an interrupt does in a kernel whose invariant holds. The timer's switches and that of
  the serial port takes a key at most; neither panics, both keep the invariant, and each is
  acknowledged exactly once. The call gate does what the dispatcher does, also for user programs,
  and acknowledges nothing; an allowed call of a user process keeps the invariant, and a number
  that is no system call changes nothing. A page fault on a page that is present panics; any other
  is given to the stack of the current process, which changes as \<open>handle_page_fault\<close> says, the
  context being resumed as it was if the fault is handled, and the kernel panics if not.
  Every vector without a handler of its own and every exception but
  a page fault panics the kernel, and so does every \<open>int\<close> of a user program but that of the system calls.
\<close>

theorem interrupt_outcomes:
  assumes hw: "hardware_laws hw av uv" and line: "uv_line (uv p) AND DLAB = 0" and ok: "kernel_ok k"
  shows "(\<exists>cx' k' q. deliver sv hw addr prot False 0x20 cx k p = (Ok (), cx', k', q) \<and>
      switch cx k = (Ok (), cx', k') \<and> kernel_ok k' \<and>
      av q = (av p)\<lparr>ap_service := tl (ap_service (av p))\<rparr> \<and> uv q = uv p) \<and>
    (\<exists>ks q. deliver sv hw addr prot False 0x24 cx k p = (Ok (), cx, k\<lparr>k_keys := k_keys k @ ks\<rparr>, q) \<and>
      kernel_ok (k\<lparr>k_keys := k_keys k @ ks\<rparr>) \<and> ks = take (min 1 (INPUT_CAPACITY - length (k_keys k))) (uv_in (uv p)) \<and>
      av q = (av p)\<lparr>ap_service := tl (ap_service (av p))\<rparr> \<and> uv_in (uv q) = tl (uv_in (uv p))) \<and>
    (\<exists>r cx' k'. dispatcher sv cx k = (r, cx', k') \<and> deliver sv hw addr prot user_int 0x80 cx k p = (r, cx', k', p) \<and>
      (k_cur k \<noteq> KERNEL_PID \<and> allowed cx k \<and> r = Ok () \<longrightarrow> kernel_ok k') \<and>
      (syscall_from (rg_rax (cx_regs cx)) = SysUnknown \<longrightarrow> r = Ok () \<and> cx' = cx \<and> k' = k)) \<and>
    deliver sv hw addr True False 14 cx k p = (Panic, cx, k, p) \<and>
    (\<exists>pr vm r s m k'. k_procs k (k_cur k) = Some pr \<and> pr_vm pr = Some vm \<and>
      stack_handle_page_fault (pt_mapper (sv_mc sv) (pv_table vm)) (k_cur k \<noteq> KERNEL_PID) (pv_stack vm) addr
        (vs_mem (k_vm k)) = (r, s, m) \<and>
      deliver sv hw addr False False 14 cx k p =
        (andThen r (\<lambda>handled. if handled then Ok () else Panic), cx, k', p) \<and> kernel_ok k' \<and>
      k_procs k' = (k_procs k)(k_cur k \<mapsto> pr\<lparr>pr_vm := Some (vm\<lparr>pv_stack := s\<rparr>)\<rparr>) \<and> vs_mem (k_vm k') = m) \<and>
    (\<forall>v. v \<noteq> 14 \<and> v \<noteq> 0x20 \<and> v \<noteq> 0x24 \<and> v \<noteq> 0x80 \<longrightarrow> deliver sv hw addr prot user_int v cx k p = (Panic, cx, k, p)) \<and>
    (\<forall>v. v \<noteq> 0x80 \<longrightarrow> deliver sv hw addr prot True v cx k p = (Panic, cx, k, p))"
proof (intro conjI allI impI)
  obtain cx' k' where s: "switch cx k = (Ok (), cx', k')" "kernel_ok k'" using switch_keeps [OF ok] by blast
  then show "\<exists>cx' k' q. deliver sv hw addr prot False 0x20 cx k p = (Ok (), cx', k', q) \<and>
      switch cx k = (Ok (), cx', k') \<and> kernel_ok k' \<and>
      av q = (av p)\<lparr>ap_service := tl (ap_service (av p))\<rparr> \<and> uv q = uv p"
    using ack_view [OF hw, of p] by (simp add: deliver_device clock_def)
  obtain q where q: "receive_key (hw_io hw) (k_keys k) p =
      ((case uv_in (uv p) of [] \<Rightarrow> k_keys k | b # bs \<Rightarrow> push_key (k_keys k) b), q)"
    "uv_in (uv q) = tl (uv_in (uv p))" "av q = av p"
    by (rule receive_key_view [OF hw line])
  let ?ks = "take (min 1 (INPUT_CAPACITY - length (k_keys k))) (uv_in (uv p))"
  have keys: "(case uv_in (uv p) of [] \<Rightarrow> k_keys k | b # bs \<Rightarrow> push_key (k_keys k) b) = k_keys k @ ?ks"
    by (cases "uv_in (uv p)") (auto simp: push_key_def min_def)
  have "kernel_ok (k\<lparr>k_keys := k_keys k @ ?ks\<rparr>)" by (rule keeps_ok [OF _ ok]) simp
  then show "\<exists>ks q. deliver sv hw addr prot False 0x24 cx k p = (Ok (), cx, k\<lparr>k_keys := k_keys k @ ks\<rparr>, q) \<and>
      kernel_ok (k\<lparr>k_keys := k_keys k @ ks\<rparr>) \<and> ks = ?ks \<and>
      av q = (av p)\<lparr>ap_service := tl (ap_service (av p))\<rparr> \<and> uv_in (uv q) = tl (uv_in (uv p))"
    using q ack_view [OF hw, of q] by (intro exI [of _ ?ks] exI [of _ "ack hw q"]) (simp add: deliver_device serial_handler_def keys)
next
  obtain r cx' k' where d: "dispatcher sv cx k = (r, cx', k')" by (metis prod_cases3)
  then have "deliver sv hw addr prot user_int 0x80 cx k p = (r, cx', k', p)"
    by (cases r) (simp_all add: deliver_service syscall_def)
  moreover have "kernel_ok k'" if "k_cur k \<noteq> KERNEL_PID" "allowed cx k" "r = Ok ()"
    using dispatcher_keeps [OF ok that(1, 2), of sv] d that(3) by (simp add: op_ok_def)
  moreover have "r = Ok () \<and> cx' = cx \<and> k' = k" if "syscall_from (rg_rax (cx_regs cx)) = SysUnknown"
    using d that by (simp add: dispatcher_def)
  ultimately show "\<exists>r cx' k'. dispatcher sv cx k = (r, cx', k') \<and>
      deliver sv hw addr prot user_int 0x80 cx k p = (r, cx', k', p) \<and>
      (k_cur k \<noteq> KERNEL_PID \<and> allowed cx k \<and> r = Ok () \<longrightarrow> kernel_ok k') \<and>
      (syscall_from (rg_rax (cx_regs cx)) = SysUnknown \<longrightarrow> r = Ok () \<and> cx' = cx \<and> k' = k)" using d by blast
next
  show "deliver sv hw addr True False 14 cx k p = (Panic, cx, k, p)"
    by (simp add: deliver_service page_fault_def manager_handle_page_fault_def)
next
  obtain pr vm r s m k' where f: "k_procs k (k_cur k) = Some pr" "pr_vm pr = Some vm"
    "stack_handle_page_fault (pt_mapper (sv_mc sv) (pv_table vm)) (k_cur k \<noteq> KERNEL_PID) (pv_stack vm) addr
      (vs_mem (k_vm k)) = (r, s, m)"
    "page_fault (sv_mc sv) addr False k = (andThen r (\<lambda>handled. if handled then Ok () else Panic), k')"
    "k_procs k' = (k_procs k)(k_cur k \<mapsto> pr\<lparr>pr_vm := Some (vm\<lparr>pv_stack := s\<rparr>)\<rparr>)" "vs_mem (k_vm k') = m"
    by (rule page_fault_stack [OF ok])
  have "kernel_ok k'" using page_fault_keeps [of k "sv_mc sv" addr False] keeps_ok [OF _ ok] f(4) by simp
  with f show "\<exists>pr vm r s m k'. k_procs k (k_cur k) = Some pr \<and> pr_vm pr = Some vm \<and>
      stack_handle_page_fault (pt_mapper (sv_mc sv) (pv_table vm)) (k_cur k \<noteq> KERNEL_PID) (pv_stack vm) addr
        (vs_mem (k_vm k)) = (r, s, m) \<and>
      deliver sv hw addr False False 14 cx k p =
        (andThen r (\<lambda>handled. if handled then Ok () else Panic), cx, k', p) \<and> kernel_ok k' \<and>
      k_procs k' = (k_procs k)(k_cur k \<mapsto> pr\<lparr>pr_vm := Some (vm\<lparr>pv_stack := s\<rparr>)\<rparr>) \<and> vs_mem (k_vm k') = m"
    by (intro exI [of _ pr] exI [of _ vm] exI [of _ r] exI [of _ s] exI [of _ m] exI [of _ k']) (simp add: deliver_service)
next
  fix v :: u8 assume "v \<noteq> 14 \<and> v \<noteq> 0x20 \<and> v \<noteq> 0x24 \<and> v \<noteq> 0x80"
  then show "deliver sv hw addr prot user_int v cx k p = (Panic, cx, k, p)"
    using handler_panics [of v user_int] by (auto simp: deliver_def handle_def)
next
  fix v :: u8 assume "v \<noteq> 0x80"
  then show "deliver sv hw addr prot True v cx k p = (Panic, cx, k, p)"
    using handler_panics [of v True] by (auto simp: deliver_def handle_def)
qed

abbreviation sim_kernel :: "(flat, unit) kernel" where
  "sim_kernel \<equiv> proc_init [] (boot_kernel (flat_vmem Map.empty []))"

theorem interrupt_outcomes_witness:
  "\<exists>cx' k' q. deliver flat_services sim_hardware 0 False False 0x20 context_default sim_kernel sim_machine = (Ok (), cx', k', q) \<and>
    kernel_ok k' \<and> ap_service (fst q) = [] \<and>
    fst (deliver flat_services sim_hardware 0 False True 3 context_default sim_kernel sim_machine) = Panic"
proof -
  have ok: "uv_line (snd sim_machine) AND DLAB = 0" "kernel_ok sim_kernel" "ap_service (fst sim_machine) = [0x20]"
    using boot_ok by (simp_all add: sim_machine_def DLAB_def)
  show ?thesis
    using interrupt_outcomes [OF sim_hardware_laws ok(1, 2), of flat_services 0 False context_default True] ok(3) by auto
qed

section \<open>Keys\<close>

text \<open>Interrupts of the serial port one after the other.\<close>

fun serial_interrupts ::
  "nat \<Rightarrow> ('m, 'h) services \<Rightarrow> 'p hardware \<Rightarrow> proc_context \<Rightarrow> ('m, 'h) kernel \<Rightarrow> 'p \<Rightarrow> ('m, 'h, 'p) handled" where
  "serial_interrupts 0 sv hw cx k p = (Ok (), cx, k, p)"
| "serial_interrupts (Suc n) sv hw cx k p =
     doS (deliver sv hw 0 False False 0x24 cx k p) (\<lambda>_ (cx, k, p). serial_interrupts n sv hw cx k p)"

lemma serial_step:
  assumes hw: "hardware_laws hw av uv" and line: "uv_line (uv p) AND DLAB = 0" and len: "length (k_keys k) \<le> INPUT_CAPACITY"
  obtains q where "deliver sv hw 0 False False 0x24 cx k p =
      (Ok (), cx, k\<lparr>k_keys := take INPUT_CAPACITY (k_keys k @ take 1 (uv_in (uv p)))\<rparr>, q)"
    "uv_in (uv q) = tl (uv_in (uv p))" "uv_line (uv q) = uv_line (uv p)"
proof -
  obtain q where q: "receive_key (hw_io hw) (k_keys k) p =
      ((case uv_in (uv p) of [] \<Rightarrow> k_keys k | b # bs \<Rightarrow> push_key (k_keys k) b), q)"
    "uv_in (uv q) = tl (uv_in (uv p))" "uv_line (uv q) = uv_line (uv p)"
    by (rule receive_key_view [OF hw line])
  have "(case uv_in (uv p) of [] \<Rightarrow> k_keys k | b # bs \<Rightarrow> push_key (k_keys k) b) =
      take INPUT_CAPACITY (k_keys k @ take 1 (uv_in (uv p)))"
    using len by (cases "uv_in (uv p)") (auto simp: push_key_def)
  then show thesis using q ack_view(2) [OF hw, of q]
    by (intro that [of "ack hw q"]) (simp_all add: deliver_device serial_handler_def)
qed

text \<open>
  C34: Bytes that wait in the serial port, interrupt by interrupt, become keys in the order they
  came; those for which the buffer of 128 keys has no room are lost, and nothing else changes.
\<close>

theorem keys_arrive:
  assumes "hardware_laws hw av uv" "uv_line (uv p) AND DLAB = 0" "length (k_keys k) \<le> INPUT_CAPACITY"
  shows "\<exists>q. serial_interrupts n sv hw cx k p =
      (Ok (), cx, k\<lparr>k_keys := take INPUT_CAPACITY (k_keys k @ take n (uv_in (uv p)))\<rparr>, q) \<and>
    uv_in (uv q) = drop n (uv_in (uv p))"
  using assms(2, 3)
proof (induction n arbitrary: k p)
  case (Suc n)
  obtain q where q: "deliver sv hw 0 False False 0x24 cx k p =
      (Ok (), cx, k\<lparr>k_keys := take INPUT_CAPACITY (k_keys k @ take 1 (uv_in (uv p)))\<rparr>, q)"
    "uv_in (uv q) = tl (uv_in (uv p))" "uv_line (uv q) = uv_line (uv p)"
    by (rule serial_step [OF assms(1) Suc.prems])
  let ?k = "k\<lparr>k_keys := take INPUT_CAPACITY (k_keys k @ take 1 (uv_in (uv p)))\<rparr>"
  have line: "uv_line (uv q) AND DLAB = 0" and len: "length (k_keys ?k) \<le> INPUT_CAPACITY"
    using Suc.prems(1) q(3) by simp_all
  obtain q' where q': "serial_interrupts n sv hw cx ?k q =
      (Ok (), cx, ?k\<lparr>k_keys := take INPUT_CAPACITY (k_keys ?k @ take n (uv_in (uv q)))\<rparr>, q')"
    "uv_in (uv q') = drop n (uv_in (uv q))"
    using Suc.IH [OF line len] by blast
  have "take INPUT_CAPACITY (k_keys ?k @ take n (uv_in (uv q))) = take INPUT_CAPACITY (k_keys k @ take (Suc n) (uv_in (uv p)))"
  proof (cases "uv_in (uv p)")
    case (Cons b bs)
    show ?thesis
    proof (cases "length (k_keys k) < INPUT_CAPACITY")
      case False
      then show ?thesis using Suc.prems(2) Cons q(2) by simp
    qed (use Cons q(2) in simp)
  qed (use q(2) Suc.prems(2) in simp)
  then show ?case using q(1, 2) q' by (cases "uv_in (uv p)") simp_all
qed simp

theorem keys_arrive_witness:
  "\<exists>q. serial_interrupts 3 flat_services sim_hardware context_default sim_kernel sim_machine =
      (Ok (), context_default, sim_kernel\<lparr>k_keys := [0x61, 0x62]\<rparr>, q) \<and> uv_in (snd q) = []"
proof -
  have ok: "uv_line (snd sim_machine) AND DLAB = 0" "uv_in (snd sim_machine) = [0x61, 0x62]"
    by (simp_all add: sim_machine_def DLAB_def)
  have keys: "k_keys sim_kernel = []"
    by (simp add: proc_init_def pt_new_def pt_share_def proc_vm_new_def proc_new_def pid_new_def data_new_def
        boot_kernel_def split: prod.splits)
  have "length (k_keys sim_kernel) \<le> INPUT_CAPACITY" by (simp add: keys)
  from keys_arrive [OF sim_hardware_laws ok(1) this, of 3 flat_services context_default]
  show ?thesis unfolding ok(2) keys by (simp add: INPUT_CAPACITY_def)
qed

section \<open>Output\<close>

text \<open>
  C35: Before the port is set up a print sends nothing and \<open>backspace\<close> panics. After \<open>init\<close> the port is
  at 38400 baud, 8N1, with the header sent. A print sends its text after what was sent before, byte
  by byte in order, and \<open>backspace\<close> sends byte 8; while the lock is held a print sends nothing
  and \<open>backspace\<close> panics. The panic handler's message is sent even then, and the handler does not
  return.
\<close>

theorem serial_console:
  assumes "uart_laws io (serial_port_new SERIAL_IO_PORT) view"
  shows "print_internal io \<lparr>ss_port = None, ss_locked = l\<rparr> msg p = (Ok (), p) \<and>
    serial_backspace io \<lparr>ss_port = None, ss_locked = l\<rparr> p = (Panic, p) \<and>
    (\<exists>st q. serial_init io header \<lparr>ss_port = None, ss_locked = l\<rparr> p = (Ok (), st, q) \<and>
      uv_divisor (view q) = (3, 0) \<and> uv_line (view q) = 3 \<and> bit (uv_enable (view q)) 0 \<and> uv_out (view q) = uv_out (view p) @ header \<and>
      (\<exists>q'. print_internal io st msg q = (Ok (), q') \<and> uv_out (view q') = uv_out (view q) @ msg) \<and>
      (\<exists>q'. serial_backspace io st q = (Ok (), q') \<and> uv_out (view q') = uv_out (view q) @ [8]) \<and>
      print_internal io (st\<lparr>ss_locked := True\<rparr>) msg q = (Ok (), q) \<and>
      serial_backspace io (st\<lparr>ss_locked := True\<rparr>) q = (Panic, q) \<and>
      (\<exists>st' q'. panic_handler io True msg (st\<lparr>ss_locked := True\<rparr>) q = (Diverge, st', q') \<and>
        uv_out (view q') = uv_out (view q) @ msg))"
proof -
  let ?s = "serial_port_new SERIAL_IO_PORT"
  let ?st = "\<lparr>ss_port = Some ?s, ss_locked = False\<rparr>"
  have clear: "(3 :: u8) AND DLAB = 0" by (simp add: DLAB_def)
  note init = serial_port_init_spec [OF assms, of p]
  obtain q n where q: "serial_write_str io ?s header (serial_port_init io ?s p) = (Ok (), q)"
    "view q = (view (serial_port_init io ?s p))\<lparr>uv_out := uv_out (view p) @ header, uv_busy := n\<rparr>"
    using serial_write_spec [OF assms, of "serial_port_init io ?s p" header] clear by (auto simp: init)
  have unset: "print_internal io \<lparr>ss_port = None, ss_locked = l\<rparr> msg p = (Ok (), p)"
    "serial_backspace io \<lparr>ss_port = None, ss_locked = l\<rparr> p = (Panic, p)"
    by (simp_all add: print_internal_def serial_backspace_def get_serial_for_sure_def get_serial_def)
  have st: "serial_init io header \<lparr>ss_port = None, ss_locked = l\<rparr> p = (Ok (), ?st, q)"
    using q(1) by (simp add: serial_init_def init_SERIAL_def get_serial_for_sure_def get_serial_def print_internal_def)
  obtain q' where msg: "serial_write_str io ?s msg q = (Ok (), q')" "uv_out (view q') = uv_out (view q) @ msg"
    using serial_write_spec [OF assms, of q msg] clear q(2) by (auto simp: init)
  obtain q8 where erase: "serial_send io ?s 8 q = (Ok (), q8)" "uv_out (view q8) = uv_out (view q) @ [8]"
    using serial_send_spec [OF assms, of q 8] clear q(2) by (auto simp: init)
  show ?thesis
    by (rule conjI [OF unset(1) conjI [OF unset(2)]], rule exI [of _ ?st], rule exI [of _ q])
      (use st msg erase q(2) in \<open>simp add: init print_internal_def get_serial_def get_serial_for_sure_def
        serial_backspace_def panic_handler_def\<close>)
qed

theorem serial_console_witness:
  "\<exists>st q q' q8. serial_init (hw_io sim_hardware) [0x48] \<lparr>ss_port = None, ss_locked = False\<rparr> sim_machine = (Ok (), st, q) \<and>
    print_internal (hw_io sim_hardware) st [0x69, 0x21] q = (Ok (), q') \<and> uv_out (snd q') = [0x48, 0x69, 0x21] \<and>
    serial_backspace (hw_io sim_hardware) st q = (Ok (), q8) \<and> uv_out (snd q8) = [0x48, 8]"
  using serial_console [OF sim_uart_laws, of False "[0x69, 0x21]" sim_machine "[0x48]"] by (auto simp: sim_machine_def)

end
