(* ===== verification/Handler.thy ===== *)
theory Handler
  imports Interrupts
begin

text \<open>
  The assembly around a handler, the macro \<open>as_handler!\<close> of \<open>pkg/kernel/src/utils/regs.rs\<close>: it saves the
  registers on the stack of the interrupt, below the frame that the processor has put there,
  and the handler gets the whole as its argument \<open>context: ProcessContext\<close>, passed in memory. The
  stack is the list of its words, the one that the stack pointer is at first.
\<close>

section \<open>Instructions\<close>

datatype reg = RBP | RAX | RBX | RCX | RDX | RSI | RDI | R8 | R9 | R10 | R11 | R12 | R13 | R14 | R15

fun get_reg :: "reg \<Rightarrow> registers \<Rightarrow> u64" where
  "get_reg RBP g = rg_rbp g"
| "get_reg RAX g = rg_rax g"
| "get_reg RBX g = rg_rbx g"
| "get_reg RCX g = rg_rcx g"
| "get_reg RDX g = rg_rdx g"
| "get_reg RSI g = rg_rsi g"
| "get_reg RDI g = rg_rdi g"
| "get_reg R8 g = rg_r8 g"
| "get_reg R9 g = rg_r9 g"
| "get_reg R10 g = rg_r10 g"
| "get_reg R11 g = rg_r11 g"
| "get_reg R12 g = rg_r12 g"
| "get_reg R13 g = rg_r13 g"
| "get_reg R14 g = rg_r14 g"
| "get_reg R15 g = rg_r15 g"

fun put_reg :: "reg \<Rightarrow> u64 \<Rightarrow> registers \<Rightarrow> registers" where
  "put_reg RBP v g = g\<lparr>rg_rbp := v\<rparr>"
| "put_reg RAX v g = g\<lparr>rg_rax := v\<rparr>"
| "put_reg RBX v g = g\<lparr>rg_rbx := v\<rparr>"
| "put_reg RCX v g = g\<lparr>rg_rcx := v\<rparr>"
| "put_reg RDX v g = g\<lparr>rg_rdx := v\<rparr>"
| "put_reg RSI v g = g\<lparr>rg_rsi := v\<rparr>"
| "put_reg RDI v g = g\<lparr>rg_rdi := v\<rparr>"
| "put_reg R8 v g = g\<lparr>rg_r8 := v\<rparr>"
| "put_reg R9 v g = g\<lparr>rg_r9 := v\<rparr>"
| "put_reg R10 v g = g\<lparr>rg_r10 := v\<rparr>"
| "put_reg R11 v g = g\<lparr>rg_r11 := v\<rparr>"
| "put_reg R12 v g = g\<lparr>rg_r12 := v\<rparr>"
| "put_reg R13 v g = g\<lparr>rg_r13 := v\<rparr>"
| "put_reg R14 v g = g\<lparr>rg_r14 := v\<rparr>"
| "put_reg R15 v g = g\<lparr>rg_r15 := v\<rparr>"

datatype asm = Push reg | Pop reg | CallFn | Iretq

definition as_handler :: "asm list" where
  "as_handler =
     [Push RBP, Push RAX, Push RBX, Push RCX, Push RDX, Push RSI, Push RDI, Push R8, Push R9, Push R10,
      Push R11, Push R12, Push R13, Push R14, Push R15,
      CallFn,
      Pop R15, Pop R14, Pop R13, Pop R12, Pop R11, Pop R10, Pop R9, Pop R8, Pop RDI, Pop RSI, Pop RDX,
      Pop RCX, Pop RBX, Pop RAX, Pop RBP,
      Iretq]"

section \<open>The context on the stack\<close>

text \<open>The structures \<open>RegistersValue\<close> and \<open>InterruptStackFrameValue\<close> with their fields in this order (\<open>repr(C)\<close>).\<close>

definition read_context :: "u64 list \<Rightarrow> proc_context" where
  "read_context st =
     \<lparr>cx_regs =
        \<lparr>rg_r15 = st ! 0, rg_r14 = st ! 1, rg_r13 = st ! 2, rg_r12 = st ! 3, rg_r11 = st ! 4, rg_r10
         = st ! 5, rg_r9 = st ! 6, rg_r8 = st ! 7, rg_rdi = st ! 8, rg_rsi = st ! 9, rg_rdx = st !
         10, rg_rcx = st ! 11, rg_rbx = st ! 12, rg_rax = st ! 13, rg_rbp = st ! 14\<rparr>,
      cx_frame =
        \<lparr>sf_ip = st ! 15, sf_cs = ucast (st ! 16), sf_flags = st ! 17, sf_sp = st ! 18, sf_ss = ucast (st ! 19)\<rparr>\<rparr>"

text \<open>A selector is the lower 16 bits of its word; a write leaves the others as they are.\<close>

definition low16 :: "u16 \<Rightarrow> u64 \<Rightarrow> u64" where "low16 c w = (w AND 0xFFFFFFFFFFFF0000) OR ucast c"

definition reg_words :: "registers \<Rightarrow> u64 list" where
  "reg_words g =
     [rg_r15 g, rg_r14 g, rg_r13 g, rg_r12 g, rg_r11 g, rg_r10 g, rg_r9 g, rg_r8 g, rg_rdi g,
      rg_rsi g, rg_rdx g, rg_rcx g, rg_rbx g, rg_rax g, rg_rbp g]"

definition frame_words :: "stack_frame \<Rightarrow> u64 list \<Rightarrow> u64 list" where
  "frame_words fr old =
     [sf_ip fr, low16 (sf_cs fr) (old ! 1), sf_flags fr, sf_sp fr, low16 (sf_ss fr) (old ! 4)]"

definition write_context :: "proc_context \<Rightarrow> u64 list \<Rightarrow> u64 list" where
  "write_context cx st = reg_words (cx_regs cx) @ frame_words (cx_frame cx) (drop 15 st) @ drop 20 st"

section \<open>Running it\<close>

text \<open>
  \<open>at_frame\<close>: the instruction pointer, the flags, the stack and the selectors of the processor.
  The handler may leave anything in the registers (\<open>clobber\<close>); when it panics or
  never returns, so does the whole.
\<close>

record 's machine_at =
  at_regs :: registers
  at_frame :: stack_frame
  at_stack :: "u64 list"
  at_world :: 's

type_synonym 's handler_fn = "proc_context \<Rightarrow> 's \<Rightarrow> (unit, unit) res \<times> proc_context \<times> 's"

fun asm_step :: "'s handler_fn \<Rightarrow> (registers \<Rightarrow> registers) \<Rightarrow> asm \<Rightarrow> 's machine_at \<Rightarrow> (unit, 's machine_at) res" where
  "asm_step f clobber (Push r) h = Ok (h\<lparr>at_stack := get_reg r (at_regs h) # at_stack h\<rparr>)"
| "asm_step f clobber (Pop r) h =
     (case at_stack h of
        [] \<Rightarrow> Panic
      | w # st \<Rightarrow> Ok (h\<lparr>at_regs := put_reg r w (at_regs h), at_stack := st\<rparr>))"
| "asm_step f clobber CallFn h =
     (if length (at_stack h) < 20 then Panic
      else case f (read_context (at_stack h)) (at_world h) of (r, cx, s) \<Rightarrow>
        andThen r (\<lambda>_.
          Ok (h\<lparr>at_regs := clobber (at_regs h), at_stack := write_context cx (at_stack h), at_world := s\<rparr>)))"
| "asm_step f clobber Iretq h =
     (case at_stack h of
        ip # cs # flags # sp # ss # st \<Rightarrow>
          Ok (h\<lparr>at_frame := \<lparr>sf_ip = ip, sf_cs = ucast cs, sf_flags = flags, sf_sp = sp, sf_ss = ucast ss\<rparr>,
                at_stack := st\<rparr>)
      | _ \<Rightarrow> Panic)"

fun asm_run :: "'s handler_fn \<Rightarrow> (registers \<Rightarrow> registers) \<Rightarrow> asm list \<Rightarrow> 's machine_at \<Rightarrow> (unit, 's machine_at) res" where
  "asm_run f clobber [] h = Ok h"
| "asm_run f clobber (i # is) h = andThen (asm_step f clobber i h) (asm_run f clobber is)"

text \<open>
  What the processor does before the first instruction: it puts the frame of the interrupted
  program on the stack of the interrupt. \<open>fr\<close> is where the handler itself runs.
\<close>

definition enter_handler :: "stack_frame \<Rightarrow> proc_context \<Rightarrow> u64 list \<Rightarrow> 's \<Rightarrow> 's machine_at" where
  "enter_handler fr cx st s =
     \<lparr>at_regs = cx_regs cx, at_frame = fr,
      at_stack = [sf_ip (cx_frame cx), ucast (sf_cs (cx_frame cx)), sf_flags (cx_frame cx), sf_sp (cx_frame cx),
        ucast (sf_ss (cx_frame cx))] @ st,
      at_world = s\<rparr>"

section \<open>The property\<close>

lemma ucast_low16 [simp]: "ucast (low16 c w) = c"
proof (rule bit_word_eqI)
  fix n assume n: "n < LENGTH(16)"
  have m: "(0xFFFFFFFFFFFF0000 :: u64) = NOT (mask 16)" by (simp add: mask_eq_exp_minus_1)
  show "bit (ucast (low16 c w) :: u16) n = bit c n" using n by (simp add: low16_def m bit_simps)
qed

lemma ucast_selector [simp]: "ucast (ucast c :: u64) = (c :: u16)"
  by (rule bit_word_eqI) (simp add: bit_simps)

definition saving :: "asm list" where "saving = take 15 as_handler"
definition restoring :: "asm list" where "restoring = drop 16 as_handler"

lemma as_handler_parts: "as_handler = saving @ CallFn # restoring"
  by (simp add: saving_def restoring_def as_handler_def)

lemma asm_run_append: "asm_run f cl (is @ js) h = andThen (asm_run f cl is h) (asm_run f cl js)"
proof (induction "is" arbitrary: h)
  case (Cons i "is")
  then show ?case by (cases "asm_step f cl i h") simp_all
qed simp

text \<open>The context that the handler finds is that of the interrupted program.\<close>

lemma context_saved:
  "\<exists>h. asm_run f cl saving (enter_handler fr cx st s) = Ok h \<and> read_context (at_stack h) = cx \<and>
    20 \<le> length (at_stack h) \<and> drop 20 (at_stack h) = st \<and> at_world h = s"
proof -
  have "asm_run f cl saving (enter_handler fr cx st s) =
      Ok ((enter_handler fr cx st s)\<lparr>at_stack := reg_words (cx_regs cx) @ at_stack (enter_handler fr cx st s)\<rparr>)"
    by (simp add: saving_def as_handler_def reg_words_def enter_handler_def)
  then show ?thesis by (simp add: read_context_def reg_words_def enter_handler_def)
qed

text \<open>The registers that are popped are those of the context, whatever they were before.\<close>

definition pops :: "reg list" where
  "pops = [R15, R14, R13, R12, R11, R10, R9, R8, RDI, RSI, RDX, RCX, RBX, RAX, RBP]"

lemma run_pops:
  "length ws = length rs \<Longrightarrow>
    asm_run f cl (map Pop rs @ is) (h\<lparr>at_stack := ws @ st\<rparr>) =
      asm_run f cl is (h\<lparr>at_regs := fold (\<lambda>(r, w). put_reg r w) (zip rs ws) (at_regs h), at_stack := st\<rparr>)"
  by (induction rs ws arbitrary: h rule: list_induct2') simp_all

lemma put_all: "fold (\<lambda>(r, w). put_reg r w) (zip pops (reg_words g')) g = g'"
  by (cases g; cases g') (simp add: pops_def reg_words_def)

lemma context_restored:
  "asm_run f cl restoring (h\<lparr>at_stack := write_context cx st\<rparr>) =
    Ok (h\<lparr>at_regs := cx_regs cx, at_frame := cx_frame cx, at_stack := drop 20 st\<rparr>)"
proof -
  have r: "restoring = map Pop pops @ [Iretq]" by (simp add: restoring_def as_handler_def pops_def)
  have l: "length (reg_words (cx_regs cx)) = length pops" by (simp add: pops_def reg_words_def)
  have "asm_run f cl restoring (h\<lparr>at_stack := write_context cx st\<rparr>) =
      asm_run f cl [Iretq] (h\<lparr>at_regs := cx_regs cx, at_stack := frame_words (cx_frame cx) (drop 15 st) @ drop 20 st\<rparr>)"
    unfolding r write_context_def run_pops [OF l] put_all ..
  then show ?thesis by (simp add: frame_words_def)
qed

text \<open>
  C32: A handler behind the assembly is a function on contexts: it finds the registers and the frame
  of the interrupted program, exactly what it leaves there is what the processor resumes, and the
  stack of the interrupt is as before.
\<close>

theorem as_handler_context:
  "asm_run f clobber as_handler (enter_handler fr cx st s) =
    (case f cx s of (r, cx', s') \<Rightarrow>
      andThen r (\<lambda>_. Ok \<lparr>at_regs = cx_regs cx', at_frame = cx_frame cx', at_stack = st, at_world = s'\<rparr>))"
proof -
  obtain h where h: "asm_run f clobber saving (enter_handler fr cx st s) = Ok h" "read_context (at_stack h) = cx"
    "20 \<le> length (at_stack h)" "drop 20 (at_stack h) = st" "at_world h = s"
    using context_saved [of f clobber fr cx st s] by (elim exE conjE)
  obtain r cx' s' where f: "f cx s = (r, cx', s')" by (cases "f cx s") auto
  let ?h = "h\<lparr>at_regs := clobber (at_regs h), at_world := s'\<rparr>"
  have "asm_step f clobber CallFn h = andThen r (\<lambda>_. Ok (?h\<lparr>at_stack := write_context cx' (at_stack h)\<rparr>))"
    using h(2, 3, 5) f by (cases r; cases h) simp_all
  moreover have "asm_run f clobber restoring (?h\<lparr>at_stack := write_context cx' (at_stack h)\<rparr>) =
      Ok \<lparr>at_regs = cx_regs cx', at_frame = cx_frame cx', at_stack = st, at_world = s'\<rparr>"
    unfolding context_restored h(4) by (cases h) simp
  ultimately show ?thesis unfolding as_handler_parts asm_run_append h(1) f
    by (cases r) (simp_all only: andThen.simps asm_run.simps prod.case)
qed

end
