(* ===== verification/Strings.thy ===== *)
theory Strings
  imports Text
begin

text \<open>
  More of \<open>core::str\<close> and \<open>alloc::string\<close> on byte strings, for the shell and the boot
  configuration: character boundaries, insertion and removal, words, lines, numbers.
\<close>

section \<open>Characters in a string\<close>

definition continuation :: "u8 \<Rightarrow> bool" where "continuation b \<longleftrightarrow> between 0x80 0xBF b"

definition is_char_boundary :: "u8 list \<Rightarrow> nat \<Rightarrow> bool" where
  "is_char_boundary s i \<longleftrightarrow> i = 0 \<or> i = length s \<or> i < length s \<and> \<not> continuation (s ! i)"

text \<open>The width of a character by its first byte.\<close>

definition char_width :: "u8 \<Rightarrow> nat" where
  "char_width b = (if b < 0x80 then 1 else if b < 0xE0 then 2 else if b < 0xF0 then 3 else 4)"

text \<open>\<open>String::insert\<close> and \<open>String::remove\<close> panic off a boundary, \<open>remove\<close> also at the end.\<close>

definition string_insert :: "u8 list \<Rightarrow> nat \<Rightarrow> u8 list \<Rightarrow> ('e, u8 list) res" where
  "string_insert s i c = (if is_char_boundary s i then Ok (take i s @ c @ drop i s) else Panic)"

definition string_remove :: "u8 list \<Rightarrow> nat \<Rightarrow> ('e, u8 list) res" where
  "string_remove s i =
     (if is_char_boundary s i \<and> i < length s then Ok (take i s @ drop (i + char_width (s ! i)) s) else Panic)"

lemma ascii_boundary: "ascii s \<Longrightarrow> is_char_boundary s i \<longleftrightarrow> i \<le> length s"
proof -
  assume "ascii s"
  have "\<not> continuation (s ! i)" if "i < length s"
  proof -
    have "s ! i < 0x80" using \<open>ascii s\<close> nth_mem [OF that] by (auto simp: ascii_def list_all_iff)
    then show ?thesis by (simp add: continuation_def between_def word_le_nat_alt word_less_nat_alt)
  qed
  then show ?thesis by (auto simp: is_char_boundary_def)
qed

lemma ascii_width: "ascii s \<Longrightarrow> i < length s \<Longrightarrow> char_width (s ! i) = 1"
  using nth_mem [of i s] by (auto simp: ascii_def list_all_iff char_width_def)

section \<open>Words\<close>

text \<open>The part before the first white space.\<close>

fun take_nonwhite :: "u8 list \<Rightarrow> u8 list" where
  "take_nonwhite [] = []"
| "take_nonwhite (b # bs) =
     (if find (\<lambda>w. prefix w (b # bs)) white_space \<noteq> None then [] else b # take_nonwhite bs)"

lemma length_take_nonwhite: "length (take_nonwhite s) \<le> length s"
  by (induction s) auto

lemma length_trim_start: "length (trim_start s) \<le> length s"
proof (induction s rule: trim_start.induct)
  case (1 s)
  then show ?case by (subst trim_start.simps) (auto split: option.splits intro: order_trans)
qed

lemma trim_start_nonwhite: "trim_start s = b # bs \<Longrightarrow> find (\<lambda>w. prefix w (b # bs)) white_space = None"
proof (induction s rule: trim_start.induct)
  case (1 s)
  then show ?case
  proof (cases "find (\<lambda>w. prefix w s) white_space")
    case None
    then show ?thesis using 1 by (subst (asm) (2) trim_start.simps) simp
  next
    case (Some w)
    then have "trim_start s = trim_start (drop (length w) s)" by (subst trim_start.simps) simp
    then show ?thesis using 1 Some by simp
  qed
qed

text \<open>\<open>split_whitespace\<close>\<close>

function split_white :: "u8 list \<Rightarrow> u8 list list" where
  "split_white s =
     (case trim_start s of
        [] \<Rightarrow> []
      | b # bs \<Rightarrow> take_nonwhite (b # bs) # split_white (drop (length (take_nonwhite (b # bs))) (b # bs)))"
  by pat_completeness auto
termination
proof (relation "measure length")
  fix s b bs assume t: "trim_start s = b # bs"
  have "find (\<lambda>w. prefix w (b # bs)) white_space = None" by (rule trim_start_nonwhite [OF t])
  then have "take_nonwhite (b # bs) = b # take_nonwhite bs" by simp
  then show "(drop (length (take_nonwhite (b # bs))) (b # bs), s) \<in> measure length"
    using length_trim_start [of s] t by simp
qed simp

declare split_white.simps [simp del]

lemma trim_graphic:
  assumes "graphic (hd s)" "s \<noteq> []" "graphic (last s)"
  shows "trim s = s"
proof -
  have "find (\<lambda>w. prefix w s) white_space = None"
  proof (rule ccontr)
    assume "find (\<lambda>w. prefix w s) white_space \<noteq> None"
    then obtain w where w: "w \<in> set white_space" "prefix w s" by (auto simp: find_None_iff)
    then have "hd w = hd s" using white_space_nonempty by (auto simp: prefix_def)
    moreover have "\<not> graphic (hd w)" using w(1) by (auto simp: white_space_def graphic_def between_def)
    ultimately show False using assms(1) by simp
  qed
  then have "trim_start s = s" by (subst trim_start.simps) simp
  then show ?thesis using assms(3) by (simp add: trim_def trim_end_graphic)
qed

section \<open>Lines\<close>

text \<open>\<open>str::lines\<close>: a final empty line is none, and a carriage return before a line feed is dropped.\<close>

definition strip_cr :: "u8 list \<Rightarrow> u8 list" where
  "strip_cr l = (if l \<noteq> [] \<and> last l = 0x0D then butlast l else l)"

definition lines :: "u8 list \<Rightarrow> u8 list list" where
  "lines s =
     (let ls = split_on 0x0A s
      in map strip_cr (butlast ls) @ (if last ls = [] then [] else [last ls]))"

definition split_once :: "u8 \<Rightarrow> u8 list \<Rightarrow> (u8 list \<times> u8 list) option" where
  "split_once c s = map_option (\<lambda>i. (take i s, drop (Suc i) s)) (find_byte c s)"

lemma split_once_append: "c \<notin> set s \<Longrightarrow> split_once c (s @ c # t) = Some (s, t)"
  by (simp add: split_once_def find_byte_append)

lemma lines_of_lines:
  "(\<And>l. l \<in> set ls \<Longrightarrow> 0x0A \<notin> set l \<and> (l = [] \<or> last l \<noteq> 0x0D)) \<Longrightarrow>
    lines (concat (map (\<lambda>l. l @ [0x0A]) ls)) = ls"
proof -
  assume ls: "\<And>l. l \<in> set ls \<Longrightarrow> 0x0A \<notin> set l \<and> (l = [] \<or> last l \<noteq> 0x0D)"
  have "split_on 0x0A (concat (map (\<lambda>l. l @ [0x0A]) ls)) = ls @ [[]]"
    using ls by (induction ls) (auto simp: split_on_append_sep)
  moreover have "map strip_cr ls = ls"
    using ls by (intro map_idI) (auto simp: strip_cr_def)
  ultimately show ?thesis by (simp add: lines_def)
qed

section \<open>Numbers\<close>

text \<open>
  \<open>from_str_radix\<close> of an unsigned type of \<open>w\<close> bits: a plus sign may stand before one or more
  digits; anything else, and a number too large, is an error.
\<close>

definition digit_value :: "nat \<Rightarrow> u8 \<Rightarrow> nat option" where
  "digit_value radix b =
     (let v = (if between 0x30 0x39 b then unat (b - 0x30)
               else if between 0x61 0x7A b then unat (b - 0x61) + 10
               else if between 0x41 0x5A b then unat (b - 0x41) + 10 else radix)
      in if v < radix then Some v else None)"

fun number_of :: "nat \<Rightarrow> nat \<Rightarrow> nat \<Rightarrow> u8 list \<Rightarrow> nat option" where
  "number_of radix limit acc [] = Some acc"
| "number_of radix limit acc (b # bs) =
     (case digit_value radix b of
        None \<Rightarrow> None
      | Some v \<Rightarrow> if acc * radix + v < limit then number_of radix limit (acc * radix + v) bs else None)"

definition parse_uint :: "nat \<Rightarrow> nat \<Rightarrow> u8 list \<Rightarrow> nat option" where
  "parse_uint w radix s =
     (case s of
        [] \<Rightarrow> None
      | b # bs \<Rightarrow> if b = 0x2B then (if bs = [] then None else number_of radix (2 ^ w) 0 bs)
                  else number_of radix (2 ^ w) 0 (b # bs))"

text \<open>The digits of a number, for what is printed.\<close>

definition digit_byte :: "nat \<Rightarrow> u8" where
  "digit_byte v = (if v < 10 then 0x30 + of_nat v else 0x61 + of_nat (v - 10))"

fun digits_of :: "nat \<Rightarrow> nat \<Rightarrow> u8 list" where
  "digits_of radix n =
     (if radix < 2 \<or> n < radix then [digit_byte n] else digits_of radix (n div radix) @ [digit_byte (n mod radix)])"

declare digits_of.simps [simp del]

lemma less_16:
  "v < 16 \<Longrightarrow> v \<in> {0, 1, 2, 3, 4, 5, 6, 7, 8, 9, 10, 11, 12, 13, 14, 15 :: nat}"
  by (simp only: insert_iff empty_iff) presburger

lemma unat_digit_byte: "v < 16 \<Longrightarrow> unat (digit_byte v) = (if v < 10 then 48 + v else 87 + v)"
  using less_16 [of v] by (auto simp: digit_byte_def)

lemma digit_byte_value:
  assumes "v < radix" "radix \<le> 16"
  shows "digit_value radix (digit_byte v) = Some v"
proof -
  have "v < 16" using assms by simp
  note b = unat_digit_byte [OF this]
  show ?thesis
  proof (cases "v < 10")
    case True
    then have "unat (digit_byte v - 0x30) = v" using b by (simp add: unat_sub word_le_nat_alt)
    then show ?thesis using True b assms by (simp add: digit_value_def between_def word_le_nat_alt)
  next
    case False
    then have "unat (digit_byte v - 0x61) + 10 = v" using b by (simp add: unat_sub word_le_nat_alt)
    then show ?thesis using False b assms \<open>v < 16\<close> by (simp add: digit_value_def between_def word_le_nat_alt)
  qed
qed

lemma number_of_digits:
  assumes r: "2 \<le> radix" "radix \<le> 16"
  shows "n < limit \<Longrightarrow> number_of radix limit 0 (digits_of radix n @ bs) = number_of radix limit n bs"
proof (induction n arbitrary: bs rule: less_induct)
  case (less n)
  show ?case
  proof (cases "n < radix")
    case True
    then show ?thesis using r less.prems by (subst digits_of.simps) (simp add: digit_byte_value)
  next
    case False
    have "digits_of radix n = digits_of radix (n div radix) @ [digit_byte (n mod radix)]"
      using False r by (subst digits_of.simps) simp
    moreover have "n div radix < n" using False r by (intro div_less_dividend) auto
    moreover have "n mod radix < radix" using r by simp
    ultimately show ?thesis
      using less.IH [of "n div radix" "digit_byte (n mod radix) # bs"] less.prems r
      by (simp add: digit_byte_value)
  qed
qed

lemma digits_of_Cons: "\<exists>b bs. digits_of radix n = b # bs"
proof -
  have "digits_of radix n \<noteq> []" by (subst digits_of.simps) simp
  then show ?thesis by (cases "digits_of radix n") auto
qed

lemma digit_byte_range: "v < 16 \<Longrightarrow> digit_byte v \<noteq> 0x2B \<and> graphic (digit_byte v) \<and> digit_byte v \<noteq> 0x3D \<and> digit_byte v \<noteq> 0x23"
proof -
  assume "v < 16"
  from less_16 [OF this] show ?thesis by (auto simp: digit_byte_def graphic_def between_def)
qed

lemma digits_of_set:
  assumes "2 \<le> radix" "radix \<le> 16"
  shows "\<forall>b\<in>set (digits_of radix n). \<exists>v<16. b = digit_byte v"
proof (induction n rule: less_induct)
  case (less n)
  show ?case
  proof (cases "n < radix")
    case True
    then have "n < 16" using assms by simp
    then show ?thesis using True by (auto simp: digits_of.simps [of radix n])
  next
    case False
    then have "digits_of radix n = digits_of radix (n div radix) @ [digit_byte (n mod radix)]"
      using assms by (subst digits_of.simps) simp
    moreover have "n div radix < n" using False assms by (intro div_less_dividend) auto
    moreover have "n mod radix < 16" using assms mod_less_divisor [of radix n] by linarith
    ultimately show ?thesis using less.IH by auto
  qed
qed

lemma parse_digits:
  assumes "2 \<le> radix" "radix \<le> 16" "n < 2 ^ w"
  shows "parse_uint w radix (digits_of radix n) = Some n"
proof -
  obtain b bs where b: "digits_of radix n = b # bs" using digits_of_Cons by blast
  have "b \<noteq> 0x2B" using digits_of_set [OF assms(1, 2), of n] digit_byte_range unfolding b by auto
  then show ?thesis using number_of_digits [OF assms, of "[]"] by (simp add: parse_uint_def b)
qed

end
