(* ===== verification/BootConfig.thy ===== *)
theory BootConfig
  imports Strings
begin

text \<open>
  The configuration of the boot loader: \<open>pkg/boot/src/config.rs\<close>, which reads \<open>boot.conf\<close>.
\<close>

section \<open>Parsing\<close>

record boot_config =
  kernel_stack_address :: u64
  kernel_stack_auto_grow :: u64
  kernel_stack_size :: u64
  physical_memory_offset :: u64
  kernel_path :: "u8 list"
  cmdline :: "u8 list"
  load_apps :: bool
  log_level :: "u8 list"

definition DEFAULT_CONFIG :: boot_config where
  "DEFAULT_CONFIG =
     \<lparr>kernel_stack_address = 0xFFFFFF0100000000, kernel_stack_auto_grow = 0, kernel_stack_size = 512,
      physical_memory_offset = 0xFFFF800000000000, kernel_path = 0x5C # str ''KERNEL.ELF'', cmdline = [],
      load_apps = True, log_level = str ''info''\<rparr>"

text \<open>\<open>unwrap_or(0)\<close>\<close>

definition number_or_0 :: "nat option \<Rightarrow> u64" where
  "number_or_0 r = (case r of None \<Rightarrow> 0 | Some n \<Rightarrow> of_nat n)"

text \<open>\<open>&value[2..]\<close> panics inside a character.\<close>

definition hex_value :: "u8 list \<Rightarrow> ('e, u64) res" where
  "hex_value value =
     (if 2 < length value then
        if is_char_boundary value 2 then Ok (number_or_0 (parse_uint 64 16 (drop 2 value))) else Panic
      else Ok 0)"

definition config_process :: "boot_config \<Rightarrow> u8 list \<Rightarrow> u8 list \<Rightarrow> (unit, boot_config) res" where
  "config_process c key value =
     (let r10 = number_or_0 (parse_uint 64 10 value) in
      andThen (hex_value value) (\<lambda>r16.
        Ok (if key = str ''kernel_stack_address'' then c\<lparr>kernel_stack_address := r16\<rparr>
            else if key = str ''kernel_stack_size'' then c\<lparr>kernel_stack_size := r10\<rparr>
            else if key = str ''physical_memory_offset'' then c\<lparr>physical_memory_offset := r16\<rparr>
            else if key = str ''kernel_path'' then c\<lparr>kernel_path := value\<rparr>
            else if key = str ''kernel_stack_auto_grow'' then c\<lparr>kernel_stack_auto_grow := r10\<rparr>
            else if key = str ''cmdline'' then c\<lparr>cmdline := value\<rparr>
            else if key = str ''load_apps'' then c\<lparr>load_apps := (r10 \<noteq> 0)\<rparr>
            else c)))"

text \<open>One turn of the loop over the lines.\<close>

definition config_line :: "u8 list \<Rightarrow> boot_config \<Rightarrow> (unit, boot_config) res" where
  "config_line line c =
     (let line = trim line in
      if line = [] \<or> hd line = 0x23 then Ok c
      else case split_once 0x3D line of None \<Rightarrow> Ok c | Some (key, value) \<Rightarrow> config_process c key value)"

fun config_lines :: "u8 list list \<Rightarrow> boot_config \<Rightarrow> (unit, boot_config) res" where
  "config_lines [] c = Ok c"
| "config_lines (l # ls) c = andThen (config_line l c) (config_lines ls)"

definition config_parse :: "u8 list \<Rightarrow> (unit, boot_config) res" where
  "config_parse content = (if utf8_valid content then config_lines (lines content) DEFAULT_CONFIG else Panic)"

section \<open>Lines that count\<close>

lemma config_line_eq:
  assumes "graphic (hd key)" "key \<noteq> []" "hd key \<noteq> 0x23" "0x3D \<notin> set key" "value = [] \<or> graphic (last value)"
  shows "config_line (key @ 0x3D # value) c = config_process c key value"
proof -
  have "graphic (hd (key @ 0x3D # value))" using assms(1, 2) by simp
  moreover have "graphic (last (key @ 0x3D # value))"
  proof (cases "value = []")
    case True
    then show ?thesis by (simp add: graphic_def between_def)
  next
    case False
    then show ?thesis using assms(5) by simp
  qed
  ultimately have "trim (key @ 0x3D # value) = key @ 0x3D # value" by (intro trim_graphic) simp_all
  then show ?thesis using assms(2-4) by (simp add: config_line_def split_once_append)
qed

section \<open>Printing a configuration\<close>

definition hex_text :: "u64 \<Rightarrow> u8 list" where "hex_text n = str ''0x'' @ digits_of 16 (unat n)"

definition dec_text :: "u64 \<Rightarrow> u8 list" where "dec_text n = digits_of 10 (unat n)"

definition config_text :: "boot_config \<Rightarrow> (u8 list \<times> u8 list) list" where
  "config_text c =
     [(str ''kernel_stack_address'', hex_text (kernel_stack_address c)),
      (str ''kernel_stack_size'', dec_text (kernel_stack_size c)),
      (str ''physical_memory_offset'', hex_text (physical_memory_offset c)),
      (str ''kernel_path'', kernel_path c),
      (str ''kernel_stack_auto_grow'', dec_text (kernel_stack_auto_grow c)),
      (str ''cmdline'', cmdline c),
      (str ''load_apps'', if load_apps c then str ''1'' else str ''0'')]"

definition print_config :: "boot_config \<Rightarrow> u8 list" where
  "print_config c = concat (map (\<lambda>(k, v). k @ 0x3D # v @ [0x0A]) (config_text c))"

text \<open>A value that is read back: ASCII, on one line, with no white space at its end.\<close>

definition plain_value :: "u8 list \<Rightarrow> bool" where
  "plain_value v \<longleftrightarrow> ascii v \<and> 0x0A \<notin> set v \<and> (v = [] \<or> graphic (last v))"

lemma number_text:
  assumes "2 \<le> radix" "radix \<le> 16"
  shows "plain_value (digits_of radix n)" "digits_of radix n \<noteq> []"
proof -
  have b: "graphic b \<and> b \<noteq> 0x2B" if b: "b \<in> set (digits_of radix n)" for b
  proof -
    from digits_of_set [OF assms, of n] b obtain v where "v < 16" "b = digit_byte v" by blast
    then show ?thesis using digit_byte_range [of v] by simp
  qed
  show ne: "digits_of radix n \<noteq> []" using digits_of_Cons [of radix n] by auto
  have "0x0A \<notin> set (digits_of radix n)" using b [of "0x0A"] by (auto simp: graphic_def between_def)
  moreover have "ascii (digits_of radix n)"
    unfolding ascii_def list_all_iff using b unfolding graphic_def by blast
  moreover have "graphic (last (digits_of radix n))" using b last_in_set [OF ne] by blast
  ultimately show "plain_value (digits_of radix n)" unfolding plain_value_def by blast
qed

lemma unat_u64_less: "unat (n :: u64) < 2 ^ 64"
  using unsigned_less [where ?'a = nat, of n] by simp

lemma hex_value_text: "hex_value (hex_text n) = Ok n"
proof -
  obtain b bs where d: "digits_of 16 (unat n) = b # bs" using digits_of_Cons by blast
  have "parse_uint 64 16 (digits_of 16 (unat n)) = Some (unat n)" by (rule parse_digits [OF _ _ unat_u64_less]) simp_all
  moreover have "b < 0x80" using number_text(1) [of 16 "unat n"] unfolding d by (simp add: plain_value_def ascii_def)
  ultimately show ?thesis
    by (simp add: hex_value_def hex_text_def d str_def is_char_boundary_def continuation_def between_def
        number_or_0_def word_le_nat_alt word_less_nat_alt)
qed

lemma dec_value_text: "number_or_0 (parse_uint 64 10 (dec_text n)) = n"
proof -
  have "parse_uint 64 10 (digits_of 10 (unat n)) = Some (unat n)" by (rule parse_digits [OF _ _ unat_u64_less]) simp_all
  then show ?thesis by (simp add: dec_text_def number_or_0_def)
qed

text \<open>No value of ASCII characters panics.\<close>

lemma hex_value_ascii: "ascii v \<Longrightarrow> \<exists>n. hex_value v = Ok n"
  by (auto simp: hex_value_def ascii_boundary)

section \<open>The properties\<close>

definition plain_config :: "boot_config \<Rightarrow> bool" where
  "plain_config c \<longleftrightarrow> plain_value (kernel_path c) \<and> plain_value (cmdline c)"

lemma plain_texts:
  assumes "plain_config c" "(k, v) \<in> set (config_text c)"
  shows "plain_value v" "ascii k" "0x0A \<notin> set k" "0x3D \<notin> set k" "k \<noteq> []" "graphic (hd k)" "hd k \<noteq> 0x23"
proof -
  have "k \<in> {str ''kernel_stack_address'', str ''kernel_stack_size'', str ''physical_memory_offset'', str ''kernel_path'',
      str ''kernel_stack_auto_grow'', str ''cmdline'', str ''load_apps''}"
    using assms(2) by (auto simp: config_text_def)
  then show "ascii k" "0x0A \<notin> set k" "0x3D \<notin> set k" "k \<noteq> []" "graphic (hd k)" "hd k \<noteq> 0x23"
    by (auto simp: str_def ascii_def graphic_def between_def)
  have hex: "plain_value (hex_text n)" for n
    using number_text [of 16 "unat n"] by (simp add: hex_text_def plain_value_def str_def ascii_def)
  have dec: "plain_value (dec_text n)" for n
    using number_text [of 10 "unat n"] by (simp add: dec_text_def)
  have bit: "plain_value (str ''1'')" "plain_value (str ''0'')"
    by (simp_all add: plain_value_def str_def ascii_def graphic_def between_def)
  show "plain_value v" using assms hex dec bit by (auto simp: config_text_def plain_config_def)
qed

lemma config_process_keys:
  assumes "hex_value v = (Ok n :: (unit, u64) res)"
  shows "config_process c (str ''kernel_stack_address'') v = Ok (c\<lparr>kernel_stack_address := n\<rparr>)"
    "config_process c (str ''kernel_stack_size'') v = Ok (c\<lparr>kernel_stack_size := number_or_0 (parse_uint 64 10 v)\<rparr>)"
    "config_process c (str ''physical_memory_offset'') v = Ok (c\<lparr>physical_memory_offset := n\<rparr>)"
    "config_process c (str ''kernel_path'') v = Ok (c\<lparr>kernel_path := v\<rparr>)"
    "config_process c (str ''kernel_stack_auto_grow'') v =
       Ok (c\<lparr>kernel_stack_auto_grow := number_or_0 (parse_uint 64 10 v)\<rparr>)"
    "config_process c (str ''cmdline'') v = Ok (c\<lparr>cmdline := v\<rparr>)"
    "config_process c (str ''load_apps'') v = Ok (c\<lparr>load_apps := (number_or_0 (parse_uint 64 10 v) \<noteq> 0)\<rparr>)"
  by (simp_all add: config_process_def assms str_def)

lemma config_lines_fold:
  "(\<And>k v d. (k, v) \<in> set kvs \<Longrightarrow> config_line (k @ 0x3D # v) d = config_process d k v) \<Longrightarrow>
    andThen m (config_lines (map (\<lambda>(k, v). k @ 0x3D # v) kvs)) =
      fold (\<lambda>(k, v) m. andThen m (\<lambda>d. config_process d k v)) kvs m"
proof (induction kvs arbitrary: m)
  case Nil
  then show ?case by (cases m) simp_all
next
  case (Cons kv kvs)
  obtain k v where kv: "kv = (k, v)" by (cases kv)
  have line: "config_line (k @ 0x3D # v) d = config_process d k v" for d using Cons.prems kv by simp
  show ?case using Cons.IH [of "andThen m (\<lambda>d. config_process d k v)"] Cons.prems
    by (simp add: kv line andThen_assoc)
qed

lemma lines_print:
  assumes "plain_config c"
  shows "lines (print_config c) = map (\<lambda>(k, v). k @ 0x3D # v) (config_text c)"
proof -
  have "print_config c = concat (map (\<lambda>l. l @ [0x0A]) (map (\<lambda>(k, v). k @ 0x3D # v) (config_text c)))"
    by (simp add: print_config_def comp_def case_prod_unfold)
  also have "lines \<dots> = map (\<lambda>(k, v). k @ 0x3D # v) (config_text c)"
  proof (rule lines_of_lines)
    fix l assume "l \<in> set (map (\<lambda>(k, v). k @ 0x3D # v) (config_text c))"
    then obtain k v where kv: "(k, v) \<in> set (config_text c)" "l = k @ 0x3D # v" by auto
    from plain_texts [OF assms kv(1)] show "0x0A \<notin> set l \<and> (l = [] \<or> last l \<noteq> 0x0D)"
      by (auto simp: kv(2) plain_value_def graphic_def between_def)
  qed
  finally show ?thesis .
qed

text \<open>
  C21: A configuration whose path and command line are ASCII, on one line and without white space
  at the end, is read back from its lines as it was, except for the log level: no key sets it.
\<close>

lemma config_roundtrip:
  assumes "plain_config c"
  shows "config_parse (print_config c) = Ok (c\<lparr>log_level := str ''info''\<rparr>)"
proof -
  have "ascii (k @ 0x3D # v @ [0x0A])" if "(k, v) \<in> set (config_text c)" for k v
    using plain_texts [OF assms that] by (simp add: ascii_def plain_value_def)
  then have "ascii (print_config c)" by (auto simp: print_config_def ascii_def list_all_iff)
  then have "config_parse (print_config c) = config_lines (map (\<lambda>(k, v). k @ 0x3D # v) (config_text c)) DEFAULT_CONFIG"
    by (simp add: config_parse_def ascii_utf8_valid lines_print [OF assms])
  also have "\<dots> = Ok (c\<lparr>log_level := str ''info''\<rparr>)"
  proof -
    have line: "config_line (k @ 0x3D # v) d = config_process d k v" if "(k, v) \<in> set (config_text c)" for k v d
      using plain_texts [OF assms that] by (intro config_line_eq) (auto simp: plain_value_def)
    obtain x y where xy: "hex_value (kernel_path c) = (Ok x :: (unit, u64) res)"
        "hex_value (cmdline c) = (Ok y :: (unit, u64) res)"
      using hex_value_ascii assms unfolding plain_config_def plain_value_def by metis
    have "\<forall>m. \<exists>n. hex_value (dec_text m) = (Ok n :: (unit, u64) res)"
      using number_text(1) [of 10] by (auto simp: dec_text_def plain_value_def intro!: hex_value_ascii)
    then obtain f where f: "hex_value (dec_text m) = (Ok (f m) :: (unit, u64) res)" for m
      by metis
    define b where "b = (if load_apps c then str ''1'' else str ''0'')"
    have b: "hex_value b = (Ok 0 :: (unit, u64) res)" "(number_or_0 (parse_uint 64 10 b) \<noteq> 0) = load_apps c"
      by (simp_all add: b_def hex_value_def str_def number_or_0_def parse_uint_def digit_value_def between_def)
    have "config_lines (map (\<lambda>(k, v). k @ 0x3D # v) (config_text c)) DEFAULT_CONFIG =
        fold (\<lambda>(k, v) m. andThen m (\<lambda>d. config_process d k v)) (config_text c) (Ok DEFAULT_CONFIG)"
      using config_lines_fold [OF line, of _ "Ok DEFAULT_CONFIG"] by simp
    also have "\<dots> = Ok (c\<lparr>log_level := str ''info''\<rparr>)"
      unfolding config_text_def b_def [symmetric]
      by (simp add: config_process_keys [OF hex_value_text] config_process_keys [OF f] config_process_keys [OF xy(1)]
          config_process_keys [OF xy(2)] config_process_keys [OF b(1)] b(2) dec_value_text DEFAULT_CONFIG_def)
    finally show ?thesis .
  qed
  finally show ?thesis .
qed

lemma config_roundtrip_witness:
  "config_parse (print_config (DEFAULT_CONFIG\<lparr>kernel_stack_size := 64, log_level := str ''debug''\<rparr>)) =
     Ok (DEFAULT_CONFIG\<lparr>kernel_stack_size := 64\<rparr>)"
  using config_roundtrip [of "DEFAULT_CONFIG\<lparr>kernel_stack_size := 64, log_level := str ''debug''\<rparr>"]
  by (simp add: plain_config_def plain_value_def DEFAULT_CONFIG_def str_def ascii_def graphic_def between_def)

text \<open>
  A line with a space before its equals sign sets nothing, whatever it names: the key is compared with
  the space. The line \<open>load_apps = 1\<close> of the shipped \<open>boot.conf\<close> is one.
\<close>

lemma config_space_ignored:
  assumes "graphic (hd key)" "key \<noteq> []" "hd key \<noteq> 0x23" "0x3D \<notin> set key" "ascii value" "value = [] \<or> graphic (last value)"
  shows "config_line (key @ 0x20 # 0x3D # value) c = Ok c"
proof -
  have "config_line ((key @ [0x20]) @ 0x3D # value) c = config_process c (key @ [0x20]) value"
    using assms by (intro config_line_eq) auto
  also have "\<dots> = Ok c"
  proof -
    obtain n where n: "hex_value value = (Ok n :: (unit, u64) res)" using hex_value_ascii [OF assms(5)] by blast
    have "key @ [0x20] \<noteq> k @ [b]" if "b \<noteq> 0x20" for k b using that by simp
    then have "key @ [0x20] \<noteq> str ''kernel_stack_address''" "key @ [0x20] \<noteq> str ''kernel_stack_size''"
        "key @ [0x20] \<noteq> str ''physical_memory_offset''" "key @ [0x20] \<noteq> str ''kernel_path''"
        "key @ [0x20] \<noteq> str ''kernel_stack_auto_grow''" "key @ [0x20] \<noteq> str ''cmdline''"
        "key @ [0x20] \<noteq> str ''load_apps''"
      by (auto dest: arg_cong [of _ _ last] simp: str_def)
    then show ?thesis by (simp add: config_process_def n)
  qed
  finally show ?thesis by simp
qed

lemma config_space_ignored_witness:
  "config_line (str ''load_apps = 0'') DEFAULT_CONFIG = Ok DEFAULT_CONFIG"
  using config_space_ignored [of "str ''load_apps''" "str '' 0''" DEFAULT_CONFIG]
  by (simp add: str_def ascii_def graphic_def between_def)

end
