(* ===== verification/Boot.thy ===== *)
theory Boot
  imports BootConfig VmFacts MemSpec
begin

text \<open>
  The boot loader, \<open>pkg/boot/src/fs.rs\<close>, \<open>lib.rs\<close> and \<open>main.rs\<close>: it reads its configuration, the
  kernel and the programs from the firmware's file system, maps physical memory, the kernel
  and its stack, and jumps to the kernel. The firmware (the crate \<open>uefi\<close>) and the ELF parser
  (\<open>xmas_elf\<close>) are the record \<open>uefi\<close>, a parameter of everything here. Log lines and the bit of
  \<open>CR0\<close> that lets the loader write to the page tables are left out.
\<close>

section \<open>The firmware\<close>

text \<open>
  What opening a file gives: a directory, a handle whose kind cannot be told, or a regular file
  with its size (\<open>get_info\<close> with a buffer of 256 bytes) and what reading it gives.
\<close>

datatype uefi_node = Directory | Unidentified | Regular "u64 option" "u8 list option"

text \<open>
  \<open>ue_entries\<close>: what \<open>read_entry\<close> gives for \<open>\APP\<close> in turn, \<open>None\<close> for an error, and for each entry
  its name in UTF-8 and what opening it gives. \<open>ue_alloc\<close>, \<open>ue_free\<close>: \<open>allocate_pages\<close> and
  \<open>free_pages\<close>. \<open>ue_parse\<close>: \<open>ElfFile::new\<close>, the headers of the image and its entry point.
  \<open>ue_big\<close>: \<open>map_to\<close> for pages of 2 MiB. \<open>ue_memory_map\<close> and \<open>ue_exit\<close>: the memory map while the
  loader runs and the one it leaves to the kernel.
\<close>

record 'm uefi =
  ue_init :: bool
  ue_open :: "u8 list \<Rightarrow> uefi_node option"
  ue_entries :: "(u8 list \<times> uefi_node option) option list"
  ue_alloc :: "nat \<Rightarrow> 'm mem \<Rightarrow> u64 option \<times> 'm mem"
  ue_free :: "u64 \<Rightarrow> nat \<Rightarrow> 'm mem \<Rightarrow> bool \<times> 'm mem"
  ue_parse :: "u8 list \<Rightarrow> (program_header list \<times> u64) option"
  ue_memory_map :: "'m mem \<Rightarrow> memory_descriptor list option"
  ue_exit :: "'m mem \<Rightarrow> memory_descriptor list"
  ue_system_table :: "u64 option"
  ue_big :: "nat \<Rightarrow> nat \<Rightarrow> page_flag set \<Rightarrow> 'm mem \<Rightarrow> (map_error, unit) res \<times> 'm mem"

text \<open>\<open>expect\<close> on a result; on an option it is \<open>of_option\<close>.\<close>

fun expect_ok :: "('d, 'a) res \<times> 's \<Rightarrow> ('e, 'a) res \<times> 's" where
  "expect_ok (Ok a, s) = (Ok a, s)"
| "expect_ok (Err e, s) = (Panic, s)"
| "expect_ok (Panic, s) = (Panic, s)"
| "expect_ok (Diverge, s) = (Diverge, s)"

text \<open>\<open>collect\<close> into an \<open>ArrayVec\<close> of \<open>n\<close> places panics when there are more.\<close>

definition array_vec :: "nat \<Rightarrow> 'a list \<Rightarrow> ('e, 'a list) res" where
  "array_vec n xs = (if length xs \<le> n then Ok xs else Panic)"

text \<open>
  \<open>CStr16::from_str_with_buf\<close> with \<open>n\<close> places takes a text without a zero whose characters are of
  16 bits and leave a place for the zero at the end.
\<close>

definition fits_cstr16 :: "nat \<Rightarrow> u8 list \<Rightarrow> bool" where
  "fits_cstr16 n path \<longleftrightarrow>
     length (filter (\<lambda>b. \<not> continuation b) path) < n \<and> 0 \<notin> set path \<and> (\<forall>b\<in>set path. b < 0xF0)"

section \<open>Files\<close>

definition regular_file :: "uefi_node \<Rightarrow> (unit, u64 option \<times> u8 list option) res" where
  "regular_file n = (case n of Regular len content \<Rightarrow> Ok (len, content) | _ \<Rightarrow> Panic)"

definition open_file :: "'m uefi \<Rightarrow> u8 list \<Rightarrow> (unit, u64 option \<times> u8 list option) res" where
  "open_file u path =
     (if fits_cstr16 64 path then andThen (of_option (ue_open u path)) regular_file else Panic)"

text \<open>The result is the address of the file in memory and its bytes.\<close>

definition load_file ::
  "'m uefi \<Rightarrow> u64 option \<times> u8 list option \<Rightarrow> 'm mem \<Rightarrow> (unit, u64 \<times> u8 list) res \<times> 'm mem" where
  "load_file u f m =
     (case f of (len, content) \<Rightarrow>
     andThenS (of_option len) m (\<lambda>len.
       let pages = unat len div 0x1000 + 1 in
     (case ue_alloc u pages m of (start, m) \<Rightarrow>
     andThenS (of_option start) m (\<lambda>start.
     andThenS (of_option content) m (\<lambda>content.
       let buf = take (pages * 0x1000) content in
       (Ok (start, buf), m\<lparr>mem_bytes := write_block start (length buf) (\<lambda>i. buf ! i) (mem_bytes m)\<rparr>))))))"

text \<open>\<open>ElfFile::new\<close> on a loaded file; the length of the file is kept for \<open>free_elf\<close>.\<close>

definition parse_elf :: "'m uefi \<Rightarrow> u64 \<times> u8 list \<Rightarrow> 'm mem \<Rightarrow> (unit, elf_file \<times> nat) res" where
  "parse_elf u f m =
     (case f of (start, buf) \<Rightarrow>
       andThen (of_option (ue_parse u buf)) (\<lambda>(segs, entry).
         Ok (\<lparr>elf_input = (\<lambda>i. mem_bytes m (start + i)), elf_ptr = start, elf_segments = segs, elf_entry = entry\<rparr>,
             length buf)))"

definition load_elf_file ::
  "'m uefi \<Rightarrow> u64 option \<times> u8 list option \<Rightarrow> 'm mem \<Rightarrow> (unit, elf_file \<times> nat) res \<times> 'm mem" where
  "load_elf_file u f m =
     doS (load_file u f m) (\<lambda>loaded m. (parse_elf u loaded m, m))"

definition free_elf :: "'m uefi \<Rightarrow> elf_file \<times> nat \<Rightarrow> 'm mem \<Rightarrow> (unit, unit) res \<times> 'm mem" where
  "free_elf u e m =
     (case e of (elf, n) \<Rightarrow>
       if elf_ptr elf = 0 then (Panic, m)
       else case ue_free u (elf_ptr elf) (n div 0x1000 + 1) m of (ok, m) \<Rightarrow> (if ok then Ok () else Panic, m))"

section \<open>Programs\<close>

definition APP_LIST_MAX :: nat where "APP_LIST_MAX = 16"

text \<open>
  The loop over the directory: entries that are no files, or cannot be told, are skipped; a
  name of more than 16 bytes or a seventeenth program panics.
\<close>

fun load_apps_loop ::
  "'m uefi \<Rightarrow> (u8 list \<times> uefi_node option) option list \<Rightarrow> (u8 list \<times> elf_file) list \<Rightarrow> 'm mem
    \<Rightarrow> (unit, (u8 list \<times> elf_file) list) res \<times> 'm mem" where
  "load_apps_loop u [] apps m = (Ok apps, m)"
| "load_apps_loop u (e # es) apps m =
     andThenS (of_option e) m (\<lambda>(name, file).
     andThenS (of_option file) m (\<lambda>file.
       case file of
         Regular len content \<Rightarrow>
           doS (load_elf_file u (len, content) m) (\<lambda>(elf, n) m.
             if length name \<le> 16 \<and> length apps < APP_LIST_MAX
             then load_apps_loop u es (apps @ [(name, elf)]) m
             else (Panic, m))
       | _ \<Rightarrow> load_apps_loop u es apps m))"

definition load_app_list :: "'m uefi \<Rightarrow> 'm mem \<Rightarrow> (unit, (u8 list \<times> elf_file) list) res \<times> 'm mem" where
  "load_app_list u m =
     (case ue_open u (0x5C # str ''APP'' @ [0x5C]) of
        Some Directory \<Rightarrow> load_apps_loop u (ue_entries u) [] m
      | _ \<Rightarrow> (Panic, m))"

section \<open>Memory\<close>

text \<open>\<open>max().unwrap().max(0x1_0000_0000)\<close>; the sums wrap in the default build.\<close>

definition max_phys_addr :: "memory_descriptor list \<Rightarrow> (unit, u64) res" where
  "max_phys_addr mmap =
     (if mmap = [] then Panic
      else Ok (fold (\<lambda>d. max (md_phys_start d + md_page_count d * 0x1000)) mmap 0x100000000))"

text \<open>The first address and the pages of the stack that the loader maps.\<close>

definition stack_range :: "boot_config \<Rightarrow> u64 \<times> u64" where
  "stack_range c =
     (if 0 < kernel_stack_auto_grow c
      then (kernel_stack_address c + (kernel_stack_size c - kernel_stack_auto_grow c) * 0x1000,
            kernel_stack_auto_grow c)
      else (kernel_stack_address c, kernel_stack_size c))"

definition stack_top :: "boot_config \<Rightarrow> u64" where
  "stack_top c = kernel_stack_address c + kernel_stack_size c * 0x1000 - 8"

definition get_page_range :: "'m x86 \<Rightarrow> program_header \<Rightarrow> (unit, page \<times> page) res" where
  "get_page_range x seg =
     andThen (virt_addr x (ph_virtual_addr seg)) (\<lambda>start.
     andThen (last_page x start (ph_mem_size seg)) (\<lambda>e. Ok (page_of start, e)))"

definition get_page_usage :: "'m x86 \<Rightarrow> elf_file \<Rightarrow> (unit, (page \<times> page) list) res" where
  "get_page_usage x elf =
     andThen (map_res (get_page_range x) (filter (\<lambda>s. ph_type s = Some True) (elf_segments elf))) (array_vec 8)"

section \<open>The loader\<close>

record boot_info =
  bi_memory_map :: "memory_descriptor list"
  bi_kernel_pages :: "(page \<times> page) list"
  bi_physical_memory_offset :: u64
  bi_system_table :: u64
  bi_log_level :: "u8 list"
  bi_load_apps :: "(u8 list \<times> elf_file) list option"

definition CONFIG_PATH :: "u8 list" where
  "CONFIG_PATH = 0x5C # str ''EFI'' @ 0x5C # str ''BOOT'' @ 0x5C # str ''boot.conf''"

text \<open>The kernel starts at \<open>entry\<close> with this information and this stack pointer.\<close>

definition jump_to_entry :: "u64 \<Rightarrow> boot_info \<Rightarrow> u64 \<Rightarrow> (unit, u64 \<times> boot_info \<times> u64) res" where
  "jump_to_entry entry info stacktop = (if entry \<noteq> 0 then Ok (entry, info, stacktop) else Panic)"

text \<open>Steps 4 to 7 of \<open>efi_main\<close>, once everything is loaded.\<close>

definition start_kernel ::
  "'m x86 \<Rightarrow> 'm uefi \<Rightarrow> boot_config \<Rightarrow> elf_file \<times> nat \<Rightarrow> (u8 list \<times> elf_file) list option \<Rightarrow> u64 \<Rightarrow> 'm mem
    \<Rightarrow> (unit, u64 \<times> boot_info \<times> u64) res \<times> 'm mem" where
  "start_kernel x u c elf apps phys m =
     doS (expect_ok (map_physical_memory x (ue_big u) (physical_memory_offset c) phys m)) (\<lambda>_ m.
     doS (expect_ok (load_elf x (fst elf) (physical_memory_offset c) False m)) (\<lambda>(pages, _) m.
     andThenS (array_vec 8 pages) m (\<lambda>pages.
     doS (expect_ok (case stack_range c of (start, n) \<Rightarrow> map_pages x start n False m)) (\<lambda>_ m.
     doS (free_elf u elf m) (\<lambda>_ m.
     andThenS (of_option (ue_system_table u)) m (\<lambda>table.
     andThenS (array_vec 256 (ue_exit u m)) m (\<lambda>mmap.
       (jump_to_entry (elf_entry (fst elf))
          \<lparr>bi_memory_map = mmap, bi_kernel_pages = pages,
           bi_physical_memory_offset = physical_memory_offset c, bi_system_table = table,
           bi_log_level = log_level c, bi_load_apps = apps\<rparr>
          (stack_top c), m))))))))"

definition efi_main ::
  "'m x86 \<Rightarrow> 'm uefi \<Rightarrow> 'm mem \<Rightarrow> (unit, u64 \<times> boot_info \<times> u64) res \<times> 'm mem" where
  "efi_main x u m =
     (if \<not> ue_init u then (Panic, m)
      else
        andThenS (open_file u CONFIG_PATH) m (\<lambda>f.
        doS (load_file u f m) (\<lambda>(_, buf) m.
        andThenS (config_parse buf) m (\<lambda>c.
        andThenS (open_file u (kernel_path c)) m (\<lambda>f.
        doS (load_elf_file u f m) (\<lambda>elf m.
        doS (if load_apps c then doS (load_app_list u m) (\<lambda>apps m. (Ok (Some apps), m)) else (Ok None, m))
          (\<lambda>apps m.
        andThenS (andThen (of_option (ue_memory_map u m)) max_phys_addr) m (\<lambda>phys.
          start_kernel x u c elf apps phys m))))))))"

section \<open>What a run that reaches the kernel has done\<close>

lemma expect_ok_eq_Ok [outcome_simps]: "expect_ok r = (Ok a, s) \<longleftrightarrow> r = (Ok a, s)"
  by (cases r rule: expect_ok.cases) auto

lemma array_vec_Ok: "array_vec n xs = Ok ys \<longleftrightarrow> ys = xs \<and> length xs \<le> n"
  by (auto simp: array_vec_def)

definition apps_ok :: "(u8 list \<times> elf_file) list \<Rightarrow> bool" where
  "apps_ok apps \<longleftrightarrow> length apps \<le> APP_LIST_MAX \<and> (\<forall>(name, elf)\<in>set apps. length name \<le> 16)"

lemma load_apps_loop_ok:
  "load_apps_loop u es apps m = (Ok apps', m') \<Longrightarrow> apps_ok apps \<Longrightarrow> apps_ok apps'"
proof (induction es arbitrary: apps m)
  case (Cons e es)
  from Cons.prems(1) obtain name f where e: "e = Some (name, Some f)"
    by (cases e) (auto simp: outcome_simps)
  show ?case
  proof (cases f)
    case (Regular len content)
    from Cons.prems(1) obtain elf m1 where
      "length name \<le> 16" "length apps < APP_LIST_MAX" "load_apps_loop u es (apps @ [(name, elf)]) m1 = (Ok apps', m')"
      unfolding e Regular by (auto simp: outcome_simps split: if_splits)
    moreover from this Cons.prems(2) have "apps_ok (apps @ [(name, elf)])" by (auto simp: apps_ok_def)
    ultimately show ?thesis using Cons.IH by blast
  qed (use Cons e in auto)
qed simp

lemma load_app_list_ok: "load_app_list u m = (Ok apps, m') \<Longrightarrow> apps_ok apps"
  by (auto simp: load_app_list_def apps_ok_def split: option.splits uefi_node.splits dest!: load_apps_loop_ok)

text \<open>The pages that \<open>map_pages\<close> has mapped.\<close>

lemma map_pages_mapped:
  assumes laws: "mapper_laws x look" and run: "map_pages x a n ua m = (Ok r, m')"
    and room: "page_of a + unat n < 2 ^ 52"
    and p: "page_of a \<le> p" "p < page_of a + unat n"
  shows "\<exists>f. look (mem_table m') p = Some (f, range_flags ua)"
proof -
  from run obtain q where q: "(page_add x (page_of a) (unat n) :: (map_error, page) res) = Ok q" "q \<noteq> 0"
    "map_range x (page_of a) (q - 1) ua m = (Ok (), m')"
    by (auto simp: map_pages_def virt_addr_def Let_def outcome_simps split: if_splits)
  have "q = page_of a + unat n" using page_add_Ok [OF q(1)] room by simp
  then have each: "map_each x (range_flags ua) [page_of a..<page_of a + unat n] m = (Ok (), m')"
    using q(2, 3) by (simp add: map_range_def)
  from map_each_spec [OF laws distinct_upt map_each_Ok_unmapped [OF laws each] each] obtain fs where
    fs: "length fs = unat n"
      "look (mem_table m') = look (mem_table m) ++ mapped_to [page_of a..<page_of a + unat n] fs (range_flags ua)"
    by fastforce
  have "mapped_to [page_of a..<page_of a + unat n] fs (range_flags ua) p = Some (fs ! (p - page_of a), range_flags ua)"
    using mapped_to_nth [OF distinct_upt, of fs "page_of a" "page_of a + unat n" "p - page_of a"] fs(1) p by simp
  then show ?thesis unfolding fs(2) by (simp add: map_add_def)
qed

text \<open>Freeing pages of the firmware's pool leaves the page tables alone.\<close>

definition frees_only :: "'m uefi \<Rightarrow> bool" where
  "frees_only u \<longleftrightarrow> (\<forall>a n m. mem_table (snd (ue_free u a n m)) = mem_table m)"

lemma free_elf_table: "frees_only u \<Longrightarrow> free_elf u e m = (Ok (), m') \<Longrightarrow> mem_table m' = mem_table m"
  unfolding frees_only_def free_elf_def by (auto split: prod.splits if_splits) (metis snd_conv)+

lemma start_kernel_Ok:
  assumes "frees_only u" "start_kernel x u c elf apps phys m = (Ok (entry, info, sp), m')"
  shows "entry = elf_entry (fst elf) \<and> entry \<noteq> 0 \<and> sp = stack_top c \<and> bi_load_apps info = apps \<and>
    bi_log_level info = log_level c \<and> bi_physical_memory_offset info = physical_memory_offset c \<and>
    length (bi_kernel_pages info) \<le> 8 \<and> length (bi_memory_map info) \<le> 256 \<and>
    (\<exists>m1 r m2. map_pages x (fst (stack_range c)) (snd (stack_range c)) False m1 = (Ok r, m2) \<and>
      mem_table m' = mem_table m2)"
proof -
  obtain start n where sr: "stack_range c = (start, n)" by (cases "stack_range c")
  from assms(2) obtain m1 r m2 where
    "map_pages x start n False m1 = (Ok r, m2)" "free_elf u elf m2 = (Ok (), m')"
    and rest: "entry = elf_entry (fst elf)" "entry \<noteq> 0" "sp = stack_top c" "bi_load_apps info = apps"
      "bi_log_level info = log_level c" "bi_physical_memory_offset info = physical_memory_offset c"
      "length (bi_kernel_pages info) \<le> 8" "length (bi_memory_map info) \<le> 256"
    unfolding start_kernel_def sr
    by (clarsimp simp: outcome_simps array_vec_Ok jump_to_entry_def split: if_splits)
  then show ?thesis using free_elf_table [OF assms(1)] unfolding sr by fastforce
qed

lemma efi_main_Ok:
  assumes "open_file u CONFIG_PATH = Ok (Some len, Some content)" "length content = unat len" "config_parse content = Ok c"
    and "efi_main x u m = (Ok out, m')"
  shows "\<exists>elf apps phys m1. start_kernel x u c elf apps phys m1 = (Ok out, m') \<and>
    (case apps of None \<Rightarrow> \<not> load_apps c | Some as \<Rightarrow> load_apps c \<and> apps_ok as)"
proof -
  have whole: "take ((unat len div 0x1000 + 1) * 0x1000) content = content" using assms(2) by simp
  from assms(4) obtain elf phys m0 m1 apps where
    run: "start_kernel x u c elf apps phys m1 = (Ok out, m')"
    and apps: "if load_apps c then \<exists>as. apps = Some as \<and> load_app_list u m0 = (Ok as, m1) else apps = None"
    using assms(1, 3) whole by (cases "load_apps c")
      (clarsimp simp: efi_main_def load_file_def Let_def outcome_simps split: prod.splits if_splits; blast)+
  have "case apps of None \<Rightarrow> \<not> load_apps c | Some as \<Rightarrow> load_apps c \<and> apps_ok as"
    using apps load_app_list_ok [of u m0] by (auto split: if_splits option.splits)
  then show ?thesis using run by blast
qed

text \<open>The stack of a configuration whose stack begins at page \<open>a\<close>.\<close>

lemma stack_pages:
  assumes "kernel_stack_address c = page_addr a" "0 < kernel_stack_size c"
    "kernel_stack_auto_grow c \<le> kernel_stack_size c" "a + unat (kernel_stack_size c) < 2 ^ 52"
  shows "page_of (fst (stack_range c)) + unat (snd (stack_range c)) = a + unat (kernel_stack_size c)"
    "page_of (stack_top c) = a + unat (kernel_stack_size c) - 1" "0 < unat (snd (stack_range c))"
proof -
  let ?S = "unat (kernel_stack_size c)" and ?G = "unat (kernel_stack_auto_grow c)"
  have G: "?G \<le> ?S" using assms(3) by (simp add: word_le_nat_alt)
  have S: "0 < ?S" using assms(2) by (simp add: word_less_nat_alt)
  have low: "page_addr a + (kernel_stack_size c - kernel_stack_auto_grow c) * 0x1000 = page_addr (a + (?S - ?G))"
  proof -
    have "of_nat (?S - ?G) = kernel_stack_size c - kernel_stack_auto_grow c" using G by simp
    moreover have "page_addr (a + k) = page_addr a + of_nat k * 0x1000" for k by (simp add: page_addr_def algebra_simps)
    ultimately show ?thesis by metis
  qed
  show "page_of (fst (stack_range c)) + unat (snd (stack_range c)) = a + ?S"
    unfolding stack_range_def assms(1) low using assms(4) G by simp
  show "0 < unat (snd (stack_range c))" using S by (simp add: stack_range_def word_less_nat_alt)
  have "stack_top c = page_addr (a + ?S) - 8" by (simp add: stack_top_def assms(1) page_addr_def algebra_simps)
  moreover have "unat (page_addr (a + ?S)) = 4096 * (a + ?S)" using assms(4) by (intro unat_page_addr) simp
  ultimately have "unat (stack_top c) = 4096 * (a + ?S) - 8"
    using S by (simp add: unat_sub word_le_nat_alt)
  moreover have "4096 * (a + ?S) - 8 = 4088 + (a + ?S - 1) * 4096" using S by simp
  ultimately show "page_of (stack_top c) = a + ?S - 1" unfolding page_of_def by simp
qed

section \<open>The properties\<close>

text \<open>
  C24: When the loader starts the kernel, the entry point is not zero, at most eight ranges of kernel pages, sixteen
  programs with names of at most 16 bytes and 256 memory descriptors are handed over, programs
  exactly when the configuration asks for them, and every page from the first of the stack to the
  one of the stack pointer is mapped and writable.
\<close>

theorem boot_hands_over:
  assumes laws: "mapper_laws x look" "frees_only u"
    and conf: "open_file u CONFIG_PATH = Ok (Some len, Some content)" "length content = unat len" "config_parse content = Ok c"
    and stack: "kernel_stack_address c = page_addr a" "0 < kernel_stack_size c"
      "kernel_stack_auto_grow c \<le> kernel_stack_size c" "a + unat (kernel_stack_size c) < 2 ^ 52"
    and run: "efi_main x u m = (Ok (entry, info, sp), m')"
  shows "entry \<noteq> 0 \<and> length (bi_kernel_pages info) \<le> 8 \<and> length (bi_memory_map info) \<le> 256 \<and>
    (case bi_load_apps info of None \<Rightarrow> \<not> load_apps c | Some as \<Rightarrow> load_apps c \<and> apps_ok as) \<and>
    page_of (fst (stack_range c)) \<le> page_of sp \<and>
    (\<forall>p\<in>{page_of (fst (stack_range c))..page_of sp}. \<exists>f. look (mem_table m') p = Some (f, {PRESENT, WRITABLE}))"
proof -
  from efi_main_Ok [OF conf run] obtain elf apps phys m1 where
    k: "start_kernel x u c elf apps phys m1 = (Ok (entry, info, sp), m')"
    and apps: "case apps of None \<Rightarrow> \<not> load_apps c | Some as \<Rightarrow> load_apps c \<and> apps_ok as" by blast
  from start_kernel_Ok [OF laws(2) k] obtain m2 r m3 where
    b: "entry \<noteq> 0" "sp = stack_top c" "bi_load_apps info = apps" "length (bi_kernel_pages info) \<le> 8"
      "length (bi_memory_map info) \<le> 256"
    and map: "map_pages x (fst (stack_range c)) (snd (stack_range c)) False m2 = (Ok r, m3)"
      "mem_table m' = mem_table m3" by blast
  note pages = stack_pages [OF stack]
  have "page_of (fst (stack_range c)) + unat (snd (stack_range c)) < 2 ^ 52" unfolding pages(1) by (rule stack(4))
  from map_pages_mapped [OF laws(1) map(1) this]
  have "\<exists>f. look (mem_table m') p = Some (f, {PRESENT, WRITABLE})"
    if "page_of (fst (stack_range c)) \<le> p" "p \<le> page_of sp" for p
    using that pages by (simp add: map(2) b(2) range_flags_def)
  moreover have "page_of (fst (stack_range c)) \<le> page_of sp" using pages unfolding b(2) by linarith
  ultimately show ?thesis using b apps by auto
qed

text \<open>
  With 8 pages of 0x100000 mapped the loader sets up the very stack that the kernel's record \<open>kstack\<close>
  describes. The shipped \<open>boot.conf\<close> has the values of the default configuration: then the loader's
  stack lies below that of the record.
\<close>

lemma boot_kernel_stack:
  "c = DEFAULT_CONFIG\<lparr>kernel_stack_size := 0x100000, kernel_stack_auto_grow := KSTACK_DEF_PAGE\<rparr> \<Longrightarrow>
    page_of (fst (stack_range c)) = sk_start kstack \<and> snd (stack_range c) = sk_usage kstack \<and>
    stack_top c = KSTACK_INIT_TOP"
  "page_of (fst (stack_range DEFAULT_CONFIG)) + unat (snd (stack_range DEFAULT_CONFIG)) < sk_start kstack"
  "page_of (stack_top DEFAULT_CONFIG) < sk_start kstack"
  by (simp_all add: stack_range_def stack_top_def DEFAULT_CONFIG_def kstack_def KSTACK_INIT_PAGE_def KSTACK_INIT_BOT_def
      KSTACK_INIT_TOP_def KSTACK_DEF_PAGE_def KSTACK_DEF_SIZE_def KSTACK_MAX_def page_of_def)

text \<open>A configuration, a kernel and a program on the firmware's disk.\<close>

definition sample_conf :: "u8 list" where
  "sample_conf = concat (map (\<lambda>l. l @ [0x0A])
     [str ''kernel_stack_size'' @ 0x3D # str ''1048576'', str ''kernel_stack_auto_grow'' @ 0x3D # str ''1''])"

definition sample_uefi :: "flat uefi" where
  "sample_uefi =
     \<lparr>ue_init = True,
      ue_open = (\<lambda>path.
        if path = CONFIG_PATH then Some (Regular (Some 51) (Some sample_conf))
        else if path = 0x5C # str ''APP'' @ [0x5C] then Some Directory
        else Some (Regular (Some 4) (Some [1, 2, 3, 4]))),
      ue_entries = [Some (str ''.'', Some Directory), Some (str ''hello'', Some (Regular (Some 2) (Some [5, 6])))],
      ue_alloc = (\<lambda>n m. (Some 0x10000, m)), ue_free = (\<lambda>a n m. (True, m)),
      ue_parse = (\<lambda>buf. Some ([], 0xFFFFFF0000000000)),
      ue_memory_map = (\<lambda>m. Some [\<lparr>md_conventional = True, md_phys_start = 0x1000, md_page_count = 3\<rparr>]),
      ue_exit = (\<lambda>m. []), ue_system_table = Some 0x3000, ue_big = (\<lambda>p i fl m. (Ok (), m))\<rparr>"

lemma sample_big:
  "i \<le> 2048 \<Longrightarrow> x_virt_ok flat_x86 (of_nat (i * 0x200000) + 0xFFFF800000000000)"
proof -
  assume i: "i \<le> 2048"
  have small: "unat (of_nat (i * 0x200000) :: u64) = i * 0x200000" 
    unfolding unat_of_nat by (rule mod_less) (use i in simp)
  have "unat (of_nat (i * 0x200000) + 0xFFFF800000000000 :: u64) = i * 0x200000 + 0xFFFF800000000000"
    unfolding unat_word_ariths(1) small using i by simp
  then show ?thesis unfolding flat_x86_def word_le_nat_alt by (simp del: of_nat_mult)
qed

lemma map_big_quiet:
  "\<forall>i\<in>set is. i \<le> 2048 \<Longrightarrow> map_big flat_x86 (\<lambda>p i fl m. (Ok (), m)) 0xFFFF800000000000 is m = (Ok (), m)"
  by (induction "is") (simp_all add: virt_addr_def sample_big del: of_nat_mult)

lemma boot_sample_parse:
  "config_parse sample_conf = Ok (DEFAULT_CONFIG\<lparr>kernel_stack_size := 0x100000, kernel_stack_auto_grow := 1\<rparr>)"
proof -
  have "lines sample_conf = [str ''kernel_stack_size'' @ 0x3D # str ''1048576'', str ''kernel_stack_auto_grow'' @ 0x3D # str ''1'']"
    unfolding sample_conf_def by (rule lines_of_lines) (auto simp: str_def)
  moreover have "config_line (str ''kernel_stack_size'' @ 0x3D # str ''1048576'') c = Ok (c\<lparr>kernel_stack_size := 0x100000\<rparr>)" for c
    by (subst config_line_eq) (auto simp: str_def config_process_def hex_value_def is_char_boundary_def continuation_def
        between_def number_or_0_def parse_uint_def digit_value_def graphic_def)
  moreover have "config_line (str ''kernel_stack_auto_grow'' @ 0x3D # str ''1'') c = Ok (c\<lparr>kernel_stack_auto_grow := 1\<rparr>)" for c
    by (subst config_line_eq) (auto simp: str_def config_process_def hex_value_def is_char_boundary_def continuation_def
        between_def number_or_0_def parse_uint_def digit_value_def graphic_def)
  moreover have "utf8_valid sample_conf" by (rule ascii_utf8_valid) (simp add: sample_conf_def str_def ascii_def)
  ultimately show ?thesis by (simp add: config_parse_def)
qed

lemma sample_files:
  "open_file sample_uefi CONFIG_PATH = Ok (Some 51, Some sample_conf)"
  "open_file sample_uefi (0x5C # str ''KERNEL.ELF'') = Ok (Some 4, Some [1, 2, 3, 4])"
  "length sample_conf = 51"
  by (simp_all add: open_file_def sample_uefi_def CONFIG_PATH_def str_def fits_cstr16_def continuation_def between_def
      regular_file_def sample_conf_def)

lemma sample_fields:
  "ue_init sample_uefi" "ue_alloc sample_uefi n m = (Some 0x10000, m)"
  "ue_parse sample_uefi buf = Some ([], 0xFFFFFF0000000000)"
  "of_option (ue_memory_map sample_uefi m) = Ok [\<lparr>md_conventional = True, md_phys_start = 0x1000, md_page_count = 3\<rparr>]"
  by (simp_all add: sample_uefi_def)

lemma sample_apps:
  "\<exists>apps m'. load_app_list sample_uefi m = (Ok apps, m') \<and> map fst apps = [str ''hello''] \<and>
    mem_table m' = mem_table m \<and> mem_frames m' = mem_frames m"
  by (simp add: load_app_list_def sample_uefi_def str_def CONFIG_PATH_def load_elf_file_def load_file_def
      parse_elf_def APP_LIST_MAX_def Let_def)

lemma sample_stack:
  assumes "mem_table m = Map.empty" "mem_frames m = \<lparr>fa_size = 8, fa_used = 0, fa_frames = [0x20000], fa_recycled = []\<rparr>"
  shows "\<exists>r m'. map_pages flat_x86 0xFFFFFF01FFFFF000 1 False m = (Ok r, m')"
  using assms by (simp add: map_pages_def flat_simps addr_plus_def page_of_def page_addr_def map_range_def Let_def)

definition sample_config :: boot_config where
  "sample_config = DEFAULT_CONFIG\<lparr>kernel_stack_size := 0x100000, kernel_stack_auto_grow := 1\<rparr>"

lemma sample_kernel:
  assumes elf: "elf_ptr elf = 0x10000" "elf_segments elf = []" "elf_entry elf = 0xFFFFFF0000000000"
    and m: "mem_table m = Map.empty" "mem_frames m = mem_frames (flat_mem Map.empty [0x20000])"
  shows "\<exists>info m'. start_kernel flat_x86 sample_uefi sample_config (elf, n) apps 0x100000000 m =
    (Ok (0xFFFFFF0000000000, info, 0xFFFFFF01FFFFFFF8), m') \<and> bi_load_apps info = apps"
proof -
  have range: "stack_range sample_config = (0xFFFFFF01FFFFF000, 1)" and sp: "stack_top sample_config = 0xFFFFFF01FFFFFFF8"
    by (simp_all add: stack_range_def stack_top_def DEFAULT_CONFIG_def sample_config_def)
  have "map_physical_memory flat_x86 (ue_big sample_uefi) (physical_memory_offset sample_config) 0x100000000 m = (Ok (), m)"
    using map_big_quiet [of "[0..<2049]" m]
    by (simp add: map_physical_memory_def sample_uefi_def DEFAULT_CONFIG_def sample_config_def flat_x86_def)
  moreover obtain r m2 where "map_pages flat_x86 0xFFFFFF01FFFFF000 1 False m = (Ok r, m2)"
    using sample_stack [of m] m by (auto simp: flat_mem_def)
  ultimately show ?thesis
    by (simp add: start_kernel_def load_elf_def elf array_vec_def range sp free_elf_def jump_to_entry_def)
      (simp add: sample_uefi_def)
qed

lemma sample_run:
  "\<exists>info m'. efi_main flat_x86 sample_uefi (flat_mem Map.empty [0x20000]) =
      (Ok (0xFFFFFF0000000000, info, 0xFFFFFF01FFFFFFF8), m') \<and>
    map_option (map fst) (bi_load_apps info) = Some [str ''hello'']"
proof -
  let ?m = "flat_mem Map.empty [0x20000]"
  let ?m1 = "?m\<lparr>mem_bytes := write_block 0x10000 51 (\<lambda>i. sample_conf ! i) (mem_bytes ?m)\<rparr>"
  let ?m2 = "?m1\<lparr>mem_bytes := write_block 0x10000 (length [1, 2, 3, 4 :: u8]) (\<lambda>i. [1, 2, 3, 4] ! i) (mem_bytes ?m1)\<rparr>"
  let ?elf = "\<lparr>elf_input = (\<lambda>i. mem_bytes ?m2 (0x10000 + i)), elf_ptr = 0x10000, elf_segments = [],
    elf_entry = 0xFFFFFF0000000000\<rparr>"
  have f1: "load_file sample_uefi (Some 51, Some sample_conf) ?m = (Ok (0x10000, sample_conf), ?m1)"
    by (simp add: load_file_def sample_fields sample_files Let_def)
  have f2: "load_elf_file sample_uefi (Some 4, Some [1, 2, 3, 4]) ?m1 = (Ok (?elf, 4), ?m2)"
    by (simp add: load_elf_file_def load_file_def parse_elf_def sample_fields Let_def)
  obtain apps m3 where apps: "load_app_list sample_uefi ?m2 = (Ok apps, m3)" "map fst apps = [str ''hello'']"
    "mem_table m3 = mem_table ?m" "mem_frames m3 = mem_frames ?m"
    using sample_apps [of ?m2] by auto
  obtain info m' where k: "start_kernel flat_x86 sample_uefi sample_config (?elf, 4) (Some apps) 0x100000000 m3 =
      (Ok (0xFFFFFF0000000000, info, 0xFFFFFF01FFFFFFF8), m')" "bi_load_apps info = Some apps"
    using sample_kernel [of ?elf m3 4 "Some apps"] apps(3, 4) by (auto simp: flat_mem_def)
  have c: "kernel_path sample_config = 0x5C # str ''KERNEL.ELF''" "load_apps sample_config"
    by (simp_all add: DEFAULT_CONFIG_def sample_config_def)
  have "max_phys_addr [\<lparr>md_conventional = True, md_phys_start = 0x1000, md_page_count = 3\<rparr>] = Ok 0x100000000"
    by (simp add: max_phys_addr_def)
  then have "efi_main flat_x86 sample_uefi ?m = (Ok (0xFFFFFF0000000000, info, 0xFFFFFF01FFFFFFF8), m')"
    by (simp only: efi_main_def sample_fields sample_files f1 boot_sample_parse [folded sample_config_def] c f2 apps(1) k(1)
        not_True_eq_False if_False if_True andThenS.simps andThen.simps thenS.simps split)
  then show ?thesis using k(2) apps(2) by auto
qed

theorem boot_hands_over_witness:
  "\<exists>entry info sp m'. efi_main flat_x86 sample_uefi (flat_mem Map.empty [0x20000]) = (Ok (entry, info, sp), m') \<and>
    entry = 0xFFFFFF0000000000 \<and> sp = 0xFFFFFF01FFFFFFF8 \<and> map_option (map fst) (bi_load_apps info) = Some [str ''hello''] \<and>
    (\<exists>f. flat_look (mem_table m') (page_of sp) = Some (f, {PRESENT, WRITABLE}))"
proof -
  obtain info m' where
    run: "efi_main flat_x86 sample_uefi (flat_mem Map.empty [0x20000]) = (Ok (0xFFFFFF0000000000, info, 0xFFFFFF01FFFFFFF8), m')"
    and apps: "map_option (map fst) (bi_load_apps info) = Some [str ''hello'']"
    using sample_run by (elim exE conjE)
  have c: "kernel_stack_address sample_config = page_addr 0xFFFFFF0100000" "0 < kernel_stack_size sample_config"
    "kernel_stack_auto_grow sample_config \<le> kernel_stack_size sample_config"
    "0xFFFFFF0100000 + unat (kernel_stack_size sample_config) < 2 ^ 52"
    by (simp_all add: DEFAULT_CONFIG_def sample_config_def page_addr_def)
  have "\<exists>f. flat_look (mem_table m') (page_of 0xFFFFFF01FFFFFFF8) = Some (f, {PRESENT, WRITABLE})"
    using boot_hands_over [OF flat_laws _ sample_files(1) _ boot_sample_parse [folded sample_config_def] c run]
    by (simp add: frees_only_def sample_uefi_def sample_files(3))
  then obtain f where "flat_look (mem_table m') (page_of 0xFFFFFF01FFFFFFF8) = Some (f, {PRESENT, WRITABLE})" by (elim exE)
  with run apps show ?thesis by (intro exI conjI) (simp_all only: refl)
qed

end
