(* ===== verification/UserLib.thy ===== *)
theory UserLib
  imports VmFacts
begin

text \<open>
  The user library, \<open>pkg/lib/src\<close>: the buffered output of \<open>io.rs\<close>, the spin lock of \<open>sync.rs\<close>, and the
  set-up of the heap in \<open>allocator/brk.rs\<close> over the kernel's \<open>brk\<close>. The free list inside the heap
  belongs to the crate \<open>linked_list_allocator\<close>.
\<close>

section \<open>Output\<close>

text \<open>
  \<open>write fd bytes\<close> is the effect of the system call, whose result is ignored. The state is the
  buffer of \<open>GLOBAL_STDOUT\<close> and the world; formatting hands its text over in pieces.
\<close>

type_synonym 's writer = "u8 \<Rightarrow> u8 list \<Rightarrow> 's \<Rightarrow> 's"

definition stdout_flush :: "'s writer \<Rightarrow> u8 list \<times> 's \<Rightarrow> u8 list \<times> 's" where
  "stdout_flush wr st = (case st of (buffer, s) \<Rightarrow> if buffer \<noteq> [] then ([], wr 1 buffer s) else (buffer, s))"

definition stdout_write_str :: "'s writer \<Rightarrow> u8 list \<Rightarrow> u8 list \<times> 's \<Rightarrow> u8 list \<times> 's" where
  "stdout_write_str wr t st =
     (case st of (buffer, s) \<Rightarrow>
       let buffer = buffer @ t in if 1024 < length buffer then stdout_flush wr (buffer, s) else (buffer, s))"

definition print_args :: "'s writer \<Rightarrow> u8 list list \<Rightarrow> u8 list \<times> 's \<Rightarrow> u8 list \<times> 's" where
  "print_args wr pieces st = stdout_flush wr (fold (stdout_write_str wr) pieces st)"

definition err_args :: "'s writer \<Rightarrow> u8 list list \<Rightarrow> u8 list \<times> 's \<Rightarrow> u8 list \<times> 's" where
  "err_args wr pieces st = (case st of (buffer, s) \<Rightarrow> (buffer, wr 2 (concat pieces) s))"

text \<open>What has been sent, call by call.\<close>

definition recorded :: "(u8 \<times> u8 list) list writer" where "recorded fd t s = s @ [(fd, t)]"

definition sent :: "(u8 \<times> u8 list) list \<Rightarrow> u8 list" where "sent calls = concat (map snd calls)"

lemma write_str_sent:
  "stdout_write_str recorded t (buffer, s) = (buffer', s') \<Longrightarrow> length buffer \<le> 1024 \<Longrightarrow>
    sent s' @ buffer' = sent s @ buffer @ t \<and> length buffer' \<le> 1024 \<and> (\<exists>calls. s' = s @ calls \<and> (\<forall>c\<in>set calls. fst c = 1))"
  by (auto simp: stdout_write_str_def stdout_flush_def recorded_def sent_def Let_def split: if_splits)

lemma writes_sent:
  "fold (stdout_write_str recorded) pieces (buffer, s) = (buffer', s') \<Longrightarrow> length buffer \<le> 1024 \<Longrightarrow>
    sent s' @ buffer' = sent s @ buffer @ concat pieces \<and> length buffer' \<le> 1024 \<and>
    (\<exists>calls. s' = s @ calls \<and> (\<forall>c\<in>set calls. fst c = 1))"
proof (induction pieces arbitrary: buffer s)
  case (Cons t pieces)
  obtain b1 s1 where one: "stdout_write_str recorded t (buffer, s) = (b1, s1)" by fastforce
  note w = write_str_sent [OF one Cons.prems(2)]
  from Cons.prems(1) one have "fold (stdout_write_str recorded) pieces (b1, s1) = (buffer', s')" by simp
  from Cons.IH [OF this] w obtain calls1 calls2 where
    "sent s' @ buffer' = sent s1 @ b1 @ concat pieces" "length buffer' \<le> 1024"
    "s' = (s @ calls1) @ calls2" "\<forall>c\<in>set calls1. fst c = 1" "\<forall>c\<in>set calls2. fst c = 1" by blast
  then show ?case using w by (intro conjI exI [of _ "calls1 @ calls2"]) auto
qed simp

text \<open>
  Printing sends what was in the buffer and then the whole text, in order, to descriptor 1, and
  leaves the buffer empty.
\<close>

lemma print_sends_all:
  assumes "length buffer \<le> 1024"
  shows "\<exists>calls. print_args recorded pieces (buffer, s) = ([], s @ calls) \<and> (\<forall>c\<in>set calls. fst c = 1) \<and>
    sent calls = buffer @ concat pieces"
proof -
  obtain b1 s1 where f: "fold (stdout_write_str recorded) pieces (buffer, s) = (b1, s1)" by fastforce
  from writes_sent [OF f assms] obtain calls where
    w: "sent s1 @ b1 = sent s @ buffer @ concat pieces" "s1 = s @ calls" "\<forall>c\<in>set calls. fst c = 1" by blast
  show ?thesis
    by (rule exI [of _ "calls @ (if b1 = [] then [] else [(1, b1)])"])
      (use w f in \<open>auto simp: print_args_def stdout_flush_def recorded_def sent_def\<close>)
qed

section \<open>The spin lock\<close>

text \<open>
  Processes that take the lock, work and release it. A step is one atomic access: a
  \<open>compare_exchange\<close> that fails spins. The memory orderings are not part of the model.
\<close>

record spin =
  bolt :: bool
  inside :: "nat set"

definition try_acquire :: "nat \<Rightarrow> spin \<Rightarrow> bool \<times> spin" where
  "try_acquire p w = (if bolt w then (False, w) else (True, w\<lparr>bolt := True, inside := insert p (inside w)\<rparr>))"

definition release :: "nat \<Rightarrow> spin \<Rightarrow> spin" where
  "release p w = w\<lparr>bolt := False, inside := inside w - {p}\<rparr>"

inductive spin_step :: "spin \<Rightarrow> spin \<Rightarrow> bool" where
  acquire: "p \<notin> inside w \<Longrightarrow> spin_step w (snd (try_acquire p w))"
| release: "p \<in> inside w \<Longrightarrow> spin_step w (release p w)"

text \<open>At most one process is inside, exactly when the bolt is shut, and an open lock is taken at the first try.\<close>

lemma spin_exclusive:
  assumes "spin_step\<^sup>*\<^sup>* \<lparr>bolt = False, inside = {}\<rparr> w"
  shows "(if bolt w then \<exists>p. inside w = {p} else inside w = {})" "fst (try_acquire p w) \<longleftrightarrow> inside w = {}"
proof -
  show "if bolt w then \<exists>p. inside w = {p} else inside w = {}"
    using assms
  proof (induction rule: rtranclp_induct)
    case (step w w')
    from step(2, 3) show ?case
      by (cases rule: spin_step.cases) (auto simp: try_acquire_def release_def split: if_splits)
  qed simp
  then show "fst (try_acquire p w) \<longleftrightarrow> inside w = {}" by (auto simp: try_acquire_def split: if_splits)
qed

section \<open>The heap of a program\<close>

definition BRK_HEAP_SIZE :: u64 where "BRK_HEAP_SIZE = 8 * 1024 - 8"

text \<open>\<open>brk\<close> is \<open>sys_brk\<close>; the result is the start and the size that the free list is given.\<close>

definition allocator_init :: "(u64 option \<Rightarrow> 's \<Rightarrow> (unit, u64 option) res \<times> 's) \<Rightarrow> 's \<Rightarrow> (unit, u64 \<times> u64) res \<times> 's" where
  "allocator_init brk s =
     doS (brk None s) (\<lambda>start s.
     andThenS (of_option start) s (\<lambda>heap_start. let heap_end = heap_start + BRK_HEAP_SIZE in
     doS (brk (Some heap_end) s) (\<lambda>ret s.
     andThenS (of_option ret) s (\<lambda>ret.
       if ret = heap_end then (Ok (heap_start, BRK_HEAP_SIZE), s) else (Panic, s)))))"

text \<open>
  On the heap of a new process the set-up gets the first two pages of the region, or there is
  no frame left and it panics.
\<close>

lemma allocator_init_heap:
  assumes laws: "mapper_laws x look" and x: "user_half_ok x" and ok: "heap_ok look h m"
    and fresh: "hp_end h = HEAP_START"
    and run: "allocator_init (\<lambda>e (h, m). case heap_brk x h e m of (r, h, m) \<Rightarrow> (r, h, m)) (h, m) = (r, h', m')"
  shows "r = Ok (HEAP_START, BRK_HEAP_SIZE) \<and> hp_end h' = HEAP_START + BRK_HEAP_SIZE \<and>
      look (mem_table m') 0x200000000 \<noteq> None \<and> look (mem_table m') 0x200000001 \<noteq> None \<or>
    r = Panic \<and> h' = h"
proof -
  let ?e = "HEAP_START + BRK_HEAP_SIZE"
  have e: "HEAP_START \<le> ?e" "?e \<le> HEAP_START + HEAP_SIZE" "heap_top ?e = 0x200000002"
    by (simp_all add: HEAP_START_def BRK_HEAP_SIZE_def HEAP_SIZE_def HEAP_PAGES_def heap_top_def page_of_def
        del: heap_limits)
  obtain r2 h2 m2 where brk: "heap_brk x h (Some ?e) m = (r2, h2, m2)" by (cases "heap_brk x h (Some ?e) m")
  have "heap_brk x h None m = (Ok (Some HEAP_START), h, m)"
    by (simp add: heap_brk_def fresh virt_addr_heap [OF x] word_le_nat_alt)
  then have run2: "(case r2 of Ok (Some ret) \<Rightarrow> if ret = ?e then (Ok (HEAP_START, BRK_HEAP_SIZE), h2, m2) else (Panic, h2, m2)
      | Ok None \<Rightarrow> (Panic, h2, m2) | Err u \<Rightarrow> (Err u, h2, m2) | Panic \<Rightarrow> (Panic, h2, m2) | Diverge \<Rightarrow> (Diverge, h2, m2)) =
      (r, h', m')"
    using run brk by (cases r2) (auto simp: allocator_init_def Let_def split: option.splits)
  from heap_brk_inside(1) [OF laws x ok e(1, 2) brk] show ?thesis
  proof (elim disjE conjE)
    assume ok2: "r2 = Ok (Some ?e)" "h2 = h\<lparr>hp_end := ?e\<rparr>" "heap_ok look h2 m2"
    from heap_okD(4) [OF ok2(3), of "0x200000000"] heap_okD(4) [OF ok2(3), of "0x200000001"]
    show ?thesis using run2 ok2(1, 2) e(3) by auto
  next
    assume "r2 = Ok None" "h2 = h"
    then show ?thesis using run2 by auto
  qed
qed

end
