(* ===== verification/Shell.thy ===== *)
theory Shell
  imports Strings Input Syscalls
begin

text \<open>
  The shell, \<open>pkg/app/sh/src\<close>: its line editor with history, the paths of its working
  directory, the commands, and its loop. The operating system under it is the record \<open>os\<close>,
  the colours of \<open>owo_colors\<close> are the record \<open>colors\<close>. The screen is what has been
  written to standard output.
\<close>

section \<open>Characters\<close>

text \<open>\<open>Stdin::read_key\<close> of \<open>pkg/lib/src/io.rs\<close>\<close>

definition read_key :: "u8 list \<Rightarrow> (u32 option \<times> u8 list) keyed" where
  "read_key ks =
     andThen (pop_key ks) (\<lambda>(ch, ks).
       if is_utf8 ch then andThen (to_utf8 ch ks) (\<lambda>(cp, ks). Ok (char_from_u32 cp, ks))
       else Ok (Some (ucast ch), ks))"

text \<open>\<open>char::is_control\<close>\<close>

definition is_control :: "u32 \<Rightarrow> bool" where
  "is_control c \<longleftrightarrow> c < 0x20 \<or> 0x7F \<le> c \<and> c \<le> 0x9F"

section \<open>What is drawn\<close>

record colors =
  bold :: "u8 list \<Rightarrow> u8 list"
  dimmed :: "u8 list \<Rightarrow> u8 list"
  white :: "u8 list \<Rightarrow> u8 list"
  red :: "u8 list \<Rightarrow> u8 list"
  bright_red :: "u8 list \<Rightarrow> u8 list"
  bright_green :: "u8 list \<Rightarrow> u8 list"
  bright_cyan :: "u8 list \<Rightarrow> u8 list"
  bright_purple :: "u8 list \<Rightarrow> u8 list"
  bright_magenta :: "u8 list \<Rightarrow> u8 list"

definition commands :: "u8 list list" where
  "commands =
     map str [''ps'', ''ls'', ''exec'', ''kill'', ''help'', ''clear'', ''exit'', ''cat'', ''lsapp'', ''cd'', ''pwd'']"

definition highlight :: "colors \<Rightarrow> u8 list \<Rightarrow> u8 list" where
  "highlight col input =
     (case split_once 0x20 input of
        Some (first, rest) \<Rightarrow>
          (if first \<in> set commands then bold col (bright_green col first) else bold col (red col first)) @ 0x20 # rest
      | None \<Rightarrow> if input \<in> set commands then bold col (bright_green col input) else bold col (red col input))"

text \<open>The box-drawing characters of the prompt.\<close>

definition corner_top :: "u8 list" where "corner_top = [0xE2, 0x95, 0xAD, 0xE2, 0x94, 0x80]"
definition corner_bottom :: "u8 list" where "corner_bottom = [0xE2, 0x95, 0xB0, 0xE2, 0x94, 0x80]"
definition arrow_sign :: "u8 list" where "arrow_sign = [0xE2, 0x9D, 0xAF, 0x20]"

definition print_prompt_sec :: "colors \<Rightarrow> u8 list" where
  "print_prompt_sec col = white col corner_bottom @ bold col (bright_purple col arrow_sign)"

definition print_prompt :: "colors \<Rightarrow> u8 list \<Rightarrow> u8 list" where
  "print_prompt col path =
     white col corner_top @ bold col (bright_cyan col (str ''ysos'')) @ bright_cyan col (str ''@'') @
     bold col (bright_purple col (str ''machine'')) @ bold col (bright_cyan col path) @ [0x0A] @
     print_prompt_sec col"

text \<open>A sequence \<open>ESC [ ...\<close> of the terminal.\<close>

definition csi :: "u8 list \<Rightarrow> u8 list" where "csi s = 0x1B # 0x5B # s"

definition clear_screen :: "u8 list" where "clear_screen = csi (str ''1;1H'') @ csi (str ''2J'')"

text \<open>Redrawing the line, and moving back to a cursor that is not at its end.\<close>

definition redraw :: "colors \<Rightarrow> u8 list \<Rightarrow> u8 list" where
  "redraw col buffer = 0x0D # print_prompt_sec col @ highlight col buffer @ csi (str ''0K'')"

definition move_back :: "nat \<Rightarrow> u8 list" where
  "move_back shift = (if shift > 0 then csi (digits_of 10 shift @ str ''D'') else [])"

section \<open>The line editor\<close>

record editor =
  buffer :: "u8 list"
  cursor :: nat
  history_index :: "nat option"

type_synonym edited = "(unit, editor \<times> u8 list) res"

definition edit_backspace :: "colors \<Rightarrow> editor \<Rightarrow> edited" where
  "edit_backspace col e =
     (if cursor e > 0 then
        andThen (string_remove (buffer e) (cursor e - 1)) (\<lambda>b.
          Ok (e\<lparr>buffer := b, cursor := cursor e - 1\<rparr>, redraw col b @ move_back (length b - (cursor e - 1))))
      else Ok (e, []))"

definition edit_insert :: "colors \<Rightarrow> u32 \<Rightarrow> editor \<Rightarrow> edited" where
  "edit_insert col c e =
     (if \<not> is_control c \<or> c = 0x20 \<or> c = 0x09 then
        andThen (string_insert (buffer e) (cursor e) (utf8_encode c)) (\<lambda>b.
          Ok (e\<lparr>buffer := b, cursor := cursor e + 1\<rparr>, redraw col b @ move_back (length b - (cursor e + 1))))
      else Ok (e, []))"

definition edit_up :: "colors \<Rightarrow> u8 list list \<Rightarrow> editor \<Rightarrow> editor \<times> u8 list" where
  "edit_up col history e =
     (if history \<noteq> [] then
        let idx = (case history_index e of
                     Some i \<Rightarrow> if i > 0 then i - 1 else 0
                   | None \<Rightarrow> length history - 1);
            e' = e\<lparr>history_index := Some idx\<rparr>
        in if idx < length history then
             (e'\<lparr>buffer := history ! idx, cursor := length (history ! idx)\<rparr>, redraw col (history ! idx))
           else (e', [])
      else (e, []))"

definition edit_down :: "colors \<Rightarrow> u8 list list \<Rightarrow> editor \<Rightarrow> editor \<times> u8 list" where
  "edit_down col history e =
     (case history_index e of
        Some i \<Rightarrow>
          if history \<noteq> [] then
            let e' = (if i < length history - 1 then
                        e\<lparr>history_index := Some (i + 1), buffer := history ! (i + 1),
                          cursor := length (history ! (i + 1))\<rparr>
                      else e\<lparr>history_index := Some (length history), buffer := [], cursor := 0\<rparr>)
            in (e', redraw col (buffer e'))
          else (e, [])
      | None \<Rightarrow> (e, []))"

definition edit_right :: "editor \<Rightarrow> editor \<times> u8 list" where
  "edit_right e = (if cursor e < length (buffer e) then (e\<lparr>cursor := cursor e + 1\<rparr>, csi (str ''1C'')) else (e, []))"

definition edit_left :: "editor \<Rightarrow> editor \<times> u8 list" where
  "edit_left e = (if cursor e > 0 then (e\<lparr>cursor := cursor e - 1\<rparr>, csi (str ''1D'')) else (e, []))"

text \<open>The letter after \<open>ESC [\<close>\<close>

definition edit_arrow :: "colors \<Rightarrow> u8 list list \<Rightarrow> u32 \<Rightarrow> editor \<Rightarrow> editor \<times> u8 list" where
  "edit_arrow col history code e =
     (if code = 0x41 then edit_up col history e
      else if code = 0x42 then edit_down col history e
      else if code = 0x43 then edit_right e
      else if code = 0x44 then edit_left e
      else (e, []))"

text \<open>
  One turn of the loop: \<open>Inl\<close> when the line is finished; with it, what was printed and the
  keys that are left.
\<close>

definition edit_turn ::
  "colors \<Rightarrow> u8 list list \<Rightarrow> u8 list \<Rightarrow> editor \<Rightarrow> ((editor + editor) \<times> u8 list \<times> u8 list) keyed" where
  "edit_turn col history ks e =
     andThen (read_key ks) (\<lambda>(k, ks).
       case k of
         None \<Rightarrow> Ok (Inr e, [], ks)
       | Some c \<Rightarrow>
           if c = 0x0A \<or> c = 0x0D then Ok (Inl e, [0x0A], ks)
           else if c = 0x08 \<or> c = 0x7F then andThen (edit_backspace col e) (\<lambda>(e', out). Ok (Inr e', out, ks))
           else if c = 0x1B then
             andThen (read_key ks) (\<lambda>(k, ks).
               if k = Some 0x5B then
                 andThen (read_key ks) (\<lambda>(k, ks).
                   case k of
                     None \<Rightarrow> Ok (Inr e, [], ks)
                   | Some code \<Rightarrow> let (e', out) = edit_arrow col history code e in Ok (Inr e', out, ks))
               else Ok (Inr e, [], ks))
           else andThen (edit_insert col c e) (\<lambda>(e', out). Ok (Inr e', out, ks)))"

lemma read_key_shorter: "read_key ks = Ok (k, ks') \<Longrightarrow> length ks' < length ks"
  by (auto simp: read_key_def andThen_eq_Ok dest!: pop_key_shorter to_utf8_shorter split: if_splits)

lemma read_key_shorter': "read_key ks = Ok x \<Longrightarrow> length (snd x) < length ks"
  using read_key_shorter [of ks "fst x" "snd x"] by simp

lemma edit_turn_shorter:
  assumes "edit_turn col history ks e = Ok (r, out, ks')"
  shows "length ks' < length ks"
proof -
  obtain k ks1 where k: "read_key ks = Ok (k, ks1)"
    using assms unfolding edit_turn_def andThen_eq_Ok by (metis surj_pair)
  have "length ks' \<le> length ks1"
    using assms unfolding edit_turn_def k
    by (auto simp: andThen_eq_Ok case_prod_unfold Let_def dest!: read_key_shorter' split: if_splits option.splits)
  then show ?thesis using read_key_shorter [OF k] by simp
qed

function edit_loop ::
  "colors \<Rightarrow> u8 list list \<Rightarrow> u8 list \<Rightarrow> editor \<Rightarrow> (editor \<times> u8 list \<times> u8 list) keyed" where
  "edit_loop col history ks e =
     (case edit_turn col history ks e of
        Ok (Inl e', out, ks') \<Rightarrow> Ok (e', out, ks')
      | Ok (Inr e', out, ks') \<Rightarrow>
          andThen (edit_loop col history ks' e') (\<lambda>(e'', out', ks''). Ok (e'', out @ out', ks''))
      | Err x \<Rightarrow> Err x
      | Panic \<Rightarrow> Panic
      | Diverge \<Rightarrow> Diverge)"
  by pat_completeness auto
termination
  by (relation "measure (\<lambda>(col, history, ks, e). length ks)") (auto dest: edit_turn_shorter)

declare edit_loop.simps [simp del]

text \<open>The line, the place in the history after it, what was printed, the keys that are left.\<close>

definition read_line_history ::
  "colors \<Rightarrow> u8 list list \<Rightarrow> nat option \<Rightarrow> u8 list \<Rightarrow> (u8 list \<times> nat option \<times> u8 list \<times> u8 list) keyed" where
  "read_line_history col history idx ks =
     andThen (edit_loop col history ks \<lparr>buffer = [], cursor = 0, history_index = idx\<rparr>)
       (\<lambda>(e, out, ks). Ok (buffer e, history_index e, out, ks))"

section \<open>Paths\<close>

definition trim_matches :: "u8 \<Rightarrow> u8 list \<Rightarrow> u8 list" where
  "trim_matches c s = rev (dropWhile (\<lambda>b. b = c) (rev (dropWhile (\<lambda>b. b = c) s)))"

definition starts_with :: "u8 \<Rightarrow> u8 list \<Rightarrow> bool" where
  "starts_with c s \<longleftrightarrow> s \<noteq> [] \<and> hd s = c"

definition path_parts :: "u8 list \<Rightarrow> u8 list list" where
  "path_parts s = filter (\<lambda>p. p \<noteq> []) (split_on 0x2F s)"

text \<open>The loop over the parts of the target.\<close>

fun resolve :: "u8 list list \<Rightarrow> u8 list list \<Rightarrow> u8 list list" where
  "resolve components [] = components"
| "resolve components (part # parts) =
     resolve (if part = str ''.'' then components
              else if part = str ''..'' then (if components \<noteq> [] then butlast components else components)
              else components @ [part]) parts"

fun join_slash :: "u8 list list \<Rightarrow> u8 list" where
  "join_slash [] = []"
| "join_slash [p] = p"
| "join_slash (p # ps) = p @ 0x2F # join_slash ps"

definition normalize_path :: "u8 list \<Rightarrow> u8 list \<Rightarrow> u8 list" where
  "normalize_path current_dir target_path =
     (let is_absolute = starts_with 0x2F target_path \<or> starts_with 0x2F current_dir;
          components = (if starts_with 0x2F target_path then []
                        else path_parts (trim_matches 0x2F current_dir));
          components = resolve components (path_parts target_path)
      in if is_absolute then
           (if components = [] then str ''/'' else 0x2F # join_slash components)
         else (if components = [] then str ''.'' else join_slash components))"

section \<open>The system under the shell\<close>

text \<open>
  The calls of the user library; \<open>pending\<close> are the keys that are still to come, which a
  program that is waited for may take.
\<close>

record 's world =
  pending :: "u8 list"
  screen :: "u8 list"
  outside :: 's

record 's os =
  os_err :: "u8 list \<Rightarrow> 's world \<Rightarrow> 's world"
  os_stat :: "'s world \<Rightarrow> 's world"
  os_list_app :: "'s world \<Rightarrow> 's world"
  os_list_dir :: "u8 list \<Rightarrow> 's world \<Rightarrow> dir_error option \<times> 's world"
  os_open :: "u8 list \<Rightarrow> 's world \<Rightarrow> u8 option \<times> 's world"
  os_read :: "u8 \<Rightarrow> u8 list \<Rightarrow> 's world \<Rightarrow> int \<times> u8 list \<times> 's world"
  os_close :: "u8 \<Rightarrow> 's world \<Rightarrow> bool \<times> 's world"
  os_spawn :: "u8 list \<Rightarrow> 's world \<Rightarrow> u16 \<times> 's world"
  os_wait_pid :: "u16 \<Rightarrow> 's world \<Rightarrow> int \<times> 's world"
  os_kill :: "u16 \<Rightarrow> 's world \<Rightarrow> 's world"

definition print :: "u8 list \<Rightarrow> 's world \<Rightarrow> 's world" where
  "print s w = w\<lparr>screen := screen w @ s\<rparr>"

definition println :: "u8 list \<Rightarrow> 's world \<Rightarrow> 's world" where
  "println s w = print (s @ [0x0A]) w"

definition errln :: "'s os \<Rightarrow> u8 list \<Rightarrow> 's world \<Rightarrow> 's world" where
  "errln sys s w = os_err sys (s @ [0x0A]) w"

definition int_text :: "int \<Rightarrow> u8 list" where
  "int_text i = (if i < 0 then 0x2D # digits_of 10 (nat (- i)) else digits_of 10 (nat i))"

text \<open>The messages of \<open>list_dir\<close> and \<open>open\<close> in \<open>pkg/lib/src/syscall.rs\<close>\<close>

fun dir_error_text :: "dir_error \<Rightarrow> u8 list" where
  "dir_error_text NullPointer = str ''Null path pointer''"
| "dir_error_text EmptyPath = str ''Empty path''"
| "dir_error_text PathTooLong = str ''Path too long''"
| "dir_error_text BadUtf8 = str ''Invalid UTF-8 in path''"
| "dir_error_text EmptyString = str ''Empty path string''"
| "dir_error_text UnknownError = str ''Unknown error''"

section \<open>cat, exec and kill\<close>

definition CAT_BUFFER_SIZE :: nat where "CAT_BUFFER_SIZE = 512"

definition shown_byte :: "u8 \<Rightarrow> u8" where
  "shown_byte b = (if between 0x21 0x7E b \<or> b = 0x20 \<or> b = 0x0A \<or> b = 0x09 then b else 0x2E)"

definition cat_text :: "u8 list \<Rightarrow> u8 list" where
  "cat_text s = (if utf8_valid s then s else map shown_byte s)"

text \<open>The loop: it ends at a read of nothing or an error; \<open>Panic\<close> is a slice out of range.\<close>

partial_function (option) cat_loop ::
  "'s os \<Rightarrow> u8 \<Rightarrow> u8 list \<Rightarrow> 's world \<Rightarrow> (unit, 's world) res option" where
  "cat_loop sys fd buf w =
     (let (bytes_read, buf, w) = os_read sys fd buf w
      in if bytes_read < 0 then
           Some (Ok (errln sys (str ''cat: read error (code: '' @ int_text bytes_read @ str '')'') w))
         else if bytes_read = 0 then Some (Ok w)
         else if nat bytes_read \<le> length buf then
           cat_loop sys fd buf (print (cat_text (take (nat bytes_read) buf)) w)
         else Some Panic)"

definition cat_file :: "'s os \<Rightarrow> u8 list \<Rightarrow> 's world \<Rightarrow> (unit, 's world) res" where
  "cat_file sys path w =
     (case os_open sys path w of
        (Some fd, w) \<Rightarrow>
          andThen (run_loop (cat_loop sys fd (replicate CAT_BUFFER_SIZE 0) w)) (\<lambda>w.
            let (closed, w) = os_close sys fd w
            in Ok (if closed then w else errln sys (str ''cat: close error: \"Failed to close file\"'') w))
      | (None, w) \<Rightarrow>
          Ok (errln sys (str ''cat: open error for '' @ [0x27] @ path @ [0x27] @ str '': \"Failed to open file\"'') w))"

definition ascii_lowercase :: "u8 list \<Rightarrow> u8 list" where
  "ascii_lowercase = map (\<lambda>b. if between 0x41 0x5A b then b + 0x20 else b)"

definition exec :: "'s os \<Rightarrow> u8 list \<Rightarrow> 's world \<Rightarrow> 's world" where
  "exec sys name w =
     (let (pid, w) = os_spawn sys (ascii_lowercase name) w
      in if pid = 0 then errln sys (str ''failed to spawn process: '' @ name) w
         else let (ret, w) = os_wait_pid sys pid w
              in println (str ''process exited with code '' @ int_text ret) w)"

section \<open>Help\<close>

type_synonym action = "u8 list \<times> u8 list option \<times> u8 list"

definition ACTIONS_MAP :: "action list" where
  "ACTIONS_MAP =
     [(str ''help'', None, str ''show this help''),
      (str ''ps'', None, str ''show process list''),
      (str ''ls'', None, str ''list directory''),
      (str ''cd'', Some (str ''<path>''), str ''change directory''),
      (str ''cat'', Some (str ''<file>''), str ''show file content''),
      (str ''exec'', Some (str ''<file>''), str ''execute file''),
      (str ''nohup'', Some (str ''<file>''), str ''execute file in background''),
      (str ''kill'', Some (str ''<pid>''), str ''kill process''),
      (str ''clear'', None, str ''clear screen'')]"

definition SHORTCUTS :: "action list" where
  "SHORTCUTS =
     [(str ''Ctrl + D'', None, str ''exit shell''),
      (str ''Ctrl + C'', None, str ''cancel current command'')]"

text \<open>Padding counts characters, the width is a number of bytes.\<close>

definition char_count :: "u8 list \<Rightarrow> nat" where
  "char_count s = length (filter (\<lambda>b. \<not> continuation b) s)"

definition pad_left :: "nat \<Rightarrow> u8 list \<Rightarrow> u8 list" where
  "pad_left width s = replicate (width - char_count s) 0x20 @ s"

fun format_cmd :: "colors \<Rightarrow> action \<Rightarrow> (unit, u8 list) res" where
  "format_cmd col (name, arg, about) =
     (let action_str = (case arg of
                          Some arg \<Rightarrow> bold col (bright_magenta col name) @ 0x20 # bright_magenta col arg
                        | None \<Rightarrow> bold col (bright_magenta col name));
          real_len = length name + (case arg of None \<Rightarrow> 0 | Some arg \<Rightarrow> length arg + 1)
      in if real_len \<le> 16 then
           Ok (pad_left (length action_str + (16 - real_len)) action_str @ str '' | '' @ dimmed col about @ [0x0A])
         else Panic)"

definition format_cmds :: "colors \<Rightarrow> u8 list \<Rightarrow> action list \<Rightarrow> (unit, u8 list) res" where
  "format_cmds col cate actions =
     andThen (map_res (format_cmd col) actions) (\<lambda>rows.
       Ok (bold col (bright_cyan col cate) @ [0x0A] @ concat rows))"

definition show_help_text :: "colors \<Rightarrow> 's world \<Rightarrow> (unit, 's world) res" where
  "show_help_text col w =
     andThen (format_cmds col (str ''Available Commands:'') ACTIONS_MAP) (\<lambda>cmds.
     andThen (format_cmds col (str ''Shortcuts:'') SHORTCUTS) (\<lambda>keys.
       Ok (println keys (println cmds (println (str ''  '' @ bright_magenta col (str ''Ctrl+D'') @ str '' - Exit shell'') w)))))"

section \<open>The loop of the shell\<close>

record shell =
  sh_history :: "u8 list list"
  sh_index :: "nat option"
  sh_cwd :: "u8 list"

text \<open>Remembering a line that is not empty and not the last one again.\<close>

definition remember :: "u8 list \<Rightarrow> shell \<Rightarrow> shell" where
  "remember trimmed sh =
     (if trimmed \<noteq> [] then
        let history = (if sh_history sh = [] \<or> last (sh_history sh) \<noteq> trimmed then sh_history sh @ [trimmed]
                       else sh_history sh)
        in sh\<lparr>sh_history := history, sh_index := Some (length history)\<rparr>
      else sh)"

text \<open>The commands: \<open>None\<close> ends the shell.\<close>

type_synonym 's turn = "(unit, (shell \<times> 's world) option) res"

definition shell_command :: "'s os \<Rightarrow> colors \<Rightarrow> u8 list list \<Rightarrow> shell \<Rightarrow> 's world \<Rightarrow> 's turn" where
  "shell_command sys col line sh w =
     (let command = (case line of [] \<Rightarrow> [] | c # _ \<Rightarrow> c);
          arg = (if length line \<ge> 2 then Some (line ! 1) else None);
          go = (\<lambda>w. Ok (Some (sh, w)))
      in if command = [0x04] \<or> command = str ''exit'' then Ok None
         else if command = str ''ps'' then go (os_stat sys w)
         else if command = str ''ls'' then
           let path = normalize_path (sh_cwd sh) (case arg of Some a \<Rightarrow> a | None \<Rightarrow> str ''.'');
               (r, w) = os_list_dir sys path w
           in go (case r of None \<Rightarrow> w
                  | Some e \<Rightarrow> errln sys (str ''ls: '' @ path @ str '': '' @ dir_error_text e) w)
         else if command = str ''cat'' then
           (case arg of
              None \<Rightarrow> go (println (str ''Usage: cat <file>'') w)
            | Some a \<Rightarrow>
                let path = normalize_path (sh_cwd sh) a
                in andThen (cat_file sys path w) (\<lambda>w. go (println (0x0A # str ''cat: '' @ path) w)))
         else if command = str ''cd'' then
           Ok (Some (sh\<lparr>sh_cwd := (case arg of None \<Rightarrow> str ''/'' | Some a \<Rightarrow> normalize_path (sh_cwd sh) a)\<rparr>, w))
         else if command = str ''pwd'' then go (println (sh_cwd sh) w)
         else if command = str ''help'' then andThen (show_help_text col w) go
         else if command = str ''clear'' then go (print clear_screen w)
         else if command = str ''lsapp'' then go (os_list_app sys w)
         else if command = str ''exec'' then
           (case arg of
              None \<Rightarrow> go (println (str ''Usage: exec <program_name> [args...]'') w)
            | Some a \<Rightarrow> go (println (str ''Program '' @ a @ str '' executed.'')
                              (exec sys a (println (str ''Executing: '' @ a) w))))
         else if command = str ''kill'' then
           (case arg of
              None \<Rightarrow> go (println (str ''Usage: kill <pid>'') w)
            | Some a \<Rightarrow>
                (case parse_uint 16 10 a of
                   Some pid \<Rightarrow> go (os_kill sys (of_nat pid) w)
                 | None \<Rightarrow> go (errln sys (str ''kill: Invalid PID: '' @ a) w)))
         else if command = [] then go w
         else go (println (str ''Type '' @ [0x27] @ str ''help'' @ [0x27] @ str '' to see available commands.'')
                    (errln sys (str ''Command not found: '' @ bright_red col command) w)))"

definition shell_turn :: "'s os \<Rightarrow> colors \<Rightarrow> shell \<Rightarrow> 's world \<Rightarrow> 's turn" where
  "shell_turn sys col sh w =
     (let w = print (print_prompt col (sh_cwd sh)) w
      in andThen (read_line_history col (sh_history sh) (sh_index sh) (pending w)) (\<lambda>(input, idx, out, ks).
         let w = (print out w)\<lparr>pending := ks\<rparr>;
             trimmed = trim input
         in shell_command sys col (split_white trimmed) (remember trimmed (sh\<lparr>sh_index := idx\<rparr>)) w))"

definition shell_start :: shell where
  "shell_start = \<lparr>sh_history = [], sh_index = Some 0, sh_cwd = str ''/''\<rparr>"

partial_function (option) shell_loop ::
  "'s os \<Rightarrow> colors \<Rightarrow> shell \<Rightarrow> 's world \<Rightarrow> (unit, int) res option" where
  "shell_loop sys col sh w =
     (case shell_turn sys col sh w of
        Ok (Some (sh, w)) \<Rightarrow> shell_loop sys col sh w
      | Ok None \<Rightarrow> Some (Ok 0)
      | Err x \<Rightarrow> Some (Err x)
      | Panic \<Rightarrow> Some Panic
      | Diverge \<Rightarrow> Some Diverge)"

text \<open>\<open>main\<close>, after the banner\<close>

definition shell_main :: "'s os \<Rightarrow> colors \<Rightarrow> 's world \<Rightarrow> (unit, int) res" where
  "shell_main sys col w = run_loop (shell_loop sys col shell_start w)"

end
