(* ===== verification/ShellFacts.thy ===== *)
theory ShellFacts
  imports Shell
begin

text \<open>
  What the shell does with ASCII keys, seen as a line split at its cursor, and what its paths
  are, seen as lists of names.
\<close>

section \<open>Keys\<close>

datatype key = Letter u8 | Backspace | Up | Down | RightArrow | LeftArrow | Ctrl u8

fun key_bytes :: "key \<Rightarrow> u8 list" where
  "key_bytes (Letter b) = [b]"
| "key_bytes Backspace = [0x7F]"
| "key_bytes Up = [0x1B, 0x5B, 0x41]"
| "key_bytes Down = [0x1B, 0x5B, 0x42]"
| "key_bytes RightArrow = [0x1B, 0x5B, 0x43]"
| "key_bytes LeftArrow = [0x1B, 0x5B, 0x44]"
| "key_bytes (Ctrl b) = [b]"

text \<open>A letter prints, or is a space or a tab; the control keys are those that do not edit.\<close>

definition printing :: "u8 \<Rightarrow> bool" where "printing b \<longleftrightarrow> 0x20 \<le> b \<and> b < 0x7F \<or> b = 0x09"

fun key_ok :: "key \<Rightarrow> bool" where
  "key_ok (Letter b) = printing b"
| "key_ok (Ctrl b) = (b < 0x20 \<and> b \<notin> {0x08, 0x09, 0x0A, 0x0D, 0x1B})"
| "key_ok k = True"

lemma unat_widen: "unat (ucast (b :: u8) :: u32) = unat b"
proof -
  have "unat b < 2 ^ 32" using unat_u8_less [of b] by (rule less_trans) simp
  then show ?thesis by (simp add: unsigned_ucast_eq take_bit_nat_eq_self)
qed

lemma widen_eq: "(ucast (b :: u8) :: u32) = c \<longleftrightarrow> unat b = unat c"
  by (simp add: word_unat_eq_iff unat_widen)

lemma widen_narrow: "(ucast (ucast (b :: u8) :: u32) :: u8) = b"
  by (intro bit_word_eqI) (auto simp: bit_simps dest: bit_imp_le_length)

lemma utf8_encode_ascii: "b < 0x80 \<Longrightarrow> utf8_encode (ucast b) = [b]"
  by (simp add: utf8_encode_def word_less_nat_alt unat_widen widen_narrow)

lemma read_key_char:
  assumes "char_from_u32 c = Some c"
  shows "read_key (utf8_encode c @ ks) = Ok (Some c, ks)"
proof -
  obtain b bs where b: "utf8_encode c = b # bs" using utf8_encode_nonempty by blast
  show ?thesis using to_utf8_encode [OF char_range [OF assms] b] assms
    by (simp add: read_key_def b pop_key_def)
qed

lemma read_key_ascii: "b < 0x80 \<Longrightarrow> read_key (b # ks) = Ok (Some (ucast b), ks)"
  using read_key_char [of "ucast b" ks]
  by (simp add: utf8_encode_ascii char_from_u32_def word_less_nat_alt unat_widen)

section \<open>A line split at its cursor\<close>

type_synonym zipper = "u8 list \<times> u8 list \<times> nat"

text \<open>
  The text before and after the cursor and the place in the history, whose end is the new line.
\<close>

fun zip_key :: "u8 list list \<Rightarrow> zipper \<Rightarrow> key \<Rightarrow> zipper" where
  "zip_key hist (l, r, p) (Letter b) = (l @ [b], r, p)"
| "zip_key hist (l, r, p) Backspace = (butlast l, r, p)"
| "zip_key hist (l, r, p) LeftArrow = (if l = [] then (l, r, p) else (butlast l, last l # r, p))"
| "zip_key hist (l, r, p) RightArrow = (case r of [] \<Rightarrow> (l, r, p) | b # r' \<Rightarrow> (l @ [b], r', p))"
| "zip_key hist (l, r, p) Up = (if hist = [] then (l, r, p) else (hist ! (p - 1), [], p - 1))"
| "zip_key hist (l, r, p) Down =
     (if hist = [] then (l, r, p)
      else if p + 1 < length hist then (hist ! (p + 1), [], p + 1) else ([], [], length hist))"
| "zip_key hist z (Ctrl b) = z"

definition zip_keys :: "u8 list list \<Rightarrow> zipper \<Rightarrow> key list \<Rightarrow> zipper" where
  "zip_keys hist = foldl (zip_key hist)"

definition zip_text :: "zipper \<Rightarrow> u8 list" where "zip_text z = (case z of (l, r, p) \<Rightarrow> l @ r)"

fun zip_editor :: "zipper \<Rightarrow> editor" where
  "zip_editor (l, r, p) = \<lparr>buffer = l @ r, cursor = length l, history_index = Some p\<rparr>"

fun zip_ok :: "u8 list list \<Rightarrow> zipper \<Rightarrow> bool" where
  "zip_ok hist (l, r, p) \<longleftrightarrow> ascii l \<and> ascii r \<and> p \<le> length hist"

lemma zip_key_ok:
  assumes "list_all ascii hist" "zip_ok hist z" "key_ok u"
  shows "zip_ok hist (zip_key hist z u)"
proof -
  obtain l r p where z: "z = (l, r, p)" using prod_cases3 by blast
  have line: "ascii (hist ! i)" if "i < length hist" for i using assms(1) that by (simp add: list_all_length)
  have up: "ascii (hist ! (p - Suc 0))" if "hist \<noteq> []" "p \<le> length hist"
    using that by (intro line) (cases hist; auto)
  have letter: "b < 0x80" if "printing b" for b using that by (auto simp: printing_def word_less_nat_alt)
  show ?thesis
    using assms(2, 3) line up
    by (cases u; cases l rule: rev_cases) (auto simp: z ascii_def letter split: list.splits)
qed

lemma ascii_insert:
  "ascii l \<Longrightarrow> ascii r \<Longrightarrow> string_insert (l @ r) (length l) s = Ok (l @ s @ r)"
  by (simp add: string_insert_def ascii_boundary ascii_def)

lemma ascii_remove:
  "ascii l \<Longrightarrow> b < 0x80 \<Longrightarrow> ascii r \<Longrightarrow> string_remove (l @ b # r) (length l) = Ok (l @ r)"
  by (simp add: string_remove_def ascii_boundary ascii_def char_width_def)

lemma edit_turn_key:
  assumes hist: "list_all ascii hist" and z: "zip_ok hist z" and u: "key_ok u"
  shows "\<exists>out. edit_turn col hist (key_bytes u @ ks) (zip_editor z) = Ok (Inr (zip_editor (zip_key hist z u)), out, ks)"
proof -
  obtain l r p where zeq: "z = (l, r, p)" using prod_cases3 by blast
  have lr: "ascii l" "ascii r" "p \<le> length hist" using z by (simp_all add: zeq)
  show ?thesis
  proof (cases u)
    case (Letter b)
    then have b: "0x20 \<le> b \<and> b < 0x7F \<or> b = 0x09" using u by (simp add: printing_def)
    then have "b < 0x80" by (auto simp: word_less_nat_alt)
    moreover have "edit_insert col (ucast b) (zip_editor z) =
        Ok (zip_editor (l @ [b], r, p), redraw col (l @ b # r) @ move_back (length r))"
      using b \<open>b < 0x80\<close> lr
      by (auto simp: edit_insert_def is_control_def zeq utf8_encode_ascii ascii_insert widen_eq
          word_less_nat_alt word_le_nat_alt unat_widen)
    ultimately show ?thesis using b
      by (auto simp: Letter zeq edit_turn_def read_key_ascii widen_eq word_less_nat_alt word_le_nat_alt)
  next
    case Backspace
    show ?thesis
    proof (cases l rule: rev_cases)
      case Nil
      then show ?thesis by (simp add: Backspace zeq edit_turn_def read_key_ascii edit_backspace_def)
    next
      case (snoc l' b)
      then have "string_remove (l' @ b # r) (length l') = (Ok (l' @ r) :: (unit, u8 list) res)"
        using lr by (intro ascii_remove) (simp_all add: ascii_def)
      then show ?thesis
        by (simp add: Backspace zeq snoc edit_turn_def read_key_ascii edit_backspace_def)
    qed
  next
    case (Ctrl b)
    then have "b < 0x20" "b \<notin> {0x08, 0x09, 0x0A, 0x0D, 0x1B}" using u by auto
    moreover from this have "b < 0x80" by (simp add: word_less_nat_alt)
    ultimately show ?thesis
      by (auto simp: Ctrl zeq edit_turn_def read_key_ascii edit_insert_def is_control_def widen_eq
          word_less_nat_alt word_unat_eq_iff unat_widen)
  next
    case Up
    have "p - 1 < length hist" if "hist \<noteq> []" using that lr(3) by (cases hist) auto
    then show ?thesis using lr(3)
      by (auto simp: Up zeq edit_turn_def read_key_ascii edit_arrow_def edit_up_def Let_def)
  next
    case Down
    then show ?thesis using lr(3)
      by (auto simp: zeq edit_turn_def read_key_ascii edit_arrow_def edit_down_def Let_def less_diff_conv)
  next
    case RightArrow
    then show ?thesis
      by (cases r) (simp_all add: zeq edit_turn_def read_key_ascii edit_arrow_def edit_right_def)
  next
    case LeftArrow
    then show ?thesis
      by (cases l rule: rev_cases) (simp_all add: zeq edit_turn_def read_key_ascii edit_arrow_def edit_left_def)
  qed
qed

lemma edit_loop_keys:
  assumes "list_all ascii hist" "zip_ok hist z" "list_all key_ok us"
  shows "\<exists>out. edit_loop col hist (concat (map key_bytes us) @ 0x0D # ks) (zip_editor z) =
    Ok (zip_editor (zip_keys hist z us), out, ks)"
  using assms(2, 3)
proof (induction us arbitrary: z)
  case Nil
  then show ?case by (subst edit_loop.simps) (simp add: edit_turn_def read_key_ascii zip_keys_def)
next
  case (Cons u us)
  from edit_turn_key [OF assms(1) Cons.prems(1)] Cons.prems(2) obtain out where
    out: "edit_turn col hist (key_bytes u @ concat (map key_bytes us) @ 0x0D # ks) (zip_editor z) =
      Ok (Inr (zip_editor (zip_key hist z u)), out, concat (map key_bytes us) @ 0x0D # ks)"
    by fastforce
  from Cons.IH [OF zip_key_ok [OF assms(1) Cons.prems(1)]] Cons.prems(2) obtain out' where
    "edit_loop col hist (concat (map key_bytes us) @ 0x0D # ks) (zip_editor (zip_key hist z u)) =
      Ok (zip_editor (zip_keys hist (zip_key hist z u) us), out', ks)" by fastforce
  then show ?case by (subst edit_loop.simps) (simp add: out zip_keys_def)
qed

lemma zip_keys_ok:
  "list_all ascii hist \<Longrightarrow> zip_ok hist z \<Longrightarrow> list_all key_ok us \<Longrightarrow> zip_ok hist (zip_keys hist z us)"
  by (induction us arbitrary: z) (simp_all add: zip_keys_def zip_key_ok)

lemma read_line_keys:
  assumes "list_all ascii hist" "p \<le> length hist" "list_all key_ok us"
  shows "\<exists>out. read_line_history col hist (Some p) (concat (map key_bytes us) @ 0x0D # ks) =
    Ok (zip_text (zip_keys hist ([], [], p) us), Some (snd (snd (zip_keys hist ([], [], p) us))), out, ks)"
proof -
  have "zip_ok hist ([], [], p)" using assms(2) by (simp add: ascii_def)
  from edit_loop_keys [OF assms(1) this assms(3), of col ks] show ?thesis
    by (cases "zip_keys hist ([], [], p) us") (auto simp: read_line_history_def zip_text_def)
qed

section \<open>Characters that are not ASCII\<close>

lemma continuation_plus: "unat v < 64 \<Longrightarrow> continuation (0x80 + v)"
proof -
  assume "unat v < 64"
  then have "unat (0x80 + v) = 128 + unat v" by (simp add: unat_word_ariths)
  with \<open>unat v < 64\<close> show ?thesis by (simp add: continuation_def between_def word_le_nat_alt)
qed

lemma continuation_byte: "continuation (0x80 OR ucast ((w :: u32) AND 0x3F))"
proof -
  define v where "v = (ucast (w AND 0x3F) :: u8)"
  have h: "n < 6" if "bit v n" for n using that by (simp add: v_def low_masks bit_simps)
  have "0x80 + v = 0x80 OR v"
    by (intro disjunctive_add) (auto simp: mask_bits simp del: bit_numeral_word_iff dest: h)
  moreover have "unat v < 64"
  proof -
    have "v = take_bit 6 v" by (intro bit_word_eqI) (auto simp: bit_simps dest: h)
    then have "unat v = take_bit 6 (unat v)" by (metis unsigned_take_bit_eq)
    then show ?thesis using take_bit_nat_less_exp [of 6 "unat v"] by simp
  qed
  ultimately show ?thesis
    unfolding v_def [symmetric] by (metis continuation_plus)
qed

lemma utf8_encode_long:
  assumes "0x80 \<le> c"
  shows "\<exists>b b' bs. utf8_encode c = b # b' # bs \<and> continuation b'"
  using assms continuation_byte [of c] continuation_byte [of "drop_bit 6 c"] continuation_byte [of "drop_bit 12 c"]
  by (simp add: utf8_encode_def word_less_nat_alt word_le_nat_alt)

section \<open>Paths as lists of names\<close>

definition good_name :: "u8 list \<Rightarrow> bool" where
  "good_name p \<longleftrightarrow> p \<noteq> [] \<and> 0x2F \<notin> set p \<and> p \<noteq> str ''.'' \<and> p \<noteq> str ''..''"

definition path_of :: "u8 list list \<Rightarrow> u8 list" where
  "path_of ps = (if ps = [] then str ''/'' else 0x2F # join_slash ps)"

lemma split_on_append: "split_on c (s @ c # t) = split_on c s @ split_on c t"
proof (induction s)
  case (Cons b s)
  then show ?case by (cases "split_on c s") (auto split: list.splits)
qed simp

lemma path_parts_append: "path_parts (a @ 0x2F # b) = path_parts a @ path_parts b"
  by (simp add: path_parts_def split_on_append)

lemma split_on_pieces: "p \<in> set (split_on c s) \<Longrightarrow> c \<notin> set p"
proof (induction s arbitrary: p)
  case (Cons b s)
  then show ?case by (cases "split_on c s") (auto split: if_splits)
qed simp

lemma path_parts_pieces: "p \<in> set (path_parts s) \<Longrightarrow> p \<noteq> [] \<and> 0x2F \<notin> set p"
  using split_on_pieces [of p "0x2F" s] by (simp add: path_parts_def)

lemma path_parts_join: "list_all good_name ps \<Longrightarrow> path_parts (join_slash ps) = ps"
proof (induction ps rule: join_slash.induct)
  case (2 p)
  then show ?case by (simp add: path_parts_def good_name_def split_on_no_sep)
next
  case (3 p q ps)
  then show ?case by (simp add: path_parts_def good_name_def split_on_append_sep)
qed (simp add: path_parts_def)

lemma good_name_ends: "good_name p \<Longrightarrow> hd p \<noteq> 0x2F \<and> last p \<noteq> 0x2F"
  unfolding good_name_def by (metis hd_in_set last_in_set)

lemma join_slash_ends:
  "list_all good_name ps \<Longrightarrow> ps \<noteq> [] \<Longrightarrow>
    join_slash ps \<noteq> [] \<and> hd (join_slash ps) \<noteq> 0x2F \<and> last (join_slash ps) \<noteq> 0x2F"
proof (induction ps rule: join_slash.induct)
  case (2 p)
  then show ?case using good_name_ends [of p] by (simp add: good_name_def)
next
  case (3 p q ps)
  then show ?case using good_name_ends [of p] by (simp add: good_name_def)
qed simp

lemma drop_slashes: "s = [] \<or> hd s \<noteq> c \<Longrightarrow> dropWhile (\<lambda>b. b = c) s = s"
  by (cases s) auto

lemma path_parts_path_of: "list_all good_name ps \<Longrightarrow> path_parts (trim_matches 0x2F (path_of ps)) = ps"
proof (cases "ps = []")
  case True
  then show ?thesis by (simp add: path_of_def trim_matches_def str_def path_parts_def)
next
  case False
  assume ps: "list_all good_name ps"
  note ends = join_slash_ends [OF ps False]
  then have "dropWhile (\<lambda>b. b = 0x2F) (join_slash ps) = join_slash ps" by (intro drop_slashes) simp
  moreover have "dropWhile (\<lambda>b. b = 0x2F) (rev (join_slash ps)) = rev (join_slash ps)"
    using ends by (intro drop_slashes) (simp add: hd_rev)
  ultimately have "trim_matches 0x2F (path_of ps) = join_slash ps"
    using False by (simp add: trim_matches_def path_of_def)
  then show ?thesis by (simp add: path_parts_join [OF ps])
qed

lemma resolve_append: "resolve c (a @ b) = resolve (resolve c a) b"
  by (induction a arbitrary: c) simp_all

lemma resolve_good:
  "list_all good_name c \<Longrightarrow> (\<And>p. p \<in> set parts \<Longrightarrow> p \<noteq> [] \<and> 0x2F \<notin> set p) \<Longrightarrow>
    list_all good_name (resolve c parts)"
proof (induction parts arbitrary: c)
  case (Cons p parts)
  have "list_all good_name (butlast c)" using Cons.prems(1) by (auto simp: list_all_iff dest: in_set_butlastD)
  moreover have "p \<noteq> [] \<and> 0x2F \<notin> set p" using Cons.prems(2) by simp
  ultimately have "list_all good_name
      (if p = str ''.'' then c else if p = str ''..'' then (if c \<noteq> [] then butlast c else c) else c @ [p])"
    using Cons.prems(1) by (auto simp: good_name_def [of p])
  moreover have "q \<noteq> [] \<and> 0x2F \<notin> set q" if "q \<in> set parts" for q using Cons.prems(2) that by simp
  ultimately show ?case unfolding resolve.simps by (intro Cons.IH)
qed simp

lemma starts_path_of: "starts_with 0x2F (path_of ps)"
  by (simp add: starts_with_def path_of_def str_def)

lemma normalize_path_of:
  assumes "list_all good_name ps"
  shows "normalize_path (path_of ps) t =
    path_of (resolve (if starts_with 0x2F t then [] else ps) (path_parts t))"
  by (simp add: normalize_path_def starts_path_of path_parts_path_of [OF assms]
      path_of_def [of "resolve c d" for c d] Let_def)

lemma resolve_path_good:
  "list_all good_name ps \<Longrightarrow>
    list_all good_name (resolve (if starts_with 0x2F t then [] else ps) (path_parts t))"
  by (intro resolve_good path_parts_pieces) simp_all

section \<open>The state of the shell between commands\<close>

definition shell_ok :: "shell \<Rightarrow> bool" where
  "shell_ok sh \<longleftrightarrow> (\<exists>ps. list_all good_name ps \<and> sh_cwd sh = path_of ps) \<and>
     distinct_adj (sh_history sh) \<and> [] \<notin> set (sh_history sh) \<and>
     (\<exists>p. sh_index sh = Some p \<and> p \<le> length (sh_history sh))"

definition in_history :: "u8 list list \<Rightarrow> nat option \<Rightarrow> bool" where
  "in_history hist i \<longleftrightarrow> (\<exists>p. i = Some p \<and> p \<le> length hist)"

lemma edit_arrow_index:
  "in_history hist (history_index e) \<Longrightarrow> in_history hist (history_index (fst (edit_arrow col hist code e)))"
proof -
  have "(if 0 < p then p - 1 else 0) < length hist" if "p \<le> length hist" "hist \<noteq> []" for p
    using that by (cases hist) auto
  then show "in_history hist (history_index e) \<Longrightarrow> ?thesis"
    by (auto simp: in_history_def edit_arrow_def edit_up_def edit_down_def edit_right_def edit_left_def Let_def)
qed

lemma edit_turn_index:
  assumes "edit_turn col hist ks e = Ok (r, out, ks')" "in_history hist (history_index e)"
  shows "in_history hist (history_index (case r of Inl e' \<Rightarrow> e' | Inr e' \<Rightarrow> e'))"
proof -
  note arrow = edit_arrow_index [OF assms(2), of col]
  have ins: "edit_insert col c e = Ok x \<Longrightarrow> history_index (fst x) = history_index e" for c x
    by (auto simp: edit_insert_def andThen_eq_Ok split: if_splits)
  have bsp: "edit_backspace col e = Ok x \<Longrightarrow> history_index (fst x) = history_index e" for x
    by (auto simp: edit_backspace_def andThen_eq_Ok split: if_splits)
  obtain k ks1 where k: "read_key ks = Ok (k, ks1)"
    using assms(1) unfolding edit_turn_def andThen_eq_Ok by (metis surj_pair)
  show ?thesis
    using assms arrow ins bsp unfolding edit_turn_def k
    by (auto simp: andThen_eq_Ok case_prod_unfold Let_def split: if_splits option.splits)
qed

lemma edit_loop_index:
  "edit_loop col hist ks e = Ok (e', out, ks') \<Longrightarrow> in_history hist (history_index e) \<Longrightarrow>
    in_history hist (history_index e')"
proof (induction col hist ks e arbitrary: e' out ks' rule: edit_loop.induct)
  case (1 col hist ks e)
  from 1(2) obtain r out1 ks1 where t: "edit_turn col hist ks e = Ok (r, out1, ks1)"
    by (subst (asm) edit_loop.simps) (auto split: res.splits)
  note i = edit_turn_index [OF t 1(3)]
  show ?case
  proof (cases r)
    case (Inl f)
    then show ?thesis using 1(2) i by (subst (asm) edit_loop.simps) (simp add: t)
  next
    case (Inr f)
    then have "\<exists>out2. edit_loop col hist ks1 f = Ok (e', out2, ks')"
      using 1(2) by (subst (asm) edit_loop.simps) (auto simp: t andThen_eq_Ok)
    then show ?thesis using 1(1) [OF t] i Inr by auto
  qed
qed

lemma remember_ok:
  assumes "shell_ok sh"
  shows "shell_ok (remember trimmed sh)"
  using assms by (auto simp: shell_ok_def remember_def distinct_adj_append_iff Let_def)

lemma shell_ok_cwd: "shell_ok sh \<Longrightarrow> list_all good_name ps \<Longrightarrow> shell_ok (sh\<lparr>sh_cwd := path_of ps\<rparr>)"
  by (auto simp: shell_ok_def)

lemma shell_command_ok:
  assumes "shell_command sys col line sh w = Ok (Some (sh', w'))" "shell_ok sh"
  shows "shell_ok sh'"
proof -
  have "sh' = sh \<or> (\<exists>a. sh' = sh\<lparr>sh_cwd := normalize_path (sh_cwd sh) a\<rparr>) \<or> sh' = sh\<lparr>sh_cwd := str ''/''\<rparr>"
    using assms(1) unfolding shell_command_def Let_def
    by (auto simp: andThen_eq_Ok case_prod_unfold split: if_splits option.splits)
  moreover have "shell_ok (sh\<lparr>sh_cwd := normalize_path (sh_cwd sh) a\<rparr>)" for a
  proof -
    obtain ps where ps: "list_all good_name ps" "sh_cwd sh = path_of ps" using assms(2) by (auto simp: shell_ok_def)
    show ?thesis unfolding ps(2) normalize_path_of [OF ps(1)]
      by (rule shell_ok_cwd [OF assms(2) resolve_path_good [OF ps(1)]])
  qed
  moreover have "shell_ok (sh\<lparr>sh_cwd := str ''/''\<rparr>)"
    using shell_ok_cwd [OF assms(2), of "[]"] by (simp add: path_of_def)
  ultimately show ?thesis using assms(2) by auto
qed

end
