(* ===== verification/ShellSpec.thy ===== *)
theory ShellSpec
  imports ShellFacts StorageSpec
begin

text \<open>
  The properties of the shell: its editor as a line split at its cursor, its paths, its state,
  and \<open>cat\<close> on a file of the FAT16 volume read through the descriptor table.
\<close>

text \<open>No colours, for the witnesses.\<close>

definition no_colors :: colors where
  "no_colors = \<lparr>bold = id, dimmed = id, white = id, red = id, bright_red = id, bright_green = id,
     bright_cyan = id, bright_purple = id, bright_magenta = id\<rparr>"

section \<open>The line editor\<close>

text \<open>
  C17: On ASCII keys the line editor is a line split at its cursor with a place in the history:
  letters, backspace and the four arrows do to it what they do to the pair
  of texts before and after the cursor, the line is their concatenation when Enter ends it, and
  no key panics. The other control keys are ignored, Ctrl+C (byte 3) too, which the help text
  says cancels the command: wherever it is typed, the line is the one without it.
\<close>

theorem editor_zipper:
  assumes "list_all ascii hist" "p \<le> length hist" "list_all key_ok us"
    and "zip_keys hist ([], [], p) us = (l, r, p')"
  shows "(\<exists>out. read_line_history col hist (Some p) (concat (map key_bytes us) @ 0x0D # ks) =
      Ok (l @ r, Some p', out, ks)) \<and>
    (\<forall>vs ws. us = vs @ ws \<longrightarrow>
      (\<exists>out. read_line_history col hist (Some p) (concat (map key_bytes vs) @ 0x03 # concat (map key_bytes ws) @ 0x0D # ks) =
        Ok (l @ r, Some p', out, ks)))"
proof (intro conjI allI impI)
  show "\<exists>out. read_line_history col hist (Some p) (concat (map key_bytes us) @ 0x0D # ks) = Ok (l @ r, Some p', out, ks)"
    using read_line_keys [OF assms(1-3), of col ks] assms(4) by (simp add: zip_text_def)
next
  fix vs ws assume us: "us = vs @ ws"
  have "list_all key_ok (vs @ Ctrl 0x03 # ws)" using assms(3) by (simp add: us)
  moreover have "zip_keys hist ([], [], p) (vs @ Ctrl 0x03 # ws) = (l, r, p')"
    using assms(4) by (simp add: us zip_keys_def)
  ultimately show "\<exists>out. read_line_history col hist (Some p)
      (concat (map key_bytes vs) @ 0x03 # concat (map key_bytes ws) @ 0x0D # ks) = Ok (l @ r, Some p', out, ks)"
    using read_line_keys [OF assms(1, 2), of "vs @ Ctrl 0x03 # ws" col ks] by (simp add: zip_text_def)
qed

theorem editor_zipper_witness:
  "(\<exists>out. read_line_history no_colors [str ''ls'', str ''pwd''] (Some 2)
     [0x1B, 0x5B, 0x41, 0x1B, 0x5B, 0x44, 0x7F, 0x78, 0x0D, 0x61] = Ok (str ''pxd'', Some 1, out, [0x61])) \<and>
   (\<exists>out. read_line_history no_colors [str ''ls'', str ''pwd''] (Some 2)
     [0x1B, 0x5B, 0x41, 0x1B, 0x5B, 0x44, 0x7F, 0x78, 0x03, 0x0D, 0x61] = Ok (str ''pxd'', Some 1, out, [0x61]))"
proof -
  define us where "us = [Up, LeftArrow, Backspace, Letter 0x78]"
  have "zip_keys [str ''ls'', str ''pwd''] ([], [], 2) us = ([0x70, 0x78], [0x64], 1)"
    by (simp add: us_def zip_keys_def str_def)
  note res = editor_zipper [OF _ _ _ this, of no_colors "[0x61]"]
  show ?thesis
    using conjunct1 [OF res] conjunct2 [OF res, THEN spec, of us, THEN spec, of "[]"]
    by (simp add: us_def ascii_def str_def printing_def)
qed

text \<open>
  The cursor counts characters typed but is used as a byte index: after a character that is
  not ASCII, typed at the start of a line, the next character typed panics the shell.
\<close>

theorem non_ascii_panics:
  assumes "char_from_u32 c = Some c" "0xA0 \<le> c" "char_from_u32 d = Some d" "\<not> is_control d"
  shows "read_line_history col hist idx (utf8_encode c @ utf8_encode d @ ks) = Panic"
proof -
  have c: "c \<noteq> 0x0A" "c \<noteq> 0x0D" "c \<noteq> 0x08" "c \<noteq> 0x7F" "c \<noteq> 0x1B" "\<not> is_control c"
    using assms(2) by (auto simp: is_control_def word_le_nat_alt word_less_nat_alt)
  have d: "d \<noteq> 0x0A" "d \<noteq> 0x0D" "d \<noteq> 0x08" "d \<noteq> 0x7F" "d \<noteq> 0x1B"
    using assms(4) by (auto simp: is_control_def)
  obtain b b' bs where enc: "utf8_encode c = b # b' # bs" "continuation b'"
    using utf8_encode_long [of c] assms(2) by (auto simp: word_le_nat_alt)
  let ?e = "\<lparr>buffer = utf8_encode c, cursor = 1, history_index = idx\<rparr>"
  have "edit_turn col hist (utf8_encode c @ utf8_encode d @ ks) \<lparr>buffer = [], cursor = 0, history_index = idx\<rparr> =
      Ok (Inr ?e, redraw col (utf8_encode c) @ move_back (length (utf8_encode c) - 1), utf8_encode d @ ks)"
    using c by (simp add: edit_turn_def read_key_char [OF assms(1)] edit_insert_def string_insert_def is_char_boundary_def)
  moreover have "edit_turn col hist (utf8_encode d @ ks) ?e = Panic"
    using d assms(4) enc
    by (simp add: edit_turn_def read_key_char [OF assms(3)] edit_insert_def string_insert_def is_char_boundary_def)
  ultimately show ?thesis
    by (simp add: read_line_history_def edit_loop.simps [of col hist "utf8_encode c @ utf8_encode d @ ks"]
        edit_loop.simps [of col hist "utf8_encode d @ ks"])
qed

theorem non_ascii_panics_witness:
  "read_line_history no_colors [] (Some 0) [0xC3, 0xA9, 0x61, 0x0D] = Panic"
proof -
  have "utf8_encode 0xE9 = [0xC3, 0xA9]" "utf8_encode 0x61 = [0x61]" by (simp_all add: utf8_encode_def)
  with non_ascii_panics [of "0xE9" "0x61" no_colors "[]" "Some 0" "[0x0D]"] show ?thesis
    by (simp add: char_from_u32_def is_control_def)
qed

section \<open>Paths\<close>

text \<open>
  C19: From a canonical absolute directory, any target gives a canonical absolute path, without
  empty parts, \<open>.\<close> or \<open>..\<close>, and going to \<open>a\<close> and then to a relative
  \<open>b\<close> is going to \<open>a/b\<close>.
\<close>

theorem normalize_path_composes:
  assumes "list_all good_name ps" "a \<noteq> []" "\<not> starts_with 0x2F b"
  shows "(\<exists>qs. list_all good_name qs \<and> normalize_path (path_of ps) a = path_of qs) \<and>
    normalize_path (normalize_path (path_of ps) a) b = normalize_path (path_of ps) (a @ 0x2F # b)"
proof
  let ?qs = "resolve (if starts_with 0x2F a then [] else ps) (path_parts a)"
  have a: "normalize_path (path_of ps) a = path_of ?qs" by (rule normalize_path_of [OF assms(1)])
  have good: "list_all good_name ?qs" by (rule resolve_path_good [OF assms(1)])
  show "\<exists>qs. list_all good_name qs \<and> normalize_path (path_of ps) a = path_of qs" using a good by blast
  have "starts_with 0x2F (a @ 0x2F # b) = starts_with 0x2F a" using assms(2) by (simp add: starts_with_def)
  then show "normalize_path (normalize_path (path_of ps) a) b = normalize_path (path_of ps) (a @ 0x2F # b)"
    using assms(3) by (simp add: a normalize_path_of [OF good] normalize_path_of [OF assms(1)]
        path_parts_append resolve_append)
qed

theorem normalize_path_composes_witness:
  "normalize_path (normalize_path (str ''/usr/lib'') (str ''../bin/.'')) (str ''sh'') =
     normalize_path (str ''/usr/lib'') (str ''../bin/./sh'') \<and>
   normalize_path (str ''/usr/lib'') (str ''../bin/./sh'') = str ''/usr/bin/sh''"
proof -
  have "list_all good_name [str ''usr'', str ''lib'']" by (simp add: good_name_def str_def)
  from normalize_path_composes [OF this, of "str ''../bin/.''" "str ''sh''"] show ?thesis
    by (simp add: path_of_def str_def starts_with_def normalize_path_def path_parts_def trim_matches_def)
qed

section \<open>The loop\<close>

text \<open>
  C20: Whatever keys come and whatever the system answers, after a turn of the shell that
  neither ends nor panics the working directory is a canonical absolute path, the history holds
  no empty line and no line twice in a row, and the place in it is inside it or just after it.
\<close>

theorem shell_keeps:
  assumes "shell_ok sh" "shell_turn sys col sh w = Ok (Some (sh', w'))"
  shows "shell_ok sh'"
proof -
  let ?w = "print (print_prompt col (sh_cwd sh)) w"
  obtain input idx out ks where r: "read_line_history col (sh_history sh) (sh_index sh) (pending ?w) = Ok (input, idx, out, ks)"
    and c: "shell_command sys col (split_white (trim input)) (remember (trim input) (sh\<lparr>sh_index := idx\<rparr>))
      ((print out ?w)\<lparr>pending := ks\<rparr>) = Ok (Some (sh', w'))"
    using assms(2) by (auto simp: shell_turn_def Let_def andThen_eq_Ok)
  obtain e where e: "edit_loop col (sh_history sh) (pending ?w) \<lparr>buffer = [], cursor = 0, history_index = sh_index sh\<rparr> = Ok (e, out, ks)"
    "history_index e = idx"
    using r by (auto simp: read_line_history_def andThen_eq_Ok)
  have "in_history (sh_history sh) idx"
    using edit_loop_index [OF e(1)] assms(1) e(2) by (auto simp: shell_ok_def in_history_def)
  then have "shell_ok (sh\<lparr>sh_index := idx\<rparr>)" using assms(1) by (auto simp: shell_ok_def in_history_def)
  then show ?thesis by (intro shell_command_ok [OF c] remember_ok)
qed

text \<open>A system that answers nothing.\<close>

definition dead_os :: "unit os" where
  "dead_os = \<lparr>os_err = (\<lambda>s w. w), os_stat = (\<lambda>w. w), os_list_app = (\<lambda>w. w), os_list_dir = (\<lambda>p w. (None, w)),
     os_open = (\<lambda>p w. (None, w)), os_read = (\<lambda>fd b w. (0, b, w)), os_close = (\<lambda>fd w. (True, w)),
     os_spawn = (\<lambda>n w. (0, w)), os_wait_pid = (\<lambda>p w. (0, w)), os_kill = (\<lambda>p w. w)\<rparr>"

theorem shell_keeps_witness:
  "\<exists>sh w. shell_turn dead_os no_colors shell_start
      \<lparr>pending = [0x63, 0x64, 0x20, 0x61, 0x0D], screen = [], outside = ()\<rparr> = Ok (Some (sh, w)) \<and> shell_ok sh"
proof -
  define us where "us = map Letter [0x63, 0x64, 0x20, 0x61]"
  have "\<exists>out. read_line_history no_colors [] (Some 0) (concat (map key_bytes us) @ [0x0D]) =
      Ok (str ''cd a'', Some 0, out, [])"
    using read_line_keys [of "[]" 0 us no_colors "[]"]
    by (simp add: us_def printing_def zip_keys_def zip_text_def str_def)
  then obtain out where out: "read_line_history no_colors [] (Some 0) [0x63, 0x64, 0x20, 0x61, 0x0D] =
      Ok (str ''cd a'', Some 0, out, [])"
    by (auto simp: us_def)
  have "trim (str ''cd a'') = str ''cd a''" by (intro trim_graphic) (simp_all add: str_def graphic_def between_def)
  moreover have "split_white (str ''cd a'') = [str ''cd'', str ''a'']"
    by (simp add: split_white.simps [of "_ # _"] split_white.simps [of "[]"] trim_start.simps white_space_def str_def)
  ultimately have "\<exists>sh w. shell_turn dead_os no_colors shell_start
      \<lparr>pending = [0x63, 0x64, 0x20, 0x61, 0x0D], screen = [], outside = ()\<rparr> = Ok (Some (sh, w))"
    by (simp add: shell_turn_def shell_start_def out print_def shell_command_def str_def Let_def)
  moreover have "shell_ok shell_start"
    using exI [of "\<lambda>ps. list_all good_name ps \<and> str ''/'' = path_of ps" "[]"]
    by (simp add: shell_ok_def shell_start_def path_of_def)
  ultimately show ?thesis using shell_keeps by blast
qed

text \<open>
  Control-D, which the help text gives for leaving the shell and \<open>main\<close> compares the
  command with, never reaches it: the editor drops control characters, and the turn goes on
  with an empty line.
\<close>

theorem ctrl_d_ignored:
  "shell_turn sys col sh (w\<lparr>pending := 0x04 # 0x0D # ks\<rparr>) =
    Ok (Some (sh, w\<lparr>pending := ks, screen := screen w @ print_prompt col (sh_cwd sh) @ [0x0A]\<rparr>))"
proof -
  have t: "edit_turn col hist (0x04 # ks) e = Ok (Inr e, [], ks)" "edit_turn col hist (0x0D # ks) e = Ok (Inl e, [0x0A], ks)"
    for hist ks e
    by (simp_all add: edit_turn_def read_key_ascii edit_insert_def is_control_def)
  have "read_line_history col hist idx (0x04 # 0x0D # ks) = Ok ([], idx, [0x0A], ks)" for hist idx
    by (simp add: read_line_history_def edit_loop.simps [of _ _ "0x04 # _"] edit_loop.simps [of _ _ "0x0D # _"] t)
  moreover have "trim [] = []" "split_white [] = []"
    by (simp_all add: trim_def trim_start.simps trim_end_graphic white_space_def split_white.simps)
  ultimately show ?thesis
    by (simp add: shell_turn_def Let_def remember_def shell_command_def print_def str_def)
qed

section \<open>cat\<close>

text \<open>
  Reading and closing a descriptor as the kernel does it, with the table of descriptors as the
  rest of the world. A read that panics in the kernel does not come back; it counts as an error here.
\<close>

definition kernel_read :: "'h reader \<Rightarrow> u8 \<Rightarrow> u8 list \<Rightarrow> 'h resource_set world \<Rightarrow> int \<times> u8 list \<times> 'h resource_set world" where
  "kernel_read rd fd buf w =
     (case rs_read rd (outside w) fd buf (pending w) of
        (r, buf', rs, ks) \<Rightarrow> (case r of Ok n \<Rightarrow> n | _ \<Rightarrow> -1, buf', w\<lparr>outside := rs, pending := ks\<rparr>))"

definition kernel_close :: "u8 \<Rightarrow> 'h resource_set world \<Rightarrow> bool \<times> 'h resource_set world" where
  "kernel_close fd w = (case rs_close (outside w) fd of (b, rs) \<Rightarrow> (b, w\<lparr>outside := rs\<rparr>))"

fun pieces :: "nat \<Rightarrow> 'a list \<Rightarrow> 'a list list" where
  "pieces n xs = (if n = 0 \<or> xs = [] then [] else take n xs # pieces n (drop n xs))"

declare pieces.simps [simp del]

lemma concat_pieces: "0 < n \<Longrightarrow> concat (pieces n xs) = xs"
  by (induction n xs rule: pieces.induct) (subst pieces.simps; simp)

lemma cat_text_ascii: "ascii s \<Longrightarrow> cat_text s = s"
  by (simp add: cat_text_def ascii_utf8_valid)

lemma cat_text_pieces: "ascii s \<Longrightarrow> 0 < n \<Longrightarrow> concat (map cat_text (pieces n s)) = s"
proof -
  assume s: "ascii s" "0 < n"
  have "ascii p" if "p \<in> set (pieces n s)" for p
  proof -
    have "set p \<subseteq> set s" using that arg_cong [OF concat_pieces [OF s(2), of s], of set] by auto
    then show ?thesis using s(1) by (auto simp: ascii_def list_all_iff)
  qed
  then have "map cat_text (pieces n s) = pieces n s" by (intro map_idI cat_text_ascii)
  then show ?thesis by (simp add: concat_pieces [OF s(2)])
qed

text \<open>A reader that fills the buffer unless the end comes first.\<close>

locale full_reader = byte_reader rd left inv
  for rd :: "'s reader" and left :: "'s \<Rightarrow> u8 list" and inv :: "'s \<Rightarrow> bool" +
  assumes read_full:
    "inv s \<Longrightarrow> buf \<noteq> [] \<Longrightarrow> rd s buf = (Ok n, buf', s') \<Longrightarrow> n = min (length buf) (length (left s))"
begin

lemma cat_loop_pieces:
  assumes sys: "os_read sys = kernel_read rd"
  shows "inv h \<Longrightarrow> rs_handles (outside w) fd = Some (FileR h) \<Longrightarrow> buf \<noteq> [] \<Longrightarrow>
    \<exists>h'. cat_loop sys fd buf w =
      Some (Ok (w\<lparr>screen := screen w @ concat (map cat_text (pieces (length buf) (left h))),
        outside := (outside w)\<lparr>rs_handles := (rs_handles (outside w))(fd \<mapsto> FileR h')\<rparr>\<rparr>))"
proof (induction "length (left h)" arbitrary: h w buf rule: less_induct)
  case less
  obtain n h1 where r: "rd h buf = (Ok n, take n (left h) @ drop n buf, h1)" "inv h1" "left h1 = drop n (left h)"
    using read_gives [OF less.prems(1, 3)] by blast
  have n: "n = min (length buf) (length (left h))" by (rule read_full [OF less.prems(1, 3) r(1)])
  define rs where "rs = (outside w)\<lparr>rs_handles := (rs_handles (outside w))(fd \<mapsto> FileR h1)\<rparr>"
  have k: "kernel_read rd fd buf w = (int n, take n (left h) @ drop n buf, w\<lparr>outside := rs\<rparr>)"
    using r(1) less.prems(2) by (simp add: kernel_read_def rs_read_def resource_read_def rs_def)
  show ?case
  proof (cases "left h = []")
    case True
    then show ?thesis using n by (subst cat_loop.simps) (auto simp: sys k rs_def pieces.simps)
  next
    case False
    let ?buf = "take n (left h) @ drop n buf"
    let ?w = "print (cat_text (take n (left h))) (w\<lparr>outside := rs\<rparr>)"
    have len: "length ?buf = length buf" "0 < n" using n False less.prems(3) by auto
    have "n \<le> length buf" "n \<le> length (left h)" using n by simp_all
    then have "cat_loop sys fd buf w = cat_loop sys fd ?buf ?w"
      using len by (subst cat_loop.simps) (simp add: sys k)
    moreover have "length (left h1) < length (left h)" using r(3) len(2) False by (simp add: n)
    then have "\<exists>h'. cat_loop sys fd ?buf ?w =
      Some (Ok (?w\<lparr>screen := screen ?w @ concat (map cat_text (pieces (length ?buf) (left h1))),
        outside := (outside ?w)\<lparr>rs_handles := (rs_handles (outside ?w))(fd \<mapsto> FileR h')\<rparr>\<rparr>))"
      using len less.prems(3) by (intro less.hyps r(2)) (auto simp: print_def rs_def)
    moreover have "pieces (length buf) (left h) = take n (left h) # pieces (length buf) (left h1)"
      using False less.prems(3) by (subst pieces.simps) (simp add: r(3) n min_def)
    ultimately show ?thesis using len(1) by (simp add: print_def rs_def)
  qed
qed

end

interpretation fat_full: full_reader file_read file_rest file_wf
proof unfold_locales
  fix f :: "('d, 't) fat_file" and buf buf' n f'
  assume wf: "file_wf f" and r: "file_read f buf = (Ok n, buf', f')"
  then show "n = min (length buf) (length (file_rest f))"
    using file_read_spec [OF wf, of buf] length_file_content [OF wf] by (auto simp: Let_def file_rest_def)
qed

text \<open>
  C18: \<open>cat\<close> on a file of the volume shows what is left of the file, in pieces of 512 bytes,
  each as it is when it is UTF-8 and with dots for what does not print otherwise; so an ASCII
  file is shown as it is. The descriptor is closed again and no key is taken.
\<close>

theorem cat_shows_file:
  assumes "os_open sys path w = (Some fd, w1)" "rs_handles (outside w1) fd = Some (FileR f)" "file_wf f"
    and "os_read sys = kernel_read file_read" "os_close sys = kernel_close"
  shows "\<exists>w2. cat_file sys path w = Ok w2 \<and> pending w2 = pending w1 \<and>
    rs_handles (outside w2) = (rs_handles (outside w1))(fd := None) \<and>
    screen w2 = screen w1 @ concat (map cat_text (pieces 512 (file_rest f))) \<and>
    (ascii (file_rest f) \<longrightarrow> screen w2 = screen w1 @ file_rest f)"
proof -
  obtain f' where c: "cat_loop sys fd (replicate 512 0) w1 =
      Some (Ok (w1\<lparr>screen := screen w1 @ concat (map cat_text (pieces 512 (file_rest f))),
        outside := (outside w1)\<lparr>rs_handles := (rs_handles (outside w1))(fd \<mapsto> FileR f')\<rparr>\<rparr>))"
    using fat_full.cat_loop_pieces [OF assms(4, 3, 2), of "replicate 512 0"] by auto
  show ?thesis
    by (simp add: cat_file_def assms(1, 5) CAT_BUFFER_SIZE_def c kernel_close_def rs_close_def cat_text_pieces)
qed

text \<open>A process that has opened the sample file, whose system knows only that file.\<close>

definition sample_world :: "(unit, nat) fat_file resource_set world" where
  "sample_world = \<lparr>pending = [], screen = [], outside = snd (rs_open rs_default (FileR sample_file))\<rparr>"

definition sample_os :: "(unit, nat) fat_file resource_set os" where
  "sample_os = \<lparr>os_err = (\<lambda>s w. w), os_stat = (\<lambda>w. w), os_list_app = (\<lambda>w. w), os_list_dir = (\<lambda>p w. (None, w)),
     os_open = (\<lambda>p w. (Some 3, w)), os_read = kernel_read file_read, os_close = kernel_close,
     os_spawn = (\<lambda>n w. (0, w)), os_wait_pid = (\<lambda>p w. (0, w)), os_kill = (\<lambda>p w. w)\<rparr>"

theorem cat_shows_file_witness:
  "\<exists>w2. cat_file sample_os (str ''/A'') sample_world = Ok w2 \<and>
    screen w2 = replicate 512 0x41 @ replicate 188 0x42"
proof -
  have "rs_handles (outside sample_world) 3 = Some (FileR sample_file)"
    by (simp add: sample_world_def rs_default_def rs_empty_def rs_open_def)
  moreover have "file_rest sample_file = replicate 512 0x41 @ replicate 188 0x42"
    by (simp add: file_rest_def)
  moreover from this have "ascii (file_rest sample_file)" by (simp add: ascii_def list_all_iff)
  ultimately show ?thesis
    using cat_shows_file [of sample_os "str ''/A''" sample_world 3 sample_world sample_file]
    by (auto simp: sample_os_def sample_world_def)
qed

end
