(* ===== verification/Tasks.thy ===== *)
theory Tasks
  imports Semaphores
begin

text \<open>
  Processes that share memory (children of \<open>vfork\<close>) and semaphores: each has a program counter
  and code that says what its next system call or access to shared memory is. The semaphores are
  the kernel's, of \<open>pkg/kernel/src/proc/sync.rs\<close>; any process that is not asleep may take the
  next step. The wrappers \<open>Semaphore::wait\<close> and \<open>signal\<close> of \<open>pkg/lib/src/sync.rs\<close> return
  a flag that the programs here do not look at.
\<close>

section \<open>Steps\<close>

datatype ('c, 's) instr = WaitI u32 'c | SignalI u32 'c | SetI 's 'c | Halt

type_synonym ('c, 's) code = "pid \<Rightarrow> 'c \<Rightarrow> 's \<Rightarrow> ('c, 's) instr"

record ('c, 's) tasks =
  sems :: semaphore_set
  pcs :: "pid \<Rightarrow> 'c"
  asleep :: "pid set"
  shared :: 's

text \<open>A process that is woken goes on after the wait it slept in.\<close>

definition resume :: "('c, 's) code \<Rightarrow> pid \<Rightarrow> ('c, 's) tasks \<Rightarrow> ('c, 's) tasks" where
  "resume code x w =
     (case code x (pcs w x) (shared w) of
        WaitI k q \<Rightarrow> w\<lparr>pcs := (pcs w)(x := q), asleep := asleep w - {x}\<rparr>
      | _ \<Rightarrow> w\<lparr>asleep := asleep w - {x}\<rparr>)"

definition task_step :: "('c, 's) code \<Rightarrow> pid \<Rightarrow> ('c, 's) tasks \<Rightarrow> ('c, 's) tasks option" where
  "task_step code p w =
     (if p \<in> asleep w then None
      else case code p (pcs w p) (shared w) of
             WaitI k q \<Rightarrow>
               (case set_wait (sems w) k p of
                  (Block x, t) \<Rightarrow> Some (w\<lparr>sems := t, asleep := insert x (asleep w)\<rparr>)
                | (_, t) \<Rightarrow> Some (w\<lparr>sems := t, pcs := (pcs w)(p := q)\<rparr>))
           | SignalI k q \<Rightarrow>
               (case set_signal (sems w) k of
                  (WakeUp x, t) \<Rightarrow> Some (resume code x (w\<lparr>sems := t, pcs := (pcs w)(p := q)\<rparr>))
                | (_, t) \<Rightarrow> Some (w\<lparr>sems := t, pcs := (pcs w)(p := q)\<rparr>))
           | SetI s q \<Rightarrow> Some (w\<lparr>pcs := (pcs w)(p := q), shared := s\<rparr>)
           | Halt \<Rightarrow> None)"

inductive reach :: "('c, 's) code \<Rightarrow> pid set \<Rightarrow> ('c, 's) tasks \<Rightarrow> ('c, 's) tasks \<Rightarrow> bool"
  for code T w0 where
  start: "reach code T w0 w0"
| step: "reach code T w0 w \<Longrightarrow> p \<in> T \<Longrightarrow> task_step code p w = Some w' \<Longrightarrow> reach code T w0 w'"

text \<open>A run by a schedule, for concrete runs.\<close>

fun run_tasks :: "('c, 's) code \<Rightarrow> pid list \<Rightarrow> ('c, 's) tasks \<Rightarrow> ('c, 's) tasks option" where
  "run_tasks code [] w = Some w"
| "run_tasks code (p # ps) w = (case task_step code p w of None \<Rightarrow> None | Some w' \<Rightarrow> run_tasks code ps w')"

lemma run_tasks_append:
  "run_tasks code (ps @ qs) w = (case run_tasks code ps w of None \<Rightarrow> None | Some w' \<Rightarrow> run_tasks code qs w')"
  by (induction ps arbitrary: w) (auto split: option.splits)

lemma reach_step:
  "reach code T w w' \<Longrightarrow> task_step code p w0 = Some w \<Longrightarrow> p \<in> T \<Longrightarrow> reach code T w0 w'"
  by (induction rule: reach.induct) (auto intro: reach.intros)

lemma run_reach: "run_tasks code ps w = Some w' \<Longrightarrow> set ps \<subseteq> T \<Longrightarrow> reach code T w w'"
  by (induction ps arbitrary: w) (auto intro: reach.intros reach_step split: option.splits)

definition stuck :: "('c, 's) code \<Rightarrow> pid set \<Rightarrow> ('c, 's) tasks \<Rightarrow> bool" where
  "stuck code T w \<longleftrightarrow> (\<forall>p\<in>T. task_step code p w = None)"

definition sleeping_on :: "('c, 's) code \<Rightarrow> u32 \<Rightarrow> ('c, 's) tasks \<Rightarrow> pid \<Rightarrow> bool" where
  "sleeping_on code k w p \<longleftrightarrow> p \<in> asleep w \<and> (\<exists>q. code p (pcs w p) (shared w) = WaitI k q)"

lemma stuck_halted:
  "stuck code T w \<Longrightarrow> p \<in> T \<Longrightarrow> p \<in> asleep w \<or> code p (pcs w p) (shared w) = Halt"
  unfolding stuck_def task_step_def
  by (cases "code p (pcs w p) (shared w)") (fastforce split: prod.splits sem_result.splits if_splits)+

section \<open>Counting the permits\<close>

text \<open>
  \<open>held k p c\<close> is how many permits of \<open>k\<close> the process \<open>p\<close> has taken less those it has
  given when it is at \<open>c\<close>. What is taken and the count of the semaphore add up to its
  initial value.
\<close>

locale tally =
  fixes code :: "('c, 's) code"
    and T :: "pid set"
    and K :: "u32 set"
    and held :: "u32 \<Rightarrow> pid \<Rightarrow> 'c \<Rightarrow> int"
    and permits :: "u32 \<Rightarrow> int"
    and ok :: "pid \<Rightarrow> 'c \<Rightarrow> bool"
  assumes finite_T: "finite T"
    and wait_steady: "code p c s = WaitI k q \<Longrightarrow> code p c s' = WaitI k q"
    and wait_held: "p \<in> T \<Longrightarrow> ok p c \<Longrightarrow> code p c s = WaitI k q \<Longrightarrow>
      ok p q \<and> k \<in> K \<and> (\<forall>j. held j p q = held j p c + of_bool (j = k))"
    and signal_held: "p \<in> T \<Longrightarrow> ok p c \<Longrightarrow> code p c s = SignalI k q \<Longrightarrow>
      ok p q \<and> k \<in> K \<and> (\<forall>j. held j p q = held j p c - of_bool (j = k))"
    and set_held: "p \<in> T \<Longrightarrow> ok p c \<Longrightarrow> code p c s = SetI s' q \<Longrightarrow> ok p q \<and> (\<forall>j. held j p q = held j p c)"
    and small: "(\<And>p. p \<in> T \<Longrightarrow> ok p (f p)) \<Longrightarrow> k \<in> K \<Longrightarrow> permits k - (\<Sum>p\<in>T. held k p (f p)) < 2 ^ 64"
begin

definition taken :: "u32 \<Rightarrow> ('c, 's) tasks \<Rightarrow> int" where
  "taken k w = (\<Sum>p\<in>T. held k p (pcs w p))"

definition sem_sane :: "('c, 's) tasks \<Rightarrow> u32 \<Rightarrow> bool" where
  "sem_sane w k \<longleftrightarrow> (\<exists>n q. sems w k = Some \<lparr>sem_count = n, sem_queue = q\<rparr> \<and>
     int (unat n) + taken k w = permits k \<and> (q \<noteq> [] \<longrightarrow> n = 0) \<and> distinct q \<and>
     (\<forall>p. p \<in> set q \<longleftrightarrow> sleeping_on code k w p))"

definition sane :: "('c, 's) tasks \<Rightarrow> bool" where
  "sane w \<longleftrightarrow> (\<forall>p\<in>T. ok p (pcs w p)) \<and> asleep w \<subseteq> T \<and>
     (\<forall>p\<in>asleep w. \<exists>k. sleeping_on code k w p) \<and> (\<forall>k\<in>K. sem_sane w k)"

lemma sem_saneI:
  "sems w k = Some \<lparr>sem_count = n, sem_queue = q\<rparr> \<Longrightarrow> int (unat n) + taken k w = permits k \<Longrightarrow>
    (q \<noteq> [] \<Longrightarrow> n = 0) \<Longrightarrow> distinct q \<Longrightarrow> (\<And>p. p \<in> set q \<longleftrightarrow> sleeping_on code k w p) \<Longrightarrow> sem_sane w k"
  unfolding sem_sane_def by blast

lemma taken_upd:
  "p \<in> T \<Longrightarrow> (\<Sum>x\<in>T. held k x (((pcs w)(p := q)) x)) = taken k w - held k p (pcs w p) + held k p q"
proof -
  assume p: "p \<in> T"
  have "(\<Sum>x\<in>T. held k x (((pcs w)(p := q)) x)) = held k p q + (\<Sum>x\<in>T - {p}. held k x (pcs w x))"
    by (simp add: sum.remove [OF finite_T p])
  then show ?thesis by (simp add: taken_def sum.remove [OF finite_T p])
qed

lemma taken_two:
  assumes "p \<in> T" "q \<in> T" "p \<noteq> q" "\<And>x. x \<in> T \<Longrightarrow> 0 \<le> held k x (pcs w x)"
  shows "held k p (pcs w p) + held k q (pcs w q) \<le> taken k w"
proof -
  have "taken k w = held k p (pcs w p) + (held k q (pcs w q) + (\<Sum>x\<in>T - {p} - {q}. held k x (pcs w x)))"
    using assms(1-3) finite_T by (simp add: taken_def sum.remove [of T p] sum.remove [of "T - {p}" q])
  moreover have "0 \<le> (\<Sum>x\<in>T - {p} - {q}. held k x (pcs w x))" using assms(4) by (intro sum_nonneg) simp
  ultimately show ?thesis by linarith
qed

lemma sleeping_key: "p \<in> T \<Longrightarrow> ok p (pcs w p) \<Longrightarrow> sleeping_on code k w p \<Longrightarrow> k \<in> K"
  using wait_held by (auto simp: sleeping_on_def)

text \<open>A semaphore that a step does not touch stays sane when no sleeper wakes or falls asleep on it.\<close>

lemma sem_sane_other:
  assumes "sem_sane w k" "sems w' k = sems w k" "taken k w' = taken k w"
    and "\<And>p. sleeping_on code k w' p = sleeping_on code k w p"
  shows "sem_sane w' k"
  using assms unfolding sem_sane_def by simp

lemma sleeping_upd:
  assumes "p \<notin> asleep w"
  shows "sleeping_on code k (w\<lparr>pcs := (pcs w)(p := q)\<rparr>) x = sleeping_on code k w x"
  using assms by (auto simp: sleeping_on_def)

lemma sleeping_shared: "sleeping_on code k (w\<lparr>shared := s\<rparr>) p = sleeping_on code k w p"
  unfolding sleeping_on_def by (simp, blast intro: wait_steady)

text \<open>What a step has to keep, and the semaphore of a key.\<close>

lemma saneI:
  "(\<And>x. x \<in> T \<Longrightarrow> ok x (pcs w x)) \<Longrightarrow> asleep w \<subseteq> T \<Longrightarrow>
    (\<And>x. x \<in> asleep w \<Longrightarrow> \<exists>k. sleeping_on code k w x) \<Longrightarrow> (\<And>k. k \<in> K \<Longrightarrow> sem_sane w k) \<Longrightarrow> sane w"
  unfolding sane_def by blast

lemma saneD:
  assumes "sane w"
  shows "x \<in> T \<Longrightarrow> ok x (pcs w x)" "asleep w \<subseteq> T" "x \<in> asleep w \<Longrightarrow> \<exists>k. sleeping_on code k w x"
    "k \<in> K \<Longrightarrow> sem_sane w k"
  using assms unfolding sane_def by blast+

lemma sane_sem:
  assumes "sane w" "k \<in> K"
  obtains n q where "sems w k = Some \<lparr>sem_count = n, sem_queue = q\<rparr>" "int (unat n) + taken k w = permits k"
    "q \<noteq> [] \<longrightarrow> n = 0" "distinct q" "\<And>x. x \<in> set q \<longleftrightarrow> sleeping_on code k w x"
  using saneD(4) [OF assms] unfolding sem_sane_def by blast

lemma sane_block:
  assumes w: "sane w" and p: "p \<in> T" "p \<notin> asleep w" and c: "code p (pcs w p) (shared w) = WaitI k q"
    and k: "k \<in> K" "sems w k = Some \<lparr>sem_count = 0, sem_queue = qu\<rparr>"
    and w': "w' = w\<lparr>sems := (sems w)(k \<mapsto> \<lparr>sem_count = 0, sem_queue = qu @ [p]\<rparr>), asleep := insert p (asleep w)\<rparr>"
  shows "sane w'"
proof (rule saneI)
  have sl: "sleeping_on code j w' x \<longleftrightarrow> sleeping_on code j w x \<or> x = p \<and> j = k" for j x
    using c p(2) by (auto simp: w' sleeping_on_def)
  show "ok x (pcs w' x)" if "x \<in> T" for x using saneD(1) [OF w that] by (simp add: w')
  show "asleep w' \<subseteq> T" using saneD(2) [OF w] p by (simp add: w')
  show "\<exists>k. sleeping_on code k w' x" if "x \<in> asleep w'" for x using that saneD(3) [OF w, of x] sl by (auto simp: w')
  fix j assume "j \<in> K"
  have t: "taken j w' = taken j w" by (simp add: taken_def w')
  show "sem_sane w' j"
  proof (cases "j = k")
    case True
    from sane_sem [OF w k(1)] k(2) have q: "taken k w = permits k" "distinct qu" "\<And>x. x \<in> set qu \<longleftrightarrow> sleeping_on code k w x"
      by auto
    have "p \<notin> set qu" using q(3) p by (simp add: sleeping_on_def)
    then show ?thesis unfolding True using q t True
      by (intro sem_saneI [where n = 0 and q = "qu @ [p]"]) (simp_all add: sl, simp_all add: w' disj_commute)
  next
    case False
    then have "sems w' j = sems w j" by (simp add: w')
    then show ?thesis using sem_sane_other [OF saneD(4) [OF w \<open>j \<in> K\<close>]] t sl False by blast
  qed
qed

text \<open>A step of a process that does not fall asleep, and wakes nobody.\<close>

lemma sane_pass:
  assumes w: "sane w" and p: "p \<in> T" "p \<notin> asleep w" "ok p q" and k: "k \<in> K"
    and held: "\<And>j. held j p q = held j p (pcs w p) + d * of_bool (j = k)"
    and s: "sems w k = Some \<lparr>sem_count = n, sem_queue = qu\<rparr>" "int (unat n') = int (unat n) - d" "qu \<noteq> [] \<longrightarrow> n' = 0"
    and w': "w' = w\<lparr>sems := (sems w)(k \<mapsto> \<lparr>sem_count = n', sem_queue = qu\<rparr>), pcs := (pcs w)(p := q)\<rparr>"
  shows "sane w'"
proof (rule saneI)
  have sl: "sleeping_on code j w' x = sleeping_on code j w x" for j x using p(2) by (auto simp: w' sleeping_on_def)
  have t: "taken j w' = taken j w + d * of_bool (j = k)" for j
    using taken_upd [OF p(1)] held by (simp add: w' taken_def)
  show "ok x (pcs w' x)" if "x \<in> T" for x using saneD(1) [OF w that] p by (simp add: w')
  show "asleep w' \<subseteq> T" using saneD(2) [OF w] by (simp add: w')
  show "\<exists>k. sleeping_on code k w' x" if "x \<in> asleep w'" for x using that saneD(3) [OF w, of x] sl by (auto simp: w')
  fix j assume "j \<in> K"
  show "sem_sane w' j"
  proof (cases "j = k")
    case True
    from sane_sem [OF w k] s(1) have "int (unat n) + taken k w = permits k" "distinct qu"
      "\<And>x. x \<in> set qu \<longleftrightarrow> sleeping_on code k w x" by auto
    then show ?thesis unfolding True using s(2, 3)
      by (intro sem_saneI [where n = n' and q = qu]) (simp_all add: t sl, simp_all add: w')
  next
    case False
    then have "sems w' j = sems w j" by (simp add: w')
    then show ?thesis using sem_sane_other [OF saneD(4) [OF w \<open>j \<in> K\<close>]] t [of j] sl False by simp
  qed
qed

lemma sane_wake:
  assumes w: "sane w" and p: "p \<in> T" "p \<notin> asleep w" "ok p q" and k: "k \<in> K"
    and held: "\<And>j. held j p q = held j p (pcs w p) - of_bool (j = k)"
    and s: "sems w k = Some \<lparr>sem_count = n, sem_queue = x # qs\<rparr>" and r: "code x (pcs w x) (shared w) = WaitI k r"
    and w': "w' = w\<lparr>sems := (sems w)(k \<mapsto> \<lparr>sem_count = n, sem_queue = qs\<rparr>), pcs := (pcs w)(p := q, x := r),
      asleep := asleep w - {x}\<rparr>"
  shows "sane w'"
proof (rule saneI)
  obtain n1 q1 where e: "sems w k = Some \<lparr>sem_count = n1, sem_queue = q1\<rparr>" "int (unat n1) + taken k w = permits k"
    "q1 \<noteq> [] \<longrightarrow> n1 = 0" "distinct q1" "\<And>y. y \<in> set q1 \<longleftrightarrow> sleeping_on code k w y"
    using sane_sem [OF w k] by blast
  then have eq: "n1 = n" "q1 = x # qs" using s by simp_all
  have q: "int (unat n) + taken k w = permits k" "n = 0" "x \<notin> set qs" "distinct qs" using e(2-4) by (simp_all add: eq)
  have on: "y = x \<or> y \<in> set qs \<longleftrightarrow> sleeping_on code k w y" for y using e(5) [of y] by (simp add: eq)
  have x: "x \<in> asleep w" using on [of x] by (simp add: sleeping_on_def)
  then have xT: "x \<in> T" and xp: "x \<noteq> p" using saneD(2) [OF w] p by auto
  note wait = wait_held [OF xT saneD(1) [OF w xT] r]
  have sl: "sleeping_on code j w' y \<longleftrightarrow> sleeping_on code j w y \<and> y \<noteq> x" for j y
    using p(2) by (auto simp: w' sleeping_on_def)
  have t: "taken j w' = taken j w" for j
  proof -
    have "taken j w' = (\<Sum>y\<in>T. held j y (((pcs (w\<lparr>pcs := (pcs w)(p := q)\<rparr>))(x := r)) y))" by (simp add: w' taken_def)
    also have "\<dots> = taken j (w\<lparr>pcs := (pcs w)(p := q)\<rparr>) - held j x (pcs w x) + held j x r"
      using xp by (simp only: taken_upd [OF xT]) simp
    also have "taken j (w\<lparr>pcs := (pcs w)(p := q)\<rparr>) = taken j w - of_bool (j = k)"
      using taken_upd [OF p(1)] held by (simp add: taken_def)
    finally show ?thesis using wait by simp
  qed
  show "ok y (pcs w' y)" if "y \<in> T" for y using saneD(1) [OF w that] p wait by (simp add: w')
  show "asleep w' \<subseteq> T" using saneD(2) [OF w] by (auto simp: w')
  show "\<exists>k. sleeping_on code k w' y" if "y \<in> asleep w'" for y using that saneD(3) [OF w, of y] sl by (auto simp: w')
  fix j assume "j \<in> K"
  show "sem_sane w' j"
  proof (cases "j = k")
    case True
    have "y \<in> set qs \<longleftrightarrow> sleeping_on code k w y \<and> y \<noteq> x" for y using on [of y] q(3) by auto
    then show ?thesis unfolding True using q
      by (intro sem_saneI [where n = n and q = qs]) (simp_all add: t sl, simp_all add: w')
  next
    case False
    then have "\<not> sleeping_on code j w x" using r by (simp add: sleeping_on_def)
    then have "sleeping_on code j w' y = sleeping_on code j w y" for y using sl by blast
    moreover have "sems w' j = sems w j" using False by (simp add: w')
    ultimately show ?thesis using sem_sane_other [OF saneD(4) [OF w \<open>j \<in> K\<close>]] t by blast
  qed
qed

lemma sane_set:
  assumes w: "sane w" and p: "p \<in> T" "p \<notin> asleep w" "ok p q" and held: "\<And>j. held j p q = held j p (pcs w p)"
    and w': "w' = w\<lparr>pcs := (pcs w)(p := q), shared := s'\<rparr>"
  shows "sane w'"
proof (rule saneI)
  have sl: "sleeping_on code j w' x = sleeping_on code j w x" for j x
    using sleeping_shared [where w = "w\<lparr>pcs := (pcs w)(p := q)\<rparr>"] by (simp add: w' sleeping_upd [OF p(2)])
  have t: "taken j w' = taken j w" for j using taken_upd [OF p(1)] held by (simp add: w' taken_def)
  show "ok x (pcs w' x)" if "x \<in> T" for x using saneD(1) [OF w that] p by (simp add: w')
  show "asleep w' \<subseteq> T" using saneD(2) [OF w] by (simp add: w')
  show "\<exists>k. sleeping_on code k w' x" if "x \<in> asleep w'" for x using that saneD(3) [OF w, of x] sl by (auto simp: w')
  show "sem_sane w' j" if "j \<in> K" for j
  proof -
    have "sems w' j = sems w j" by (simp add: w')
    then show ?thesis using sem_sane_other [OF saneD(4) [OF w that]] t sl by blast
  qed
qed

lemma count_up:
  assumes w: "sane w" and p: "p \<in> T" and c: "code p (pcs w p) (shared w) = SignalI k q"
    and k: "sems w k = Some \<lparr>sem_count = n, sem_queue = qu\<rparr>"
  shows "int (unat (n + 1)) = int (unat n) + 1"
proof -
  note signal = signal_held [OF p saneD(1) [OF w p] c]
  have "ok x (((pcs w)(p := q)) x)" if "x \<in> T" for x using saneD(1) [OF w that] signal by simp
  then have "permits k - (\<Sum>x\<in>T. held k x (((pcs w)(p := q)) x)) < 2 ^ 64" using small signal by blast
  then have "permits k - taken k w + 1 < 2 ^ 64" using taken_upd [OF p] signal by simp
  moreover have "int (unat n) + taken k w = permits k" using sane_sem [OF w, of k] signal k by auto
  ultimately have "int (unat n + 1) < int (2 ^ 64)" by simp
  then have "unat n + 1 < 2 ^ 64" by (simp only: of_nat_less_iff)
  then have "unat (n + 1) = unat n + 1" by (simp add: unat_word_ariths)
  then show ?thesis by simp
qed

lemma step_sane:
  assumes w: "sane w" and p: "p \<in> T" and s: "task_step code p w = Some w'"
  shows "sane w'"
proof -
  have awake: "p \<notin> asleep w" using s by (auto simp: task_step_def split: if_splits)
  note okp = saneD(1) [OF w p]
  show ?thesis
  proof (cases "code p (pcs w p) (shared w)")
    case (WaitI k q)
    note wait = wait_held [OF p okp WaitI]
    then obtain n qu where k: "sems w k = Some \<lparr>sem_count = n, sem_queue = qu\<rparr>" "qu \<noteq> [] \<longrightarrow> n = 0"
      using sane_sem [OF w] by metis
    show ?thesis
    proof (cases "n = 0")
      case True
      then show ?thesis using s awake WaitI k wait
        by (intro sane_block [OF w p awake WaitI]) (auto simp: task_step_def set_wait_def semaphore_wait_def)
    next
      case False
      then have "int (unat (n - 1)) = int (unat n) - 1" by (simp add: unat_minus_one unat_gt_0 of_nat_diff Suc_leI)
      then show ?thesis using s awake WaitI k wait False
        by (intro sane_pass [OF w p awake, where d = 1 and n = n and n' = "n - 1" and k = k and q = q and qu = qu])
          (auto simp: task_step_def set_wait_def semaphore_wait_def)
    qed
  next
    case (SignalI k q)
    note signal = signal_held [OF p okp SignalI]
    then obtain n qu where k: "sems w k = Some \<lparr>sem_count = n, sem_queue = qu\<rparr>"
      "\<And>x. x \<in> set qu \<longleftrightarrow> sleeping_on code k w x"
      using sane_sem [OF w] by metis
    show ?thesis
    proof (cases qu)
      case Nil
      then show ?thesis using s awake SignalI k(1) signal count_up [OF w p SignalI k(1)]
        by (intro sane_pass [OF w p awake, where d = "- 1" and n = n and n' = "n + 1" and k = k and q = q and qu = qu])
          (auto simp: task_step_def set_signal_def semaphore_signal_def)
    next
      case (Cons x qs)
      then obtain r where r: "code x (pcs w x) (shared w) = WaitI k r" "x \<in> asleep w"
        using k(2) [of x] by (auto simp: sleeping_on_def)
      then have "x \<noteq> p" using awake by auto
      then show ?thesis using s awake SignalI k(1) Cons r signal
        by (intro sane_wake [OF w p awake, where n = n and k = k and q = q and x = x and qs = qs and r = r])
          (auto simp: task_step_def set_signal_def semaphore_signal_def resume_def)
    qed
  next
    case (SetI s' q)
    then show ?thesis using s awake set_held [OF p okp SetI]
      by (intro sane_set [OF w p awake, where q = q and s' = s']) (auto simp: task_step_def)
  next
    case Halt
    then show ?thesis using s by (simp add: task_step_def split: if_splits)
  qed
qed

lemma reach_sane: "reach code T w0 w \<Longrightarrow> sane w0 \<Longrightarrow> sane w"
  by (induction rule: reach.induct) (auto intro: step_sane)

lemma sane_start:
  assumes "\<And>p. p \<in> T \<Longrightarrow> ok p (pcs w p)" "asleep w = {}" "\<And>k. k \<in> K \<Longrightarrow> taken k w = 0"
    and "\<And>k. k \<in> K \<Longrightarrow> \<exists>n. sems w k = Some (semaphore_new n) \<and> int (unat n) = permits k"
  shows "sane w"
  using assms by (fastforce simp: sane_def sem_sane_def sleeping_on_def semaphore_new_def)

text \<open>Whoever sleeps sleeps on a semaphore without a permit.\<close>

lemma sem_sane_taken:
  assumes "sem_sane w k"
  shows "taken k w \<le> permits k"
proof -
  obtain n :: u64 where "int (unat n) + taken k w = permits k" using assms unfolding sem_sane_def by blast
  moreover have "0 \<le> int (unat n)" by (rule of_nat_0_le_iff)
  ultimately show ?thesis by linarith
qed

lemma sem_sane_sleeping:
  assumes "sem_sane w k" "sleeping_on code k w p"
  shows "taken k w = permits k"
proof -
  obtain n :: u64 and q where n: "int (unat n) + taken k w = permits k" "q \<noteq> [] \<longrightarrow> n = 0" "p \<in> set q"
    using assms unfolding sem_sane_def by blast
  from n(3) have "q \<noteq> []" by (cases q) auto
  with n(1, 2) show ?thesis by simp
qed

lemma taken_le: "sane w \<Longrightarrow> k \<in> K \<Longrightarrow> taken k w \<le> permits k"
  using sem_sane_taken unfolding sane_def by blast

lemma sleeper:
  assumes "sane w" "p \<in> asleep w"
  obtains k where "k \<in> K" "sleeping_on code k w p" "taken k w = permits k"
proof -
  obtain k where k: "sleeping_on code k w p" using assms unfolding sane_def by blast
  have "p \<in> T" "ok p (pcs w p)" using assms unfolding sane_def by blast+
  then have "k \<in> K" using sleeping_key k by blast
  moreover have "taken k w = permits k"
    using assms(1) \<open>k \<in> K\<close> sem_sane_sleeping k unfolding sane_def by blast
  ultimately show thesis using that k by blast
qed

text \<open>When nothing can run, whoever has not stopped sleeps on a semaphore that has no permit left.\<close>

lemma stuck_sleeper:
  assumes "sane w" "stuck code T w" "p \<in> T" "code p (pcs w p) (shared w) \<noteq> Halt"
  obtains k where "k \<in> K" "sleeping_on code k w p" "taken k w = permits k"
  using stuck_halted [OF assms(2, 3)] assms(4) sleeper [OF assms(1)] by blast

lemma task_step_awake: "task_step code p w = Some w' \<Longrightarrow> p \<notin> asleep w"
  by (auto simp: task_step_def split: if_splits)

lemma wakes:
  assumes "sane w" "p \<in> T" "code p (pcs w p) (shared w) = SignalI k q" "set_signal (sems w) k = (WakeUp x, t)"
  shows "x \<in> T \<and> x \<in> asleep w \<and> (\<exists>r. code x (pcs w x) (shared w) = WaitI k r)"
proof -
  have "k \<in> K" using signal_held [OF assms(2) saneD(1) [OF assms(1, 2)] assms(3)] by blast
  then obtain n qu where "sems w k = Some \<lparr>sem_count = n, sem_queue = qu\<rparr>" "\<And>x. x \<in> set qu \<longleftrightarrow> sleeping_on code k w x"
    using sane_sem [OF assms(1)] by metis
  then have "sleeping_on code k w x"
    using assms(4) by (auto simp: set_signal_def semaphore_signal_def split: list.splits)
  then show ?thesis using saneD(2) [OF assms(1)] by (auto simp: sleeping_on_def)
qed

text \<open>
  An invariant of the program counters and the shared memory is kept when every wait and signal that
  goes through keeps it, and every access to memory.
\<close>

lemma step_inv:
  assumes w: "sane w" and p: "p \<in> T" and s: "task_step code p w = Some w'" and keeps: "keeps (pcs w) (shared w)"
    and move: "\<And>f x c k q. x \<in> T \<Longrightarrow> keeps f (shared w) \<Longrightarrow>
      code x (f x) (shared w) = WaitI k q \<or> code x (f x) (shared w) = SignalI k q \<Longrightarrow> keeps (f(x := q)) (shared w)"
    and set: "\<And>s q. code p (pcs w p) (shared w) = SetI s q \<Longrightarrow> keeps ((pcs w)(p := q)) s"
  shows "keeps (pcs w') (shared w')"
proof -
  note awake = task_step_awake [OF s] and okp = saneD(1) [OF w p]
  show ?thesis
  proof (cases "code p (pcs w p) (shared w)")
    case (WaitI k q)
    then have "keeps ((pcs w)(p := q)) (shared w)" using move [OF p keeps] by blast
    then show ?thesis using s awake WaitI keeps
      by (auto simp: task_step_def set_wait_def semaphore_wait_def split: option.splits if_splits)
  next
    case (SignalI k q)
    then have m: "keeps ((pcs w)(p := q)) (shared w)" using move [OF p keeps] by blast
    have "keeps (pcs (resume code x (w\<lparr>sems := t, pcs := (pcs w)(p := q)\<rparr>))) (shared w)"
      if sig: "set_signal (sems w) k = (WakeUp x, t)" for x t
    proof -
      obtain r where x: "x \<in> T" "x \<in> asleep w" "code x (pcs w x) (shared w) = WaitI k r"
        using wakes [OF w p SignalI sig] by blast
      then have "x \<noteq> p" using awake by auto
      then show ?thesis using move [OF x(1) m] x(3) by (simp add: resume_def)
    qed
    moreover have "shared (resume code x w1) = shared w1" for x w1
      by (simp add: resume_def split: instr.splits)
    ultimately show ?thesis using s awake SignalI m
      by (auto simp: task_step_def split: prod.splits sem_result.splits)
  next
    case (SetI s' q)
    then show ?thesis using s awake set [OF SetI] by (auto simp: task_step_def)
  next
    case Halt
    then show ?thesis using s awake by (simp add: task_step_def)
  qed
qed

text \<open>The same along a run.\<close>

lemma run_inv:
  assumes move: "\<And>w f x k q. sane w \<Longrightarrow> x \<in> T \<Longrightarrow> keeps f (shared w) \<Longrightarrow>
      code x (f x) (shared w) = WaitI k q \<or> code x (f x) (shared w) = SignalI k q \<Longrightarrow> keeps (f(x := q)) (shared w)"
    and set: "\<And>w p s q. sane w \<Longrightarrow> p \<in> T \<Longrightarrow> keeps (pcs w) (shared w) \<Longrightarrow>
      code p (pcs w p) (shared w) = SetI s q \<Longrightarrow> keeps ((pcs w)(p := q)) s"
  shows "run_tasks code ps w = Some w' \<Longrightarrow> set ps \<subseteq> T \<Longrightarrow> sane w \<Longrightarrow> keeps (pcs w) (shared w) \<Longrightarrow>
    sane w' \<and> keeps (pcs w') (shared w')"
proof (induction ps arbitrary: w)
  case (Cons p ps)
  obtain w1 where s: "task_step code p w = Some w1" "run_tasks code ps w1 = Some w'"
    using Cons.prems(1) by (auto split: option.splits)
  have p: "p \<in> T" using Cons.prems(2) by simp
  note w = Cons.prems(3)
  have "keeps (pcs w1) (shared w1)"
    by (rule step_inv [where keeps = keeps, OF w p s(1) Cons.prems(4)]) (use move [OF w] set [OF w p Cons.prems(4)] in blast)+
  then show ?case using Cons.prems(2) Cons.IH [OF s(2) _ step_sane [OF w p s(1)]] by simp
qed simp

end

section \<open>Programs that end\<close>

locale ranked = tally +
  fixes rank :: "pid \<Rightarrow> 'a \<Rightarrow> nat"
  assumes rank_wait: "p \<in> T \<Longrightarrow> ok p c \<Longrightarrow> code p c s = WaitI k q \<Longrightarrow> rank p q < rank p c"
    and rank_signal: "p \<in> T \<Longrightarrow> ok p c \<Longrightarrow> code p c s = SignalI k q \<Longrightarrow> rank p q < rank p c"
    and rank_set: "p \<in> T \<Longrightarrow> ok p c \<Longrightarrow> code p c s = SetI s' q \<Longrightarrow> rank p q < rank p c"
begin

definition energy :: "('a, 'b) tasks \<Rightarrow> nat" where
  "energy w = 2 * (\<Sum>p\<in>T. rank p (pcs w p)) + card (T - asleep w)"

lemma rank_less:
  "p \<in> T \<Longrightarrow> rank p q < rank p (f p) \<Longrightarrow> (\<Sum>x\<in>T. rank x ((f(p := q)) x)) + 1 \<le> (\<Sum>x\<in>T. rank x (f x))"
proof -
  assume p: "p \<in> T" "rank p q < rank p (f p)"
  have "(\<Sum>x\<in>T. rank x ((f(p := q)) x)) = rank p q + (\<Sum>x\<in>T - {p}. rank x (f x))"
    by (simp add: sum.remove [OF finite_T p(1)])
  then show ?thesis using p(2) by (simp add: sum.remove [OF finite_T p(1)])
qed

lemma step_energy:
  assumes w: "sane w" and p: "p \<in> T" and s: "task_step code p w = Some w'"
  shows "energy w' < energy w"
proof -
  note awake = task_step_awake [OF s] and okp = saneD(1) [OF w p]
  show ?thesis
  proof (cases "code p (pcs w p) (shared w)")
    case (WaitI k q)
    note less = rank_less [OF p, of q "pcs w", OF rank_wait [OF p okp WaitI]]
    have "card (T - insert p (asleep w)) < card (T - asleep w)"
      using p awake finite_T by (intro psubset_card_mono) auto
    then have "energy (w\<lparr>sems := t, asleep := insert p (asleep w)\<rparr>) < energy w" for t by (simp add: energy_def)
    moreover have "energy (w\<lparr>sems := t, pcs := (pcs w)(p := q)\<rparr>) < energy w" for t using less by (simp add: energy_def)
    moreover have "energy (w\<lparr>pcs := (pcs w)(p := q)\<rparr>) < energy w" using less by (simp add: energy_def)
    ultimately show ?thesis using s awake WaitI
      by (auto simp: task_step_def set_wait_def semaphore_wait_def split: option.splits if_splits)
  next
    case (SignalI k q)
    note less = rank_less [OF p, of q "pcs w", OF rank_signal [OF p okp SignalI]]
    have plain: "energy (w\<lparr>sems := t, pcs := (pcs w)(p := q)\<rparr>) < energy w" for t using less by (simp add: energy_def)
    have woken: "energy (resume code x (w\<lparr>sems := t, pcs := (pcs w)(p := q)\<rparr>)) < energy w"
      if sig: "set_signal (sems w) k = (WakeUp x, t)" for x t
    proof -
      obtain r where x: "x \<in> T" "x \<in> asleep w" "code x (pcs w x) (shared w) = WaitI k r"
        using wakes [OF w p SignalI sig] by blast
      have xp: "x \<noteq> p" using x(2) awake by auto
      have "rank x r < rank x (((pcs w)(p := q)) x)" using rank_wait [OF x(1) saneD(1) [OF w x(1)] x(3)] xp by simp
      note less' = rank_less [OF x(1), of r "(pcs w)(p := q)", OF this]
      have "card (T - (asleep w - {x})) \<le> Suc (card (T - asleep w))"
      proof -
        have "T - (asleep w - {x}) \<subseteq> insert x (T - asleep w)" by auto
        then have "card (T - (asleep w - {x})) \<le> card (insert x (T - asleep w))" using finite_T by (intro card_mono) auto
        also have "\<dots> \<le> Suc (card (T - asleep w))" by (simp add: card_insert_if finite_T)
        finally show ?thesis .
      qed
      then show ?thesis using less less' x(3) xp by (simp add: resume_def energy_def)
    qed
    show ?thesis using s awake SignalI plain woken
      by (auto simp: task_step_def split: prod.splits sem_result.splits)
  next
    case (SetI s' q)
    then show ?thesis using s awake rank_less [OF p, of q "pcs w", OF rank_set [OF p okp SetI]]
      by (auto simp: task_step_def energy_def)
  next
    case Halt
    then show ?thesis using s awake by (simp add: task_step_def)
  qed
qed

text \<open>No schedule runs longer than the energy at its start.\<close>

lemma run_bounded:
  "run_tasks code ps w = Some w' \<Longrightarrow> set ps \<subseteq> T \<Longrightarrow> sane w \<Longrightarrow> length ps + energy w' \<le> energy w \<and> sane w'"
proof (induction ps arbitrary: w)
  case (Cons p ps)
  obtain w1 where s: "task_step code p w = Some w1" "run_tasks code ps w1 = Some w'"
    using Cons.prems(1) by (auto split: option.splits)
  have p: "p \<in> T" using Cons.prems(2) by simp
  have "length ps + energy w' \<le> energy w1 \<and> sane w'"
    using Cons.prems(2) by (intro Cons.IH s step_sane [OF Cons.prems(3) p s(1)]) simp
  then show ?case using step_energy [OF Cons.prems(3) p s(1)] by simp
qed simp

end

end
