(* ===== verification/Counter.thy ===== *)
theory Counter
  imports Tasks
begin

text \<open>
  The counter, \<open>pkg/app/counter/src/main.rs\<close>: eight processes that share a number and add to it
  a hundred times each, under a semaphore. The calls of \<open>delay\<close> and the output are left out.
\<close>

section \<open>The program\<close>

definition THREAD_COUNT :: nat where "THREAD_COUNT = 8"

definition MUTEX :: u32 where "MUTEX = 0xDEADBEEF"

text \<open>
  Where a process is in \<open>do_counter_inc\<close> and \<open>inc_counter\<close>, with its turn of the loop and its
  variable \<open>val\<close>.
\<close>

datatype counter_pc = CWait nat | CRead nat | CAdd nat int | CStore nat int | CSignal nat

fun counter_code :: "pid \<Rightarrow> counter_pc \<Rightarrow> int \<Rightarrow> (counter_pc, int) instr" where
  "counter_code p (CWait i) s = (if i < 100 then WaitI MUTEX (CRead i) else Halt)"
| "counter_code p (CRead i) s = SetI s (CAdd i s)"
| "counter_code p (CAdd i v) s = SetI s (CStore i (v + 1))"
| "counter_code p (CStore i v) s = SetI v (CSignal i)"
| "counter_code p (CSignal i) s = SignalI MUTEX (CWait (i + 1))"

text \<open>What \<open>main\<close> sets up before it forks.\<close>

definition counter_start :: "(counter_pc, int) tasks" where
  "counter_start = \<lparr>sems = snd (set_insert Map.empty MUTEX 1), pcs = (\<lambda>p. CWait 0), asleep = {}, shared = 0\<rparr>"

section \<open>Counting permits\<close>

fun counter_in :: "counter_pc \<Rightarrow> int" where
  "counter_in (CWait i) = 0"
| "counter_in c = 1"

definition counter_held :: "u32 \<Rightarrow> pid \<Rightarrow> counter_pc \<Rightarrow> int" where
  "counter_held k p c = (if k = MUTEX then counter_in c else 0)"

fun counter_ok :: "counter_pc \<Rightarrow> bool" where
  "counter_ok (CWait i) = (i \<le> 100)"
| "counter_ok (CRead i) = (i < 100)"
| "counter_ok (CAdd i v) = (i < 100)"
| "counter_ok (CStore i v) = (i < 100)"
| "counter_ok (CSignal i) = (i < 100)"

fun counter_rank :: "counter_pc \<Rightarrow> nat" where
  "counter_rank (CWait i) = 5 * (100 - i)"
| "counter_rank (CRead i) = 5 * (100 - i) - 1"
| "counter_rank (CAdd i v) = 5 * (100 - i) - 2"
| "counter_rank (CStore i v) = 5 * (100 - i) - 3"
| "counter_rank (CSignal i) = 5 * (100 - i) - 4"

fun counter_done :: "counter_pc \<Rightarrow> int" where
  "counter_done (CWait i) = int i"
| "counter_done (CRead i) = int i"
| "counter_done (CAdd i v) = int i"
| "counter_done (CStore i v) = int i"
| "counter_done (CSignal i) = int i + 1"

lemma counter_in_range: "0 \<le> counter_in c" "counter_in c \<le> 1"
  by (cases c; simp)+

text \<open>The children are told apart by their number in the loop of \<open>main\<close>, not by their pids.\<close>

definition counter_tasks :: "pid set" where "counter_tasks = set (map of_nat [0..<THREAD_COUNT])"

lemma counter_tasks_set: "counter_tasks = {0, 1, 2, 3, 4, 5, 6, 7}"
  by (auto simp: counter_tasks_def THREAD_COUNT_def upt_rec)

lemma counter_tasks_card: "card counter_tasks = 8" "finite counter_tasks"
  by (simp_all add: counter_tasks_set)

lemma counter_taken: "0 \<le> (\<Sum>p\<in>counter_tasks. counter_held k p (f p))"
  by (intro sum_nonneg) (simp add: counter_held_def counter_in_range)

interpretation ct: ranked counter_code counter_tasks "{MUTEX}" counter_held "\<lambda>k. 1" "\<lambda>p. counter_ok"
  "\<lambda>p. counter_rank"
proof
  show "finite counter_tasks" by (rule counter_tasks_card)
  fix p :: pid and c :: counter_pc and s s' :: int and k :: u32 and q :: counter_pc and f :: "pid \<Rightarrow> counter_pc"
  show "counter_code p c s = WaitI k q \<Longrightarrow> counter_code p c s' = WaitI k q" by (cases c) (auto split: if_splits)
  show "(1 :: int) - (\<Sum>p\<in>counter_tasks. counter_held k p (f p)) < 2 ^ 64" using counter_taken [of k f] by simp
  assume ok: "counter_ok c"
  show "counter_code p c s = WaitI k q \<Longrightarrow>
      counter_ok q \<and> k \<in> {MUTEX} \<and> (\<forall>j. counter_held j p q = counter_held j p c + of_bool (j = k))"
    using ok by (cases c) (auto simp: counter_held_def split: if_splits)
  show "counter_code p c s = SignalI k q \<Longrightarrow>
      counter_ok q \<and> k \<in> {MUTEX} \<and> (\<forall>j. counter_held j p q = counter_held j p c - of_bool (j = k))"
    using ok by (cases c) (auto simp: counter_held_def split: if_splits)
  show "counter_code p c s = SetI s' q \<Longrightarrow> counter_ok q \<and> (\<forall>j. counter_held j p q = counter_held j p c)"
    using ok by (cases c) (auto simp: counter_held_def split: if_splits)
  show "counter_code p c s = WaitI k q \<Longrightarrow> counter_rank q < counter_rank c"
    "counter_code p c s = SignalI k q \<Longrightarrow> counter_rank q < counter_rank c"
    "counter_code p c s = SetI s' q \<Longrightarrow> counter_rank q < counter_rank c"
    using ok by (cases c; auto split: if_splits)+
qed

section \<open>Inside the section\<close>

lemma counter_alone:
  assumes "ct.sane w" "p \<in> counter_tasks" "q \<in> counter_tasks" "counter_in (pcs w p) = 1" "counter_in (pcs w q) = 1"
  shows "p = q"
proof (rule ccontr)
  assume "p \<noteq> q"
  then show False
    using ct.taken_two [OF assms(2, 3), where k = MUTEX and w = w] ct.taken_le [OF assms(1), of MUTEX] assms(4, 5)
    by (simp add: counter_held_def counter_in_range)
qed

text \<open>The number is what the processes have added, and whoever has read it still knows it.\<close>

fun counter_knows :: "int \<Rightarrow> counter_pc \<Rightarrow> bool" where
  "counter_knows s (CAdd i v) = (v = s)"
| "counter_knows s (CStore i v) = (v = s + 1)"
| "counter_knows s c = True"

definition counter_sum :: "(pid \<Rightarrow> counter_pc) \<Rightarrow> int \<Rightarrow> bool" where
  "counter_sum f s \<longleftrightarrow> (\<Sum>p\<in>counter_tasks. counter_done (f p)) = s \<and> (\<forall>p\<in>counter_tasks. counter_knows s (f p))"

lemma counter_done_upd:
  "p \<in> counter_tasks \<Longrightarrow> (\<Sum>x\<in>counter_tasks. counter_done ((f(p := q)) x)) =
    (\<Sum>x\<in>counter_tasks. counter_done (f x)) - counter_done (f p) + counter_done q"
  by (simp add: sum.remove [of counter_tasks p] counter_tasks_card)

lemma counter_sum_move:
  assumes "p \<in> counter_tasks" "counter_sum f s"
    "counter_code p (f p) s = WaitI k q \<or> counter_code p (f p) s = SignalI k q"
  shows "counter_sum (f(p := q)) s"
proof -
  have "counter_done q = counter_done (f p) \<and> counter_knows s q"
    using assms(3) by (cases "f p") (auto split: if_splits)
  then show ?thesis using assms(1, 2) counter_done_upd [OF assms(1), of f q] by (simp add: counter_sum_def)
qed

lemma counter_sum_set:
  assumes w: "ct.sane w" "p \<in> counter_tasks" "counter_sum (pcs w) (shared w)"
    and c: "counter_code p (pcs w p) (shared w) = SetI s q"
  shows "counter_sum ((pcs w)(p := q)) s"
proof -
  note upd = counter_done_upd [OF w(2), of "pcs w" q]
  have knows: "counter_knows (shared w) (pcs w p)" using w(2, 3) by (simp add: counter_sum_def)
  show ?thesis
  proof (cases "pcs w p")
    case (CStore i v)
    have "counter_knows s (pcs w x)" if "x \<in> counter_tasks" "x \<noteq> p" for x
      using counter_alone [OF w(1) that(1) w(2)] that(2) CStore by (cases "pcs w x") auto
    then show ?thesis using c CStore knows upd w(3) by (auto simp: counter_sum_def)
  qed (use c knows upd w(3) in \<open>auto simp: counter_sum_def split: if_splits\<close>)
qed

section \<open>The result\<close>

lemma counter_sane_start: "ct.sane counter_start"
  by (rule ct.sane_start)
    (simp_all add: counter_start_def set_insert_def semaphore_new_def ct.taken_def counter_held_def)

lemma counter_energy_start: "ct.energy counter_start = 8008"
  using counter_tasks_card by (simp add: ct.energy_def counter_start_def)

text \<open>
  C25: However the eight processes are scheduled, they stop after at most 8008 steps, and the
  number is then 800: no addition is lost, and none of them waits for ever.
\<close>

theorem counter_result:
  assumes "set ps \<subseteq> counter_tasks" "run_tasks counter_code ps counter_start = Some w"
  shows "length ps \<le> 8008 \<and> (stuck counter_code counter_tasks w \<longrightarrow> shared w = 800)"
proof -
  have "counter_sum (pcs counter_start) (shared counter_start)" by (simp add: counter_sum_def counter_start_def)
  then have "ct.sane w \<and> counter_sum (pcs w) (shared w)"
    by (rule ct.run_inv [where keeps = counter_sum, OF _ _ assms(2, 1) counter_sane_start, rotated 2])
      (rule counter_sum_move counter_sum_set; assumption)+
  then have w: "ct.sane w" and sum: "counter_sum (pcs w) (shared w)" by simp_all
  have "length ps \<le> 8008"
    using ct.run_bounded [OF assms(2, 1) counter_sane_start] counter_energy_start by simp
  moreover have "shared w = 800" if stuck: "stuck counter_code counter_tasks w"
  proof -
    have end_of: "pcs w p = CWait 100" if p: "p \<in> counter_tasks" for p
    proof (cases "counter_code p (pcs w p) (shared w) = Halt")
      case True
      then show ?thesis using ct.saneD(1) [OF w p] by (cases "pcs w p") (auto split: if_splits)
    next
      case False
      obtain k where k: "k \<in> {MUTEX}" "ct.taken k w = 1" using ct.stuck_sleeper [OF w stuck p False] by blast
      then have "ct.taken MUTEX w \<noteq> 0" by simp
      then obtain x where x: "x \<in> counter_tasks" "counter_in (pcs w x) \<noteq> 0"
        by (auto simp: ct.taken_def counter_held_def dest: sum.not_neutral_contains_not_neutral)
      then have "counter_code x (pcs w x) (shared w) \<noteq> Halt" "\<not> sleeping_on counter_code j w x" for j
        by (cases "pcs w x"; simp add: sleeping_on_def)+
      then show ?thesis using ct.stuck_sleeper [OF w stuck x(1)] by blast
    qed
    then have "(\<Sum>p\<in>counter_tasks. counter_done (pcs w p)) = (\<Sum>p\<in>counter_tasks. 100)" by (intro sum.cong) simp_all
    then show ?thesis using sum counter_tasks_card by (simp add: counter_sum_def)
  qed
  ultimately show ?thesis by blast
qed

text \<open>The first two processes: one waits for the other and is woken, and neither is at its end.\<close>

theorem counter_result_witness:
  "\<exists>w. run_tasks counter_code [0, 1, 0, 0, 0, 0, 1] counter_start = Some w \<and> shared w = 1 \<and>
    \<not> stuck counter_code counter_tasks w"
proof -
  have "\<exists>w. run_tasks counter_code [0, 1, 0, 0, 0, 0, 1] counter_start = Some w \<and> shared w = 1"
    by (simp add: counter_start_def task_step_def set_insert_def set_wait_def set_signal_def semaphore_new_def
        semaphore_wait_def semaphore_signal_def resume_def)
  then show ?thesis using counter_result [of "[0, 1, 0, 0, 0, 0, 1]"] by (auto simp: counter_tasks_set)
qed

end
