(* ===== verification/Dinner.thy ===== *)
theory Dinner
  imports Tasks
begin

text \<open>
  The dining philosophers, \<open>pkg/app/dinner/src/main.rs\<close>, with the mode that \<open>main\<close> reads. The
  delays, the random numbers they use and the output are left out.
\<close>

section \<open>The program\<close>

definition PHILOSOPHER_COUNT :: nat where "PHILOSOPHER_COUNT = 5"

definition EAT_TIMES :: nat where "EAT_TIMES = 3"

text \<open>The keys of the semaphores \<open>CHOPSTICKS\<close> and \<open>WAITER\<close>\<close>

definition CHOPSTICKS :: "nat \<Rightarrow> u32" where "CHOPSTICKS i = [0, 1, 2, 3, 4] ! i"

definition WAITER :: u32 where "WAITER = 4"

text \<open>Where a philosopher is in its turn.\<close>

datatype dinner_pc = Thinks nat | Seated nat | HasFirst nat | Eats nat | Ate nat | FirstDown nat | BothDown nat

definition left_stick :: "pid \<Rightarrow> u32" where "left_stick p = CHOPSTICKS (unat p)"

definition right_stick :: "pid \<Rightarrow> u32" where "right_stick p = CHOPSTICKS ((unat p + 1) mod PHILOSOPHER_COUNT)"

fun dinner_code :: "u64 \<Rightarrow> pid \<Rightarrow> dinner_pc \<Rightarrow> unit \<Rightarrow> (dinner_pc, unit) instr" where
  "dinner_code demo p (Thinks turn) s =
     (if turn < EAT_TIMES then
        (if demo = 1 then WaitI (left_stick p) (HasFirst turn) else WaitI WAITER (Seated turn))
      else Halt)"
| "dinner_code demo p (Seated turn) s = WaitI (left_stick p) (HasFirst turn)"
| "dinner_code demo p (HasFirst turn) s = WaitI (right_stick p) (Eats turn)"
| "dinner_code demo p (Eats turn) s = SetI s (Ate turn)"
| "dinner_code demo p (Ate turn) s = SignalI (left_stick p) (FirstDown turn)"
| "dinner_code demo p (FirstDown turn) s =
     SignalI (right_stick p) (if demo = 1 then Thinks (turn + 1) else BothDown turn)"
| "dinner_code demo p (BothDown turn) s = SignalI WAITER (Thinks (turn + 1))"

text \<open>What \<open>main\<close> sets up before it forks.\<close>

definition dinner_sems :: "u64 \<Rightarrow> semaphore_set" where
  "dinner_sems demo =
     (let sems = fold (\<lambda>i sems. snd (set_insert sems (CHOPSTICKS i) 1)) [0..<PHILOSOPHER_COUNT] Map.empty
      in if demo \<noteq> 1 then snd (set_insert sems WAITER (of_nat (PHILOSOPHER_COUNT - 1))) else sems)"

definition dinner_start :: "u64 \<Rightarrow> (dinner_pc, unit) tasks" where
  "dinner_start demo = \<lparr>sems = dinner_sems demo, pcs = (\<lambda>p. Thinks 0), asleep = {}, shared = ()\<rparr>"

definition philosophers :: "pid set" where "philosophers = {0, 1, 2, 3, 4}"

section \<open>Counting permits\<close>

definition of_key :: "u32 \<Rightarrow> u32 \<Rightarrow> int" where "of_key k j = of_bool (k = j)"

definition of_waiter :: "u64 \<Rightarrow> u32 \<Rightarrow> int" where "of_waiter demo k = (if demo = 1 then 0 else of_key k WAITER)"

fun dinner_held :: "u64 \<Rightarrow> u32 \<Rightarrow> pid \<Rightarrow> dinner_pc \<Rightarrow> int" where
  "dinner_held demo k p (Thinks t) = 0"
| "dinner_held demo k p (Seated t) = of_waiter demo k"
| "dinner_held demo k p (HasFirst t) = of_waiter demo k + of_key k (left_stick p)"
| "dinner_held demo k p (Eats t) = of_waiter demo k + of_key k (left_stick p) + of_key k (right_stick p)"
| "dinner_held demo k p (Ate t) = of_waiter demo k + of_key k (left_stick p) + of_key k (right_stick p)"
| "dinner_held demo k p (FirstDown t) = of_waiter demo k + of_key k (right_stick p)"
| "dinner_held demo k p (BothDown t) = of_waiter demo k"

definition dinner_permits :: "u64 \<Rightarrow> u32 \<Rightarrow> int" where
  "dinner_permits demo k = (if k = WAITER \<and> demo \<noteq> 1 then 4 else 1)"

fun dinner_ok :: "u64 \<Rightarrow> dinner_pc \<Rightarrow> bool" where
  "dinner_ok demo (Thinks t) = (t \<le> EAT_TIMES)"
| "dinner_ok demo (Seated t) = (t < EAT_TIMES \<and> demo \<noteq> 1)"
| "dinner_ok demo (HasFirst t) = (t < EAT_TIMES)"
| "dinner_ok demo (Eats t) = (t < EAT_TIMES)"
| "dinner_ok demo (Ate t) = (t < EAT_TIMES)"
| "dinner_ok demo (FirstDown t) = (t < EAT_TIMES)"
| "dinner_ok demo (BothDown t) = (t < EAT_TIMES \<and> demo \<noteq> 1)"

lemma sticks:
  "left_stick 0 = 0" "left_stick 1 = 1" "left_stick 2 = 2" "left_stick 3 = 3" "left_stick 4 = 4"
  "right_stick 0 = 1" "right_stick 1 = 2" "right_stick 2 = 3" "right_stick 3 = 4" "right_stick 4 = 0"
  by (simp_all add: left_stick_def right_stick_def CHOPSTICKS_def PHILOSOPHER_COUNT_def)

definition dinner_keys :: "u32 set" where "dinner_keys = {0, 1, 2, 3, 4}"

lemma stick_keys: "p \<in> philosophers \<Longrightarrow> left_stick p \<in> dinner_keys \<and> right_stick p \<in> dinner_keys"
  by (auto simp: philosophers_def dinner_keys_def sticks)

lemma waiter_key: "WAITER \<in> dinner_keys"
  by (simp add: dinner_keys_def WAITER_def)

lemma dinner_held_nonneg: "0 \<le> dinner_held demo k p c"
  by (cases c) (auto simp: of_waiter_def of_key_def)

interpretation dn: tally "dinner_code demo" philosophers "dinner_keys" "dinner_held demo" "dinner_permits demo"
  "\<lambda>p. dinner_ok demo" for demo
proof
  show "finite philosophers" by (simp add: philosophers_def)
  fix p :: pid and c q :: dinner_pc and s s' :: unit and k :: u32 and f :: "pid \<Rightarrow> dinner_pc"
  show "dinner_code demo p c s = WaitI k q \<Longrightarrow> dinner_code demo p c s' = WaitI k q" by simp
  have "0 \<le> (\<Sum>p\<in>philosophers. dinner_held demo k p (f p))" by (intro sum_nonneg dinner_held_nonneg)
  moreover have "dinner_permits demo k \<le> 4" by (simp add: dinner_permits_def)
  ultimately have "dinner_permits demo k - (\<Sum>p\<in>philosophers. dinner_held demo k p (f p)) < 18446744073709551616"
    by linarith
  then show "dinner_permits demo k - (\<Sum>p\<in>philosophers. dinner_held demo k p (f p)) < 2 ^ 64" by simp
  assume p: "p \<in> philosophers" and ok: "dinner_ok demo c"
  note keys = stick_keys [OF p]
  show "dinner_code demo p c s = WaitI k q \<Longrightarrow>
      dinner_ok demo q \<and> k \<in> dinner_keys \<and> (\<forall>j. dinner_held demo j p q = dinner_held demo j p c + of_bool (j = k))"
    using ok keys waiter_key by (cases c) (auto simp: of_waiter_def of_key_def split: if_splits)
  show "dinner_code demo p c s = SignalI k q \<Longrightarrow>
      dinner_ok demo q \<and> k \<in> dinner_keys \<and> (\<forall>j. dinner_held demo j p q = dinner_held demo j p c - of_bool (j = k))"
    using ok keys waiter_key by (cases c) (auto simp: of_waiter_def of_key_def split: if_splits)
  show "dinner_code demo p c s = SetI s' q \<Longrightarrow> dinner_ok demo q \<and> (\<forall>j. dinner_held demo j p q = dinner_held demo j p c)"
    using ok by (cases c) (auto split: if_splits)
qed

lemma dinner_sems_eq:
  "dinner_sems demo = (\<lambda>k. if k \<in> {0, 1, 2, 3, 4} then Some (semaphore_new (if k = WAITER \<and> demo \<noteq> 1 then 4 else 1)) else None)"
  by (auto simp: dinner_sems_def set_insert_def PHILOSOPHER_COUNT_def CHOPSTICKS_def WAITER_def upt_rec fun_eq_iff)

lemma dinner_sane: "dn.sane demo (dinner_start demo)"
  by (rule dn.sane_start)
    (auto simp: dinner_start_def dn.taken_def dinner_sems_eq dinner_permits_def WAITER_def dinner_keys_def)

section \<open>Who eats with whom\<close>

fun eating :: "dinner_pc \<Rightarrow> bool" where
  "eating (Eats t) = True"
| "eating (Ate t) = True"
| "eating c = False"

lemma reach_dinner: "reach (dinner_code demo) philosophers (dinner_start demo) w \<Longrightarrow> dn.sane demo w"
  using dn.reach_sane dinner_sane by blast

text \<open>Two that hold the same stick, where there is one permit, are the same.\<close>

lemma stick_shared:
  assumes w: "dn.sane demo w" and pq: "p \<in> philosophers" "q \<in> philosophers" "p \<noteq> q"
    and k: "k \<in> dinner_keys" "dinner_permits demo k = 1"
    and held: "1 \<le> dinner_held demo k p (pcs w p)" "1 \<le> dinner_held demo k q (pcs w q)"
  shows False
  using dn.taken_two [where demo = demo and k = k and w = w, OF pq dinner_held_nonneg] dn.taken_le [OF w k(1)] k(2) held
  by linarith

lemma eating_holds:
  "eating c \<Longrightarrow> 1 \<le> dinner_held demo (left_stick p) p c" "eating c \<Longrightarrow> 1 \<le> dinner_held demo (right_stick p) p c"
  by (cases c; simp add: of_key_def of_waiter_def)+

text \<open>One philosopher seated after the other, and the last chopstick on the semaphore of the waiter.\<close>

lemma dinner_run_eats:
  assumes "demo \<noteq> 1"
  shows "\<exists>w. run_tasks (dinner_code demo) [3, 3, 3, 4, 4, 4] (dinner_start demo) = Some w \<and>
    pcs w 3 = Eats 0 \<and> pcs w 4 = Eats 0"
  using assms
  by (simp add: dinner_start_def dinner_sems_eq task_step_def set_wait_def semaphore_new_def semaphore_wait_def
      WAITER_def sticks EAT_TIMES_def)

lemma dinner_run_stuck:
  assumes "demo \<noteq> 1"
  shows "\<exists>w. run_tasks (dinner_code demo) [0, 1, 2, 3, 4, 0, 1, 2, 3, 0, 1, 2, 3] (dinner_start demo) = Some w \<and>
    asleep w = {0, 1, 2, 3, 4}"
  using assms
  by (simp add: dinner_start_def dinner_sems_eq task_step_def set_wait_def semaphore_new_def semaphore_wait_def
      WAITER_def sticks EAT_TIMES_def) blast

text \<open>
  C29: The waiter and the last chopstick have the same key, 4, and so are one semaphore with four permits.
  In the modes with a waiter, philosophers 3 and 4 can therefore eat at the same time with the chopstick between
  them; no other two neighbours ever can.
\<close>

theorem dinner_chopstick_shared:
  assumes "demo \<noteq> 1"
  shows "(\<exists>w. reach (dinner_code demo) philosophers (dinner_start demo) w \<and> eating (pcs w 3) \<and> eating (pcs w 4)) \<and>
    (\<forall>w. reach (dinner_code demo) philosophers (dinner_start demo) w \<longrightarrow>
      \<not> (eating (pcs w 0) \<and> eating (pcs w 1)) \<and> \<not> (eating (pcs w 1) \<and> eating (pcs w 2)) \<and>
      \<not> (eating (pcs w 2) \<and> eating (pcs w 3)) \<and> \<not> (eating (pcs w 4) \<and> eating (pcs w 0)))"
proof
  obtain w where w: "run_tasks (dinner_code demo) [3, 3, 3, 4, 4, 4] (dinner_start demo) = Some w"
    "pcs w 3 = Eats 0" "pcs w 4 = Eats 0"
    using dinner_run_eats [OF assms] by blast
  have "reach (dinner_code demo) philosophers (dinner_start demo) w"
    by (rule run_reach [OF w(1)]) (simp add: philosophers_def)
  then show "\<exists>w. reach (dinner_code demo) philosophers (dinner_start demo) w \<and> eating (pcs w 3) \<and> eating (pcs w 4)"
    using w by (intro exI [of _ w]) simp
  have apart: "\<not> (eating (pcs w p) \<and> eating (pcs w q))"
    if "reach (dinner_code demo) philosophers (dinner_start demo) w" "p \<in> philosophers" "q \<in> philosophers" "p \<noteq> q"
      "right_stick p = left_stick q" "left_stick q \<in> {0, 1, 2, 3}" for w p q
  proof
    assume e: "eating (pcs w p) \<and> eating (pcs w q)"
    have "left_stick q \<in> dinner_keys \<and> dinner_permits demo (left_stick q) = 1"
      using that(6) by (auto simp: dinner_permits_def WAITER_def dinner_keys_def)
    then show False
      using stick_shared [OF reach_dinner [OF that(1)] that(2-4), of "left_stick q"] e eating_holds that(5) by metis
  qed
  show "\<forall>w. reach (dinner_code demo) philosophers (dinner_start demo) w \<longrightarrow>
      \<not> (eating (pcs w 0) \<and> eating (pcs w 1)) \<and> \<not> (eating (pcs w 1) \<and> eating (pcs w 2)) \<and>
      \<not> (eating (pcs w 2) \<and> eating (pcs w 3)) \<and> \<not> (eating (pcs w 4) \<and> eating (pcs w 0))"
    using apart [of _ 0 1] apart [of _ 1 2] apart [of _ 2 3] apart [of _ 4 0] by (simp add: sticks philosophers_def)
qed

theorem dinner_chopstick_shared_witness:
  "\<exists>w. reach (dinner_code 0) philosophers (dinner_start 0) w \<and> eating (pcs w 3) \<and> eating (pcs w 4)"
  using dinner_chopstick_shared [of 0] by simp

text \<open>
  The waiter does not prevent the deadlock either: with four philosophers seated no permit is left for the last
  chopstick, and all five can sleep for ever with nobody having eaten.
\<close>

theorem dinner_deadlock:
  assumes "demo \<noteq> 1"
  shows "\<exists>w. reach (dinner_code demo) philosophers (dinner_start demo) w \<and> stuck (dinner_code demo) philosophers w \<and>
    asleep w = philosophers"
proof -
  obtain w where w: "run_tasks (dinner_code demo) [0, 1, 2, 3, 4, 0, 1, 2, 3, 0, 1, 2, 3] (dinner_start demo) = Some w"
    "asleep w = {0, 1, 2, 3, 4}"
    using dinner_run_stuck [OF assms] by blast
  have "reach (dinner_code demo) philosophers (dinner_start demo) w"
    by (rule run_reach [OF w(1)]) (simp add: philosophers_def)
  then show ?thesis using w(2) by (intro exI [of _ w]) (simp add: philosophers_def stuck_def task_step_def)
qed

theorem dinner_deadlock_witness:
  "\<exists>w. reach (dinner_code 0) philosophers (dinner_start 0) w \<and> stuck (dinner_code 0) philosophers w"
  using dinner_deadlock [of 0] by auto

end
