(* ===== verification/Coffee.thy ===== *)
theory Coffee
  imports Tasks
begin

text \<open>
  One producer and ten consumers around a shelf of four cups, \<open>pkg/app/mq/src/main.rs\<close>. The delays and the
  output are left out; an access to the shared number is a read and a write.
\<close>

section \<open>The program\<close>

definition CUP_CAPACITY :: nat where "CUP_CAPACITY = 4"
definition TOTAL_CUSTOMERS :: nat where "TOTAL_CUSTOMERS = 10"
definition CONSUME_PER_CUSTOMER :: nat where "CONSUME_PER_CUSTOMER = 5"
definition TOTAL_PRODUCTION :: nat where "TOTAL_PRODUCTION = TOTAL_CUSTOMERS * CONSUME_PER_CUSTOMER"

definition FULL_CAPACITY :: u32 where "FULL_CAPACITY = 0x1000"
definition NON_EMPTY :: u32 where "NON_EMPTY = 0x2000"
definition SHELF_MUTEX :: u32 where "SHELF_MUTEX = 0x6666"

text \<open>Where a process is in its turn, with the number it is about to store.\<close>

datatype coffee_pc = Starts nat | Locks nat | Loads nat | Stores nat u64 | Unlocks nat | Notifies nat

fun coffee_maker :: "coffee_pc \<Rightarrow> u64 \<Rightarrow> (coffee_pc, u64) instr" where
  "coffee_maker (Starts i) s = (if i < TOTAL_PRODUCTION then WaitI FULL_CAPACITY (Locks i) else Halt)"
| "coffee_maker (Locks i) s = WaitI SHELF_MUTEX (Loads i)"
| "coffee_maker (Loads i) s = SetI s (Stores i (s + 1))"
| "coffee_maker (Stores i v) s = SetI v (Unlocks i)"
| "coffee_maker (Unlocks i) s = SignalI SHELF_MUTEX (Notifies i)"
| "coffee_maker (Notifies i) s = SignalI NON_EMPTY (Starts (i + 1))"

fun customer :: "coffee_pc \<Rightarrow> u64 \<Rightarrow> (coffee_pc, u64) instr" where
  "customer (Starts i) s = (if i < CONSUME_PER_CUSTOMER then WaitI NON_EMPTY (Locks i) else Halt)"
| "customer (Locks i) s = WaitI SHELF_MUTEX (Loads i)"
| "customer (Loads i) s = SetI s (Stores i (s - 1))"
| "customer (Stores i v) s = SetI v (Unlocks i)"
| "customer (Unlocks i) s = SignalI SHELF_MUTEX (Notifies i)"
| "customer (Notifies i) s = SignalI FULL_CAPACITY (Starts (i + 1))"

text \<open>The first child that \<open>main\<close> forks makes coffee, the others drink it.\<close>

definition coffee_code :: "(coffee_pc, u64) code" where
  "coffee_code p = (if p = 0 then coffee_maker else customer)"

definition coffee_start :: "(coffee_pc, u64) tasks" where
  "coffee_start =
     \<lparr>sems = snd (set_insert (snd (set_insert (snd (set_insert Map.empty NON_EMPTY 0))
                   FULL_CAPACITY (of_nat CUP_CAPACITY))) SHELF_MUTEX 1),
      pcs = (\<lambda>p. Starts 0), asleep = {}, shared = 0\<rparr>"

definition customers :: "pid set" where "customers = set (map of_nat [1..<TOTAL_CUSTOMERS + 1])"

definition coffee_tasks :: "pid set" where "coffee_tasks = insert 0 customers"

lemma customers_set: "customers = {1, 2, 3, 4, 5, 6, 7, 8, 9, 10}"
  by (auto simp: customers_def TOTAL_CUSTOMERS_def upt_rec)

lemma customers_facts [simp]: "finite customers" "card customers = 10" "0 \<notin> customers"
  by (simp_all add: customers_set)

section \<open>Counting permits\<close>

definition turns :: "pid \<Rightarrow> nat" where "turns p = (if p = 0 then 50 else 5)"

fun turn_of :: "coffee_pc \<Rightarrow> nat" where
  "turn_of (Starts i) = i" | "turn_of (Locks i) = i" | "turn_of (Loads i) = i" | "turn_of (Stores i v) = i"
| "turn_of (Unlocks i) = i" | "turn_of (Notifies i) = i"

fun is_start :: "coffee_pc \<Rightarrow> bool" where
  "is_start (Starts i) = True" | "is_start c = False"

fun is_locked :: "coffee_pc \<Rightarrow> bool" where
  "is_locked (Loads i) = True" | "is_locked (Stores i v) = True" | "is_locked (Unlocks i) = True"
| "is_locked c = False"

fun has_stored :: "coffee_pc \<Rightarrow> bool" where
  "has_stored (Unlocks i) = True" | "has_stored (Notifies i) = True" | "has_stored c = False"

text \<open>Turns begun, and turns whose number has been stored.\<close>

definition begun :: "coffee_pc \<Rightarrow> int" where "begun c = int (turn_of c) + of_bool (\<not> is_start c)"
definition stored :: "coffee_pc \<Rightarrow> int" where "stored c = int (turn_of c) + of_bool (has_stored c)"

definition coffee_held :: "u32 \<Rightarrow> pid \<Rightarrow> coffee_pc \<Rightarrow> int" where
  "coffee_held k p c =
     (if k = SHELF_MUTEX then of_bool (is_locked c)
      else if k = FULL_CAPACITY then (if p = 0 then begun c else - int (turn_of c))
      else if k = NON_EMPTY then (if p = 0 then - int (turn_of c) else begun c)
      else 0)"

definition coffee_permits :: "u32 \<Rightarrow> int" where
  "coffee_permits k = (if k = SHELF_MUTEX then 1 else if k = FULL_CAPACITY then 4 else 0)"

definition coffee_ok :: "pid \<Rightarrow> coffee_pc \<Rightarrow> bool" where
  "coffee_ok p c \<longleftrightarrow> (if is_start c then turn_of c \<le> turns p else turn_of c < turns p)"

fun stage :: "coffee_pc \<Rightarrow> nat" where
  "stage (Starts i) = 0" | "stage (Locks i) = 1" | "stage (Loads i) = 2" | "stage (Stores i v) = 3"
| "stage (Unlocks i) = 4" | "stage (Notifies i) = 5"

definition coffee_rank :: "pid \<Rightarrow> coffee_pc \<Rightarrow> nat" where
  "coffee_rank p c = 6 * (turns p - turn_of c) - stage c"

definition coffee_keys :: "u32 set" where "coffee_keys = {FULL_CAPACITY, NON_EMPTY, SHELF_MUTEX}"

lemma keys_differ [simp]:
  "FULL_CAPACITY \<noteq> NON_EMPTY" "NON_EMPTY \<noteq> FULL_CAPACITY" "SHELF_MUTEX \<noteq> NON_EMPTY" "NON_EMPTY \<noteq> SHELF_MUTEX"
  "SHELF_MUTEX \<noteq> FULL_CAPACITY" "FULL_CAPACITY \<noteq> SHELF_MUTEX"
  by (simp_all add: FULL_CAPACITY_def NON_EMPTY_def SHELF_MUTEX_def)

lemma coffee_totals [simp]: "TOTAL_PRODUCTION = 50" "CONSUME_PER_CUSTOMER = 5"
  by (simp_all add: TOTAL_PRODUCTION_def TOTAL_CUSTOMERS_def CONSUME_PER_CUSTOMER_def)

lemma coffee_held_low: "coffee_ok p c \<Longrightarrow> - 50 \<le> coffee_held k p c"
  by (auto simp: coffee_held_def coffee_ok_def turns_def begun_def split: if_splits)

lemma coffee_small:
  assumes "\<And>p. p \<in> coffee_tasks \<Longrightarrow> coffee_ok p (f p)"
  shows "coffee_permits k - (\<Sum>p\<in>coffee_tasks. coffee_held k p (f p)) < 2 ^ 64"
proof -
  have "(\<Sum>p\<in>coffee_tasks. - 50) \<le> (\<Sum>p\<in>coffee_tasks. coffee_held k p (f p))"
    using assms by (intro sum_mono coffee_held_low)
  moreover have "coffee_permits k \<le> 4" by (simp add: coffee_permits_def)
  ultimately have "coffee_permits k - (\<Sum>p\<in>coffee_tasks. coffee_held k p (f p)) < 18446744073709551616"
    by (simp add: coffee_tasks_def)
  then show ?thesis by simp
qed

interpretation cf: ranked coffee_code coffee_tasks coffee_keys coffee_held coffee_permits coffee_ok coffee_rank
proof
  show "finite coffee_tasks" by (simp add: coffee_tasks_def)
  fix p :: pid and c q :: coffee_pc and s s' :: u64 and k :: u32 and f :: "pid \<Rightarrow> coffee_pc"
  show "coffee_code p c s = WaitI k q \<Longrightarrow> coffee_code p c s' = WaitI k q"
    by (cases c) (auto simp: coffee_code_def split: if_splits)
  show "(\<And>p. p \<in> coffee_tasks \<Longrightarrow> coffee_ok p (f p)) \<Longrightarrow>
      coffee_permits k - (\<Sum>p\<in>coffee_tasks. coffee_held k p (f p)) < 2 ^ 64" by (rule coffee_small)
  assume ok: "coffee_ok p c"
  show "coffee_code p c s = WaitI k q \<Longrightarrow>
      coffee_ok p q \<and> k \<in> coffee_keys \<and> (\<forall>j. coffee_held j p q = coffee_held j p c + of_bool (j = k))"
    using ok by (cases c) (auto simp: coffee_code_def coffee_held_def coffee_ok_def turns_def begun_def coffee_keys_def split: if_splits)
  show "coffee_code p c s = SignalI k q \<Longrightarrow>
      coffee_ok p q \<and> k \<in> coffee_keys \<and> (\<forall>j. coffee_held j p q = coffee_held j p c - of_bool (j = k))"
    using ok by (cases c) (auto simp: coffee_code_def coffee_held_def coffee_ok_def turns_def begun_def coffee_keys_def split: if_splits)
  show "coffee_code p c s = SetI s' q \<Longrightarrow> coffee_ok p q \<and> (\<forall>j. coffee_held j p q = coffee_held j p c)"
    using ok by (cases c) (auto simp: coffee_code_def coffee_held_def coffee_ok_def begun_def split: if_splits)
  show "coffee_code p c s = WaitI k q \<Longrightarrow> coffee_rank p q < coffee_rank p c"
    "coffee_code p c s = SignalI k q \<Longrightarrow> coffee_rank p q < coffee_rank p c"
    "coffee_code p c s = SetI s' q \<Longrightarrow> coffee_rank p q < coffee_rank p c"
    using ok by (cases c; auto simp: coffee_code_def coffee_rank_def coffee_ok_def turns_def split: if_splits)+
qed

section \<open>The number of cups\<close>

definition net :: "pid \<Rightarrow> coffee_pc \<Rightarrow> int" where "net p c = (if p = 0 then stored c else - stored c)"

definition cups :: "(pid \<Rightarrow> coffee_pc) \<Rightarrow> int" where "cups f = (\<Sum>p\<in>coffee_tasks. net p (f p))"

fun coffee_knows :: "u64 \<Rightarrow> pid \<Rightarrow> coffee_pc \<Rightarrow> bool" where
  "coffee_knows s p (Stores i v) = (v = (if p = 0 then s + 1 else s - 1))"
| "coffee_knows s p c = True"

definition coffee_inv :: "(pid \<Rightarrow> coffee_pc) \<Rightarrow> u64 \<Rightarrow> bool" where
  "coffee_inv f s \<longleftrightarrow> cups f = int (unat s) \<and> (\<forall>p\<in>coffee_tasks. coffee_knows s p (f p))"

lemma cups_upd: "p \<in> coffee_tasks \<Longrightarrow> cups (f(p := q)) = cups f - net p (f p) + net p q"
  by (simp add: cups_def sum.remove [of coffee_tasks p] cf.finite_T)

text \<open>A cup is stored after its place was taken, and announced after it was stored.\<close>

lemma net_between: "- coffee_held NON_EMPTY p c \<le> net p c" "net p c \<le> coffee_held FULL_CAPACITY p c"
  by (cases c; simp add: net_def coffee_held_def stored_def begun_def)+

lemma cups_between: "- cf.taken NON_EMPTY w \<le> cups (pcs w)" "cups (pcs w) \<le> cf.taken FULL_CAPACITY w"
  by (auto simp: cf.taken_def cups_def sum_negf [symmetric] intro!: sum_mono net_between)

lemma coffee_keys_in [simp]: "FULL_CAPACITY \<in> coffee_keys" "NON_EMPTY \<in> coffee_keys" "SHELF_MUTEX \<in> coffee_keys"
  by (simp_all add: coffee_keys_def)

lemma coffee_permits_eq [simp]:
  "coffee_permits FULL_CAPACITY = 4" "coffee_permits NON_EMPTY = 0" "coffee_permits SHELF_MUTEX = 1"
  by (simp_all add: coffee_permits_def)

lemma cups_bounded: "cf.sane w \<Longrightarrow> 0 \<le> cups (pcs w) \<and> cups (pcs w) \<le> 4"
  using cups_between [of w] cf.taken_le [of w FULL_CAPACITY] cf.taken_le [of w NON_EMPTY] by auto

lemma shelf_alone:
  assumes "cf.sane w" "p \<in> coffee_tasks" "q \<in> coffee_tasks" "is_locked (pcs w p)" "is_locked (pcs w q)"
  shows "p = q"
proof (rule ccontr)
  assume "p \<noteq> q"
  then show False
    using cf.taken_two [OF assms(2, 3), where k = SHELF_MUTEX and w = w] cf.taken_le [OF assms(1), of SHELF_MUTEX] assms(4, 5)
    by (simp add: coffee_held_def)
qed

lemma coffee_move:
  assumes "p \<in> coffee_tasks" "coffee_inv f s"
    "coffee_code p (f p) s = WaitI k q \<or> coffee_code p (f p) s = SignalI k q"
  shows "coffee_inv (f(p := q)) s"
proof -
  have "net p q = net p (f p) \<and> coffee_knows s p q"
    using assms(3) by (cases "f p") (auto simp: coffee_code_def net_def stored_def split: if_splits)
  then show ?thesis using assms(1, 2) cups_upd [OF assms(1), of f q] by (simp add: coffee_inv_def)
qed

text \<open>Storing changes the number by one, and it stays between 0 and 4: the word does not wrap.\<close>

lemma coffee_store:
  assumes w: "cf.sane w" "p \<in> coffee_tasks" "coffee_inv (pcs w) (shared w)" and c: "pcs w p = Stores i v"
  shows "int (unat v) = cups ((pcs w)(p := Unlocks i))" "p \<noteq> 0 \<Longrightarrow> shared w \<noteq> 0"
proof -
  have s: "cups (pcs w) = int (unat (shared w))" and v: "v = (if p = 0 then shared w + 1 else shared w - 1)"
    using w(2, 3) c by (auto simp: coffee_inv_def dest: bspec [of _ _ p])
  let ?w = "w\<lparr>pcs := (pcs w)(p := Unlocks i)\<rparr>"
  have step: "cups (pcs ?w) = cups (pcs w) + (if p = 0 then 1 else - 1)"
    using cups_upd [OF w(2), of "pcs w" "Unlocks i"] by (simp add: c net_def stored_def)
  have "cf.taken k ?w = cf.taken k w" for k
    using cf.taken_upd [OF w(2), where k = k and w = w and q = "Unlocks i"]
    by (simp add: cf.taken_def c coffee_held_def begun_def)
  then have b: "0 \<le> cups (pcs ?w)" "cups (pcs ?w) \<le> 4"
    using cups_between [of ?w] cf.taken_le [OF w(1), of FULL_CAPACITY] cf.taken_le [OF w(1), of NON_EMPTY] by auto
  have "unat (shared w) < 4" if "p = 0"
  proof -
    have "cups (pcs ?w) = cups (pcs w) + 1" using step that by simp
    then show ?thesis using b(2) s by linarith
  qed
  then have "unat (shared w + 1) = unat (shared w) + 1" if "p = 0" using that by (simp add: unat_word_ariths)
  then have "int (unat (shared w + 1)) = int (unat (shared w)) + 1" if "p = 0" using that by (metis of_nat_1 of_nat_add)
  moreover have nz: "shared w \<noteq> 0" if "p \<noteq> 0" using b(1) step s that by auto
  then have "int (unat (shared w - 1)) = int (unat (shared w)) - 1" if "p \<noteq> 0"
    using that by (simp add: unat_minus_one unat_gt_0 of_nat_diff Suc_leI)
  ultimately show "int (unat v) = cups ((pcs w)(p := Unlocks i))" using step s v by auto
  show "p \<noteq> 0 \<Longrightarrow> shared w \<noteq> 0" by (rule nz)
qed

lemma coffee_set:
  assumes w: "cf.sane w" "p \<in> coffee_tasks" "coffee_inv (pcs w) (shared w)"
    and c: "coffee_code p (pcs w p) (shared w) = SetI s q"
  shows "coffee_inv ((pcs w)(p := q)) s"
proof (cases "pcs w p")
  case (Loads i)
  then have "s = shared w" "q = Stores i (if p = 0 then s + 1 else s - 1)"
    using c by (auto simp: coffee_code_def split: if_splits)
  then show ?thesis using w(2, 3) cups_upd [OF w(2), of "pcs w" q] Loads
    by (simp add: coffee_inv_def net_def stored_def)
next
  case (Stores i v)
  then have q: "s = v" "q = Unlocks i" using c by (auto simp: coffee_code_def split: if_splits)
  have "coffee_knows s x (pcs w x)" if "x \<in> coffee_tasks" "x \<noteq> p" for x
    using shelf_alone [OF w(1) that(1) w(2)] that(2) Stores by (cases "pcs w x") auto
  then show ?thesis using coffee_store(1) [OF w Stores] by (simp add: coffee_inv_def q)
qed (use c in \<open>auto simp: coffee_code_def split: if_splits\<close>)

section \<open>The properties\<close>

lemma coffee_sane_start: "cf.sane coffee_start"
proof (rule cf.sane_start)
  show "\<exists>n. sems coffee_start k = Some (semaphore_new n) \<and> int (unat n) = coffee_permits k" if "k \<in> coffee_keys" for k
    using that by (auto simp: coffee_keys_def coffee_start_def set_insert_def CUP_CAPACITY_def)
  show "cf.taken k coffee_start = 0" for k
    by (auto simp: coffee_start_def cf.taken_def coffee_held_def begun_def intro!: sum.neutral)
qed (simp_all add: coffee_start_def coffee_ok_def)

lemma coffee_run:
  assumes "set ps \<subseteq> coffee_tasks" "run_tasks coffee_code ps coffee_start = Some w"
  shows "cf.sane w \<and> coffee_inv (pcs w) (shared w)"
proof (rule cf.run_inv [where keeps = coffee_inv, OF _ _ assms(2, 1) coffee_sane_start])
  show "coffee_inv (pcs coffee_start) (shared coffee_start)"
    by (auto simp: coffee_inv_def coffee_start_def cups_def net_def stored_def intro!: sum.neutral)
qed (rule coffee_move coffee_set; assumption)+

text \<open>
  C27: In every run there are at most as many cups as the shelf has places, and a customer never takes a cup from an
  empty shelf: the subtraction does not wrap.
\<close>

theorem coffee_bounded:
  assumes "set ps \<subseteq> coffee_tasks" "run_tasks coffee_code ps coffee_start = Some w"
  shows "unat (shared w) \<le> CUP_CAPACITY \<and>
    (\<forall>p\<in>customers. \<forall>i v. pcs w p = Stores i v \<longrightarrow> shared w \<noteq> 0 \<and> v = shared w - 1)"
proof -
  have w: "cf.sane w" "coffee_inv (pcs w) (shared w)" using coffee_run [OF assms] by simp_all
  have "int (unat (shared w)) \<le> 4" using cups_bounded [OF w(1)] w(2) by (simp add: coffee_inv_def)
  then have "unat (shared w) \<le> CUP_CAPACITY" unfolding CUP_CAPACITY_def by linarith
  moreover have "shared w \<noteq> 0 \<and> v = shared w - 1" if "p \<in> customers" "pcs w p = Stores i v" for p i v
  proof -
    have p: "p \<in> coffee_tasks" "p \<noteq> 0" using that(1) by (auto simp: coffee_tasks_def)
    then have "coffee_knows (shared w) p (pcs w p)" using w(2) by (auto simp: coffee_inv_def)
    then show ?thesis using coffee_store(2) [OF w(1) p(1) w(2) that(2) p(2)] p(2) by (simp add: that(2))
  qed
  ultimately show ?thesis by blast
qed

theorem coffee_bounded_witness:
  "\<exists>w. run_tasks coffee_code [1, 0, 0, 0, 0, 0, 0, 1, 1] coffee_start = Some w \<and> shared w = 1 \<and>
    pcs w 1 = Stores 0 0 \<and> unat (shared w) \<le> CUP_CAPACITY"
proof -
  have "\<exists>w. run_tasks coffee_code [1, 0, 0, 0, 0, 0, 0, 1, 1] coffee_start = Some w \<and> shared w = 1 \<and> pcs w 1 = Stores 0 0"
    by (simp add: coffee_start_def task_step_def set_insert_def set_wait_def set_signal_def semaphore_new_def
        semaphore_wait_def semaphore_signal_def resume_def coffee_code_def CUP_CAPACITY_def)
  then show ?thesis using coffee_bounded [of "[1, 0, 0, 0, 0, 0, 0, 1, 1]"] by (auto simp: coffee_tasks_def customers_set)
qed

text \<open>A state in which nobody can go on: everybody is at the start of a turn.\<close>

lemma coffee_stuck_starts:
  assumes w: "cf.sane w" "stuck coffee_code coffee_tasks w" and p: "p \<in> coffee_tasks"
  shows "is_start (pcs w p)"
proof -
  have waits: "is_start (pcs w x) \<or> (\<exists>i. pcs w x = Locks i)" if "x \<in> coffee_tasks" for x
    using stuck_halted [OF w(2) that] cf.saneD(3) [OF w(1), of x]
    by (cases "pcs w x") (auto simp: sleeping_on_def coffee_code_def split: if_splits)
  have "cf.taken SHELF_MUTEX w = 0"
    unfolding cf.taken_def using waits by (intro sum.neutral) (force simp: coffee_held_def elim: is_locked.elims)
  then have awake: "\<not> sleeping_on coffee_code SHELF_MUTEX w x" for x
    using cf.sem_sane_sleeping [OF cf.saneD(4) [OF w(1)], of SHELF_MUTEX x] by auto
  show ?thesis
  proof (rule ccontr)
    assume "\<not> is_start (pcs w p)"
    then obtain i where i: "pcs w p = Locks i" using waits [OF p] by auto
    then have "p \<in> asleep w" using stuck_halted [OF w(2) p] by (auto simp: coffee_code_def split: if_splits)
    moreover have "coffee_code p (Locks i) (shared w) = WaitI SHELF_MUTEX (Loads i)" by (simp add: coffee_code_def)
    ultimately show False using awake [of p] by (simp add: sleeping_on_def i)
  qed
qed

lemma coffee_stuck_ends:
  assumes w: "cf.sane w" "stuck coffee_code coffee_tasks w"
  shows "cups (pcs w) = 0 \<and> (\<forall>p\<in>coffee_tasks. pcs w p = Starts (turns p))"
proof -
  define n where "n p = int (turn_of (pcs w p))" for p
  have start: "begun (pcs w p) = n p" "stored (pcs w p) = n p" if "p \<in> coffee_tasks" for p
    using coffee_stuck_starts [OF w that] by (cases "pcs w p"; simp add: begun_def stored_def n_def)+
  have most: "n p \<le> (if p = 0 then 50 else 5)" if "p \<in> coffee_tasks" for p
    using cf.saneD(1) [OF w(1) that] coffee_stuck_starts [OF w that] by (auto simp: coffee_ok_def turns_def n_def split: if_splits)
  define drunk where "drunk = (\<Sum>p\<in>customers. n p)"
  have each: "coffee_held FULL_CAPACITY p (pcs w p) = - n p" "coffee_held NON_EMPTY p (pcs w p) = n p"
      "net p (pcs w p) = - n p" if "p \<in> customers" for p
    using start [of p] that by (auto simp: coffee_held_def net_def n_def coffee_tasks_def)
  have zero: "0 \<in> coffee_tasks" by (simp add: coffee_tasks_def)
  have split: "(\<Sum>p\<in>coffee_tasks. f p) = f 0 + (\<Sum>p\<in>customers. f p)" for f :: "pid \<Rightarrow> int" by (simp add: coffee_tasks_def)
  have full: "cf.taken FULL_CAPACITY w = n 0 - drunk"
    using each start [OF zero] by (simp add: cf.taken_def split drunk_def sum_negf coffee_held_def [of _ 0])
  have empty: "cf.taken NON_EMPTY w = drunk - n 0"
    using each by (simp add: cf.taken_def split drunk_def coffee_held_def [of _ 0] n_def [of 0])
  have all: "cups (pcs w) = n 0 - drunk"
    using each start [OF zero] by (simp add: cups_def split drunk_def sum_negf net_def [of 0])
  have five: "n p \<le> 5" if "p \<in> customers" for p
    using most [of p] that by (auto simp: coffee_tasks_def split: if_splits)
  have drunk: "drunk \<le> 50" using sum_mono [of customers n "\<lambda>p. 5", OF five] by (simp add: drunk_def)
  have sleeps: "\<exists>k. sleeping_on coffee_code k w p \<and> cf.taken k w = coffee_permits k"
    if "p \<in> coffee_tasks" "n p < (if p = 0 then 50 else 5)" for p
  proof -
    have "coffee_code p (pcs w p) (shared w) \<noteq> Halt"
      using that coffee_stuck_starts [OF w that(1)] by (cases "pcs w p") (auto simp: coffee_code_def n_def split: if_splits)
    then show ?thesis using cf.stuck_sleeper [OF w that(1)] by metis
  qed
  have on: "k = (if p = 0 then FULL_CAPACITY else NON_EMPTY)" if "p \<in> coffee_tasks" "sleeping_on coffee_code k w p" for p k
    using that coffee_stuck_starts [OF w that(1)]
    by (cases "pcs w p") (auto simp: sleeping_on_def coffee_code_def split: if_splits)
  have customer: "drunk = n 0" if p: "p \<in> customers" "n p < 5" for p
  proof -
    have "p \<in> coffee_tasks" "p \<noteq> 0" using p(1) by (auto simp: coffee_tasks_def)
    note pp = this
    obtain k where "sleeping_on coffee_code k w p" and k: "cf.taken k w = coffee_permits k"
      using sleeps [OF pp(1)] p(2) pp(2) by auto
    with on [OF pp(1), of k] pp(2) have "k = NON_EMPTY" by simp
    with k show ?thesis using empty by simp
  qed
  have maker: "n 0 - drunk = 4" if less: "n 0 < 50"
  proof -
    obtain k where "sleeping_on coffee_code k w 0" and k: "cf.taken k w = coffee_permits k"
      using sleeps [OF zero] less by auto
    with on [OF zero, of k] have "k = FULL_CAPACITY" by simp
    with k show ?thesis using full by simp
  qed
  have "drunk = n 0"
  proof (cases "\<exists>p\<in>customers. n p < 5")
    case True
    then show ?thesis using customer by blast
  next
    case False
    then have "n p = 5" if "p \<in> customers" for p using five [OF that] that by force
    then have "drunk = 50" by (simp add: drunk_def)
    then show ?thesis using maker most [OF zero] by force
  qed
  then have maker_done: "n 0 = 50" using maker most [OF zero] by force
  have drank: "n p = 5" if p: "p \<in> customers" for p
  proof (rule ccontr)
    assume "n p \<noteq> 5"
    then have "n p < 5" using five [OF p] by simp
    then have "drunk < (\<Sum>p\<in>customers. 5)" unfolding drunk_def
      using five p by (intro sum_strict_mono_ex1) auto
    then show False using \<open>drunk = n 0\<close> maker_done by simp
  qed
  have "pcs w p = Starts (turns p)" if "p \<in> coffee_tasks" for p
    using coffee_stuck_starts [OF w that] maker_done drank [of p] that
    by (cases "pcs w p") (auto simp: n_def turns_def coffee_tasks_def)
  with all \<open>drunk = n 0\<close> show ?thesis by simp
qed

text \<open>Every run is short, and a run that is not stuck goes on.\<close>

lemma coffee_length:
  assumes "set ps \<subseteq> coffee_tasks" "run_tasks coffee_code ps coffee_start = Some w"
  shows "length ps \<le> 1211"
proof -
  have "cf.energy coffee_start = 1211"
    unfolding cf.energy_def by (simp add: coffee_start_def coffee_tasks_def coffee_rank_def turns_def customers_set)
  then show ?thesis using cf.run_bounded [OF assms(2, 1) coffee_sane_start] by simp
qed

lemma coffee_extends:
  assumes "set ps \<subseteq> coffee_tasks" "run_tasks coffee_code ps coffee_start = Some w"
  shows "\<exists>qs w'. set qs \<subseteq> coffee_tasks \<and> run_tasks coffee_code (ps @ qs) coffee_start = Some w' \<and>
    stuck coffee_code coffee_tasks w'"
  using assms
proof (induction "1211 - length ps" arbitrary: ps w rule: less_induct)
  case less
  show ?case
  proof (cases "stuck coffee_code coffee_tasks w")
    case True
    with less.prems show ?thesis by (intro exI [of _ "[]"]) auto
  next
    case False
    then obtain p w1 where p: "p \<in> coffee_tasks" "task_step coffee_code p w = Some w1" by (auto simp: stuck_def)
    have sub: "set (ps @ [p]) \<subseteq> coffee_tasks" and run: "run_tasks coffee_code (ps @ [p]) coffee_start = Some w1"
      using less.prems p by (auto simp: run_tasks_append)
    have "1211 - length (ps @ [p]) < 1211 - length ps" using coffee_length [OF sub run] by simp
    from less.hyps [OF this sub run] obtain qs w' where "set qs \<subseteq> coffee_tasks"
      "run_tasks coffee_code ((ps @ [p]) @ qs) coffee_start = Some w'" "stuck coffee_code coffee_tasks w'" by blast
    with p(1) show ?thesis by (intro exI [of _ "p # qs"] exI [of _ w']) simp
  qed
qed

text \<open>
  C28: However the producer and the consumers are scheduled, they stop after at most 1211 steps, and every run can be
  continued to such an end. When nobody can go on, nobody sleeps: the producer has made its 50 cups, every
  customer has drunk its five, and the shelf is empty.
\<close>

theorem coffee_ends:
  assumes "set ps \<subseteq> coffee_tasks" "run_tasks coffee_code ps coffee_start = Some w"
  shows "length ps \<le> 1211 \<and>
    (\<exists>qs w'. set qs \<subseteq> coffee_tasks \<and> run_tasks coffee_code (ps @ qs) coffee_start = Some w' \<and>
       stuck coffee_code coffee_tasks w') \<and>
    (stuck coffee_code coffee_tasks w \<longrightarrow>
       asleep w = {} \<and> shared w = 0 \<and> pcs w 0 = Starts TOTAL_PRODUCTION \<and>
       (\<forall>p\<in>customers. pcs w p = Starts CONSUME_PER_CUSTOMER))"
proof (intro conjI impI)
  assume st: "stuck coffee_code coffee_tasks w"
  have w: "cf.sane w" "coffee_inv (pcs w) (shared w)" using coffee_run [OF assms] by simp_all
  note ends = coffee_stuck_ends [OF w(1) st]
  have at: "pcs w p = Starts (if p = 0 then 50 else 5)" if "p \<in> coffee_tasks" for p
    using ends that by (auto simp: turns_def)
  have "int (unat (shared w)) = 0" using ends w(2) unfolding coffee_inv_def by metis
  then have "unat (shared w) = 0" by (simp only: of_nat_eq_0_iff)
  then show "shared w = 0" by (simp add: word_unat_eq_iff)
  show "pcs w 0 = Starts TOTAL_PRODUCTION" using at [of 0] by (simp add: coffee_tasks_def)
  show "\<forall>p\<in>customers. pcs w p = Starts CONSUME_PER_CUSTOMER" using at by (auto simp: coffee_tasks_def)
  show "asleep w = {}"
  proof (rule ccontr)
    assume "asleep w \<noteq> {}"
    then obtain p where "p \<in> asleep w" by blast
    with cf.saneD(2, 3) [OF w(1)] obtain k where "p \<in> coffee_tasks" "sleeping_on coffee_code k w p" by blast
    then show False using at by (auto simp: sleeping_on_def coffee_code_def split: if_splits)
  qed
qed (rule coffee_length [OF assms] coffee_extends [OF assms])+

theorem coffee_ends_witness:
  "\<exists>qs w. run_tasks coffee_code ([0, 0, 0, 0] @ qs) coffee_start = Some w \<and> stuck coffee_code coffee_tasks w \<and>
    asleep w = {} \<and> pcs w 0 = Starts TOTAL_PRODUCTION \<and> pcs w 7 = Starts CONSUME_PER_CUSTOMER"
proof -
  have sub: "set [0, 0, 0, 0] \<subseteq> coffee_tasks" by (simp add: coffee_tasks_def)
  have "\<exists>w. run_tasks coffee_code [0, 0, 0, 0] coffee_start = Some w"
    by (simp add: coffee_start_def task_step_def set_insert_def set_wait_def semaphore_new_def
        semaphore_wait_def coffee_code_def CUP_CAPACITY_def)
  then obtain w0 where "run_tasks coffee_code [0, 0, 0, 0] coffee_start = Some w0" by blast
  from coffee_ends [OF sub this] obtain qs w where more: "set qs \<subseteq> coffee_tasks"
    and w: "run_tasks coffee_code ([0, 0, 0, 0] @ qs) coffee_start = Some w" "stuck coffee_code coffee_tasks w" by blast
  have "set ([0, 0, 0, 0] @ qs) \<subseteq> coffee_tasks" using sub more by simp
  moreover have "(7 :: pid) \<in> customers" by (simp add: customers_set)
  ultimately show ?thesis using coffee_ends [OF _ w(1)] w by blast
qed

end
