(* ===== verification/Fish.thy ===== *)
theory Fish
  imports Tasks
begin

text \<open>
  Three processes that print one fish after the other, \<open>pkg/app/fish/src/main.rs\<close>: each prints one
  character and passes the turn on through the semaphore of the next. An access to a shared
  number is a step; \<open>broadcast_exit\<close> and the output count as the calls they make.
\<close>

section \<open>The program\<close>

definition SEM_GT :: u32 where "SEM_GT = 0x3001"
definition SEM_LT :: u32 where "SEM_LT = 0x3002"
definition SEM_US :: u32 where "SEM_US = 0x3003"
definition FISH_MUTEX :: u32 where "FISH_MUTEX = 0x3004"

definition TOTAL_PRINTS :: u64 where "TOTAL_PRINTS = 400"

record fish =
  STEP :: u64
  PATTERN :: u8
  PRINT_COUNT :: u64
  shown :: "u8 list"

text \<open>\<open>None\<close> is \<open>unreachable!\<close>.\<close>

definition next_sem :: "u8 \<Rightarrow> u64 \<Rightarrow> u32 option" where
  "next_sem pat st =
     (if pat = 0 then
        (if st = 0 then Some SEM_LT else if st = 1 then Some SEM_GT else if st = 2 then Some SEM_LT
         else if st = 3 then Some SEM_US else None)
      else
        (if st = 0 then Some SEM_GT else if st = 1 then Some SEM_LT else if st = 2 then Some SEM_GT
         else if st = 3 then Some SEM_US else None))"

text \<open>
  Where a process is in its loop, with the number it is about to store. \<open>Tells\<close>: in
  \<open>broadcast_exit\<close>; \<open>Fails\<close>: it has panicked.
\<close>

datatype fish_pc =
  Sleeps | Locks | Checks | Tells nat | Quits | Gone | Prints | Counts | Counted u64 | Advances | Advanced u64
| Tests | Wraps | Flips | Flipped u8 | Picks | Matches u8 | Wakes u32 | Unlocks | Fails

text \<open>The children in the order of \<open>main\<close>: \<open>fish_gt\<close>, \<open>fish_lt\<close> and \<open>fish_us\<close>.\<close>

definition own_sem :: "pid \<Rightarrow> u32" where "own_sem p = (if p = 0 then SEM_GT else if p = 1 then SEM_LT else SEM_US)"

definition glyph :: "pid \<Rightarrow> u8" where "glyph p = (if p = 0 then 0x3E else if p = 1 then 0x3C else 0x5F)"

fun fish_code :: "pid \<Rightarrow> fish_pc \<Rightarrow> fish \<Rightarrow> (fish_pc, fish) instr" where
  "fish_code p Sleeps s = WaitI (own_sem p) Locks"
| "fish_code p Locks s = WaitI FISH_MUTEX Checks"
| "fish_code p Checks s = SetI s (if TOTAL_PRINTS \<le> PRINT_COUNT s then Tells 0 else Prints)"
| "fish_code p (Tells i) s =
     SignalI (if i = 0 then SEM_GT else if i = 1 then SEM_LT else SEM_US) (if i < 2 then Tells (i + 1) else Quits)"
| "fish_code p Quits s = SignalI FISH_MUTEX Gone"
| "fish_code p Gone s = Halt"
| "fish_code p Prints s = SetI (s\<lparr>shown := shown s @ [glyph p]\<rparr>) Counts"
| "fish_code p Counts s = SetI s (Counted (PRINT_COUNT s + 1))"
| "fish_code p (Counted v) s = SetI (s\<lparr>PRINT_COUNT := v\<rparr>) Advances"
| "fish_code p Advances s = SetI s (Advanced (STEP s + 1))"
| "fish_code p (Advanced v) s = SetI (s\<lparr>STEP := v\<rparr>) Tests"
| "fish_code p Tests s = SetI s (if STEP s < 4 then Picks else Wraps)"
| "fish_code p Wraps s = SetI (s\<lparr>STEP := 0\<rparr>) Flips"
| "fish_code p Flips s = SetI s (Flipped ((PATTERN s + 1) mod 2))"
| "fish_code p (Flipped v) s = SetI (s\<lparr>PATTERN := v\<rparr>) Picks"
| "fish_code p Picks s = SetI s (Matches (PATTERN s))"
| "fish_code p (Matches v) s = SetI s (case next_sem v (STEP s) of Some k \<Rightarrow> Wakes k | None \<Rightarrow> Fails)"
| "fish_code p (Wakes k) s = SignalI k Unlocks"
| "fish_code p Unlocks s = SignalI FISH_MUTEX Sleeps"
| "fish_code p Fails s = Halt"

text \<open>What \<open>main\<close> sets up before it forks: the semaphores, and the first permit for \<open>fish_lt\<close>.\<close>

definition fish_sems :: semaphore_set where
  "fish_sems =
     snd (set_signal
       (snd (set_insert (snd (set_insert (snd (set_insert (snd (set_insert Map.empty SEM_GT 0)) SEM_LT 0)) SEM_US 0))
          FISH_MUTEX 1)) SEM_LT)"

definition fish_start :: "(fish_pc, fish) tasks" where
  "fish_start =
     \<lparr>sems = fish_sems, pcs = (\<lambda>p. Sleeps), asleep = {},
      shared = \<lparr>STEP = 0, PATTERN = 0, PRINT_COUNT = 0, shown = []\<rparr>\<rparr>"

definition fishes :: "pid set" where "fishes = {0, 1, 2}"

section \<open>Whose turn it is\<close>

definition turn :: "nat \<Rightarrow> pid" where "turn n = [1, 0, 1, 2, 0, 1, 0, 2] ! (n mod 8)"

text \<open>\<open><><_><>_\<close>, fifty times\<close>

definition fish_text :: "u8 list" where
  "fish_text = concat (replicate 50 [0x3C, 0x3E, 0x3C, 0x5F, 0x3E, 0x3C, 0x3E, 0x5F])"

lemma sem_values: "SEM_GT = 0x3001" "SEM_LT = 0x3002" "SEM_US = 0x3003" "FISH_MUTEX = 0x3004"
  by (simp_all add: SEM_GT_def SEM_LT_def SEM_US_def FISH_MUTEX_def)

lemma own_sem_eq: "p \<in> fishes \<Longrightarrow> q \<in> fishes \<Longrightarrow> own_sem p = own_sem q \<longleftrightarrow> p = q"
  by (auto simp: fishes_def own_sem_def sem_values)

lemma own_sem_mutex [simp]: "own_sem p \<noteq> FISH_MUTEX" "FISH_MUTEX \<noteq> own_sem p"
  by (auto simp: own_sem_def sem_values)

lemma fish_less_8: "v < 8 \<Longrightarrow> v \<in> {0, 1, 2, 3, 4, 5, 6, 7 :: nat}"
  by (simp only: insert_iff empty_iff) presburger

lemmas mod_8 = fish_less_8 [of "n mod 8" for n, OF mod_less_divisor, OF zero_less_numeral]

lemma mod_4_8: "n mod 4 = (n mod 8) mod (4 :: nat)" "n div 4 mod 2 = (n mod 8) div (4 :: nat)"
proof -
  show "n mod 4 = (n mod 8) mod 4" by (rule mod_mod_cancel [symmetric]) simp
  have "n mod (4 * 2) = 4 * (n div 4 mod 2) + n mod 4" by (rule mod_mult2_eq)
  then show "n div 4 mod 2 = (n mod 8) div 4" by simp
qed

lemma turn_in [simp]: "turn n \<in> fishes"
  using mod_8 [of n] by (auto simp: turn_def fishes_def)

lemma turn_Suc: "turn (Suc n) \<noteq> turn n"
  using mod_8 [of n] by (auto simp: turn_def mod_Suc)

lemma next_turn: "next_sem (of_nat (n div 4 mod 2)) (of_nat (n mod 4)) = Some (own_sem (turn n))"
  unfolding mod_4_8 [of n] turn_def using mod_8 [of n] by (auto simp: next_sem_def own_sem_def)

lemma concat_replicate_nth: "length xs = 8 \<Longrightarrow> i < 8 * k \<Longrightarrow> concat (replicate k xs) ! i = xs ! (i mod 8)"
proof (induction k arbitrary: i)
  case (Suc k)
  show ?case
  proof (cases "i < 8")
    case False
    then have "concat (replicate k xs) ! (i - 8) = xs ! ((i - 8) mod 8)" using Suc.prems by (intro Suc.IH) simp_all
    moreover have "(i - 8) mod 8 = i mod 8" using False by (simp add: le_mod_geq [of 8 i])
    ultimately show ?thesis using False Suc.prems(1) by (simp add: nth_append)
  qed (use Suc.prems(1) in \<open>simp add: nth_append\<close>)
qed simp

lemma length_fish_text [simp]: "length fish_text = 400"
  by (simp add: fish_text_def length_concat sum_list_replicate)

lemma fish_text_turn:
  assumes "n < 400"
  shows "fish_text ! n = glyph (turn n)"
proof -
  have "fish_text ! n = [0x3C, 0x3E, 0x3C, 0x5F, 0x3E, 0x3C, 0x3E, 0x5F] ! (n mod 8)"
    unfolding fish_text_def by (rule concat_replicate_nth) (use assms in simp_all)
  then show ?thesis using mod_8 [of n] by (auto simp: turn_def glyph_def)
qed

lemma fish_text_Suc: "n < 400 \<Longrightarrow> take n fish_text @ [glyph (turn n)] = take (Suc n) fish_text"
  by (simp add: take_Suc_conv_app_nth fish_text_turn)

section \<open>The turns\<close>

text \<open>The numbers when \<open>n\<close> characters are counted, and on the way there.\<close>

definition at_step :: "nat \<Rightarrow> fish \<Rightarrow> bool" where "at_step n s \<longleftrightarrow> STEP s = of_nat (n mod 4)"
definition at_pattern :: "nat \<Rightarrow> fish \<Rightarrow> bool" where "at_pattern n s \<longleftrightarrow> PATTERN s = of_nat (n div 4 mod 2)"
definition at_count :: "nat \<Rightarrow> fish \<Rightarrow> bool" where "at_count n s \<longleftrightarrow> PRINT_COUNT s = of_nat n"
definition counted :: "nat \<Rightarrow> fish \<Rightarrow> bool" where "counted n s \<longleftrightarrow> at_count n s \<and> at_step n s \<and> at_pattern n s"

fun passing :: "nat \<Rightarrow> fish_pc \<Rightarrow> fish \<Rightarrow> bool" where
  "passing n Counts s = counted n s"
| "passing n (Counted v) s = (counted n s \<and> v = of_nat (Suc n))"
| "passing n Advances s = (at_count (Suc n) s \<and> at_step n s \<and> at_pattern n s)"
| "passing n (Advanced v) s = (at_count (Suc n) s \<and> at_pattern n s \<and> v = of_nat (n mod 4) + 1)"
| "passing n Tests s = (at_count (Suc n) s \<and> at_pattern n s \<and> STEP s = of_nat (n mod 4) + 1)"
| "passing n Wraps s = (at_count (Suc n) s \<and> at_pattern n s \<and> Suc n mod 4 = 0)"
| "passing n Flips s = (at_count (Suc n) s \<and> at_pattern n s \<and> at_step (Suc n) s \<and> Suc n mod 4 = 0)"
| "passing n (Flipped v) s = (at_count (Suc n) s \<and> at_step (Suc n) s \<and> v = of_nat (Suc n div 4 mod 2))"
| "passing n Picks s = counted (Suc n) s"
| "passing n (Matches v) s = (counted (Suc n) s \<and> v = of_nat (Suc n div 4 mod 2))"
| "passing n (Wakes k) s = (counted (Suc n) s \<and> k = own_sem (turn (Suc n)))"
| "passing n c s = False"

lemma fish_less_4: "v < 4 \<Longrightarrow> v \<in> {0, 1, 2, 3 :: nat}"
  by (simp only: insert_iff empty_iff) presburger

lemmas mod_4 = fish_less_4 [of "n mod 4" for n, OF mod_less_divisor, OF zero_less_numeral]

lemma step_up:
  "1 + of_nat (n mod 4) < (4 :: u64) \<longleftrightarrow> Suc n mod 4 \<noteq> 0"
  "Suc n mod 4 \<noteq> 0 \<Longrightarrow> 1 + of_nat (n mod 4) = (of_nat (Suc n mod 4) :: u64)"
  "Suc n mod 4 \<noteq> 0 \<Longrightarrow> n div 4 mod 2 = Suc n div 4 mod 2"
proof -
  show "1 + of_nat (n mod 4) < (4 :: u64) \<longleftrightarrow> Suc n mod 4 \<noteq> 0"
    "Suc n mod 4 \<noteq> 0 \<Longrightarrow> 1 + of_nat (n mod 4) = (of_nat (Suc n mod 4) :: u64)"
    unfolding mod_Suc using mod_4 [of n] by auto
  show "Suc n mod 4 \<noteq> 0 \<Longrightarrow> n div 4 mod 2 = Suc n div 4 mod 2" by (simp add: div_Suc)
qed

lemma pattern_flips: "Suc n mod 4 = 0 \<Longrightarrow> (1 + of_nat (n div 4 mod 2)) mod 2 = (of_nat (Suc n div 4 mod 2) :: u8)"
proof -
  assume n: "Suc n mod 4 = 0"
  have "n div 4 mod 2 = 0 \<or> n div 4 mod 2 = 1" by linarith
  then show ?thesis using n by (auto simp: div_Suc mod_Suc)
qed

lemma passing_set:
  assumes "passing n c s" "fish_code p c s = SetI s' c'"
  shows "passing n c' s' \<and> shown s' = shown s"
  using assms by (cases c; auto simp: counted_def at_count_def at_step_def at_pattern_def step_up pattern_flips next_turn
      algebra_simps)

section \<open>Steps of one process\<close>

text \<open>
  A process that waits for its turn, one that has been called, one past its semaphore, and one
  that sleeps on the mutex.
\<close>

type_synonym fishery = "(fish_pc, fish) tasks"

definition idle :: "fishery \<Rightarrow> pid \<Rightarrow> bool" where
  "idle w p \<longleftrightarrow> pcs w p = Sleeps \<and>
     sems w (own_sem p) = Some \<lparr>sem_count = 0, sem_queue = (if p \<in> asleep w then [p] else [])\<rparr>"

definition called :: "fishery \<Rightarrow> pid \<Rightarrow> bool" where
  "called w p \<longleftrightarrow> pcs w p = Sleeps \<and> p \<notin> asleep w \<and> sems w (own_sem p) = Some \<lparr>sem_count = 1, sem_queue = []\<rparr>"

definition at_pc :: "fishery \<Rightarrow> pid \<Rightarrow> fish_pc \<Rightarrow> bool" where
  "at_pc w p c \<longleftrightarrow> pcs w p = c \<and> p \<notin> asleep w \<and> sems w (own_sem p) = Some \<lparr>sem_count = 0, sem_queue = []\<rparr>"

definition entering :: "fishery \<Rightarrow> pid \<Rightarrow> bool" where
  "entering w p \<longleftrightarrow> pcs w p = Locks \<and> p \<in> asleep w \<and> sems w (own_sem p) = Some \<lparr>sem_count = 0, sem_queue = []\<rparr>"

definition mutex_is :: "fishery \<Rightarrow> u64 \<Rightarrow> pid list \<Rightarrow> bool" where
  "mutex_is w n q \<longleftrightarrow> sems w FISH_MUTEX = Some \<lparr>sem_count = n, sem_queue = q\<rparr>"

text \<open>What the other processes see of a step.\<close>

definition same :: "fishery \<Rightarrow> fishery \<Rightarrow> pid \<Rightarrow> bool" where
  "same w w' x \<longleftrightarrow> pcs w' x = pcs w x \<and> (x \<in> asleep w' \<longleftrightarrow> x \<in> asleep w) \<and> sems w' (own_sem x) = sems w (own_sem x)"

definition others_same :: "fishery \<Rightarrow> fishery \<Rightarrow> pid set \<Rightarrow> bool" where
  "others_same w w' P \<longleftrightarrow> (\<forall>x\<in>fishes - P. same w w' x) \<and> asleep w' \<subseteq> asleep w \<union> P"

lemma same_roles:
  "same w w' x \<Longrightarrow> idle w' x = idle w x" "same w w' x \<Longrightarrow> called w' x = called w x"
  "same w w' x \<Longrightarrow> at_pc w' x c = at_pc w x c" "same w w' x \<Longrightarrow> entering w' x = entering w x"
  by (simp_all add: same_def idle_def called_def at_pc_def entering_def)

fun fish_rank :: "fish_pc \<Rightarrow> nat" where
  "fish_rank Gone = 0" | "fish_rank Quits = 1" | "fish_rank (Tells i) = 4 - i" | "fish_rank Checks = 5"
| "fish_rank Locks = 6" | "fish_rank Sleeps = 7" | "fish_rank Unlocks = 8" | "fish_rank (Wakes k) = 9"
| "fish_rank (Matches v) = 10" | "fish_rank Picks = 11" | "fish_rank (Flipped v) = 12" | "fish_rank Flips = 13"
| "fish_rank Wraps = 14" | "fish_rank Tests = 15" | "fish_rank (Advanced v) = 16" | "fish_rank Advances = 17"
| "fish_rank (Counted v) = 18" | "fish_rank Counts = 19" | "fish_rank Prints = 0" | "fish_rank Fails = 0"

definition weight :: "fishery \<Rightarrow> pid \<Rightarrow> nat" where
  "weight w p = 2 * fish_rank (pcs w p) + of_bool (p \<notin> asleep w)"

lemma same_weight: "same w w' x \<Longrightarrow> weight w' x = weight w x"
  by (simp add: same_def weight_def)

lemmas role_defs = idle_def called_def at_pc_def entering_def mutex_is_def others_same_def same_def weight_def
lemmas step_defs = task_step_def set_wait_def set_signal_def semaphore_wait_def semaphore_signal_def resume_def

lemma idle_step:
  assumes "p \<in> fishes" "idle w p" "task_step fish_code p w = Some w'"
  shows "idle w' p \<and> others_same w w' {p} \<and> sems w' FISH_MUTEX = sems w FISH_MUTEX \<and> shared w' = shared w \<and>
    weight w' p < weight w p"
  using assms own_sem_eq by (auto simp: role_defs step_defs split: if_splits)

lemma called_step:
  assumes "p \<in> fishes" "called w p" "task_step fish_code p w = Some w'"
  shows "at_pc w' p Locks \<and> others_same w w' {p} \<and> sems w' FISH_MUTEX = sems w FISH_MUTEX \<and> shared w' = shared w \<and>
    weight w' p < weight w p"
  using assms own_sem_eq by (auto simp: role_defs step_defs split: if_splits)

lemma set_step:
  assumes "at_pc w p c" "fish_code p c (shared w) = SetI s c'" "task_step fish_code p w = Some w'"
  shows "at_pc w' p c' \<and> others_same w w' {p} \<and> sems w' FISH_MUTEX = sems w FISH_MUTEX \<and> shared w' = s"
  using assms by (auto simp: role_defs step_defs)

lemma call_step:
  assumes "p \<in> fishes" "x \<in> fishes" "x \<noteq> p" "at_pc w p (Wakes (own_sem x))" "idle w x"
    and "task_step fish_code p w = Some w'"
  shows "at_pc w' p Unlocks \<and> (called w' x \<or> at_pc w' x Locks) \<and> others_same w w' {p, x} \<and>
    sems w' FISH_MUTEX = sems w FISH_MUTEX \<and> shared w' = shared w \<and> weight w' p < weight w p \<and> weight w' x \<le> weight w x"
  using assms own_sem_eq by (auto simp: role_defs step_defs split: if_splits)

lemma lock_step:
  assumes "at_pc w p Locks" "mutex_is w n q" "task_step fish_code p w = Some w'"
  shows "(if n = 0 then entering w' p \<and> mutex_is w' 0 (q @ [p]) else at_pc w' p Checks \<and> mutex_is w' (n - 1) q) \<and>
    others_same w w' {p} \<and> shared w' = shared w \<and> weight w' p < weight w p"
  using assms by (auto simp: role_defs step_defs split: if_splits)

lemma unlock_step:
  assumes "at_pc w p Unlocks" "mutex_is w 0 q" "task_step fish_code p w = Some w'" "p \<in> fishes"
    and "q = [] \<or> (\<exists>x\<in>fishes - {p}. q = [x] \<and> entering w x)"
  shows "idle w' p \<and> shared w' = shared w \<and> weight w' p < weight w p \<and>
    (if q = [] then mutex_is w' 1 [] \<and> others_same w w' {p}
     else mutex_is w' 0 [] \<and> at_pc w' (hd q) Checks \<and> others_same w w' {p, hd q} \<and> weight w' (hd q) < weight w (hd q))"
  using assms by (auto simp: role_defs step_defs split: if_splits)

section \<open>While they print\<close>

definition three :: "pid \<Rightarrow> pid \<Rightarrow> pid \<Rightarrow> bool" where
  "three q r t \<longleftrightarrow> fishes = {q, r, t} \<and> q \<noteq> r \<and> q \<noteq> t \<and> r \<noteq> t"

lemma threeD:
  assumes "three q r t"
  shows "fishes = {q, r, t}" "q \<noteq> r" "r \<noteq> q" "q \<noteq> t" "t \<noteq> q" "r \<noteq> t" "t \<noteq> r" "q \<in> fishes" "r \<in> fishes" "t \<in> fishes"
  using assms by (auto simp: three_def)

lemma three_swap: "three q r t \<Longrightarrow> three q t r" "three q r t \<Longrightarrow> three r q t"
  by (auto simp: three_def)

lemma three_any:
  assumes "three q r t" "x \<in> fishes"
  shows "\<exists>y z. three x y z"
proof -
  have "x = q \<or> x = r \<or> x = t" using assms threeD(1) [OF assms(1)] by blast
  then show ?thesis using assms(1) three_swap by blast
qed

text \<open>
  Somebody has the turn and has not locked, checks or prints, passes the turn on, or has
  passed it on and still has the mutex.
\<close>

inductive at_work :: "fishery \<Rightarrow> bool" where
  waiting: "three q r t \<Longrightarrow> q = turn n \<Longrightarrow> n \<le> 400 \<Longrightarrow> counted n (shared w) \<Longrightarrow> shown (shared w) = take n fish_text \<Longrightarrow>
    asleep w \<subseteq> fishes \<Longrightarrow> idle w r \<Longrightarrow> idle w t \<Longrightarrow> mutex_is w 1 [] \<Longrightarrow> called w q \<or> at_pc w q Locks \<Longrightarrow> at_work w"
| before: "three q r t \<Longrightarrow> q = turn n \<Longrightarrow> n \<le> 400 \<Longrightarrow> counted n (shared w) \<Longrightarrow> shown (shared w) = take n fish_text \<Longrightarrow>
    asleep w \<subseteq> fishes \<Longrightarrow> idle w r \<Longrightarrow> idle w t \<Longrightarrow> mutex_is w 0 [] \<Longrightarrow>
    at_pc w q Checks \<or> n < 400 \<and> at_pc w q Prints \<Longrightarrow> at_work w"
| after: "three q r t \<Longrightarrow> q = turn n \<Longrightarrow> n < 400 \<Longrightarrow> passing n c (shared w) \<Longrightarrow> shown (shared w) = take (Suc n) fish_text \<Longrightarrow>
    asleep w \<subseteq> fishes \<Longrightarrow> idle w r \<Longrightarrow> idle w t \<Longrightarrow> mutex_is w 0 [] \<Longrightarrow> at_pc w q c \<Longrightarrow> at_work w"
| handed: "three q r t \<Longrightarrow> q = turn n \<Longrightarrow> n \<le> 400 \<Longrightarrow> counted n (shared w) \<Longrightarrow> shown (shared w) = take n fish_text \<Longrightarrow>
    asleep w \<subseteq> fishes \<Longrightarrow> at_pc w r Unlocks \<Longrightarrow> idle w t \<Longrightarrow>
    mutex_is w 0 [] \<and> (called w q \<or> at_pc w q Locks) \<or> mutex_is w 0 [q] \<and> entering w q \<Longrightarrow> at_work w"

text \<open>The last one checks when all is printed, and begins to tell the others.\<close>

definition closing :: "fishery \<Rightarrow> bool" where
  "closing w \<longleftrightarrow> (\<exists>r t. three 1 r t \<and> PRINT_COUNT (shared w) = 400 \<and> shown (shared w) = fish_text \<and>
     asleep w \<subseteq> fishes \<and> idle w r \<and> idle w t \<and> mutex_is w 0 [] \<and> at_pc w 1 (Tells 0))"

definition measure_of :: "fishery \<Rightarrow> nat" where
  "measure_of w = 39 * (400 - length (shown (shared w))) + (\<Sum>p\<in>fishes. weight w p)"

lemma measure_three:
  "three q r t \<Longrightarrow> measure_of w = 39 * (400 - length (shown (shared w))) + weight w q + weight w r + weight w t"
proof -
  assume a: "three q r t"
  show ?thesis unfolding measure_of_def threeD(1) [OF a] by (simp add: threeD [OF a])
qed

lemma one_less:
  assumes "three q r t" "x \<in> fishes" "others_same w w' {x}" "shown (shared w') = shown (shared w)" "weight w' x < weight w x"
  shows "measure_of w' < measure_of w"
proof -
  obtain y z where "three x y z" using three_any [OF assms(1, 2)] by blast
  moreover from threeD [OF this] assms(3) have "weight w' y = weight w y" "weight w' z = weight w z"
    unfolding others_same_def by (intro same_weight; simp)+
  ultimately show ?thesis using assms(4, 5) by (simp add: measure_three)
qed

lemma two_less:
  assumes "three x y z" "others_same w w' {x, y}" "shown (shared w') = shown (shared w)" "weight w' x < weight w x"
    "weight w' y \<le> weight w y"
  shows "measure_of w' < measure_of w"
proof -
  from threeD [OF assms(1)] assms(2) have "weight w' z = weight w z"
    unfolding others_same_def by (intro same_weight) simp
  then show ?thesis using assms(1, 3-5) by (simp add: measure_three)
qed

lemma set_rank: "fish_code p c s = SetI s' c' \<Longrightarrow> c \<noteq> Prints \<Longrightarrow> fish_rank c' < fish_rank c"
  by (cases c) (auto split: option.splits)

lemma set_weight:
  assumes "at_pc w p c" "at_pc w' p c'" "fish_rank c' < fish_rank c"
  shows "weight w' p < weight w p"
  using assms by (simp add: at_pc_def weight_def)

lemma same_mutex: "sems w' FISH_MUTEX = sems w FISH_MUTEX \<Longrightarrow> mutex_is w' n q = mutex_is w n q"
  by (simp add: mutex_is_def)

lemma others_roles:
  assumes "others_same w w' P" "x \<in> fishes" "x \<notin> P"
  shows "idle w' x = idle w x" "called w' x = called w x" "at_pc w' x c = at_pc w x c" "entering w' x = entering w x"
  using assms by (simp_all add: others_same_def same_roles)

lemma others_asleep: "others_same w w' P \<Longrightarrow> P \<subseteq> fishes \<Longrightarrow> asleep w \<subseteq> fishes \<Longrightarrow> asleep w' \<subseteq> fishes"
  by (auto simp: others_same_def)

text \<open>A step of an idle process keeps every shape.\<close>

lemma idle_only: "idle w x \<Longrightarrow> \<not> called w x" "idle w x \<Longrightarrow> c \<noteq> Sleeps \<Longrightarrow> \<not> at_pc w x c" "idle w x \<Longrightarrow> \<not> entering w x"
  by (auto simp: role_defs)

lemma idle_at_work:
  assumes "at_work w" "x \<in> fishes" "idle w x" "task_step fish_code x w = Some w'"
  shows "at_work w'"
proof -
  from idle_step [OF assms(2-4)] have
    x: "idle w' x" "others_same w w' {x}" "shared w' = shared w" and mx: "sems w' FISH_MUTEX = sems w FISH_MUTEX"
    by blast+
  have m: "mutex_is w' n q = mutex_is w n q" for n q by (rule same_mutex [OF mx])
  have roles: "called w' p = called w p" "c \<noteq> Sleeps \<Longrightarrow> at_pc w' p c = at_pc w p c" "entering w' p = entering w p"
      "idle w' p = idle w p" if "p \<in> fishes" for p c
  proof -
    note other = others_roles [OF x(2) that]
    show "called w' p = called w p" using other(2) idle_only(1) assms(3) x(1) by (cases "p = x") auto
    show "c \<noteq> Sleeps \<Longrightarrow> at_pc w' p c = at_pc w p c" using other(3) idle_only(2) assms(3) x(1) by (cases "p = x") auto
    show "entering w' p = entering w p" using other(4) idle_only(3) assms(3) x(1) by (cases "p = x") auto
    show "idle w' p = idle w p" using other(1) assms(3) x(1) by (cases "p = x") auto
  qed
  have asl: "asleep w \<subseteq> fishes \<Longrightarrow> asleep w' \<subseteq> fishes" using others_asleep [OF x(2)] assms(2) by simp
  show ?thesis using assms(1)
  proof cases
    case (waiting q r t n)
    then show ?thesis by (intro at_work.waiting [of q r t n]) (simp_all add: roles m x(3) asl threeD(2-) [OF waiting(1)])
  next
    case (before q r t n)
    then show ?thesis by (intro at_work.before [of q r t n]) (simp_all add: roles m x(3) asl threeD(2-) [OF before(1)])
  next
    case (after q r t n c)
    then have "c \<noteq> Sleeps" by auto
    with after show ?thesis by (intro at_work.after [of q r t n c]) (simp_all add: roles m x(3) asl threeD(2-) [OF after(1)])
  next
    case (handed q r t n)
    then show ?thesis by (intro at_work.handed [of q r t n]) (simp_all add: roles m x(3) asl threeD(2-) [OF handed(1)])
  qed
qed

definition goes_on :: "fishery \<Rightarrow> fishery \<Rightarrow> bool" where
  "goes_on w w' \<longleftrightarrow> (at_work w' \<or> closing w') \<and> measure_of w' < measure_of w"

lemma idle_goes_on:
  assumes "at_work w" "three q r t" "x \<in> fishes" "idle w x" "task_step fish_code x w = Some w'"
  shows "goes_on w w'"
  using idle_at_work [OF assms(1, 3-5)] idle_step [OF assms(3-5)] one_less [OF assms(2, 3)] by (auto simp: goes_on_def)

lemma waiting_step:
  assumes w: "three q r t" "q = turn n" "n \<le> 400" "counted n (shared w)" "shown (shared w) = take n fish_text"
      "asleep w \<subseteq> fishes" "idle w r" "idle w t" "mutex_is w 1 []" "called w q \<or> at_pc w q Locks"
    and s: "task_step fish_code q w = Some w'"
  shows "goes_on w w'"
proof -
  note d = threeD(2-) [OF w(1)]
  from w(10) show ?thesis
  proof
    assume c: "called w q"
    from called_step [OF _ c s] d have n: "at_pc w' q Locks" "others_same w w' {q}" "sems w' FISH_MUTEX = sems w FISH_MUTEX"
      "shared w' = shared w" "weight w' q < weight w q" by simp_all
    have "at_work w'"
      by (rule at_work.waiting [of q r t n])
        (use w n d others_asleep [OF n(2)] in \<open>simp_all add: others_roles [OF n(2)] same_mutex [OF n(3)]\<close>)
    then show ?thesis using one_less [OF w(1) _ n(2) _ n(5)] n(4) d by (simp add: goes_on_def)
  next
    assume c: "at_pc w q Locks"
    from lock_step [OF c w(9) s] have n: "at_pc w' q Checks" "others_same w w' {q}" "mutex_is w' 0 []"
      "shared w' = shared w" "weight w' q < weight w q" by simp_all
    have "at_work w'"
      by (rule at_work.before [of q r t n])
        (use w n d others_asleep [OF n(2)] in \<open>simp_all add: others_roles [OF n(2)]\<close>)
    then show ?thesis using one_less [OF w(1) _ n(2) _ n(5)] n(4) d by (simp add: goes_on_def)
  qed
qed

lemma count_400: "n \<le> 400 \<Longrightarrow> TOTAL_PRINTS \<le> of_nat n \<longleftrightarrow> n = 400"
proof -
  assume "n \<le> 400"
  then have "unat (of_nat n :: u64) = n" by (simp add: unat_of_nat take_bit_nat_eq_self)
  then show ?thesis using \<open>n \<le> 400\<close> by (auto simp: TOTAL_PRINTS_def word_le_nat_alt)
qed

lemma before_step:
  assumes w: "three q r t" "q = turn n" "n \<le> 400" "counted n (shared w)" "shown (shared w) = take n fish_text"
      "asleep w \<subseteq> fishes" "idle w r" "idle w t" "mutex_is w 0 []" "at_pc w q Checks \<or> n < 400 \<and> at_pc w q Prints"
    and s: "task_step fish_code q w = Some w'"
  shows "goes_on w w'"
proof -
  note d = threeD(2-) [OF w(1)]
  have count: "PRINT_COUNT (shared w) = of_nat n" using w(4) by (simp add: counted_def at_count_def)
  from w(10) show ?thesis
  proof (elim disjE conjE)
    assume c: "at_pc w q Checks"
    let ?c = "if n = 400 then Tells 0 else Prints"
    have "fish_code q Checks (shared w) = SetI (shared w) ?c" using w(3) by (simp add: count count_400)
    from set_step [OF c this s] have n: "at_pc w' q ?c" "others_same w w' {q}" "sems w' FISH_MUTEX = sems w FISH_MUTEX"
      "shared w' = shared w" by simp_all
    have less: "weight w' q < weight w q" by (rule set_weight [OF c n(1)]) simp
    have "at_work w' \<or> closing w'"
    proof (cases "n = 400")
      case True
      then have "q = 1" using w(2) by (simp add: turn_def)
      then have "closing w'"
        unfolding closing_def using w n d others_asleep [OF n(2)] True count
        by (intro exI [of _ r] exI [of _ t]) (simp add: others_roles [OF n(2)] same_mutex [OF n(3)])
      then show ?thesis by simp
    next
      case False
      have "at_work w'"
        by (rule at_work.before [of q r t n])
          (use w n d others_asleep [OF n(2)] False in \<open>simp_all add: others_roles [OF n(2)] same_mutex [OF n(3)]\<close>)
      then show ?thesis by simp
    qed
    then show ?thesis using one_less [OF w(1) _ n(2) _ less] n(4) d by (simp add: goes_on_def)
  next
    assume n400: "n < 400" and c: "at_pc w q Prints"
    let ?s = "(shared w)\<lparr>shown := take (Suc n) fish_text\<rparr>"
    have "fish_code q Prints (shared w) = SetI ?s Counts"
      using w(2, 5) fish_text_Suc [OF n400] by simp
    from set_step [OF c this s] have n: "at_pc w' q Counts" "others_same w w' {q}" "sems w' FISH_MUTEX = sems w FISH_MUTEX"
      "shared w' = ?s" by simp_all
    have "at_work w'"
      by (rule at_work.after [of q r t n Counts])
        (use w n d n400 others_asleep [OF n(2)] in
          \<open>simp_all add: others_roles [OF n(2)] same_mutex [OF n(3)] counted_def at_count_def at_step_def at_pattern_def\<close>)
    moreover have "measure_of w' < measure_of w"
    proof -
      have "weight w' r = weight w r" "weight w' t = weight w t"
        using n(2) d unfolding others_same_def by (intro same_weight; simp)+
      moreover have "weight w' q = 39" "weight w q = 1" using c n(1) by (simp_all add: at_pc_def weight_def)
      ultimately show ?thesis using n400 by (simp add: measure_three [OF w(1)] n(4) w(5))
    qed
    ultimately show ?thesis by (simp add: goes_on_def)
  qed
qed

lemma passing_code:
  "passing n c s \<Longrightarrow> (\<exists>s' c'. fish_code p c s = SetI s' c' \<and> c \<noteq> Prints) \<or> c = Wakes (own_sem (turn (Suc n))) \<and> counted (Suc n) s"
  by (cases c) auto

lemma after_step:
  assumes w: "three q r t" "q = turn n" "n < 400" "passing n c (shared w)" "shown (shared w) = take (Suc n) fish_text"
      "asleep w \<subseteq> fishes" "idle w r" "idle w t" "mutex_is w 0 []" "at_pc w q c"
    and s: "task_step fish_code q w = Some w'"
  shows "goes_on w w'"
proof -
  note d = threeD(2-) [OF w(1)]
  from passing_code [OF w(4), of q] show ?thesis
  proof (elim disjE exE conjE)
    fix s' c' assume c: "fish_code q c (shared w) = SetI s' c'" "c \<noteq> Prints"
    from set_step [OF w(10) c(1) s] have n: "at_pc w' q c'" "others_same w w' {q}" "sems w' FISH_MUTEX = sems w FISH_MUTEX"
      "shared w' = s'" by simp_all
    from passing_set [OF w(4) c(1)] have p: "passing n c' s'" "shown s' = shown (shared w)" by simp_all
    have less: "weight w' q < weight w q" by (rule set_weight [OF w(10) n(1) set_rank [OF c]])
    have "at_work w'"
      by (rule at_work.after [of q r t n c'])
        (use w n d p others_asleep [OF n(2)] in \<open>simp_all add: others_roles [OF n(2)] same_mutex [OF n(3)]\<close>)
    then show ?thesis using one_less [OF w(1) _ n(2) _ less] n(4) p(2) d by (simp add: goes_on_def)
  next
    let ?x = "turn (Suc n)"
    assume c: "c = Wakes (own_sem ?x)" and cnt: "counted (Suc n) (shared w)"
    have x: "?x \<noteq> q" "?x \<in> fishes" using turn_Suc w(2) by auto
    obtain y where y: "three ?x q y" "idle w ?x" "idle w y"
    proof -
      have "?x = r \<or> ?x = t" using x threeD(1) [OF w(1)] by blast
      then show ?thesis using that w(1, 7, 8) three_swap by metis
    qed
    note e = threeD(2-) [OF y(1)]
    from call_step [OF e(8) e(7) e(1) w(10) [unfolded c] y(2) s] have
      n: "at_pc w' q Unlocks" "called w' ?x \<or> at_pc w' ?x Locks" "others_same w w' {q, ?x}"
        "sems w' FISH_MUTEX = sems w FISH_MUTEX" "shared w' = shared w" "weight w' q < weight w q" "weight w' ?x \<le> weight w ?x"
      by simp_all
    have "at_work w'"
      by (rule at_work.handed [of ?x q y "Suc n"])
        (use w n y e cnt others_asleep [OF n(3)] in \<open>simp_all add: others_roles [OF n(3)] same_mutex [OF n(4)]\<close>)
    then show ?thesis using two_less [OF three_swap(2) [OF y(1)] n(3) _ n(6, 7)] n(5) by (simp add: goes_on_def)
  qed
qed

lemma handed_step:
  assumes w: "three q r t" "q = turn n" "n \<le> 400" "counted n (shared w)" "shown (shared w) = take n fish_text"
      "asleep w \<subseteq> fishes" "at_pc w r Unlocks" "idle w t"
      "mutex_is w 0 [] \<and> (called w q \<or> at_pc w q Locks) \<or> mutex_is w 0 [q] \<and> entering w q"
    and s: "task_step fish_code x w = Some w'" "x = q \<or> x = r"
  shows "goes_on w w'"
proof -
  note d = threeD(2-) [OF w(1)]
  from s(2) show ?thesis
  proof
    assume x: "x = r"
    from w(9) consider (free) "mutex_is w 0 []" "called w q \<or> at_pc w q Locks" | (wanted) "mutex_is w 0 [q]" "entering w q"
      by blast
    then show ?thesis
    proof cases
      case free
      note m = free(1) and c = free(2)
      from unlock_step [OF w(7) m s(1) [unfolded x]] d have n: "idle w' r" "others_same w w' {r}" "mutex_is w' 1 []"
        "shared w' = shared w" "weight w' r < weight w r" by simp_all
      have "at_work w'"
        by (rule at_work.waiting [of q r t n])
          (use w n d c others_asleep [OF n(2)] in \<open>simp_all add: others_roles [OF n(2)]\<close>)
      then show ?thesis using one_less [OF w(1) _ n(2) _ n(5)] n(4) d by (simp add: goes_on_def)
    next
      case wanted
      note m = wanted(1) and c = wanted(2)
      from unlock_step [OF w(7) m s(1) [unfolded x]] d c have n: "idle w' r" "others_same w w' {r, q}" "mutex_is w' 0 []"
        "at_pc w' q Checks" "shared w' = shared w" "weight w' r < weight w r" "weight w' q \<le> weight w q" by simp_all
      have "at_work w'"
        by (rule at_work.before [of q r t n])
          (use w n d others_asleep [OF n(2)] in \<open>simp_all add: others_roles [OF n(2)]\<close>)
      then show ?thesis using two_less [OF three_swap(2) [OF w(1)] n(2) _ n(6, 7)] n(5) by (simp add: goes_on_def)
    qed
  next
    assume x: "x = q"
    from w(9) show ?thesis
    proof (elim disjE conjE)
      assume m: "mutex_is w 0 []" and c: "called w q"
      from called_step [OF _ c s(1) [unfolded x]] d have n: "at_pc w' q Locks" "others_same w w' {q}"
        "sems w' FISH_MUTEX = sems w FISH_MUTEX" "shared w' = shared w" "weight w' q < weight w q" by simp_all
      have "at_work w'"
        by (rule at_work.handed [of q r t n])
          (use w n d m others_asleep [OF n(2)] in \<open>simp_all add: others_roles [OF n(2)] same_mutex [OF n(3)]\<close>)
      then show ?thesis using one_less [OF w(1) _ n(2) _ n(5)] n(4) d by (simp add: goes_on_def)
    next
      assume m: "mutex_is w 0 []" and c: "at_pc w q Locks"
      from lock_step [OF c m s(1) [unfolded x]] have n: "entering w' q" "others_same w w' {q}" "mutex_is w' 0 [q]"
        "shared w' = shared w" "weight w' q < weight w q" by simp_all
      have "at_work w'"
        by (rule at_work.handed [of q r t n])
          (use w n d others_asleep [OF n(2)] in \<open>simp_all add: others_roles [OF n(2)]\<close>)
      then show ?thesis using one_less [OF w(1) _ n(2) _ n(5)] n(4) d by (simp add: goes_on_def)
    next
      assume "entering w q"
      then show ?thesis using s(1) by (simp add: x entering_def task_step_def)
    qed
  qed
qed

lemma work_step:
  assumes "at_work w" "x \<in> fishes" "task_step fish_code x w = Some w'"
  shows "goes_on w w'"
  using assms(1)
proof cases
  case (waiting q r t n)
  have "x = q \<or> idle w x" using threeD(1) [OF waiting(1)] assms(2) waiting(7, 8) by auto
  then show ?thesis using waiting_step [OF waiting] idle_goes_on [OF assms(1) waiting(1) assms(2)] assms(3) by blast
next
  case (before q r t n)
  have "x = q \<or> idle w x" using threeD(1) [OF before(1)] assms(2) before(7, 8) by auto
  then show ?thesis using before_step [OF before] idle_goes_on [OF assms(1) before(1) assms(2)] assms(3) by blast
next
  case (after q r t n c)
  have "x = q \<or> idle w x" using threeD(1) [OF after(1)] assms(2) after(7, 8) by auto
  then show ?thesis using after_step [OF after] idle_goes_on [OF assms(1) after(1) assms(2)] assms(3) by blast
next
  case (handed q r t n)
  have "x = q \<or> x = r \<or> idle w x" using threeD(1) [OF handed(1)] assms(2) handed(8) by auto
  then show ?thesis using handed_step [OF handed assms(3)] idle_goes_on [OF assms(1) handed(1) assms(2) _ assms(3)] by blast
qed


section \<open>When all is printed\<close>

text \<open>From then on the program is one in which every process that checks begins to tell the others.\<close>

fun end_code :: "pid \<Rightarrow> fish_pc \<Rightarrow> fish \<Rightarrow> (fish_pc, fish) instr" where
  "end_code p Checks s = SetI s (Tells 0)"
| "end_code p c s = fish_code p c s"

fun telling :: "fish_pc \<Rightarrow> bool" where
  "telling (Tells i) = (i \<le> 2)"
| "telling Quits = True"
| "telling Gone = True"
| "telling c = False"

definition end_ok :: "pid \<Rightarrow> fish_pc \<Rightarrow> bool" where
  "end_ok p c \<longleftrightarrow> telling c \<or> p \<noteq> 1 \<and> c \<in> {Sleeps, Locks, Checks}"

fun told :: "u32 \<Rightarrow> fish_pc \<Rightarrow> bool" where
  "told k (Tells i) = (k = SEM_GT \<and> 0 < i \<or> k = SEM_LT \<and> 1 < i)"
| "told k Quits = (k \<in> {SEM_GT, SEM_LT, SEM_US})"
| "told k Gone = (k \<in> {SEM_GT, SEM_LT, SEM_US})"
| "told k c = False"

fun locked :: "fish_pc \<Rightarrow> bool" where
  "locked Sleeps = False"
| "locked Locks = False"
| "locked Gone = False"
| "locked c = True"

definition end_held :: "u32 \<Rightarrow> pid \<Rightarrow> fish_pc \<Rightarrow> int" where
  "end_held k p c = of_bool (k = own_sem p \<and> c \<noteq> Sleeps) + of_bool (k = FISH_MUTEX \<and> locked c) - of_bool (told k c)"

definition end_permits :: "u32 \<Rightarrow> int" where "end_permits k = of_bool (k = SEM_LT \<or> k = FISH_MUTEX)"

lemma fishes_card: "finite fishes" "card fishes = 3"
  by (simp_all add: fishes_def)

lemma own_sem_in: "own_sem p \<in> {SEM_GT, SEM_LT, SEM_US}"
  by (simp add: own_sem_def)

lemmas end_defs = end_ok_def end_held_def sem_values own_sem_def

lemma end_wait:
  assumes "end_ok p c" "end_code p c s = WaitI k q"
  shows "end_ok p q \<and> k \<in> {SEM_GT, SEM_LT, SEM_US, FISH_MUTEX} \<and>
    (\<forall>j. end_held j p q = end_held j p c + of_bool (j = k)) \<and> fish_rank q < fish_rank c"
proof -
  have "c = Sleeps \<and> k = own_sem p \<and> q = Locks \<and> p \<noteq> 1 \<or> c = Locks \<and> k = FISH_MUTEX \<and> q = Checks \<and> p \<noteq> 1"
    using assms by (cases c) (simp_all add: end_ok_def)
  then show ?thesis using own_sem_in [of p]
    by (elim disjE conjE) (auto simp: end_ok_def end_held_def)
qed

lemma end_signal:
  assumes "end_ok p c" "end_code p c s = SignalI k q"
  shows "end_ok p q \<and> k \<in> {SEM_GT, SEM_LT, SEM_US, FISH_MUTEX} \<and>
    (\<forall>j. end_held j p q = end_held j p c - of_bool (j = k)) \<and> fish_rank q < fish_rank c"
proof -
  have "c = Tells 0 \<and> k = SEM_GT \<and> q = Tells (Suc 0) \<or> c = Tells (Suc 0) \<and> k = SEM_LT \<and> q = Tells (Suc (Suc 0)) \<or>
      c = Tells (Suc (Suc 0)) \<and> k = SEM_US \<and> q = Quits \<or> c = Quits \<and> k = FISH_MUTEX \<and> q = Gone"
  proof (cases c)
    case (Tells i)
    then have "i = 0 \<or> i = Suc 0 \<or> i = Suc (Suc 0)" using assms(1) by (auto simp: end_ok_def)
    then show ?thesis using assms(2) Tells by (elim disjE) auto
  qed (use assms in \<open>simp_all add: end_ok_def\<close>)
  then show ?thesis by (elim disjE conjE) (simp_all add: end_ok_def end_held_def sem_values)
qed

lemma end_set:
  assumes "end_ok p c" "end_code p c s = SetI s' q"
  shows "c = Checks \<and> s' = s \<and> q = Tells 0"
  using assms by (cases c) (simp_all add: end_ok_def)

interpretation fe: ranked end_code fishes "{SEM_GT, SEM_LT, SEM_US, FISH_MUTEX}" end_held end_permits end_ok
  "\<lambda>p. fish_rank"
proof
  show "finite fishes" by (rule fishes_card)
  fix p :: pid and c :: fish_pc and s s' :: fish and k :: u32 and q :: fish_pc and f :: "pid \<Rightarrow> fish_pc"
  show "end_code p c s = WaitI k q \<Longrightarrow> end_code p c s' = WaitI k q" by (cases c) simp_all
  have "- 3 \<le> (\<Sum>p\<in>fishes. end_held k p (f p))"
    using sum_bounded_below [of fishes "- 1" "\<lambda>p. end_held k p (f p)"] by (simp add: fishes_card end_held_def)
  moreover have "end_permits k \<le> 1" by (simp add: end_permits_def)
  ultimately show "end_permits k - (\<Sum>p\<in>fishes. end_held k p (f p)) < 2 ^ 64" by simp
  assume ok: "end_ok p c"
  show "end_code p c s = WaitI k q \<Longrightarrow> end_ok p q \<and> k \<in> {SEM_GT, SEM_LT, SEM_US, FISH_MUTEX} \<and>
      (\<forall>j. end_held j p q = end_held j p c + of_bool (j = k))"
    using end_wait [OF ok] by blast
  show "end_code p c s = SignalI k q \<Longrightarrow> end_ok p q \<and> k \<in> {SEM_GT, SEM_LT, SEM_US, FISH_MUTEX} \<and>
      (\<forall>j. end_held j p q = end_held j p c - of_bool (j = k))"
    using end_signal [OF ok] by blast
  show "end_code p c s = SetI s' q \<Longrightarrow> end_ok p q \<and> (\<forall>j. end_held j p q = end_held j p c)"
  proof -
    assume "end_code p c s = SetI s' q"
    from end_set [OF ok this] have "c = Checks" "q = Tells 0" by simp_all
    then show ?thesis by (simp add: end_ok_def end_held_def)
  qed
  show "end_code p c s = WaitI k q \<Longrightarrow> fish_rank q < fish_rank c"
    "end_code p c s = SignalI k q \<Longrightarrow> fish_rank q < fish_rank c"
    "end_code p c s = SetI s' q \<Longrightarrow> fish_rank q < fish_rank c"
    using end_wait [OF ok] end_signal [OF ok] end_set [OF ok] by (blast, blast, fastforce)
qed

lemma end_code_same: "TOTAL_PRINTS \<le> PRINT_COUNT s \<Longrightarrow> end_code p c s = fish_code p c s"
  by (cases c) simp_all

lemma end_step_same: "TOTAL_PRINTS \<le> PRINT_COUNT (shared w) \<Longrightarrow> task_step fish_code p w = task_step end_code p w"
proof -
  assume e: "TOTAL_PRINTS \<le> PRINT_COUNT (shared w)"
  then have "resume fish_code x (w\<lparr>sems := t, pcs := f\<rparr>) = resume end_code x (w\<lparr>sems := t, pcs := f\<rparr>)" for x t f
    by (simp add: resume_def end_code_same)
  with e show ?thesis by (simp add: task_step_def end_code_same cong: instr.case_cong prod.case_cong sem_result.case_cong)
qed

definition ended :: "fishery \<Rightarrow> bool" where
  "ended w \<longleftrightarrow> fe.sane w \<and> PRINT_COUNT (shared w) = TOTAL_PRINTS \<and> shown (shared w) = fish_text"

lemma sum_fishes: "(\<Sum>p\<in>fishes. f p) = f 0 + f 1 + (f 2 :: int)"
  by (simp add: fishes_def)

lemma ended_measure: "ended w \<Longrightarrow> measure_of w = fe.energy w"
proof -
  assume "ended w"
  have "(\<Sum>p\<in>fishes. of_bool (p \<notin> asleep w)) = card (fishes - asleep w)"
    by (simp add: sum_of_bool_eq fishes_card set_diff_eq Int_def)
  then show ?thesis using \<open>ended w\<close>
    by (simp add: measure_of_def fe.energy_def ended_def weight_def sum.distrib sum_distrib_left)
qed

lemma closing_ended:
  assumes "closing w"
  shows "ended w"
proof -
  from assms obtain r t where w: "three 1 r t" "PRINT_COUNT (shared w) = 400" "shown (shared w) = fish_text"
      "asleep w \<subseteq> fishes" "idle w r" "idle w t" "mutex_is w 0 []" "at_pc w 1 (Tells 0)"
    by (auto simp: closing_def)
  have "0 \<in> fishes" "2 \<in> fishes" by (simp_all add: fishes_def)
  then have "0 \<in> {1, r, t}" "2 \<in> {1, r, t}" unfolding threeD(1) [OF w(1)] .
  then have i: "idle w 0" "idle w 2" using w(5, 6) by auto
  have on: "sleeping_on end_code k w p \<longleftrightarrow> p \<in> asleep w \<and> p \<in> {0, 2} \<and> k = own_sem p" for k p
    using i w(4, 8) by (auto simp: sleeping_on_def role_defs fishes_def)
  have "fe.sane w"
  proof (rule fe.saneI)
    show "end_ok x (pcs w x)" if "x \<in> fishes" for x
      using that i w(8) by (auto simp: fishes_def role_defs end_ok_def)
    show "asleep w \<subseteq> fishes" by (rule w(4))
    show "\<exists>k. sleeping_on end_code k w x" if "x \<in> asleep w" for x
      using that w(4, 8) by (auto simp: on fishes_def role_defs)
    fix k assume "k \<in> {SEM_GT, SEM_LT, SEM_US, FISH_MUTEX}"
    then consider "k = own_sem 0" | "k = own_sem 1" | "k = own_sem 2" | "k = FISH_MUTEX" by (auto simp: own_sem_def)
    then show "fe.sem_sane w k"
    proof cases
      case 1
      then show ?thesis using i w(8)
        by (intro fe.sem_saneI [where n = 0 and q = "if 0 \<in> asleep w then [0] else []"])
          (auto simp: on role_defs fe.taken_def sum_fishes end_defs end_permits_def)
    next
      case 2
      then show ?thesis using i w(8)
        by (intro fe.sem_saneI [where n = 0 and q = "[]"])
          (auto simp: on role_defs fe.taken_def sum_fishes end_defs end_permits_def)
    next
      case 3
      then show ?thesis using i w(8)
        by (intro fe.sem_saneI [where n = 0 and q = "if 2 \<in> asleep w then [2] else []"])
          (auto simp: on role_defs fe.taken_def sum_fishes end_defs end_permits_def)
    next
      case 4
      then show ?thesis using i w(7, 8)
        by (intro fe.sem_saneI [where n = 0 and q = "[]"])
          (auto simp: on role_defs fe.taken_def sum_fishes end_defs end_permits_def)
    qed
  qed
  with w(2, 3) show ?thesis by (simp add: ended_def TOTAL_PRINTS_def)
qed

lemma ended_step:
  assumes "ended w" "p \<in> fishes" "task_step fish_code p w = Some w'"
  shows "ended w' \<and> measure_of w' < measure_of w"
proof -
  from assms(1) have w: "fe.sane w" "PRINT_COUNT (shared w) = TOTAL_PRINTS" "shown (shared w) = fish_text"
    by (simp_all add: ended_def)
  have s: "task_step end_code p w = Some w'" using assms(3) end_step_same [of w p] w(2) by simp
  have "PRINT_COUNT (shared w') = TOTAL_PRINTS \<and> shown (shared w') = fish_text"
  proof (rule fe.step_inv [where keeps = "\<lambda>f s. PRINT_COUNT s = TOTAL_PRINTS \<and> shown s = fish_text", OF w(1) assms(2) s])
    fix s q assume "end_code p (pcs w p) (shared w) = SetI s q"
    moreover have "end_ok p (pcs w p)" by (rule fe.saneD(1) [OF w(1) assms(2)])
    ultimately show "PRINT_COUNT s = TOTAL_PRINTS \<and> shown s = fish_text"
      using w(2, 3) by (cases "pcs w p") (auto simp: end_ok_def)
  qed (use w in auto)
  then have "ended w'" using fe.step_sane [OF w(1) assms(2) s] by (simp add: ended_def)
  then show ?thesis using fe.step_energy [OF w(1) assms(2) s] assms(1) by (simp add: ended_measure)
qed

text \<open>A run that can go no further has let everybody exit.\<close>

lemma ended_stuck:
  assumes "ended w" "stuck fish_code fishes w" "p \<in> fishes"
  shows "pcs w p = Gone"
proof -
  have w: "fe.sane w" "stuck end_code fishes w"
    using assms(1, 2) end_step_same [of w] by (simp_all add: ended_def stuck_def)
  have waits: "pcs w x \<in> {Sleeps, Locks, Gone}" "x = 1 \<Longrightarrow> pcs w x = Gone" if "x \<in> fishes" for x
  proof -
    note ok = fe.saneD(1) [OF w(1) that]
    have "end_code x (pcs w x) (shared w) = Halt \<or> (\<exists>k q. end_code x (pcs w x) (shared w) = WaitI k q)"
      using stuck_halted [OF w(2) that] fe.saneD(3) [OF w(1), of x] by (auto simp: sleeping_on_def)
    then show "pcs w x \<in> {Sleeps, Locks, Gone}" "x = 1 \<Longrightarrow> pcs w x = Gone"
      using ok by (cases "pcs w x"; auto simp: end_ok_def)+
  qed
  have at: "pcs w 0 \<in> {Sleeps, Locks, Gone}" "pcs w 1 = Gone" "pcs w 2 \<in> {Sleeps, Locks, Gone}"
    using waits by (auto simp: fishes_def)
  have "end_code x (pcs w x) (shared w) = Halt" if x: "x \<in> fishes" for x
  proof (rule ccontr)
    assume "end_code x (pcs w x) (shared w) \<noteq> Halt"
    from fe.stuck_sleeper [OF w x this] obtain k where k: "sleeping_on end_code k w x" "fe.taken k w = end_permits k"
      by blast
    have taken: "fe.taken k w = end_held k 0 (pcs w 0) + end_held k 1 (pcs w 1) + end_held k 2 (pcs w 2)" for k
      by (simp add: fe.taken_def sum_fishes)
    have mutex: "fe.taken FISH_MUTEX w \<noteq> end_permits FISH_MUTEX"
      unfolding taken using at by (auto simp: end_defs end_permits_def)
    have "x = 0 \<or> x = 1 \<or> x = 2" using x by (simp add: fishes_def)
    then have own: "fe.taken (own_sem x) w \<noteq> end_permits (own_sem x)" if "x \<noteq> 1" "pcs w x = Sleeps"
      unfolding taken using at that by (auto simp: end_defs end_permits_def)
    have "pcs w x = Sleeps \<and> k = own_sem x \<or> pcs w x = Locks \<and> k = FISH_MUTEX"
      using k(1) waits(1) [OF x] by (auto simp: sleeping_on_def)
    moreover have "pcs w x = Sleeps \<Longrightarrow> x \<noteq> 1" using waits(2) [OF x] by auto
    ultimately show False using k(2) mutex own by blast
  qed
  then have "end_code p (pcs w p) (shared w) = Halt" using assms(3) .
  then show ?thesis using waits(1) [OF assms(3)] by auto
qed

text \<open>While they print, somebody can take a step.\<close>

lemma work_not_stuck: "at_work w \<Longrightarrow> \<not> stuck fish_code fishes w"
proof
  assume w: "at_work w" and stuck: "stuck fish_code fishes w"
  have run: "\<not> (x \<in> fishes \<and> x \<notin> asleep w \<and> fish_code x (pcs w x) (shared w) \<noteq> Halt)" for x
    using stuck_halted [OF stuck] by blast
  from w show False
  proof cases
    case (waiting q r t n)
    then show ?thesis using run [of q] threeD(8) [OF waiting(1)] by (auto simp: role_defs)
  next
    case (before q r t n)
    then show ?thesis using run [of q] threeD(8) [OF before(1)] by (auto simp: role_defs)
  next
    case (after q r t n c)
    then have "fish_code q c (shared w) \<noteq> Halt" by (cases c) (auto split: option.splits)
    then show ?thesis using run [of q] threeD(8) [OF after(1)] after(10) by (auto simp: role_defs)
  next
    case (handed q r t n)
    then show ?thesis using run [of r] threeD(9) [OF handed(1)] by (auto simp: role_defs)
  qed
qed

section \<open>The output\<close>

lemma fish_start_works: "at_work fish_start"
  by (rule at_work.waiting [of 1 0 2 0])
    (simp_all add: three_def fishes_def turn_def counted_def at_count_def at_step_def at_pattern_def role_defs
      fish_start_def fish_sems_def set_insert_def set_signal_def semaphore_new_def semaphore_signal_def own_sem_def
      sem_values insert_commute)

lemma fish_start_measure: "measure_of fish_start = 15645"
  by (simp add: measure_of_def fishes_def weight_def fish_start_def)

lemma fish_run:
  "run_tasks fish_code ps w = Some w' \<Longrightarrow> set ps \<subseteq> fishes \<Longrightarrow> at_work w \<or> ended w \<Longrightarrow>
    (at_work w' \<or> ended w') \<and> length ps + measure_of w' \<le> measure_of w"
proof (induction ps arbitrary: w)
  case (Cons p ps)
  obtain w1 where s: "task_step fish_code p w = Some w1" "run_tasks fish_code ps w1 = Some w'"
    using Cons.prems(1) by (auto split: option.splits)
  have p: "p \<in> fishes" using Cons.prems(2) by simp
  have one: "(at_work w1 \<or> ended w1) \<and> measure_of w1 < measure_of w"
    using Cons.prems(3) work_step [OF _ p s(1)] ended_step [OF _ p s(1)] closing_ended by (auto simp: goes_on_def)
  then show ?case using Cons.IH [OF s(2)] Cons.prems(2) by simp
qed simp

lemma work_shown: "at_work w \<Longrightarrow> shown (shared w) = take (length (shown (shared w))) fish_text"
  by (auto elim!: at_work.cases simp: min_def)

lemma three_cases: "three q r t \<Longrightarrow> p \<in> fishes \<Longrightarrow> p = q \<or> p = r \<or> p = t"
  using threeD(1) by blast

lemma work_no_panic:
  assumes "at_work w" "p \<in> fishes"
  shows "pcs w p \<noteq> Fails"
  using assms(1)
proof cases
  case (waiting q r t n)
  then show ?thesis using three_cases [OF waiting(1) assms(2)] by (elim disjE) (simp_all add: role_defs)
next
  case (before q r t n)
  then show ?thesis using three_cases [OF before(1) assms(2)] by (elim disjE) (simp_all add: role_defs)
next
  case (after q r t n c)
  then have "c \<noteq> Fails" by auto
  then show ?thesis using three_cases [OF after(1) assms(2)] after(7, 8, 10) by (elim disjE) (simp_all add: role_defs)
next
  case (handed q r t n)
  then show ?thesis using three_cases [OF handed(1) assms(2)] by (elim disjE) (auto simp: role_defs)
qed

lemma ended_no_panic: "ended w \<Longrightarrow> p \<in> fishes \<Longrightarrow> pcs w p \<noteq> Fails"
  using fe.saneD(1) by (fastforce simp: ended_def end_ok_def)

text \<open>
  C26: However the three processes are scheduled, they stop after at most 15645 steps; what has been
  printed is always a prefix of the fish \<open><><_><>_\<close>, fifty times over; none of them
  reaches \<open>unreachable!\<close>; and when no process can go on, all is printed and all three have exited.
\<close>

theorem fish_prints:
  assumes "set ps \<subseteq> fishes" "run_tasks fish_code ps fish_start = Some w"
  shows "length ps \<le> 15645 \<and> shown (shared w) = take (length (shown (shared w))) fish_text \<and>
    (\<forall>p\<in>fishes. pcs w p \<noteq> Fails) \<and>
    (stuck fish_code fishes w \<longrightarrow> shown (shared w) = fish_text \<and> (\<forall>p\<in>fishes. pcs w p = Gone))"
proof -
  have w: "at_work w \<or> ended w" "length ps \<le> 15645"
    using fish_run [OF assms(2, 1)] fish_start_works by (simp_all add: fish_start_measure)
  from w(1) show ?thesis
  proof
    assume a: "at_work w"
    then show ?thesis using w(2) work_shown [OF a] work_no_panic [OF a] work_not_stuck [OF a] by blast
  next
    assume a: "ended w"
    then have "shown (shared w) = fish_text" by (simp add: ended_def)
    then show ?thesis using w(2) ended_no_panic [OF a] ended_stuck [OF a] by simp
  qed
qed

text \<open>The first character: the process for \<open>>\<close> sleeps, the one for \<open><\<close> prints and wakes it.\<close>

theorem fish_prints_witness:
  "\<exists>w. run_tasks fish_code (0 # replicate 13 1) fish_start = Some w \<and> shown (shared w) = [0x3C] \<and>
    \<not> stuck fish_code fishes w"
proof -
  have r: "replicate 13 (1 :: pid) = [1, 1, 1, 1, 1, 1, 1, 1, 1, 1, 1, 1, 1]" by (simp add: numeral_eq_Suc)
  have "\<exists>w. run_tasks fish_code (0 # replicate 13 1) fish_start = Some w \<and> shown (shared w) = [0x3C]"
    unfolding r by (simp add: fish_start_def fish_sems_def sem_values own_sem_def glyph_def next_sem_def step_defs
        set_insert_def semaphore_new_def TOTAL_PRINTS_def)
  then obtain w where w: "run_tasks fish_code (0 # replicate 13 1) fish_start = Some w" "shown (shared w) = [0x3C]"
    by blast
  moreover have "fish_text \<noteq> [0x3C]" by (rule notI) (drule arg_cong [where f = length], simp)
  ultimately show ?thesis using fish_prints [OF _ w(1)] by (auto simp: fishes_def)
qed

end
