(* ===== verification/ThreadApp.thy ===== *)
theory ThreadApp
  imports Strings
begin

text \<open>
  The program \<open>pkg/app/thread/src/main.rs\<close>: it reads a number and prints its factorial modulo a prime. The
  line comes from \<open>read_line\<close>; the result is the exit code and the number that is printed.
\<close>

section \<open>The program\<close>

definition MOD :: u64 where "MOD = 1000000007"

function factorial :: "u64 \<Rightarrow> u64" where
  "factorial n = (if n = 0 then 1 else n * factorial (n - 1) mod MOD)"
  by pat_completeness auto
termination
  by (relation "measure unat") (simp_all add: unat_minus_one unat_gt_0)

declare factorial.simps [simp del]

definition thread_main :: "u8 list \<Rightarrow> (unit, u64 \<times> u64 option) res" where
  "thread_main input =
     (case parse_uint 64 10 input of
        None \<Rightarrow> Panic
      | Some v \<Rightarrow> let n = of_nat v in if 1000000 < (n :: u64) then Ok (1, None) else Ok (0, Some (factorial n)))"

section \<open>What it prints\<close>

text \<open>The product never wraps around as long as the number is below 2 to the 34th.\<close>

lemma factorial_fact: "k < 2 ^ 34 \<Longrightarrow> unat (factorial (of_nat k)) = fact k mod 1000000007"
proof (induction k)
  case 0
  show ?case by (subst factorial.simps) simp
next
  case (Suc k)
  let ?n = "of_nat (Suc k) :: u64"
  have n: "unat ?n = Suc k" using Suc.prems by (simp add: unat_of_nat take_bit_nat_eq_self del: of_nat_Suc)
  then have "?n \<noteq> 0" by (metis nat.distinct(1) unat_0)
  moreover have "?n - 1 = of_nat k" by simp
  ultimately have f: "factorial ?n = ?n * factorial (of_nat k) mod MOD" by (subst factorial.simps) simp
  have IH: "unat (factorial (of_nat k)) = fact k mod 1000000007" using Suc by simp
  have "unat ?n * unat (factorial (of_nat k)) < 2 ^ 34 * 1000000007"
    unfolding n IH using Suc.prems by (intro mult_strict_mono) simp_all
  then have "unat (?n * factorial (of_nat k)) = Suc k * (fact k mod 1000000007)"
    by (subst unat_mult_lem [THEN iffD1]) (simp_all only: n IH, simp)
  then have "unat (factorial ?n) = Suc k * (fact k mod 1000000007) mod 1000000007"
    unfolding f by (simp add: unat_mod MOD_def)
  then show ?case by (simp only: mod_mult_right_eq fact_Suc of_nat_id)
qed

text \<open>The line of a number up to a million gives its factorial modulo the prime, a larger one the exit code 1.\<close>

lemma thread_prints_factorial:
  assumes "k < 2 ^ 64"
  shows "if k \<le> 1000000
    then \<exists>r. thread_main (digits_of 10 k) = Ok (0, Some r) \<and> unat r = fact k mod 1000000007
    else thread_main (digits_of 10 k) = Ok (1, None)"
proof -
  have p: "parse_uint 64 10 (digits_of 10 k) = Some k" by (rule parse_digits) (use assms in simp_all)
  have "1000000 < (of_nat k :: u64) \<longleftrightarrow> 1000000 < k"
    using assms by (simp add: word_less_nat_alt unat_of_nat take_bit_nat_eq_self)
  then show ?thesis using factorial_fact [of k] by (auto simp: thread_main_def p Let_def)
qed

end
