(* ===== verification/Spec2Isabelle.thy ===== *)
theory Spec2Isabelle
  imports StorageSpec UnitTests KernelSpec Startup MemSpec VmSpec ProcSpec AtaSpec Rootfs InterruptSpec Handler
    Boot UserLib ShellSpec Counter Dinner Coffee Fish ThreadApp
begin

text \<open>
  A model of the YatSenOS kernel (\<open>pkg/kernel\<close>), its boot loader (\<open>pkg/boot\<close>), its storage library
  (\<open>pkg/storage\<close>), its ELF loader (\<open>pkg/elf\<close>), its user library (\<open>pkg/lib\<close>, \<open>pkg/syscall\<close>), its shell
  and most of its other programs (\<open>pkg/app\<close>), with the theorems that make them correct.

  The parts and how they work together. The boot loader reads its configuration, loads the kernel
  and the programs, maps memory and jumps to the kernel, which counts the memory, sets up the
  interrupt controllers and mounts its disk. Interrupts enter the kernel through the table of
  handlers and a piece of assembly that saves the context: the timer and the page-fault handler
  go to the process manager, system calls to the dispatcher, which calls the services, and bytes
  from the serial port to the key buffer. The process manager (\<open>proc/\<close>) keeps the processes, a
  ready queue and, for each process, a queue of those that wait for its end; each process has shared data (open
  resources and semaphores) and an address space with a heap and a stack (\<open>proc/vm/\<close>), which
  map pages through the loader's functions (\<open>pkg/elf\<close>) to frames of the frame allocator
  (\<open>memory/frames.rs\<close>). Reads and writes go through the descriptors (\<open>utils/resource.rs\<close>) to the
  keyboard, the console or a file of the FAT16 volume, which lies in a partition of the disk
  found through the master boot record and read by the ATA driver. Programs make system calls
  through the user library; those that share memory meet in the kernel's semaphores.

  The theories. \<open>Prelude\<close>: integers, outcomes (\<open>Ok\<close>, \<open>Err\<close>, \<open>Panic\<close>, \<open>Diverge\<close>), checked slices,
  little-endian fields. \<open>Text\<close>: what the code uses of UTF-8 strings.
    \<^item> Storage: \<open>Storage\<close> (\<open>common/error.rs\<close>, \<open>block.rs\<close>, \<open>device.rs\<close>, \<open>metadata.rs\<close>,
      \<open>partition/mod.rs\<close>), \<open>Mbr\<close> (\<open>partition/mbr/\<close>), \<open>Bpb\<close>, \<open>DirEntry\<close>, \<open>Fat16\<close>, \<open>FatFile\<close>, \<open>FatFs\<close>
      (\<open>fs/fat16/\<close> with \<open>common/filesystem.rs\<close> and \<open>mount.rs\<close>), \<open>Readers\<close> (\<open>common/io.rs\<close> as a
      locale). Its properties are in \<open>StorageSpec\<close>; \<open>UnitTests\<close> runs the library's own unit tests.
    \<^item> The disk: \<open>Units\<close> (\<open>humanized_size\<close> of \<open>utils/mod.rs\<close>), \<open>Ata\<close> (\<open>drivers/ata/\<close>), \<open>AtaFacts\<close> (a drive as
      the standard describes it), properties in \<open>AtaSpec\<close>; \<open>Rootfs\<close> (\<open>drivers/filesystem.rs\<close>).
    \<^item> Start: \<open>BootConfig\<close> (\<open>pkg/boot/src/config.rs\<close>), \<open>Boot\<close> (\<open>fs.rs\<close>, \<open>lib.rs\<close>, \<open>main.rs\<close>), \<open>Startup\<close>
      (\<open>memory/mod.rs\<close>).
    \<^item> Interrupts: \<open>Apic\<close> (\<open>interrupt/apic/\<close>), \<open>ApicFacts\<close> (the controllers as their manuals describe
      them), \<open>Serial\<close> (\<open>drivers/uart16550.rs\<close>, \<open>drivers/serial.rs\<close>, printing in \<open>utils/macros.rs\<close>),
      \<open>Interrupts\<close> (\<open>interrupt/\<close>: table, set-up, handlers), \<open>Handler\<close> (the assembly of
      \<open>utils/regs.rs\<close>); properties in \<open>InterruptSpec\<close> and \<open>Handler\<close>.
    \<^item> Kernel services: \<open>Semaphores\<close> (\<open>proc/sync.rs\<close>), \<open>Input\<close> (\<open>drivers/input.rs\<close>,
      \<open>pkg/lib/src/io.rs\<close>), \<open>Resources\<close> (\<open>utils/resource.rs\<close>). Properties in \<open>KernelSpec\<close>.
    \<^item> Memory: \<open>Frames\<close> (\<open>memory/frames.rs\<close>), \<open>Paging\<close> and \<open>ElfLoad\<close> (\<open>pkg/elf/src/lib.rs\<close>), with
      the loading lemmas in \<open>ElfFacts\<close>; properties in \<open>MemSpec\<close>.
    \<^item> Process memory: \<open>UserHeap\<close> (\<open>proc/vm/heap.rs\<close>, \<open>memory/user.rs\<close>), \<open>UserStack\<close>
      (\<open>proc/vm/stack.rs\<close>), \<open>ProcVm\<close> (\<open>proc/vm/mod.rs\<close>, \<open>proc/paging.rs\<close>), lemmas in \<open>VmFacts\<close>,
      properties in \<open>VmSpec\<close>.
    \<^item> Processes: \<open>Procs\<close> (\<open>proc/context.rs\<close>, \<open>data.rs\<close>, \<open>process.rs\<close>, \<open>manager.rs\<close>), \<open>ProcOps\<close>
      (\<open>proc/mod.rs\<close>, the timer and page-fault handlers), \<open>Syscalls\<close> (\<open>interrupt/syscall/\<close>,
      \<open>memory/address.rs\<close>, \<open>pkg/syscall\<close>, \<open>pkg/lib/src/syscall.rs\<close>); \<open>ProcFacts\<close> has the invariant,
      \<open>ProcKeeps\<close> that each operation keeps it, \<open>ProcSpec\<close> the properties.
    \<^item> User side: \<open>UserLib\<close> (output, spin lock, heap set-up of \<open>pkg/lib\<close>), \<open>Strings\<close> (more of
      \<open>core::str\<close>), \<open>Shell\<close> (\<open>pkg/app/sh\<close>) with \<open>ShellFacts\<close> and the properties in \<open>ShellSpec\<close>.
    \<^item> Programs that share memory: \<open>Tasks\<close> (interleaved steps over the kernel's semaphores, with the
      locales \<open>tally\<close>, which counts permits, and \<open>ranked\<close>, for programs that end), \<open>Counter\<close>, \<open>Dinner\<close>,
      \<open>Coffee\<close>, \<open>Fish\<close> (\<open>pkg/app/counter\<close>, \<open>dinner\<close>, \<open>mq\<close>, \<open>fish\<close>); \<open>ThreadApp\<close> is \<open>pkg/app/thread\<close>.

  State and operations. Every operation is a function on explicit state. A disk is a value read
  through the record of a block device's operations; an open file is a record; memory is
  \<open>'m mem\<close> (page tables, physical bytes, frame allocator); \<open>('m, 'h) kernel\<close> is the state of the
  whole kernel, and an interrupt handler maps it with the context of the interrupt to an
  outcome, the context to resume and the new state. Shared objects of the source (\<open>Arc\<close>) are
  cells: the heap end of a \<open>vfork\<close> family, the level-4 table with its reference count, the data
  of a family of processes. Devices are the effects of reading and writing ports and
  memory-mapped registers on a state of any type. A program that shares memory is, for each
  process, a program counter and code that says what its next system call or access to shared
  memory is; any schedule is a run. Integers keep the width of the source; arithmetic wraps as
  in the release build, which is the default, and the offsets of files and buffers, which stay
  far below \<open>2\<^sup>6\<^sup>4\<close>, are natural numbers.

  What the lemmas show. Storage: reading a file gives exactly its bytes across sectors and
  clusters (refinement of the file as a list of bytes), directories list the live records, a
  path is the descent by name, short names and records round-trip, the layout of a volume is
  in order. Memory: frames are never shared, ranges are mapped to fresh frames, a loaded
  segment reads as the file and zeroes, unmapping undoes mapping. Process memory: the mapped
  pages are exactly those of heap and stack after every \<open>brk\<close>, page fault and \<open>vfork\<close>; the heap
  has the page of its end and may have the one past the 4 GiB of its region.
  Processes: one invariant ties process table, ready queue and waiting queues together; every
  operation keeps it, on the conditions of \<open>allowed\<close> and \<open>fresh_pid\<close> (no process is killed while it waits, and
  never the kernel's; pids are not in use), and then the timer interrupt does not panic; without
  them it can. Ready processes run in turn, exit codes reach all waiters. Devices: the driver implements a disk, keys arrive and output leaves in order, each
  vector has the effect of its handler, and a handler behind its assembly is a function on
  contexts. Start: the hand-over of the loader is in order. Programs: every schedule of the
  counter, the coffee shop and the fish ends, within 8008, 1211 and 15645 steps (the sum of what
  each process still has to do and of those awake, which every step lowers), with the right
  result. A group of properties states where the code does not do what it means to do.

  Loops. Loops bounded by a length or a counter are primitive recursive or have a measure; the
  loops that may not end (a circular chain of clusters, the search of \<open>vfork\<close> for a free slot,
  \<open>read_all\<close> and \<open>cat\<close> on a reader that always gives bytes, waiting for a device: \<open>poll_loop\<close>,
  \<open>send_wait\<close>, \<open>icr_wait\<close>, the shell itself) are partial functions into \<open>option\<close>, and not ending
  is the outcome \<open>Diverge\<close>. No definition uses fuel.

  Parameters and laws. Code outside the repository is a parameter: the page tables of the crate
  \<open>x86_64\<close> (record \<open>x86\<close>, laws \<open>mapper_laws\<close>: mapping fails exactly on a mapped page or when no
  frame is left for a table, unmapping removes one page, translation looks up), the ELF parser
  (the segments are given), \<open>to_uppercase\<close> (any function, with \<open>ascii_upper\<close> laws where needed),
  \<open>chrono\<close> (a partial function on fields), the user allocator and the loaded programs (record
  \<open>services\<close>). Hardware behind ports and registers is described by \<open>ata_laws\<close> (a drive may
  have bad sectors, which set the error flag after their last word; that it is done with a sector when
  the driver reads its status, \<open>stores_at_once\<close>, is no law, but a condition of what is said of the
  result of a write, and \<open>write_error_unseen\<close> is what happens without it), \<open>apic_laws\<close>, \<open>uart_laws\<close> and \<open>hardware_laws\<close>; the firmware is the record
  \<open>uefi\<close> (freeing its pages leaves the page tables alone: \<open>frees_only\<close>), the system under the shell
  the record \<open>os\<close> and its colours the record \<open>colors\<close>. \<open>flat_x86\<close> and the other sample values show
  that the laws can hold.

  Limits. One processor, no interrupts inside the kernel; the pid counter is assumed not to
  reach a pid in use (\<open>fresh_pid\<close>); a failed read of a file stores nothing in the caller's
  buffer; reading and writing user memory goes through the mapping of the first access.

  Not modelled: what happens inside code outside the repository (UEFI services, the kernel's and
  the programs' free lists, the loading of descriptor tables into the processor and the
  descriptors of \<open>memory/gdt.rs\<close>), the logger, the other macros and entry points, the order of the
  calls in \<open>pkg/kernel/src/lib.rs\<close>, the printers of process lists and debug output, the programs
  \<open>brk\<close>, \<open>fork\<close> and \<open>hello\<close>, and \<open>fs/fat16/directory.rs\<close> and \<open>filehandle.rs\<close>, which only hold
  values. They have no state of their own that another part relies on.
\<close>

end
